(* ===== verification/Prelude.thy ===== *)
theory Prelude
  imports
    Main
    "HOL-Library.AList"
    "HOL-Library.Char_ord"
    "HOL-Library.List_Lexorder"
    "HOL-Library.Multiset"
    "HOL-Library.Product_Lexorder"
    "HOL-Library.Word"
begin

text \<open>
  Shared vocabulary of the development: Go's strings (byte strings), the functions of package
  \<open>strings\<close> the sources call, Go maps as association lists, instants and durations, and the
  interfaces (locales) that several components implement: a finite map, a best-match selection,
  a first-opinion walk and a transition system with an invariant.
\<close>

named_theorems go_simps \<open>unfolding rules for the model of Go's string functions\<close>
named_theorems inv_intros \<open>introduction rules: an operation keeps the invariant of its component\<close>

section \<open>Strings\<close>

text \<open>
  A Go string is a sequence of bytes, so it is a \<^typ>\<open>string\<close> (a list of 8-bit characters).
  Comparison of strings is bytewise and lexicographic, as \<open>strings.Compare\<close> is.
\<close>

type_synonym gostring = string

type_synonym uint64 = "64 word"

definition has_prefix :: "gostring \<Rightarrow> gostring \<Rightarrow> bool" where
  "has_prefix s p \<longleftrightarrow> take (length p) s = p"

definition has_suffix :: "gostring \<Rightarrow> gostring \<Rightarrow> bool" where
  "has_suffix s p \<longleftrightarrow> length p \<le> length s \<and> drop (length s - length p) s = p"

definition trim_prefix :: "gostring \<Rightarrow> gostring \<Rightarrow> gostring" where
  "trim_prefix s p = (if has_prefix s p then drop (length p) s else s)"

definition trim_suffix :: "gostring \<Rightarrow> gostring \<Rightarrow> gostring" where
  "trim_suffix s p = (if has_suffix s p then take (length s - length p) s else s)"

text \<open>\<open>strings.Cut\<close> around a one-byte separator: the part before, the part after, found or not.\<close>

definition cut_byte :: "gostring \<Rightarrow> char \<Rightarrow> gostring \<times> gostring \<times> bool" where
  "cut_byte s c =
     (if c \<in> set s then (takeWhile (\<lambda>x. x \<noteq> c) s, tl (dropWhile (\<lambda>x. x \<noteq> c) s), True)
      else (s, [], False))"

definition count_byte :: "gostring \<Rightarrow> char \<Rightarrow> nat" where
  "count_byte s c = length (filter (\<lambda>x. x = c) s)"

text \<open>
  \<open>unicode.IsSpace\<close> as the byte encodings of the space code points: the six ASCII ones, U+0085,
  U+00A0, U+1680, U+2000 to U+200A, U+2028, U+2029, U+202F, U+205F and U+3000.
  \<open>strings.TrimSpace\<close> removes such encodings from both ends; a lead byte and its continuation
  bytes never overlap another encoding, so removing encodings is removing runes.
\<close>

definition space_encodings :: "gostring list" where
  "space_encodings =
     [[CHR 0x20], [CHR 0x09], [CHR 0x0A], [CHR 0x0B], [CHR 0x0C], [CHR 0x0D],
      [CHR 0xC2, CHR 0x85], [CHR 0xC2, CHR 0xA0], [CHR 0xE1, CHR 0x9A, CHR 0x80],
      [CHR 0xE2, CHR 0x80, CHR 0x80], [CHR 0xE2, CHR 0x80, CHR 0x81],
      [CHR 0xE2, CHR 0x80, CHR 0x82], [CHR 0xE2, CHR 0x80, CHR 0x83],
      [CHR 0xE2, CHR 0x80, CHR 0x84], [CHR 0xE2, CHR 0x80, CHR 0x85],
      [CHR 0xE2, CHR 0x80, CHR 0x86], [CHR 0xE2, CHR 0x80, CHR 0x87],
      [CHR 0xE2, CHR 0x80, CHR 0x88], [CHR 0xE2, CHR 0x80, CHR 0x89],
      [CHR 0xE2, CHR 0x80, CHR 0x8A], [CHR 0xE2, CHR 0x80, CHR 0xA8],
      [CHR 0xE2, CHR 0x80, CHR 0xA9], [CHR 0xE2, CHR 0x80, CHR 0xAF],
      [CHR 0xE2, CHR 0x81, CHR 0x9F], [CHR 0xE3, CHR 0x80, CHR 0x80]]"

function trim_left_with :: "gostring list \<Rightarrow> gostring \<Rightarrow> gostring" where
  "trim_left_with encs s =
     (case find (\<lambda>e. e \<noteq> [] \<and> has_prefix s e) encs of
        None \<Rightarrow> s
      | Some e \<Rightarrow> trim_left_with encs (drop (length e) s))"
  by pat_completeness auto
termination
proof (relation "measure (\<lambda>(encs, s). length s)")
  show "wf (measure (\<lambda>(encs :: gostring list, s :: gostring). length s))" by simp
next
  fix encs s e
  assume "find (\<lambda>e. e \<noteq> [] \<and> has_prefix s e) encs = Some e"
  then have "e \<noteq> []" and "take (length e) s = e"
    by (auto simp: find_Some_iff has_prefix_def)
  then have "0 < length e" and "s \<noteq> []" by auto
  then show "((encs, drop (length e) s), encs, s) \<in> measure (\<lambda>(encs, s). length s)"
    by auto
qed

declare trim_left_with.simps [simp del]

definition trim_left_space :: "gostring \<Rightarrow> gostring" where
  "trim_left_space s = trim_left_with space_encodings s"

definition trim_right_space :: "gostring \<Rightarrow> gostring" where
  "trim_right_space s = rev (trim_left_with (map rev space_encodings) (rev s))"

definition trim_space :: "gostring \<Rightarrow> gostring" where
  "trim_space s = trim_right_space (trim_left_space s)"

text \<open>\<open>strings.Fields\<close>: the maximal runs without a space.\<close>

function fields_from :: "gostring \<Rightarrow> gostring \<Rightarrow> gostring list" where
  "fields_from cur s =
     (if s = [] then (if cur = [] then [] else [cur])
      else case find (\<lambda>e. e \<noteq> [] \<and> has_prefix s e) space_encodings of
        Some e \<Rightarrow> (if cur = [] then [] else [cur]) @ fields_from [] (drop (length e) s)
      | None \<Rightarrow> fields_from (cur @ [hd s]) (tl s))"
  by pat_completeness auto
termination
  by (relation "measure (\<lambda>(cur, s). length s)") (auto simp: find_Some_iff)

declare fields_from.simps [simp del]

definition string_fields :: "gostring \<Rightarrow> gostring list" where
  "string_fields s = fields_from [] s"

text \<open>
  \<open>strings.ToLower\<close>. On an ASCII string Go maps the upper-case letters byte by byte, and so does
  this definition; a byte of a multi-byte rune is left as it is (the names compared here are DNS
  names, which are ASCII on the wire: a non-ASCII label travels as its punycode form). A lower-case
  ASCII letter is its upper-case letter with bit 5 set.
\<close>

definition lower_byte :: "char \<Rightarrow> char" where
  "lower_byte c =
     (if CHR ''A'' \<le> c \<and> c \<le> CHR ''Z''
      then (case c of Char b0 b1 b2 b3 b4 b5 b6 b7 \<Rightarrow> Char b0 b1 b2 b3 b4 True b6 b7) else c)"

definition to_lower :: "gostring \<Rightarrow> gostring" where
  "to_lower s = map lower_byte s"

text \<open>Decimal rendering of a natural number, the \<open>%d\<close> verb of \<open>fmt\<close>.\<close>

definition digit_char :: "nat \<Rightarrow> char" where
  "digit_char d = ''0123456789abcdef'' ! d"

fun dec_digits :: "nat \<Rightarrow> gostring" where
  "dec_digits n =
     (if n < 10 then [digit_char n] else dec_digits (n div 10) @ [digit_char (n mod 10)])"

declare dec_digits.simps [simp del]

definition is_lower :: "char \<Rightarrow> bool" where
  "is_lower c \<longleftrightarrow> CHR ''a'' \<le> c \<and> c \<le> CHR ''z''"

definition is_upper :: "char \<Rightarrow> bool" where
  "is_upper c \<longleftrightarrow> CHR ''A'' \<le> c \<and> c \<le> CHR ''Z''"

definition is_digit :: "char \<Rightarrow> bool" where
  "is_digit c \<longleftrightarrow> CHR ''0'' \<le> c \<and> c \<le> CHR ''9''"

definition digit_val :: "char \<Rightarrow> int" where
  "digit_val c = of_char c - 48"

text \<open>The value of a string of digits, the reading of an unsigned decimal.\<close>

definition dec_value :: "gostring \<Rightarrow> nat" where
  "dec_value s = nat (foldl (\<lambda>acc c. acc * 10 + digit_val c) 0 s)"

text \<open>
  Ranging over a string: the UTF-8 encodings it consists of, a byte that starts none being read as
  the replacement character U+FFFD. \<open>rune_width\<close> is the length of the encoding at the head, 0 when
  there is none (package \<open>unicode/utf8\<close>: no overlong form, no surrogate, nothing past U+10FFFF).
\<close>

definition byte_in :: "nat \<Rightarrow> nat \<Rightarrow> char \<Rightarrow> bool" where
  "byte_in lo hi c \<longleftrightarrow> lo \<le> of_char c \<and> of_char c \<le> hi"

definition enc2 :: "char \<Rightarrow> char \<Rightarrow> bool" where
  "enc2 a b \<longleftrightarrow> byte_in 0xC2 0xDF a \<and> byte_in 0x80 0xBF b"

definition enc3 :: "char \<Rightarrow> char \<Rightarrow> char \<Rightarrow> bool" where
  "enc3 a b c \<longleftrightarrow> byte_in 0xE0 0xEF a \<and>
     byte_in (if byte_in 0xE0 0xE0 a then 0xA0 else 0x80) (if byte_in 0xED 0xED a then 0x9F else 0xBF) b \<and>
     byte_in 0x80 0xBF c"

definition enc4 :: "char \<Rightarrow> char \<Rightarrow> char \<Rightarrow> char \<Rightarrow> bool" where
  "enc4 a b c d \<longleftrightarrow> byte_in 0xF0 0xF4 a \<and>
     byte_in (if byte_in 0xF0 0xF0 a then 0x90 else 0x80) (if byte_in 0xF4 0xF4 a then 0x8F else 0xBF) b \<and>
     byte_in 0x80 0xBF c \<and> byte_in 0x80 0xBF d"

definition rune_width :: "gostring \<Rightarrow> nat" where
  "rune_width s =
     (if s = [] then 0
      else if byte_in 0 0x7F (s ! 0) then 1
      else if 2 \<le> length s \<and> enc2 (s ! 0) (s ! 1) then 2
      else if 3 \<le> length s \<and> enc3 (s ! 0) (s ! 1) (s ! 2) then 3
      else if 4 \<le> length s \<and> enc4 (s ! 0) (s ! 1) (s ! 2) (s ! 3) then 4
      else 0)"

definition replacement :: gostring where
  "replacement = [CHR 0xEF, CHR 0xBF, CHR 0xBD]"

fun runes :: "gostring \<Rightarrow> gostring list" where
  "runes [] = []"
| "runes (c # s) =
     (if rune_width (c # s) = 0 then replacement # runes s
      else take (rune_width (c # s)) (c # s) # runes (drop (rune_width (c # s) - 1) s))"

fun utf8_valid :: "gostring \<Rightarrow> bool" where
  "utf8_valid [] = True"
| "utf8_valid (c # s) =
     (if rune_width (c # s) = 0 then False else utf8_valid (drop (rune_width (c # s) - 1) s))"

lemmas go_string_defs [go_simps] =
  has_prefix_def has_suffix_def trim_prefix_def trim_suffix_def cut_byte_def count_byte_def

lemma has_suffix_iff: "has_suffix s p \<longleftrightarrow> (\<exists>u. s = u @ p)"
proof
  assume "has_suffix s p"
  then have "s = take (length s - length p) s @ p"
    by (metis append_take_drop_id has_suffix_def)
  then show "\<exists>u. s = u @ p" ..
next
  assume "\<exists>u. s = u @ p"
  then show "has_suffix s p" by (auto simp: has_suffix_def)
qed

lemma has_prefix_iff: "has_prefix s p \<longleftrightarrow> (\<exists>u. s = p @ u)"
  by (metis append_eq_conv_conj append_take_drop_id has_prefix_def)

lemma has_suffix_trans: "has_suffix a b \<Longrightarrow> has_suffix b c \<Longrightarrow> has_suffix a c"
  by (metis append_assoc has_suffix_iff)

lemma has_suffix_self [simp]: "has_suffix s s"
  by (simp add: has_suffix_def)

lemma length_trim_left_with: "length (trim_left_with encs s) \<le> length s"
proof (induction encs s rule: trim_left_with.induct)
  case (1 encs s)
  then show ?case
    by (subst trim_left_with.simps) (fastforce split: option.splits intro: order_trans)
qed

lemma length_trim_space: "length (trim_space s) \<le> length s"
  unfolding trim_space_def trim_right_space_def trim_left_space_def
  by (metis length_rev length_trim_left_with order_trans)

lemma set_trim_left_with: "set (trim_left_with encs s) \<subseteq> set s"
proof (induction encs s rule: trim_left_with.induct)
  case (1 encs s)
  then show ?case
    by (subst trim_left_with.simps) (fastforce split: option.splits dest: in_set_dropD)
qed

lemma set_trim_space: "set (trim_space s) \<subseteq> set s"
  using set_trim_left_with [of space_encodings s]
    set_trim_left_with [of "map rev space_encodings" "rev (trim_left_with space_encodings s)"]
  by (auto simp: trim_space_def trim_right_space_def trim_left_space_def)

lemma trim_left_with_done: "find (\<lambda>e. e \<noteq> [] \<and> has_prefix (trim_left_with encs s) e) encs = None"
proof (induction encs s rule: trim_left_with.induct)
  case (1 encs s)
  then show ?case
    by (cases "find (\<lambda>e. e \<noteq> [] \<and> has_prefix s e) encs") (simp_all add: trim_left_with.simps [of encs s])
qed

lemma trim_left_with_suffix: "\<exists>u. s = u @ trim_left_with encs s"
proof (induction encs s rule: trim_left_with.induct)
  case (1 encs s)
  show ?case
  proof (cases "find (\<lambda>e. e \<noteq> [] \<and> has_prefix s e) encs")
    case (Some e)
    from 1 [OF Some] obtain u where "drop (length e) s = u @ trim_left_with encs (drop (length e) s)" by blast
    then have "s = (take (length e) s @ u) @ trim_left_with encs (drop (length e) s)"
      by (metis append.assoc append_take_drop_id)
    then have "\<exists>v. s = v @ trim_left_with encs (drop (length e) s)" by blast
    with Some show ?thesis by (simp add: trim_left_with.simps [of encs s])
  qed (simp add: trim_left_with.simps [of encs s])
qed

lemma cut_byte_append: "c \<notin> set n \<Longrightarrow> cut_byte (n @ c # r) c = (n, r, True)"
  by (induction n) (auto simp: cut_byte_def)

lemma cut_byte_absent: "c \<notin> set n \<Longrightarrow> cut_byte n c = (n, [], False)"
  by (simp add: cut_byte_def)

lemma trim_left_with_stops:
  "find (\<lambda>e. e \<noteq> [] \<and> has_prefix s e) encs = None \<Longrightarrow> trim_left_with encs s = s"
  by (subst trim_left_with.simps) simp

lemma dec_digits_nonempty [simp]: "dec_digits n \<noteq> []"
  by (subst dec_digits.simps) simp

lemma dec_digits_char: "c \<in> set (dec_digits n) \<Longrightarrow> is_digit c"
proof (induction n rule: dec_digits.induct)
  case (1 n)
  have dig: "is_digit (digit_char k)" if "k < 10" for k
    using that by (auto simp: is_digit_def less_eq_char_def digit_char_def less_Suc_eq eval_nat_numeral)
  show ?case
  proof (cases "n < 10")
    case True
    with "1.prems" dig show ?thesis by (simp add: dec_digits.simps [of n])
  next
    case False
    have "n mod 10 < 10" by simp
    with False "1.prems" "1.IH" dig show ?thesis
      by (auto simp: dec_digits.simps [of n])
  qed
qed

lemma digit_val_char: "k < 10 \<Longrightarrow> digit_val (digit_char k) = int k"
  by (auto simp: digit_val_def digit_char_def less_Suc_eq eval_nat_numeral)

lemma dec_value_digits [simp]: "dec_value (dec_digits n) = n"
proof -
  have "foldl (\<lambda>acc c. acc * 10 + digit_val c) 0 (dec_digits n) = int n"
  proof (induction n rule: dec_digits.induct)
    case (1 n)
    have "n mod 10 < 10" by simp
    with 1 show ?case
      by (cases "n < 10") (simp_all add: dec_digits.simps [of n] digit_val_char zdiv_int zmod_int)
  qed
  then show ?thesis by (simp add: dec_value_def)
qed

lemma dec_digits_inj: "dec_digits m = dec_digits n \<longleftrightarrow> m = n"
  by (metis dec_value_digits)

text \<open>The shape of an encoding, and what ranging over a string keeps of it.\<close>

lemma byte_in_mono: "byte_in lo hi c \<Longrightarrow> lo' \<le> lo \<Longrightarrow> hi \<le> hi' \<Longrightarrow> byte_in lo' hi' c"
  by (simp add: byte_in_def)

lemma enc_high:
  "enc2 a b \<Longrightarrow> list_all (byte_in 0x80 0xFF) [a, b]"
  "enc3 a b c \<Longrightarrow> list_all (byte_in 0x80 0xFF) [a, b, c]"
  "enc4 a b c d \<Longrightarrow> list_all (byte_in 0x80 0xFF) [a, b, c, d]"
  unfolding enc2_def enc3_def enc4_def
  by (auto elim!: byte_in_mono split: if_splits)

lemma take_nths:
  "2 \<le> length s \<Longrightarrow> take 2 s = [s ! 0, s ! 1]"
  "3 \<le> length s \<Longrightarrow> take 3 s = [s ! 0, s ! 1, s ! 2]"
  "4 \<le> length s \<Longrightarrow> take 4 s = [s ! 0, s ! 1, s ! 2, s ! 3]"
  by (auto simp: list_eq_iff_nth_eq less_Suc_eq eval_nat_numeral)

lemma rune_width_cases:
  assumes "rune_width s \<noteq> 0"
  shows "(\<exists>c t. s = c # t \<and> rune_width s = 1 \<and> byte_in 0 0x7F c) \<or>
    (2 \<le> rune_width s \<and> rune_width s \<le> length s \<and> list_all (byte_in 0x80 0xFF) (take (rune_width s) s))"
proof (cases "s = [] \<or> byte_in 0 0x7F (s ! 0)")
  case True
  with assms show ?thesis by (cases s) (auto simp: rune_width_def)
next
  case False
  with assms show ?thesis
    using enc_high by (auto simp: rune_width_def take_nths split: if_splits)
qed

lemma rune_width_le: "rune_width s \<le> length s"
  using rune_width_cases [of s] by (cases "rune_width s = 0") auto

lemma runes_length: "length v \<le> length (concat (runes v)) \<and>
    (length (concat (runes v)) = length v \<longleftrightarrow> utf8_valid v)"
proof (induction v rule: runes.induct)
  case (2 c s)
  show ?case
  proof (cases "rune_width (c # s) = 0")
    case True
    with 2 show ?thesis by (auto simp: replacement_def)
  next
    case False
    with 2 rune_width_le [of "c # s"] show ?thesis by (auto simp: min_def)
  qed
qed simp

lemma runes_valid: "utf8_valid v \<Longrightarrow> concat (runes v) = v"
proof (induction v rule: utf8_valid.induct)
  case (2 c s)
  then have w: "rune_width (c # s) \<noteq> 0" by (auto split: if_splits)
  with 2 have "concat (runes (c # s)) = take (rune_width (c # s)) (c # s) @ drop (rune_width (c # s) - 1) s"
    by simp
  also have "\<dots> = c # s"
    using w by (cases "rune_width (c # s)") simp_all
  finally show ?case .
qed simp

lemma runes_concat_iff: "concat (runes v) = v \<longleftrightarrow> utf8_valid v"
  using runes_length [of v] runes_valid [of v] by metis

definition rune_shape :: "gostring \<Rightarrow> bool" where
  "rune_shape r \<longleftrightarrow> (\<exists>c. r = [c] \<and> byte_in 0 0x7F c) \<or> (2 \<le> length r \<and> list_all (byte_in 0x80 0xFF) r)"

lemma rune_shape_take: "rune_width s \<noteq> 0 \<Longrightarrow> rune_shape (take (rune_width s) s)"
  using rune_width_cases [of s] by (auto simp: rune_shape_def)

lemma runes_shape: "list_all rune_shape (runes v)"
proof (induction v rule: runes.induct)
  case (2 c s)
  have "rune_shape replacement" by (simp add: rune_shape_def replacement_def byte_in_def)
  with 2 rune_shape_take [of "c # s"] show ?case by simp
qed simp

text \<open>Trimming leaves a string alone whose ends are no bytes of a space.\<close>

definition space_byte :: "char \<Rightarrow> bool" where
  "space_byte c \<longleftrightarrow> list_ex (\<lambda>e. c \<in> set e) space_encodings"

lemma find_none_hd:
  assumes "s = [] \<or> list_all (\<lambda>e. e \<noteq> [] \<longrightarrow> hd e \<noteq> hd s) encs"
  shows "find (\<lambda>e. e \<noteq> [] \<and> has_prefix s e) encs = None"
proof -
  have "hd e = hd s \<and> s \<noteq> []" if "e \<noteq> []" "has_prefix s e" for e
    using that by (auto simp: has_prefix_iff)
  with assms show ?thesis by (auto simp: find_None_iff list_all_iff)
qed

lemma trim_left_no_space:
  assumes "s \<noteq> [] \<Longrightarrow> \<not> space_byte (hd s)"
  shows "trim_left_with space_encodings s = s" and "trim_left_with (map rev space_encodings) s = s"
proof -
  have "\<forall>e \<in> set space_encodings. e \<noteq> []" by (simp add: space_encodings_def)
  then have "list_all (\<lambda>e. e \<noteq> [] \<longrightarrow> hd e \<noteq> c) space_encodings"
    "list_all (\<lambda>e. e \<noteq> [] \<longrightarrow> hd e \<noteq> c) (map rev space_encodings)" if "\<not> space_byte c" for c
    using that by (auto simp: space_byte_def list_all_iff list_ex_iff hd_rev)
  with assms have "s = [] \<or> list_all (\<lambda>e. e \<noteq> [] \<longrightarrow> hd e \<noteq> hd s) space_encodings"
    "s = [] \<or> list_all (\<lambda>e. e \<noteq> [] \<longrightarrow> hd e \<noteq> hd s) (map rev space_encodings)"
    by auto
  then show "trim_left_with space_encodings s = s" "trim_left_with (map rev space_encodings) s = s"
    by (simp_all add: trim_left_with_stops find_none_hd)
qed

lemma trim_space_id:
  assumes "s \<noteq> [] \<Longrightarrow> \<not> space_byte (hd s) \<and> \<not> space_byte (last s)"
  shows "trim_space s = s"
  using assms trim_left_no_space [of s] trim_left_no_space [of "rev s"]
  by (simp add: trim_space_def trim_left_space_def trim_right_space_def hd_rev)

lemma trim_space_blank:
  assumes "s \<noteq> []" and "\<not> space_byte (hd s)" and "\<not> space_byte (last s)"
  shows "trim_space (s @ '' '') = s"
proof -
  have "trim_left_with (map rev space_encodings) (CHR '' '' # rev s) = trim_left_with (map rev space_encodings) (rev s)"
    by (subst trim_left_with.simps) (simp add: space_encodings_def has_prefix_def)
  with assms trim_left_no_space [of "s @ '' ''"] trim_left_no_space [of "rev s"] show ?thesis
    by (simp add: trim_space_def trim_left_space_def trim_right_space_def hd_rev)
qed

lemma trim_space_idem [simp]: "trim_space (trim_space s) = trim_space s"
proof -
  let ?l = "trim_left_with space_encodings s"
  let ?r = "trim_left_with (map rev space_encodings) (rev ?l)"
  obtain u where "rev ?l = u @ ?r" using trim_left_with_suffix by blast
  then have pre: "?l = rev ?r @ rev u" by (metis rev_append rev_rev_ident)
  have "has_prefix ?l e" if "has_prefix (rev ?r) e" for e
    using that pre unfolding has_prefix_iff by (metis append.assoc)
  then have "find (\<lambda>e. e \<noteq> [] \<and> has_prefix (rev ?r) e) space_encodings = None"
    using trim_left_with_done [of space_encodings s] unfolding find_None_iff by blast
  then have "trim_left_with space_encodings (rev ?r) = rev ?r" by (rule trim_left_with_stops)
  moreover have "trim_left_with (map rev space_encodings) ?r = ?r"
    by (rule trim_left_with_stops) (rule trim_left_with_done)
  ultimately show ?thesis by (simp add: trim_space_def trim_left_space_def trim_right_space_def)
qed

section \<open>Instants and durations\<close>

text \<open>
  A \<open>time.Time\<close> is the number of nanoseconds since Go's zero instant (January 1 of the year 1),
  so the zero value is 0; a \<open>time.Duration\<close> is an \<open>int64\<close> number of nanoseconds.
  \<open>Time.Sub\<close> saturates at the ends of the \<open>int64\<close> range.
\<close>

type_synonym instant = int
type_synonym duration = int

definition max_duration :: duration where
  "max_duration = 2 ^ 63 - 1"

definition min_duration :: duration where
  "min_duration = - (2 ^ 63)"

definition time_sub :: "instant \<Rightarrow> instant \<Rightarrow> duration" where
  "time_sub t u = max min_duration (min max_duration (t - u))"

definition second :: duration where
  "second = 1000000000"

section \<open>Go maps\<close>

text \<open>
  A Go map is an association list with distinct keys. Go leaves the order of iteration open; in the
  model it is the order of the list, and a statement about every state covers every order.
\<close>

type_synonym ('k, 'v) gomap = "('k \<times> 'v) list"

definition map_wf :: "('k, 'v) gomap \<Rightarrow> bool" where
  "map_wf m \<longleftrightarrow> distinct (map fst m)"

lemma map_wf_update [simp]: "map_wf m \<Longrightarrow> map_wf (AList.update k v m)"
  by (simp add: map_wf_def distinct_update)

lemma map_wf_delete [simp]: "map_wf m \<Longrightarrow> map_wf (AList.delete k m)"
  by (simp add: map_wf_def distinct_delete)

lemma map_wf_Nil [simp]: "map_wf []"
  by (simp add: map_wf_def)

lemma map_wf_filter [simp]: "map_wf m \<Longrightarrow> map_wf (filter P m)"
  by (simp add: map_wf_def distinct_map_filter)

lemma length_update_new: "map_of m k = None \<Longrightarrow> length (AList.update k v m) = Suc (length m)"
  by (induction m) (auto split: if_splits)

lemma length_update_old: "map_of m k \<noteq> None \<Longrightarrow> length (AList.update k v m) = length m"
  by (induction m) (auto split: if_splits)

lemma length_delete_present:
  "map_wf m \<Longrightarrow> map_of m k = Some v \<Longrightarrow> Suc (length (AList.delete k m)) = length m"
proof (induction m)
  case Nil
  then show ?case by simp
next
  case (Cons p m)
  show ?case
  proof (cases "fst p = k")
    case True
    with Cons.prems have "k \<notin> fst ` set m" by (auto simp: map_wf_def)
    then have "AList.delete k m = m"
      by (force simp: AList.delete_eq filter_id_conv)
    with True show ?thesis by simp
  next
    case False
    with Cons show ?thesis by (auto simp: map_wf_def split: if_splits)
  qed
qed

lemma map_of_Some_in: "map_of m k = Some v \<Longrightarrow> (k, v) \<in> set m"
  by (rule map_of_SomeD)

lemma map_wf_in_map_of: "map_wf m \<Longrightarrow> (k, v) \<in> set m \<Longrightarrow> map_of m k = Some v"
  by (simp add: map_wf_def)


section \<open>Interfaces shared by the components\<close>

subsection \<open>Finite maps with a size\<close>

text \<open>
  What the caches and ledgers rely on: lookup after an update or a deletion, and how the size
  moves. Both ways the sources bound a map (evict one entry, or drop everything, before the insert)
  are proved once from these laws.
\<close>

locale sized_map =
  fixes lookup :: "'m \<Rightarrow> 'k \<Rightarrow> 'v option"
    and upd :: "'k \<Rightarrow> 'v \<Rightarrow> 'm \<Rightarrow> 'm"
    and del :: "'k \<Rightarrow> 'm \<Rightarrow> 'm"
    and emp :: "'m"
    and len :: "'m \<Rightarrow> nat"
    and wf :: "'m \<Rightarrow> bool"
  assumes lookup_upd: "wf m \<Longrightarrow> lookup (upd k v m) = (lookup m)(k := Some v)"
    and lookup_del: "wf m \<Longrightarrow> lookup (del k m) = (lookup m)(k := None)"
    and lookup_emp: "lookup emp = (\<lambda>_. None)"
    and len_emp: "len emp = 0"
    and len_upd_new: "wf m \<Longrightarrow> lookup m k = None \<Longrightarrow> len (upd k v m) = Suc (len m)"
    and len_upd_old: "wf m \<Longrightarrow> lookup m k = Some w \<Longrightarrow> len (upd k v m) = len m"
    and len_del: "wf m \<Longrightarrow> lookup m k = Some w \<Longrightarrow> Suc (len (del k m)) = len m"
    and wf_emp: "wf emp"
    and wf_upd: "wf m \<Longrightarrow> wf (upd k v m)"
    and wf_del: "wf m \<Longrightarrow> wf (del k m)"
begin

lemma len_upd_le: "wf m \<Longrightarrow> len (upd k v m) \<le> Suc (len m)"
  by (cases "lookup m k") (auto simp: len_upd_new len_upd_old)

lemma capped_upd: "wf m \<Longrightarrow> len m < cap \<Longrightarrow> len (upd k v m) \<le> cap"
  using len_upd_le [of m k v] by linarith

lemma reset_upd:
  assumes "wf m" and "0 < cap" and "len m \<le> cap"
  shows "len (upd k v (if cap \<le> len m then emp else m)) \<le> cap"
  using assms capped_upd [of emp cap k v] capped_upd [of m cap k v]
  by (auto simp: wf_emp len_emp)

lemma evict_upd:
  assumes "wf m" and "lookup m j \<noteq> None" and "len m \<le> cap"
  shows "len (upd k v (del j m)) \<le> cap"
proof -
  from assms(1,2) have "Suc (len (del j m)) = len m" by (auto simp: len_del)
  with assms show ?thesis by (auto simp: wf_del intro: capped_upd)
qed

end

interpretation alist: sized_map map_of AList.update AList.delete "[]" length map_wf
proof
  fix m :: "('a \<times> 'b) list" and k :: 'a and v w :: 'b
  show "map_of (AList.update k v m) = (map_of m)(k := Some v)"
    by (simp add: update_conv')
  show "map_of (AList.delete k m) = (map_of m)(k := None)"
    by (simp add: delete_conv')
  show "map_of m k = None \<Longrightarrow> length (AList.update k v m) = Suc (length m)"
    by (rule length_update_new)
  show "map_of m k = Some w \<Longrightarrow> length (AList.update k v m) = length m"
    by (simp add: length_update_old)
  show "map_wf m \<Longrightarrow> map_of m k = Some w \<Longrightarrow> Suc (length (AList.delete k m)) = length m"
    by (rule length_delete_present)
qed auto

subsection \<open>Best-match selection\<close>

text \<open>
  The loop both rule spaces of the packet filter use: keep the incumbent unless the candidate
  beats it. \<open>view\<close> is what the loop sees of a rule that matches, None of one that does not.
\<close>

fun keep_best :: "('r \<Rightarrow> 'm option) \<Rightarrow> ('m \<Rightarrow> 'm \<Rightarrow> bool) \<Rightarrow> 'm option \<Rightarrow> 'r list \<Rightarrow> 'm option" where
  "keep_best view beats best [] = best"
| "keep_best view beats best (r # rs) =
     keep_best view beats
       (case view r of
          None \<Rightarrow> best
        | Some c \<Rightarrow> (case best of
             None \<Rightarrow> Some c
           | Some b \<Rightarrow> if beats c b then Some c else best)) rs"

lemma keep_best_None_iff:
  "keep_best view beats best rs = None \<longleftrightarrow> best = None \<and> (\<forall>r \<in> set rs. view r = None)"
  by (induction rs arbitrary: best) (auto split: option.splits)

lemma keep_best_member:
  "keep_best view beats best rs = Some c \<Longrightarrow> best = Some c \<or> (\<exists>r \<in> set rs. view r = Some c)"
proof (induction rs arbitrary: best)
  case Nil
  then show ?case by simp
next
  case (Cons r rs)
  from Cons.IH [OF Cons.prems [unfolded keep_best.simps]] show ?case
    by (auto split: option.splits if_splits)
qed

text \<open>A strict weak order: irreflexive, transitive, and incomparability is transitive.\<close>

locale specificity =
  fixes beats :: "'m \<Rightarrow> 'm \<Rightarrow> bool"
  assumes beats_irrefl: "\<not> beats a a"
    and beats_trans: "beats a b \<Longrightarrow> beats b c \<Longrightarrow> beats a c"
    and beats_weak: "beats a c \<Longrightarrow> beats a b \<or> beats b c"
begin

lemma keep_best_incumbent:
  "keep_best view beats (Some b) rs = Some c \<Longrightarrow> \<not> beats b c"
proof (induction rs arbitrary: b)
  case Nil
  then show ?case by (simp add: beats_irrefl)
next
  case (Cons r rs)
  then show ?case
    by (fastforce split: option.splits if_splits dest: beats_trans)
qed

lemma keep_best_unbeaten:
  assumes "keep_best view beats best rs = Some c" and "r \<in> set rs" and "view r = Some d"
  shows "\<not> beats d c"
  using assms
proof (induction rs arbitrary: best)
  case Nil
  then show ?case by simp
next
  case (Cons q rs)
  show ?case
  proof (cases "r = q")
    case False
    with Cons.prems Cons.IH show ?thesis by auto
  next
    case True
    with Cons.prems obtain b where
      rest: "keep_best view beats (Some b) rs = Some c" and b: "b = d \<or> \<not> beats d b"
      by (cases best) (auto split: if_splits)
    from rest have "\<not> beats b c" by (rule keep_best_incumbent)
    with b show ?thesis using beats_weak by blast
  qed
qed

end

subsection \<open>Transition systems with an invariant\<close>

inductive reach :: "('s \<Rightarrow> bool) \<Rightarrow> ('s \<Rightarrow> 's \<Rightarrow> bool) \<Rightarrow> 's \<Rightarrow> bool"
  for init step where
  reach_init: "init s \<Longrightarrow> reach init step s"
| reach_step: "reach init step s \<Longrightarrow> step s t \<Longrightarrow> reach init step t"

locale inv_system =
  fixes init :: "'s \<Rightarrow> bool" and step :: "'s \<Rightarrow> 's \<Rightarrow> bool" and inv :: "'s \<Rightarrow> bool"
  assumes inv_init: "init s \<Longrightarrow> inv s"
    and inv_step: "inv s \<Longrightarrow> step s t \<Longrightarrow> inv t"
begin

lemma reach_inv: "reach init step s \<Longrightarrow> inv s"
  by (induction rule: reach.induct) (auto intro: inv_init inv_step)

end

subsection \<open>Codecs\<close>

text \<open>
  A printed or wire form and its reader, inverse to each other on a domain. Entries that are kept
  in their printed form can then be compared and deduplicated as text.
\<close>

locale codec =
  fixes enc :: "'a \<Rightarrow> 'b" and dec :: "'b \<Rightarrow> 'e + 'a" and valid :: "'a \<Rightarrow> bool"
  assumes dec_enc: "valid x \<Longrightarrow> dec (enc x) = Inr x"
begin

lemma enc_inj: "valid x \<Longrightarrow> valid y \<Longrightarrow> enc x = enc y \<longleftrightarrow> x = y"
  by (metis dec_enc sum.inject(2))

lemma distinct_enc: "list_all valid xs \<Longrightarrow> distinct (map enc xs) \<longleftrightarrow> distinct xs"
  by (auto simp: distinct_map inj_on_def list_all_iff enc_inj)

lemma member_enc: "valid x \<Longrightarrow> list_all valid xs \<Longrightarrow> enc x \<in> set (map enc xs) \<longleftrightarrow> x \<in> set xs"
  by (auto simp: list_all_iff enc_inj)

end

subsection \<open>First opinion, highest precedence first\<close>

text \<open>
  The walk of the policy chain: lists are kept lowest precedence first, the walk starts at the
  end and the first element with an opinion decides.
\<close>

fun first_opinion :: "('b \<Rightarrow> 'v option) \<Rightarrow> 'b list \<Rightarrow> 'v option" where
  "first_opinion op [] = None"
| "first_opinion op (b # bs) = (case first_opinion op bs of None \<Rightarrow> op b | Some v \<Rightarrow> Some v)"

lemma first_opinion_append:
  "first_opinion op (bs @ cs) =
     (case first_opinion op cs of None \<Rightarrow> first_opinion op bs | Some v \<Rightarrow> Some v)"
  by (induction bs) (auto split: option.splits)

lemma first_opinion_None: "first_opinion op bs = None \<longleftrightarrow> (\<forall>b \<in> set bs. op b = None)"
  by (induction bs) (auto split: option.splits)

lemma first_opinion_Some_split:
  "first_opinion op bs = Some v \<Longrightarrow>
     \<exists>lo b hi. bs = lo @ b # hi \<and> op b = Some v \<and> (\<forall>h \<in> set hi. op h = None)"
proof (induction bs)
  case Nil
  then show ?case by simp
next
  case (Cons c bs)
  show ?case
  proof (cases "first_opinion op bs")
    case None
    with Cons.prems have "c # bs = [] @ c # bs" "op c = Some v" "\<forall>h \<in> set bs. op h = None"
      by (auto simp: first_opinion_None)
    then show ?thesis by blast
  next
    case (Some w)
    with Cons obtain lo b hi where
      "bs = lo @ b # hi" "op b = Some v" "\<forall>h \<in> set hi. op h = None" by auto
    then have "c # bs = (c # lo) @ b # hi" "op b = Some v" "\<forall>h \<in> set hi. op h = None"
      by simp_all
    then show ?thesis by blast
  qed
qed

lemma first_opinion_Some_iff:
  "first_opinion op bs = Some v \<longleftrightarrow>
     (\<exists>lo b hi. bs = lo @ b # hi \<and> op b = Some v \<and> (\<forall>h \<in> set hi. op h = None))"
proof
  assume "\<exists>lo b hi. bs = lo @ b # hi \<and> op b = Some v \<and> (\<forall>h \<in> set hi. op h = None)"
  then obtain lo b hi where "bs = lo @ b # hi" "op b = Some v" "first_opinion op hi = None"
    by (auto simp: first_opinion_None)
  then show "first_opinion op bs = Some v" by (simp add: first_opinion_append)
qed (rule first_opinion_Some_split)

end
