(* ===== verification/NetIP.thy ===== *)
theory NetIP
  imports Prelude
begin

unbundle bit_operations_syntax

text \<open>
  The part of Go's packages \<open>net/netip\<close> and \<open>net\<close> the packet filter calls: addresses, their
  parser and printer, prefixes and membership, and \<open>net.SplitHostPort\<close>. An address is the zero
  value, an IPv4 address or an IPv6 address with its zone (empty when there is none).
\<close>

datatype addr = Addr0 | IP4 "32 word" | IP6 "128 word" string

section \<open>Definitions\<close>

subsection \<open>Parsing\<close>

text \<open>
  \<open>parseIPv4Fields\<close>: one pass over the text with the value and the number of digits of the current
  field, the finished fields, and whether the previous byte is a dot or the text has just begun.
\<close>

fun ipv4_fields :: "int \<Rightarrow> nat \<Rightarrow> int list \<Rightarrow> bool \<Rightarrow> gostring \<Rightarrow> int list option" where
  "ipv4_fields val digLen fields edge [] =
     (if length fields < 3 then None else Some (fields @ [val]))"
| "ipv4_fields val digLen fields edge (c # cs) =
     (if is_digit c then
        (if digLen = 1 \<and> val = 0 then None
         else let v = val * 10 + digit_val c
              in if 255 < v then None else ipv4_fields v (Suc digLen) fields False cs)
      else if c = CHR ''.'' then
        (if edge \<or> cs = [] then None
         else if length fields = 3 then None
         else ipv4_fields 0 0 (fields @ [val]) True cs)
      else None)"

fun be_bytes :: "'a::len word \<Rightarrow> int list \<Rightarrow> 'a word" where
  "be_bytes acc [] = acc"
| "be_bytes acc (b # bs) = be_bytes (acc * 256 + of_int b) bs"

definition be_value :: "int list \<Rightarrow> 'a::len word" where
  "be_value bs = be_bytes 0 bs"

definition parse_ipv4 :: "gostring \<Rightarrow> addr option" where
  "parse_ipv4 s = map_option (\<lambda>fs. IP4 (be_value fs)) (ipv4_fields 0 0 [] True s)"

definition hex_val :: "char \<Rightarrow> int option" where
  "hex_val c =
     (if is_digit c then Some (digit_val c)
      else if CHR ''a'' \<le> c \<and> c \<le> CHR ''f'' then Some (of_char c - 87)
      else if CHR ''A'' \<le> c \<and> c \<le> CHR ''F'' then Some (of_char c - 55)
      else None)"

text \<open>The digits of one group: how many, their value, the rest; None past four digits.\<close>

fun hex_run :: "nat \<Rightarrow> int \<Rightarrow> gostring \<Rightarrow> (nat \<times> int \<times> gostring) option" where
  "hex_run off acc [] = Some (off, acc, [])"
| "hex_run off acc (c # cs) =
     (case hex_val c of
        None \<Rightarrow> Some (off, acc, c # cs)
      | Some d \<Rightarrow> if 3 < off then None else hex_run (Suc off) (acc * 16 + d) cs)"

text \<open>The loop of \<open>parseIPv6\<close>: the bytes read so far, where the ellipsis stands, the rest.\<close>

function parse6_loop ::
  "int list \<Rightarrow> nat option \<Rightarrow> gostring \<Rightarrow> (int list \<times> nat option \<times> gostring) option" where
  "parse6_loop bs ell s =
     (if 16 \<le> length bs then Some (bs, ell, s)
      else case hex_run 0 0 s of
        None \<Rightarrow> None
      | Some (off, acc, rest) \<Rightarrow>
          if off = 0 then None
          else if rest \<noteq> [] \<and> hd rest = CHR ''.'' then
            (if ell = None \<and> length bs \<noteq> 12 then None
             else if 16 < length bs + 4 then None
             else map_option (\<lambda>fs. (bs @ fs, ell, [])) (ipv4_fields 0 0 [] True s))
          else let bs' = bs @ [acc div 256, acc mod 256]
            in case rest of
                 [] \<Rightarrow> Some (bs', ell, [])
               | c # cs \<Rightarrow>
                   if c \<noteq> CHR '':'' then None
                   else (case cs of
                       [] \<Rightarrow> None
                     | d # ds \<Rightarrow>
                         if d = CHR '':'' then
                           (if ell \<noteq> None then None
                            else if ds = [] then Some (bs', Some (length bs'), [])
                            else parse6_loop bs' (Some (length bs')) ds)
                         else parse6_loop bs' ell cs))"
  by pat_completeness auto
termination
  by (relation "measure (\<lambda>(bs, ell, s). 16 - length bs)") auto

declare parse6_loop.simps [simp del]

definition parse_ipv6 :: "gostring \<Rightarrow> addr option" where
  "parse_ipv6 inp =
     (let (s, zone, zoned) = cut_byte inp (CHR ''%'')
      in if zoned \<and> zone = [] then None
         else let lead = has_prefix s ''::''; s' = (if lead then drop 2 s else s)
           in if lead \<and> s' = [] then Some (IP6 0 zone)
              else case parse6_loop [] (if lead then Some 0 else None) s' of
                None \<Rightarrow> None
              | Some (bs, ell, rest) \<Rightarrow>
                  if rest \<noteq> [] then None
                  else if length bs < 16 then
                    (case ell of
                       None \<Rightarrow> None
                     | Some e \<Rightarrow> Some (IP6 (be_value
                         (take e bs @ replicate (16 - length bs) 0 @ drop e bs)) zone))
                  else if ell \<noteq> None then None
                  else Some (IP6 (be_value bs) zone))"

text \<open>\<open>netip.ParseAddr\<close>: the first of \<open>. : %\<close> decides which parser runs.\<close>

fun parse_addr_kind :: "gostring \<Rightarrow> gostring \<Rightarrow> addr option" where
  "parse_addr_kind whole [] = None"
| "parse_addr_kind whole (c # cs) =
     (if c = CHR ''.'' then parse_ipv4 whole
      else if c = CHR '':'' then parse_ipv6 whole
      else if c = CHR ''%'' then None
      else parse_addr_kind whole cs)"

definition ParseAddr :: "gostring \<Rightarrow> addr option" where
  "ParseAddr s = parse_addr_kind s s"

definition AddrFromSlice :: "8 word list \<Rightarrow> addr option" where
  "AddrFromSlice bs =
     (if length bs = 4 then Some (IP4 (be_value (map uint bs)))
      else if length bs = 16 then Some (IP6 (be_value (map uint bs)) [])
      else None)"

subsection \<open>IPv4-mapped addresses, prefixes\<close>

fun is4in6 :: "addr \<Rightarrow> bool" where
  "is4in6 (IP6 w z) = (drop_bit 32 w = 0xffff)"
| "is4in6 _ = False"

fun unmap :: "addr \<Rightarrow> addr" where
  "unmap (IP6 w z) = (if drop_bit 32 w = 0xffff then IP4 (ucast w) else IP6 w z)"
| "unmap a = a"

fun has_zone :: "addr \<Rightarrow> bool" where
  "has_zone (IP6 w z) = (z \<noteq> [])"
| "has_zone _ = False"

record netprefix =
  px_addr :: addr
  px_bits :: nat

fun addr_bits :: "addr \<Rightarrow> nat" where
  "addr_bits Addr0 = 0"
| "addr_bits (IP4 w) = 32"
| "addr_bits (IP6 w z) = 128"

text \<open>
  \<open>netip.ParsePrefix\<close>: the text after the last slash is a decimal number without sign or leading
  zero, at most the address width; a zone is refused; the address is kept as written, neither
  masked nor unmapped.
\<close>

definition ParsePrefix :: "gostring \<Rightarrow> netprefix option" where
  "ParsePrefix s =
     (if CHR ''/'' \<notin> set s then None
      else let bitsStr = rev (takeWhile (\<lambda>c. c \<noteq> CHR ''/'') (rev s));
               ipStr = take (length s - length bitsStr - 1) s
        in case ParseAddr ipStr of
             None \<Rightarrow> None
           | Some ip \<Rightarrow>
               if has_zone ip then None
               else if 1 < length bitsStr \<and> (hd bitsStr < CHR ''1'' \<or> CHR ''9'' < hd bitsStr) then None
               else if bitsStr = [] \<or> \<not> list_all is_digit bitsStr then None
               else if addr_bits ip < dec_value bitsStr then None
               else Some \<lparr>px_addr = ip, px_bits = dec_value bitsStr\<rparr>)"

fun prefix_contains :: "netprefix \<Rightarrow> addr \<Rightarrow> bool" where
  "prefix_contains p ip =
     (if has_zone ip then False
      else case (px_addr p, ip) of
        (IP4 a, IP4 b) \<Rightarrow> drop_bit (32 - px_bits p) (b XOR a) = 0
      | (IP6 a _, IP6 b _) \<Rightarrow> (b XOR a) AND NOT (mask (128 - px_bits p)) = 0
      | _ \<Rightarrow> False)"

subsection \<open>Printing\<close>

function hex_digits :: "int \<Rightarrow> gostring" where
  "hex_digits n =
     (if n < 16 then [digit_char (nat n)] else hex_digits (n div 16) @ [digit_char (nat (n mod 16))])"
  by pat_completeness auto
termination
  by (relation "measure nat") auto

declare hex_digits.simps [simp del]

fun join_with :: "gostring \<Rightarrow> gostring list \<Rightarrow> gostring" where
  "join_with sep [] = []"
| "join_with sep [s] = s"
| "join_with sep (s # t # ss) = s @ sep @ join_with sep (t # ss)"

definition byte_at :: "'a::len word \<Rightarrow> nat \<Rightarrow> nat" where
  "byte_at w i = unat (drop_bit (8 * i) w AND 255)"

definition addr_string4 :: "32 word \<Rightarrow> gostring" where
  "addr_string4 w = join_with ''.'' (map (\<lambda>i. dec_digits (byte_at w i)) [3, 2, 1, 0])"

definition groups6 :: "128 word \<Rightarrow> int list" where
  "groups6 w = map (\<lambda>i. uint (drop_bit (16 * i) w AND 0xffff)) [7, 6, 5, 4, 3, 2, 1, 0]"

text \<open>The longest run of at least two zero groups, the first of them on a tie.\<close>

definition zero_run :: "int list \<Rightarrow> nat \<Rightarrow> nat" where
  "zero_run gs i = length (takeWhile (\<lambda>g. g = 0) (drop i gs))"

definition longest_zero_run :: "int list \<Rightarrow> (nat \<times> nat) option" where
  "longest_zero_run gs =
     foldl (\<lambda>best i. let l = zero_run gs i
                     in if 2 \<le> l \<and> (case best of None \<Rightarrow> True | Some (_, m) \<Rightarrow> m < l)
                        then Some (i, l) else best)
       None [0, 1, 2, 3, 4, 5, 6, 7]"

definition addr_string6 :: "128 word \<Rightarrow> gostring" where
  "addr_string6 w =
     (let gs = groups6 w
      in case longest_zero_run gs of
           None \<Rightarrow> join_with '':'' (map hex_digits gs)
         | Some (i, l) \<Rightarrow> join_with '':'' (map hex_digits (take i gs)) @ ''::''
             @ join_with '':'' (map hex_digits (drop (i + l) gs)))"

fun addr_string :: "addr \<Rightarrow> gostring" where
  "addr_string Addr0 = ''invalid IP''"
| "addr_string (IP4 w) = addr_string4 w"
| "addr_string (IP6 w z) =
     (if drop_bit 32 w = 0xffff then ''::ffff:'' @ addr_string4 (ucast w) else addr_string6 w)
       @ (if z = [] then [] else CHR ''%'' # z)"

subsection \<open>Splitting host and port\<close>

definition index_byte :: "gostring \<Rightarrow> char \<Rightarrow> nat option" where
  "index_byte s c =
     (if c \<in> set s then Some (length (takeWhile (\<lambda>x. x \<noteq> c) s)) else None)"

definition last_index_byte :: "gostring \<Rightarrow> char \<Rightarrow> nat option" where
  "last_index_byte s c =
     (if c \<in> set s then Some (length s - 1 - length (takeWhile (\<lambda>x. x \<noteq> c) (rev s))) else None)"

text \<open>\<open>net.SplitHostPort\<close>, None for each of its errors.\<close>

definition SplitHostPort :: "gostring \<Rightarrow> (gostring \<times> gostring) option" where
  "SplitHostPort hp =
     (case last_index_byte hp (CHR '':'') of
        None \<Rightarrow> None
      | Some i \<Rightarrow>
          (case (if has_prefix hp ''['' then
                   (case index_byte hp (CHR '']'') of
                      None \<Rightarrow> None
                    | Some e \<Rightarrow> if e + 1 = i then Some (take (e - 1) (drop 1 hp), 1, e + 1) else None)
                 else if CHR '':'' \<in> set (take i hp) then None
                 else Some (take i hp, 0, 0)) of
             None \<Rightarrow> None
           | Some (host, j, k) \<Rightarrow>
               if CHR ''['' \<in> set (drop j hp) then None
               else if CHR '']'' \<in> set (drop k hp) then None
               else Some (host, drop (i + 1) hp)))"

section \<open>Lemmas\<close>

lemma unmap_not_4in6 [simp]: "\<not> is4in6 (unmap a)"
  by (cases a) auto

lemma unmap_id: "\<not> is4in6 a \<Longrightarrow> unmap a = a"
  by (cases a) auto

lemma unmap_idem [simp]: "unmap (unmap a) = unmap a"
  by (rule unmap_id) simp

lemma join_with_nonempty: "s \<noteq> [] \<Longrightarrow> join_with sep (s # ss) \<noteq> []"
  by (cases ss) auto

lemma hex_digits_nonempty [simp]: "hex_digits n \<noteq> []"
  by (subst hex_digits.simps) simp

lemma addr_string6_nonempty: "addr_string6 w \<noteq> []"
proof (cases "longest_zero_run (groups6 w)")
  case None
  then show ?thesis by (simp add: addr_string6_def groups6_def)
next
  case (Some p)
  then show ?thesis by (cases p) (simp add: addr_string6_def Let_def)
qed

lemma addr_string_nonempty [simp]: "addr_string a \<noteq> []"
proof (cases a)
  case (IP4 w)
  then show ?thesis by (simp add: addr_string4_def)
next
  case (IP6 w z)
  with addr_string6_nonempty [of w] show ?thesis by simp
qed simp

text \<open>
  A prefix written as an IPv4-mapped IPv6 prefix contains no unmapped IPv4 address: membership
  asks for equal address families first.
\<close>

lemma prefix6_not_contains_ip4: "px_addr p = IP6 w z \<Longrightarrow> \<not> prefix_contains p (IP4 b)"
  by simp

lemma xor_eq_0_iff: "(a :: 'a::len word) XOR b = 0 \<longleftrightarrow> a = b"
  by (metis word_bw_same(3) xor.assoc xor.left_neutral)

text \<open>Membership in an IPv4 prefix is equality of the leading \<open>px_bits\<close> bits.\<close>

lemma prefix_contains4:
  "px_addr p = IP4 a \<Longrightarrow>
     prefix_contains p (IP4 b) \<longleftrightarrow> drop_bit (32 - px_bits p) b = drop_bit (32 - px_bits p) a"
  by (simp add: drop_bit_xor xor_eq_0_iff)

lemma prefix_contains_self:
  "px_addr p \<noteq> Addr0 \<Longrightarrow> \<not> has_zone (px_addr p) \<Longrightarrow> prefix_contains p (px_addr p)"
  by (cases "px_addr p") auto

lemma ParsePrefix_bits:
  "ParsePrefix s = Some p \<Longrightarrow> px_bits p \<le> addr_bits (px_addr p) \<and> \<not> has_zone (px_addr p)"
  by (auto simp: ParsePrefix_def Let_def split: if_splits option.splits)


text \<open>
  An IPv4-mapped prefix of at least 96 bits contains IPv4-mapped addresses only, and unmapping
  never returns one.
\<close>

lemma mapped_prefix_inert:
  assumes "is4in6 (px_addr p)" and "96 \<le> px_bits p"
  shows "\<not> prefix_contains p (unmap a)"
proof
  assume contains: "prefix_contains p (unmap a)"
  from assms(1) obtain w z where w: "px_addr p = IP6 w z" "drop_bit 32 w = 0xffff"
    by (cases "px_addr p") auto
  with contains obtain b y where b: "unmap a = IP6 b y"
      and eq: "(b XOR w) AND NOT (mask (128 - px_bits p)) = 0"
    by (cases "unmap a") (auto split: if_splits)
  have "drop_bit 32 ((b XOR w) AND NOT (mask (128 - px_bits p))) = drop_bit 32 (b XOR w)"
    using assms(2) by (intro bit_word_eqI) (auto simp: bit_simps dest: bit_imp_le_length)
  with eq have "drop_bit 32 b = drop_bit 32 w" by (simp add: drop_bit_xor xor_eq_0_iff)
  with w b have "is4in6 (unmap a)" by simp
  then show False by simp
qed

end
