(* ===== verification/Blocks.thy ===== *)
theory Blocks
  imports NetIP
begin

text \<open>
  \<open>src/internal/netfilter/blocks.go\<close>: the policy chain of the egress filter. A chain is a list of
  origin-labelled blocks, lowest precedence first; each block holds allow and deny entries for
  domain names and for addresses. The theory has the compiled form, its compiler \<open>NewChain\<close>, the
  decision procedures and the list of patterns the resolver pre-resolves; the lemmas characterise
  each decision and show that it does not depend on the order of the entries inside a block.
\<close>

section \<open>Definitions\<close>

datatype Verdict = VerdictNone | VerdictAllow | VerdictDeny

fun Verdict_String :: "Verdict \<Rightarrow> gostring" where
  "Verdict_String VerdictAllow = ''allow''"
| "Verdict_String VerdictDeny = ''deny''"
| "Verdict_String VerdictNone = ''none''"

record Block =
  bk_Origin :: gostring
  bk_Name :: gostring
  bk_AllowDomains :: "gostring list"
  bk_DenyDomains :: "gostring list"
  bk_AllowIPs :: "gostring list"
  bk_DenyIPs :: "gostring list"

record Match =
  mt_Origin :: gostring
  mt_Block :: gostring
  mt_Entry :: gostring
  mt_Verdict :: Verdict

definition zero_match :: Match where
  "zero_match = \<lparr>mt_Origin = [], mt_Block = [], mt_Entry = [], mt_Verdict = VerdictNone\<rparr>"

definition Match_String :: "Match \<Rightarrow> gostring" where
  "Match_String m =
     (let label = (if mt_Block m \<noteq> [] then mt_Origin m @ '' '' @ mt_Block m else mt_Origin m)
      in label @ '': '' @ Verdict_String (mt_Verdict m) @ '' '' @ mt_Entry m)"

record nameRule =
  nr_entry :: gostring
  nr_pattern :: gostring
  nr_labels :: nat
  nr_wildcard :: bool
  nr_subtree :: bool
  nr_deny :: bool

text \<open>Whether a normalised name matches, and whether the match is a whole-name equality.\<close>

definition nameRule_match :: "nameRule \<Rightarrow> gostring \<Rightarrow> bool \<times> bool" where
  "nameRule_match r name =
     (if nr_wildcard r then (has_suffix name (CHR ''.'' # nr_pattern r), False)
      else if nr_subtree r then
        (if name = nr_pattern r then (True, True)
         else (has_suffix name (CHR ''.'' # nr_pattern r), False))
      else (name = nr_pattern r, name = nr_pattern r))"

text \<open>An exact rule carries an address, the others a prefix (\<open>ir_exact\<close> says which is set).\<close>

record ipRule =
  ir_entry :: gostring
  ir_addr :: addr
  ir_prefix :: netprefix
  ir_exact :: bool
  ir_deny :: bool

definition ipRule_contains :: "ipRule \<Rightarrow> addr \<Rightarrow> bool" where
  "ipRule_contains r ip =
     (if ir_exact r then ir_addr r = ip else prefix_contains (ir_prefix r) ip)"

record compiledBlock =
  cb_origin :: gostring
  cb_name :: gostring
  cb_names :: "nameRule list"
  cb_ips :: "ipRule list"

record Chain =
  ch_blocks :: "Block list"
  ch_compiled :: "compiledBlock list"

text \<open>
  A compilation error names the block and the entry as written. \<open>blockLabel\<close> is the origin, with
  the name when there is one.
\<close>

datatype block_label = OriginOnly gostring | OriginName gostring gostring

datatype ip_entry_error = BadCIDR gostring | BadIP gostring

type_synonym chain_error = "block_label \<times> ip_entry_error"

definition blockLabel :: "Block \<Rightarrow> block_label" where
  "blockLabel b =
     (if bk_Name b \<noteq> [] then OriginName (bk_Origin b) (bk_Name b) else OriginOnly (bk_Origin b))"

definition normalizeDomain :: "gostring \<Rightarrow> gostring" where
  "normalizeDomain s = to_lower (trim_suffix (trim_space s) ''.'')"

definition addNameRule :: "compiledBlock \<Rightarrow> gostring \<Rightarrow> bool \<Rightarrow> compiledBlock" where
  "addNameRule cb entry deny =
     (let p = normalizeDomain entry
      in if p = [] \<or> p = ''*.'' then cb
         else let wild = has_prefix p ''*.'';
                  pat = (if wild then drop 2 p else p);
                  r = \<lparr>nr_entry = p, nr_pattern = pat, nr_labels = count_byte pat (CHR ''.'') + 1,
                       nr_wildcard = wild, nr_subtree = (\<not> wild \<and> deny), nr_deny = deny\<rparr>
           in cb\<lparr>cb_names := cb_names cb @ [r]\<rparr>)"

definition no_prefix :: netprefix where
  "no_prefix = \<lparr>px_addr = Addr0, px_bits = 0\<rparr>"

definition addIPRule :: "compiledBlock \<Rightarrow> gostring \<Rightarrow> bool \<Rightarrow> ip_entry_error + compiledBlock" where
  "addIPRule cb entry deny =
     (let e = trim_space entry
      in if e = [] then Inr cb
         else if CHR ''/'' \<in> set e then
           (case ParsePrefix e of
              None \<Rightarrow> Inl (BadCIDR entry)
            | Some p \<Rightarrow> Inr (cb\<lparr>cb_ips := cb_ips cb @
                [\<lparr>ir_entry = e, ir_addr = Addr0, ir_prefix = p, ir_exact = False, ir_deny = deny\<rparr>]\<rparr>))
         else
           (case ParseAddr e of
              None \<Rightarrow> Inl (BadIP entry)
            | Some a \<Rightarrow> Inr (cb\<lparr>cb_ips := cb_ips cb @
                [\<lparr>ir_entry = e, ir_addr = unmap a, ir_prefix = no_prefix, ir_exact = True,
                  ir_deny = deny\<rparr>]\<rparr>)))"

text \<open>The loops of \<open>NewChain\<close>: over the entries of one list, over one block, over the blocks.\<close>

fun addNameRules :: "compiledBlock \<Rightarrow> gostring list \<Rightarrow> bool \<Rightarrow> compiledBlock" where
  "addNameRules cb [] deny = cb"
| "addNameRules cb (e # es) deny = addNameRules (addNameRule cb e deny) es deny"

fun addIPRules :: "compiledBlock \<Rightarrow> gostring list \<Rightarrow> bool \<Rightarrow> ip_entry_error + compiledBlock" where
  "addIPRules cb [] deny = Inr cb"
| "addIPRules cb (e # es) deny =
     (case addIPRule cb e deny of Inl err \<Rightarrow> Inl err | Inr cb' \<Rightarrow> addIPRules cb' es deny)"

definition compileNames :: "Block \<Rightarrow> compiledBlock" where
  "compileNames b =
     addNameRules
       (addNameRules \<lparr>cb_origin = bk_Origin b, cb_name = bk_Name b, cb_names = [], cb_ips = []\<rparr>
         (bk_AllowDomains b) False)
       (bk_DenyDomains b) True"

definition compileBlock :: "Block \<Rightarrow> chain_error + compiledBlock" where
  "compileBlock b =
     (case addIPRules (compileNames b) (bk_AllowIPs b) False of
        Inl err \<Rightarrow> Inl (blockLabel b, err)
      | Inr cb \<Rightarrow> (case addIPRules cb (bk_DenyIPs b) True of
          Inl err \<Rightarrow> Inl (blockLabel b, err)
        | Inr cb' \<Rightarrow> Inr cb'))"

fun compileBlocks :: "Block list \<Rightarrow> chain_error + compiledBlock list" where
  "compileBlocks [] = Inr []"
| "compileBlocks (b # bs) =
     (case compileBlock b of
        Inl err \<Rightarrow> Inl err
      | Inr cb \<Rightarrow> (case compileBlocks bs of Inl err \<Rightarrow> Inl err | Inr cbs \<Rightarrow> Inr (cb # cbs)))"

definition NewChain :: "Block list \<Rightarrow> chain_error + Chain" where
  "NewChain bs =
     (case compileBlocks bs of
        Inl err \<Rightarrow> Inl err
      | Inr cbs \<Rightarrow> Inr \<lparr>ch_blocks = bs, ch_compiled = cbs\<rparr>)"

definition moreSpecificName :: "nameRule \<Rightarrow> bool \<Rightarrow> nameRule \<Rightarrow> bool \<Rightarrow> bool" where
  "moreSpecificName r exact best bestExact =
     (if nr_labels r \<noteq> nr_labels best then nr_labels r > nr_labels best
      else if exact \<noteq> bestExact then exact
      else nr_deny r \<and> \<not> nr_deny best)"

definition moreSpecificIP :: "ipRule \<Rightarrow> ipRule \<Rightarrow> bool" where
  "moreSpecificIP r best =
     (if ir_exact r \<noteq> ir_exact best then ir_exact r
      else if \<not> ir_exact r \<and> px_bits (ir_prefix r) \<noteq> px_bits (ir_prefix best)
        then px_bits (ir_prefix r) > px_bits (ir_prefix best)
      else ir_deny r \<and> \<not> ir_deny best)"

definition verdictFor :: "compiledBlock \<Rightarrow> gostring \<Rightarrow> bool \<Rightarrow> Verdict \<times> Match" where
  "verdictFor cb entry deny =
     (let v = (if deny then VerdictDeny else VerdictAllow)
      in (v, \<lparr>mt_Origin = cb_origin cb, mt_Block = cb_name cb, mt_Entry = entry, mt_Verdict = v\<rparr>))"

text \<open>
  The two selection loops. What the name loop keeps of a matching rule is the rule and whether the
  match is exact; what the address loop keeps is the rule.
\<close>

definition name_view :: "gostring \<Rightarrow> nameRule \<Rightarrow> (nameRule \<times> bool) option" where
  "name_view name r = (case nameRule_match r name of (ok, exact) \<Rightarrow> if ok then Some (r, exact) else None)"

definition name_beats :: "nameRule \<times> bool \<Rightarrow> nameRule \<times> bool \<Rightarrow> bool" where
  "name_beats c b = moreSpecificName (fst c) (snd c) (fst b) (snd b)"

definition decideName :: "compiledBlock \<Rightarrow> gostring \<Rightarrow> Verdict \<times> Match" where
  "decideName cb name =
     (case keep_best (name_view name) name_beats None (cb_names cb) of
        None \<Rightarrow> (VerdictNone, zero_match)
      | Some (best, _) \<Rightarrow> verdictFor cb (nr_entry best) (nr_deny best))"

definition ip_view :: "addr \<Rightarrow> ipRule \<Rightarrow> ipRule option" where
  "ip_view ip r = (if ipRule_contains r ip then Some r else None)"

definition decideIP :: "compiledBlock \<Rightarrow> addr \<Rightarrow> Verdict \<times> Match" where
  "decideIP cb ip =
     (case keep_best (ip_view ip) moreSpecificIP None (cb_ips cb) of
        None \<Rightarrow> (VerdictNone, zero_match)
      | Some best \<Rightarrow> verdictFor cb (ir_entry best) (ir_deny best))"

text \<open>The walks over the blocks: the list is the reversed chain, highest precedence first.\<close>

fun walkName :: "compiledBlock list \<Rightarrow> gostring \<Rightarrow> Verdict \<times> Match" where
  "walkName [] name = (VerdictNone, zero_match)"
| "walkName (cb # cbs) name =
     (case decideName cb name of (v, m) \<Rightarrow> if v \<noteq> VerdictNone then (v, m) else walkName cbs name)"

definition DecideName :: "Chain \<Rightarrow> gostring \<Rightarrow> Verdict \<times> Match" where
  "DecideName c name =
     (let n = normalizeDomain name
      in if n = [] then (VerdictNone, zero_match) else walkName (rev (ch_compiled c)) n)"

fun walkIP :: "compiledBlock list \<Rightarrow> addr \<Rightarrow> Verdict \<times> Match" where
  "walkIP [] ip = (VerdictNone, zero_match)"
| "walkIP (cb # cbs) ip =
     (case decideIP cb ip of (v, m) \<Rightarrow> if v \<noteq> VerdictNone then (v, m) else walkIP cbs ip)"

definition DecideIP :: "Chain \<Rightarrow> addr \<Rightarrow> Verdict \<times> Match" where
  "DecideIP c ip = walkIP (rev (ch_compiled c)) (unmap ip)"

definition decideBoth :: "compiledBlock \<Rightarrow> gostring \<Rightarrow> addr \<Rightarrow> (Verdict \<times> Match \<times> bool) option" where
  "decideBoth cb name ip =
     (let (nv, nm) = (if name \<noteq> [] then decideName cb name else (VerdictNone, zero_match));
          (iv, im) = decideIP cb ip
      in if nv = VerdictNone \<and> iv = VerdictNone then None
         else if iv = VerdictNone then Some (nv, nm, True)
         else if nv = VerdictNone then Some (iv, im, False)
         else if nv = VerdictDeny then Some (nv, nm, True)
         else if iv = VerdictDeny then Some (iv, im, False)
         else Some (nv, nm, True))"

fun walkAddr :: "compiledBlock list \<Rightarrow> gostring \<Rightarrow> addr \<Rightarrow> Verdict \<times> Match \<times> bool" where
  "walkAddr [] name ip = (VerdictNone, zero_match, False)"
| "walkAddr (cb # cbs) name ip =
     (case decideBoth cb name ip of None \<Rightarrow> walkAddr cbs name ip | Some r \<Rightarrow> r)"

definition DecideAddr :: "Chain \<Rightarrow> gostring \<Rightarrow> addr \<Rightarrow> Verdict \<times> Match \<times> bool" where
  "DecideAddr c name ip = walkAddr (rev (ch_compiled c)) (normalizeDomain name) (unmap ip)"

definition apexDeniedAbove :: "Chain \<Rightarrow> nat \<Rightarrow> gostring \<Rightarrow> bool" where
  "apexDeniedAbove c i apex =
     (fst (walkName (rev (drop (Suc i) (ch_compiled c))) apex) = VerdictDeny)"

text \<open>The \<open>seen\<close> set of the code is the set of the patterns already in the output.\<close>

fun patterns_of_block :: "Chain \<Rightarrow> nat \<Rightarrow> gostring list \<Rightarrow> gostring list \<Rightarrow> gostring list" where
  "patterns_of_block c i out [] = out"
| "patterns_of_block c i out (e # es) =
     (let p = normalizeDomain e
      in patterns_of_block c i
           (if p = [] \<or> p = ''*.'' then out
            else if p \<in> set out then out
            else if apexDeniedAbove c i (trim_prefix p ''*.'') then out
            else out @ [p]) es)"

fun patterns_of_blocks :: "Chain \<Rightarrow> nat \<Rightarrow> gostring list \<Rightarrow> Block list \<Rightarrow> gostring list" where
  "patterns_of_blocks c i out [] = out"
| "patterns_of_blocks c i out (b # bs) =
     patterns_of_blocks c (Suc i) (patterns_of_block c i out (bk_AllowDomains b)) bs"

definition AllowDomainPatterns :: "Chain \<Rightarrow> gostring list" where
  "AllowDomainPatterns c = patterns_of_blocks c 0 [] (ch_blocks c)"

fun countRules :: "ipRule list \<Rightarrow> nat \<times> nat \<Rightarrow> nat \<times> nat" where
  "countRules [] (exact, prefixes) = (exact, prefixes)"
| "countRules (r # rs) (exact, prefixes) =
     countRules rs
       (if ir_deny r then (exact, prefixes)
        else if ir_exact r then (Suc exact, prefixes)
        else (exact, Suc prefixes))"

definition allowIPCounts :: "Chain \<Rightarrow> nat \<times> nat" where
  "allowIPCounts c = foldl (\<lambda>acc cb. countRules (cb_ips cb) acc) (0, 0) (ch_compiled c)"


section \<open>The specification of one block\<close>

text \<open>
  What a block promises, over the \<^emph>\<open>set\<close> of its entries: the matching entries are ranked (names
  by the number of labels, then exact before suffix; addresses by exact, then prefix length); the
  block denies when some matching deny ranks at least as high as every matching allow, and
  otherwise allows when anything matches.
\<close>

definition name_rank :: "gostring \<Rightarrow> nameRule \<Rightarrow> nat \<times> bool" where
  "name_rank n r = (nr_labels r, snd (nameRule_match r n))"

definition ip_rank :: "ipRule \<Rightarrow> bool \<times> nat" where
  "ip_rank r = (ir_exact r, if ir_exact r then 0 else px_bits (ir_prefix r))"

definition policy_spec :: "('r \<Rightarrow> bool) \<Rightarrow> ('r \<Rightarrow> bool) \<Rightarrow> ('r \<Rightarrow> 'k::linorder) \<Rightarrow> 'r set \<Rightarrow> Verdict" where
  "policy_spec matches deny rank rules =
     (if \<exists>r \<in> rules. matches r \<and> deny r \<and>
           (\<forall>q \<in> rules. matches q \<and> \<not> deny q \<longrightarrow> rank q \<le> rank r) then VerdictDeny
      else if \<exists>r \<in> rules. matches r then VerdictAllow
      else VerdictNone)"

section \<open>Lemmas\<close>

subsection \<open>Selection inside a block\<close>

lemma name_beats_rank:
  "name_beats (r, snd (nameRule_match r n)) (b, snd (nameRule_match b n)) \<longleftrightarrow>
     name_rank n b < name_rank n r \<or> (name_rank n b = name_rank n r \<and> nr_deny r \<and> \<not> nr_deny b)"
  by (auto simp: name_beats_def moreSpecificName_def name_rank_def less_prod_def')

lemma ip_beats_rank:
  "moreSpecificIP r b \<longleftrightarrow>
     ip_rank b < ip_rank r \<or> (ip_rank b = ip_rank r \<and> ir_deny r \<and> \<not> ir_deny b)"
  by (auto simp: moreSpecificIP_def ip_rank_def less_prod_def')

interpretation name_order: specificity name_beats
  by unfold_locales
    (auto simp: name_beats_def moreSpecificName_def split: if_splits)

interpretation ip_order: specificity moreSpecificIP
  by unfold_locales
    (auto simp: moreSpecificIP_def split: if_splits)

lemma name_view_Some: "name_view n r = Some c \<longleftrightarrow> fst (nameRule_match r n) \<and> c = (r, snd (nameRule_match r n))"
  by (auto simp: name_view_def split: prod.splits if_splits)

lemma name_view_None: "name_view n r = None \<longleftrightarrow> \<not> fst (nameRule_match r n)"
  by (auto simp: name_view_def split: prod.splits)

lemma fst_verdictFor [simp]:
  "fst (verdictFor cb e d) = (if d then VerdictDeny else VerdictAllow)"
  by (simp add: verdictFor_def Let_def)

lemma mt_Verdict_verdictFor [simp]:
  "mt_Verdict (snd (verdictFor cb e d)) = (if d then VerdictDeny else VerdictAllow)"
  by (simp add: verdictFor_def Let_def)

text \<open>
  From an unbeaten winner to the specification; both rule spaces are instances.
\<close>

lemma policy_spec_winner:
  assumes "w \<in> rules" and "matches w"
    and unbeaten: "\<And>q. q \<in> rules \<Longrightarrow> matches q \<Longrightarrow>
      \<not> (rank w < rank q \<or> (rank w = rank q \<and> deny q \<and> \<not> deny w))"
  shows "policy_spec matches deny rank rules = (if deny w then VerdictDeny else VerdictAllow)"
proof (cases "deny w")
  case True
  have "\<forall>q \<in> rules. matches q \<and> \<not> deny q \<longrightarrow> rank q \<le> rank w"
    using unbeaten by (auto simp: not_less)
  with True assms(1,2) show ?thesis by (auto simp: policy_spec_def)
next
  case False
  have "\<not> (matches r \<and> deny r \<and> (\<forall>q \<in> rules. matches q \<and> \<not> deny q \<longrightarrow> rank q \<le> rank r))"
    if "r \<in> rules" for r
    using unbeaten [OF that] assms(1,2) False by (auto simp: not_less dest: order.antisym)
  with False assms(1,2) show ?thesis by (auto simp: policy_spec_def)
qed

lemma decideName_verdict:
  "fst (decideName cb n) =
     policy_spec (\<lambda>r. fst (nameRule_match r n)) nr_deny (name_rank n) (set (cb_names cb))"
proof (cases "keep_best (name_view n) name_beats None (cb_names cb)")
  case None
  then have "\<forall>r \<in> set (cb_names cb). \<not> fst (nameRule_match r n)"
    by (simp add: keep_best_None_iff name_view_None)
  with None show ?thesis by (auto simp: decideName_def policy_spec_def)
next
  case (Some c)
  then obtain w where w: "w \<in> set (cb_names cb)" "fst (nameRule_match w n)"
      and c: "c = (w, snd (nameRule_match w n))"
    using keep_best_member [OF Some] by (auto simp: name_view_Some)
  have "\<not> (name_rank n w < name_rank n q \<or> (name_rank n w = name_rank n q \<and> nr_deny q \<and> \<not> nr_deny w))"
    if "q \<in> set (cb_names cb)" "fst (nameRule_match q n)" for q
    using name_order.keep_best_unbeaten [OF Some that(1)] that(2) name_beats_rank [of q n w]
    by (auto simp: name_view_Some c)
  then have "policy_spec (\<lambda>r. fst (nameRule_match r n)) nr_deny (name_rank n) (set (cb_names cb)) =
      (if nr_deny w then VerdictDeny else VerdictAllow)"
    using w by (intro policy_spec_winner) blast+
  then show ?thesis by (simp add: decideName_def Some c)
qed

lemma decideIP_verdict:
  "fst (decideIP cb ip) =
     policy_spec (\<lambda>r. ipRule_contains r ip) ir_deny ip_rank (set (cb_ips cb))"
proof (cases "keep_best (ip_view ip) moreSpecificIP None (cb_ips cb)")
  case None
  then have "\<forall>r \<in> set (cb_ips cb). \<not> ipRule_contains r ip"
    by (auto simp: keep_best_None_iff ip_view_def split: if_splits)
  with None show ?thesis by (auto simp: decideIP_def policy_spec_def)
next
  case (Some w)
  then have w: "w \<in> set (cb_ips cb)" "ipRule_contains w ip"
    using keep_best_member [OF Some] by (auto simp: ip_view_def split: if_splits)
  have "\<not> (ip_rank w < ip_rank q \<or> (ip_rank w = ip_rank q \<and> ir_deny q \<and> \<not> ir_deny w))"
    if "q \<in> set (cb_ips cb)" "ipRule_contains q ip" for q
    using ip_order.keep_best_unbeaten [OF Some that(1)] that(2)
    by (auto simp: ip_view_def ip_beats_rank)
  then have "policy_spec (\<lambda>r. ipRule_contains r ip) ir_deny ip_rank (set (cb_ips cb)) =
      (if ir_deny w then VerdictDeny else VerdictAllow)"
    using w by (intro policy_spec_winner) blast+
  then show ?thesis by (simp add: decideIP_def Some)
qed


subsection \<open>The walks\<close>

definition opinion :: "Verdict \<times> Match \<Rightarrow> (Verdict \<times> Match) option" where
  "opinion vm = (if fst vm = VerdictNone then None else Some vm)"

lemma walkName_first_opinion:
  "walkName (rev cbs) n =
     (case first_opinion (\<lambda>cb. opinion (decideName cb n)) cbs of
        None \<Rightarrow> (VerdictNone, zero_match) | Some vm \<Rightarrow> vm)"
proof -
  have "walkName (rev cbs @ ds) n =
      (case first_opinion (\<lambda>cb. opinion (decideName cb n)) cbs of
         None \<Rightarrow> walkName ds n | Some vm \<Rightarrow> vm)" for ds
    by (induction cbs arbitrary: ds) (auto simp: opinion_def split: option.splits prod.splits)
  from this [of "[]"] show ?thesis by (simp split: option.splits)
qed

lemma walkIP_first_opinion:
  "walkIP (rev cbs) ip =
     (case first_opinion (\<lambda>cb. opinion (decideIP cb ip)) cbs of
        None \<Rightarrow> (VerdictNone, zero_match) | Some vm \<Rightarrow> vm)"
proof -
  have "walkIP (rev cbs @ ds) ip =
      (case first_opinion (\<lambda>cb. opinion (decideIP cb ip)) cbs of
         None \<Rightarrow> walkIP ds ip | Some vm \<Rightarrow> vm)" for ds
    by (induction cbs arbitrary: ds) (auto simp: opinion_def split: option.splits prod.splits)
  from this [of "[]"] show ?thesis by (simp split: option.splits)
qed

lemma walkAddr_first_opinion:
  "walkAddr (rev cbs) n ip =
     (case first_opinion (\<lambda>cb. decideBoth cb n ip) cbs of
        None \<Rightarrow> (VerdictNone, zero_match, False) | Some r \<Rightarrow> r)"
proof -
  have "walkAddr (rev cbs @ ds) n ip =
      (case first_opinion (\<lambda>cb. decideBoth cb n ip) cbs of
         None \<Rightarrow> walkAddr ds n ip | Some r \<Rightarrow> r)" for ds
    by (induction cbs arbitrary: ds) (auto split: option.splits)
  from this [of "[]"] show ?thesis by (simp split: option.splits)
qed

text \<open>What \<open>decideBoth\<close> makes of the two verdicts of a block, attribution aside.\<close>

definition both_spec :: "Verdict \<Rightarrow> Verdict \<Rightarrow> (Verdict \<times> bool) option" where
  "both_spec nv iv =
     (if nv = VerdictNone \<and> iv = VerdictNone then None
      else if nv = VerdictDeny \<or> iv = VerdictDeny then Some (VerdictDeny, nv = VerdictDeny)
      else Some (VerdictAllow, nv \<noteq> VerdictNone))"

definition block_name_verdict :: "compiledBlock \<Rightarrow> gostring \<Rightarrow> Verdict" where
  "block_name_verdict cb n = (if n = [] then VerdictNone else fst (decideName cb n))"

lemma decideBoth_spec:
  "map_option (\<lambda>(v, m, k). (v, k)) (decideBoth cb n ip) =
     both_spec (block_name_verdict cb n) (fst (decideIP cb ip))"
proof -
  obtain nv nm where n: "(if n \<noteq> [] then decideName cb n else (VerdictNone, zero_match)) = (nv, nm)"
    by fastforce
  obtain iv im where i: "decideIP cb ip = (iv, im)" by fastforce
  have "block_name_verdict cb n = nv" using n by (auto simp: block_name_verdict_def split: if_splits)
  then show ?thesis
    unfolding decideBoth_def n i by (cases nv; cases iv) (simp_all add: both_spec_def)
qed

lemma decideBoth_None_iff:
  "decideBoth cb n ip = None \<longleftrightarrow>
     block_name_verdict cb n = VerdictNone \<and> fst (decideIP cb ip) = VerdictNone"
  using decideBoth_spec [of cb n ip] by (auto simp: both_spec_def split: if_splits)

lemma decideBoth_Some_verdict: "decideBoth cb n ip = Some (v, m, k) \<Longrightarrow> v \<noteq> VerdictNone"
  using decideBoth_spec [of cb n ip] by (auto simp: both_spec_def split: if_splits)

lemma walkAddr_verdict_cong:
  assumes "list_all2 (\<lambda>cb cb'. block_name_verdict cb n = block_name_verdict cb' n \<and>
      fst (decideIP cb ip) = fst (decideIP cb' ip)) cbs cbs'"
  shows "(\<lambda>(v, m, k). (v, k)) (walkAddr cbs n ip) = (\<lambda>(v, m, k). (v, k)) (walkAddr cbs' n ip)"
  using assms
proof (induction rule: list_all2_induct)
  case Nil
  then show ?case by simp
next
  case (Cons cb cbs cb' cbs')
  then have "map_option (\<lambda>(v, m, k). (v, k)) (decideBoth cb n ip) =
      map_option (\<lambda>(v, m, k). (v, k)) (decideBoth cb' n ip)"
    by (simp add: decideBoth_spec)
  with Cons.IH show ?case by (auto split: option.splits)
qed

subsection \<open>Compilation\<close>

definition empty_cb :: "gostring \<Rightarrow> gostring \<Rightarrow> compiledBlock" where
  "empty_cb origin name = \<lparr>cb_origin = origin, cb_name = name, cb_names = [], cb_ips = []\<rparr>"

definition name_rules_of :: "bool \<Rightarrow> gostring \<Rightarrow> nameRule list" where
  "name_rules_of deny e = cb_names (addNameRule (empty_cb [] []) e deny)"

definition ip_rules_of :: "bool \<Rightarrow> gostring \<Rightarrow> ipRule list" where
  "ip_rules_of deny e = (case addIPRule (empty_cb [] []) e deny of Inl _ \<Rightarrow> [] | Inr cb \<Rightarrow> cb_ips cb)"

definition ip_text_ok :: "gostring \<Rightarrow> bool" where
  "ip_text_ok t \<longleftrightarrow>
     t = [] \<or> (if CHR ''/'' \<in> set t then ParsePrefix t \<noteq> None else ParseAddr t \<noteq> None)"

definition ip_entry_ok :: "gostring \<Rightarrow> bool" where
  "ip_entry_ok e \<longleftrightarrow> ip_text_ok (trim_space e)"

lemma addNameRule_names:
  "addNameRule cb e d = cb\<lparr>cb_names := cb_names cb @ name_rules_of d e\<rparr>"
  by (simp add: addNameRule_def name_rules_of_def Let_def empty_cb_def)

lemma addNameRules_names:
  "addNameRules cb es d =
     cb\<lparr>cb_names := cb_names cb @ concat (map (name_rules_of d) es)\<rparr>"
  by (induction es arbitrary: cb) (simp_all add: addNameRule_names)

lemma addIPRule_cases:
  "addIPRule cb e d =
     (if ip_entry_ok e then Inr (cb\<lparr>cb_ips := cb_ips cb @ ip_rules_of d e\<rparr>)
      else Inl (if CHR ''/'' \<in> set (trim_space e) then BadCIDR e else BadIP e))"
  by (auto simp: addIPRule_def ip_rules_of_def ip_entry_ok_def ip_text_ok_def Let_def empty_cb_def
      split: option.splits)

lemma addIPRules_ok:
  "\<forall>e \<in> set es. ip_entry_ok e \<Longrightarrow>
     addIPRules cb es d = Inr (cb\<lparr>cb_ips := cb_ips cb @ concat (map (ip_rules_of d) es)\<rparr>)"
  by (induction es arbitrary: cb) (simp_all add: addIPRule_cases)

lemma addIPRules_error:
  "addIPRules cb es d = Inl err \<Longrightarrow>
     \<exists>e \<in> set es. \<not> ip_entry_ok e \<and> (err = BadCIDR e \<or> err = BadIP e)"
  by (induction es arbitrary: cb) (auto simp: addIPRule_cases split: if_splits)

definition compiled_form :: "Block \<Rightarrow> compiledBlock" where
  "compiled_form b =
     \<lparr>cb_origin = bk_Origin b, cb_name = bk_Name b,
      cb_names = concat (map (name_rules_of False) (bk_AllowDomains b)) @
                 concat (map (name_rules_of True) (bk_DenyDomains b)),
      cb_ips = concat (map (ip_rules_of False) (bk_AllowIPs b)) @
               concat (map (ip_rules_of True) (bk_DenyIPs b))\<rparr>"

definition block_ok :: "Block \<Rightarrow> bool" where
  "block_ok b \<longleftrightarrow> list_all ip_entry_ok (bk_AllowIPs b) \<and> list_all ip_entry_ok (bk_DenyIPs b)"

lemma compileBlock_ok: "block_ok b \<Longrightarrow> compileBlock b = Inr (compiled_form b)"
  by (simp add: compileBlock_def compileNames_def addNameRules_names addIPRules_ok block_ok_def
      compiled_form_def list_all_iff)

lemma compileBlock_error:
  "compileBlock b = Inl (l, err) \<Longrightarrow>
     l = blockLabel b \<and> (\<exists>e \<in> set (bk_AllowIPs b) \<union> set (bk_DenyIPs b).
       \<not> ip_entry_ok e \<and> (err = BadCIDR e \<or> err = BadIP e))"
  by (auto simp: compileBlock_def split: sum.splits dest: addIPRules_error)

lemma compileBlock_iff: "compileBlock b = Inr cb \<longleftrightarrow> block_ok b \<and> cb = compiled_form b"
proof (cases "compileBlock b")
  case (Inl le)
  obtain l err where "le = (l, err)" by fastforce
  with Inl have "\<not> block_ok b" using compileBlock_error by (fastforce simp: block_ok_def list_all_iff)
  with Inl show ?thesis by simp
next
  case (Inr cb')
  have "block_ok b"
  proof (rule ccontr)
    assume "\<not> block_ok b"
    then have bad: "(\<exists>e \<in> set (bk_AllowIPs b). \<not> ip_entry_ok e) \<or> (\<exists>e \<in> set (bk_DenyIPs b). \<not> ip_entry_ok e)"
      by (auto simp: block_ok_def list_all_iff)
    have err: "\<exists>x. addIPRules cb es d = Inl x" if "\<exists>e \<in> set es. \<not> ip_entry_ok e" for cb es d
      using that by (induction es arbitrary: cb) (auto simp: addIPRule_cases)
    from bad Inr show False
      by (auto simp: compileBlock_def split: sum.splits) (metis err sum.distinct(1))+
  qed
  with compileBlock_ok Inr show ?thesis by auto
qed

lemma compileBlocks_iff:
  "compileBlocks bs = Inr cbs \<longleftrightarrow> (\<forall>b \<in> set bs. block_ok b) \<and> cbs = map compiled_form bs"
proof (induction bs arbitrary: cbs)
  case (Cons b bs)
  have "compileBlocks (b # bs) = Inr cbs \<longleftrightarrow>
      (\<exists>cb cbs'. compileBlock b = Inr cb \<and> compileBlocks bs = Inr cbs' \<and> cbs = cb # cbs')"
    by (auto split: sum.splits)
  with Cons.IH show ?case by (auto simp: compileBlock_iff)
qed auto

lemma NewChain_iff:
  "NewChain bs = Inr c \<longleftrightarrow>
     (\<forall>b \<in> set bs. block_ok b) \<and> c = \<lparr>ch_blocks = bs, ch_compiled = map compiled_form bs\<rparr>"
proof -
  have "NewChain bs = Inr c \<longleftrightarrow>
      (\<exists>cbs. compileBlocks bs = Inr cbs \<and> c = \<lparr>ch_blocks = bs, ch_compiled = cbs\<rparr>)"
    by (auto simp: NewChain_def split: sum.splits)
  then show ?thesis by (auto simp: compileBlocks_iff)
qed

lemma NewChain_projr: "list_all block_ok bs \<Longrightarrow> NewChain bs = Inr (projr (NewChain bs))"
proof -
  assume "list_all block_ok bs"
  then have "NewChain bs = Inr \<lparr>ch_blocks = bs, ch_compiled = map compiled_form bs\<rparr>"
    by (simp add: NewChain_iff list_all_iff)
  then show ?thesis by simp
qed

text \<open>An error names the first block that does not compile and one of its entries.\<close>

lemma compileBlocks_error:
  "compileBlocks bs = Inl (l, err) \<Longrightarrow>
     \<exists>lo b hi. bs = lo @ b # hi \<and> (\<forall>a \<in> set lo. block_ok a) \<and> l = blockLabel b \<and>
       (\<exists>e \<in> set (bk_AllowIPs b) \<union> set (bk_DenyIPs b).
          \<not> ip_entry_ok e \<and> (err = BadCIDR e \<or> err = BadIP e))"
proof (induction bs)
  case (Cons b bs)
  show ?case
  proof (cases "compileBlock b")
    case (Inl le)
    with Cons.prems have "compileBlock b = Inl (l, err)" by simp
    from compileBlock_error [OF this] show ?thesis by (intro exI [of _ "[]"]) auto
  next
    case (Inr cb)
    with Cons obtain lo b' hi where *: "bs = lo @ b' # hi" "\<forall>a \<in> set lo. block_ok a"
      "l = blockLabel b'" "\<exists>e \<in> set (bk_AllowIPs b') \<union> set (bk_DenyIPs b').
          \<not> ip_entry_ok e \<and> (err = BadCIDR e \<or> err = BadIP e)"
      by (auto split: sum.splits)
    from Inr have "block_ok b" by (simp add: compileBlock_iff)
    with * show ?thesis by (intro exI [of _ "b # lo"] exI [of _ b'] exI [of _ hi]) simp
  qed
qed simp


subsection \<open>Domain entries\<close>

text \<open>When a normalised entry matches a normalised name, by its list (allow or deny).\<close>

definition entry_pattern :: "gostring \<Rightarrow> gostring" where
  "entry_pattern p = (if has_prefix p ''*.'' then drop 2 p else p)"

definition entry_matches :: "bool \<Rightarrow> gostring \<Rightarrow> gostring \<Rightarrow> bool" where
  "entry_matches deny p n \<longleftrightarrow>
     p \<noteq> [] \<and> p \<noteq> ''*.'' \<and>
     (if has_prefix p ''*.'' then has_suffix n (CHR ''.'' # entry_pattern p)
      else n = p \<or> (deny \<and> has_suffix n (CHR ''.'' # p)))"

lemma ip_rules_of_deny: "r \<in> set (ip_rules_of d e) \<Longrightarrow> ir_deny r = d"
  by (auto simp: ip_rules_of_def addIPRule_def empty_cb_def Let_def split: sum.splits if_splits option.splits)

lemma name_rules_of_member:
  "r \<in> set (name_rules_of d e) \<longleftrightarrow>
     normalizeDomain e \<noteq> [] \<and> normalizeDomain e \<noteq> ''*.'' \<and>
     r = \<lparr>nr_entry = normalizeDomain e, nr_pattern = entry_pattern (normalizeDomain e),
          nr_labels = count_byte (entry_pattern (normalizeDomain e)) (CHR ''.'') + 1,
          nr_wildcard = has_prefix (normalizeDomain e) ''*.'',
          nr_subtree = (\<not> has_prefix (normalizeDomain e) ''*.'' \<and> d), nr_deny = d\<rparr>"
  by (auto simp: name_rules_of_def addNameRule_def entry_pattern_def empty_cb_def Let_def)

lemma name_rules_of_match:
  "r \<in> set (name_rules_of d e) \<Longrightarrow>
     fst (nameRule_match r n) \<longleftrightarrow> entry_matches d (normalizeDomain e) n"
  by (auto simp: name_rules_of_member nameRule_match_def entry_matches_def entry_pattern_def)

lemma name_rules_of_fields:
  "r \<in> set (name_rules_of d e) \<Longrightarrow>
     nr_deny r = d \<and> nr_labels r = count_byte (entry_pattern (normalizeDomain e)) (CHR ''.'') + 1"
  by (simp add: name_rules_of_member)

lemma name_rules_of_exists:
  "entry_matches d (normalizeDomain e) n \<Longrightarrow> \<exists>r. r \<in> set (name_rules_of d e)"
  by (auto simp: name_rules_of_member entry_matches_def)

lemma suffix_more_labels:
  "has_suffix n (CHR ''.'' # p) \<Longrightarrow> count_byte p (CHR ''.'') < count_byte n (CHR ''.'')"
  by (auto simp: has_suffix_iff count_byte_def)

text \<open>
  A rule of equal depth whose match is exact matches its own pattern, so nothing of the same depth
  matches that name as a proper subdomain.
\<close>

lemma exact_match_labels:
  "r \<in> set (name_rules_of d e) \<Longrightarrow> snd (nameRule_match r n) \<Longrightarrow> nr_labels r = count_byte n (CHR ''.'') + 1"
  by (auto simp: name_rules_of_member nameRule_match_def split: if_splits)

lemma subtree_deny_dominates:
  assumes "r \<in> set (name_rules_of True d)" and p: "p = normalizeDomain d" and "\<not> has_prefix p ''*.''"
    and under: "n = p \<or> has_suffix n (CHR ''.'' # p)"
    and "q \<in> set (name_rules_of False a)"
    and shallow: "count_byte (entry_pattern (normalizeDomain a)) (CHR ''.'') \<le> count_byte p (CHR ''.'')"
  shows "name_rank n q \<le> name_rank n r"
proof -
  have lr: "nr_labels r = count_byte p (CHR ''.'') + 1"
    using assms(1,3) by (auto simp: p name_rules_of_member entry_pattern_def)
  have lq: "nr_labels q \<le> nr_labels r"
    using name_rules_of_fields [OF assms(5)] shallow lr by simp
  show ?thesis
  proof (cases "snd (nameRule_match q n) \<and> nr_labels q = nr_labels r")
    case True
    then have "count_byte n (CHR ''.'') = count_byte p (CHR ''.'')"
      using exact_match_labels [OF assms(5), of n] lr by simp
    with under have "n = p" using suffix_more_labels by fastforce
    with assms(1,3) have "snd (nameRule_match r n)"
      by (auto simp: p name_rules_of_member nameRule_match_def entry_pattern_def)
    with lq show ?thesis by (simp add: name_rank_def)
  next
    case False
    with lq show ?thesis by (auto simp: name_rank_def)
  qed
qed

lemma compiled_deny_verdict:
  assumes "d \<in> set (bk_DenyDomains b)" and p: "p = normalizeDomain d"
    and "p \<noteq> []" and "\<not> has_prefix p ''*.''"
    and under: "n = p \<or> has_suffix n (CHR ''.'' # p)"
    and shallow: "\<forall>a \<in> set (bk_AllowDomains b). entry_matches False (normalizeDomain a) n \<longrightarrow>
      count_byte (entry_pattern (normalizeDomain a)) (CHR ''.'') \<le> count_byte p (CHR ''.'')"
  shows "fst (decideName (compiled_form b) n) = VerdictDeny"
proof -
  have em: "entry_matches True (normalizeDomain d) n"
    using assms(3-5) by (auto simp: entry_matches_def p has_prefix_def)
  then obtain r where r: "r \<in> set (name_rules_of True d)" using name_rules_of_exists by blast
  let ?R = "set (cb_names (compiled_form b))"
  have "r \<in> ?R" using r assms(1) by (auto simp: compiled_form_def)
  moreover have "fst (nameRule_match r n)" using name_rules_of_match [OF r] em by simp
  moreover have "nr_deny r" using name_rules_of_fields [OF r] by simp
  moreover have "name_rank n q \<le> name_rank n r"
    if "q \<in> ?R" "fst (nameRule_match q n)" "\<not> nr_deny q" for q
  proof -
    from that obtain a where a: "a \<in> set (bk_AllowDomains b)" "q \<in> set (name_rules_of False a)"
      by (auto simp: compiled_form_def dest: name_rules_of_fields)
    with that(2) shallow have
      "count_byte (entry_pattern (normalizeDomain a)) (CHR ''.'') \<le> count_byte p (CHR ''.'')"
      using name_rules_of_match by blast
    from subtree_deny_dominates [OF r p assms(4) under a(2) this] show ?thesis .
  qed
  ultimately show ?thesis unfolding decideName_verdict policy_spec_def by auto
qed

subsection \<open>Patterns\<close>

text \<open>The patterns block \<open>i\<close> contributes: no higher block denies the apex.\<close>

definition live_patterns :: "Chain \<Rightarrow> nat \<Rightarrow> gostring list \<Rightarrow> gostring set" where
  "live_patterns c i es =
     {p. \<exists>e \<in> set es. p = normalizeDomain e \<and> p \<noteq> [] \<and> p \<noteq> ''*.'' \<and>
           \<not> apexDeniedAbove c i (trim_prefix p ''*.'')}"

lemma patterns_of_block_spec:
  "distinct out \<Longrightarrow> distinct (patterns_of_block c i out es) \<and>
     set (patterns_of_block c i out es) = set out \<union> live_patterns c i es"
proof (induction es arbitrary: out)
  case (Cons e es)
  let ?p = "normalizeDomain e"
  let ?o = "if ?p = [] \<or> ?p = ''*.'' then out else if ?p \<in> set out then out
     else if apexDeniedAbove c i (trim_prefix ?p ''*.'') then out else out @ [?p]"
  have d: "distinct ?o" using Cons.prems by simp
  have "patterns_of_block c i out (e # es) = patterns_of_block c i ?o es"
    by (simp add: Let_def)
  with Cons.IH [OF d] show ?case by (auto simp: live_patterns_def split: if_splits)
qed (simp add: live_patterns_def)

lemma patterns_of_blocks_spec:
  "distinct out \<Longrightarrow> distinct (patterns_of_blocks c i out bs) \<and>
     set (patterns_of_blocks c i out bs) = set out \<union>
       (\<Union>k < length bs. live_patterns c (i + k) (bk_AllowDomains (bs ! k)))"
proof (induction bs arbitrary: out i)
  case (Cons b bs)
  note b = patterns_of_block_spec [OF Cons.prems, of c i "bk_AllowDomains b"]
  have "(\<Union>k < length (b # bs). live_patterns c (i + k) (bk_AllowDomains ((b # bs) ! k))) =
      live_patterns c i (bk_AllowDomains b) \<union>
      (\<Union>k < length bs. live_patterns c (Suc i + k) (bk_AllowDomains (bs ! k)))"
    by (simp add: lessThan_Suc_eq_insert_0 image_image)
  with Cons.IH [of "patterns_of_block c i out (bk_AllowDomains b)" "Suc i"] b show ?case
    by (simp add: Un_assoc)
qed simp


text \<open>A domain denied in the highest block.\<close>

lemma deny_in_top_block:
  assumes "NewChain (lo @ [b]) = Inr c"
    and "d \<in> set (bk_DenyDomains b)" and "normalizeDomain d \<noteq> []"
    and "\<not> has_prefix (normalizeDomain d) ''*.''"
    and "normalizeDomain name = normalizeDomain d \<or>
         has_suffix (normalizeDomain name) (CHR ''.'' # normalizeDomain d)"
    and "\<forall>a \<in> set (bk_AllowDomains b). entry_matches False (normalizeDomain a) (normalizeDomain name) \<longrightarrow>
      count_byte (entry_pattern (normalizeDomain a)) (CHR ''.'') \<le> count_byte (normalizeDomain d) (CHR ''.'')"
  shows "\<exists>m. DecideAddr c name ip = (VerdictDeny, m, True)"
proof -
  have "normalizeDomain name \<noteq> []" using assms(3,5) by (auto simp: has_suffix_iff)
  with compiled_deny_verdict [OF assms(2) refl assms(3-6)]
  have "block_name_verdict (compiled_form b) (normalizeDomain name) = VerdictDeny"
    by (simp add: block_name_verdict_def)
  then have "map_option (\<lambda>(v, m, k). (v, k))
      (decideBoth (compiled_form b) (normalizeDomain name) (unmap ip)) = Some (VerdictDeny, True)"
    by (simp add: decideBoth_spec both_spec_def)
  moreover from assms(1) have "ch_compiled c = map compiled_form lo @ [compiled_form b]"
    by (auto simp: NewChain_iff)
  ultimately show ?thesis
    by (auto simp: DecideAddr_def)
qed

section \<open>Properties\<close>

text \<open>
  Two small policies for the instances below: a base layer that allows a domain, a wildcard and an
  address range, and a layer above it that denies a subtree and a smaller range.
\<close>

definition base_block :: Block where
  "base_block = \<lparr>bk_Origin = ''default'', bk_Name = ''default'',
     bk_AllowDomains = [''api.evil.com'', ''*.Example.com.''], bk_DenyDomains = [],
     bk_AllowIPs = [''10.0.0.0/8''], bk_DenyIPs = []\<rparr>"

definition guard_block :: Block where
  "guard_block = \<lparr>bk_Origin = ''custom'', bk_Name = [],
     bk_AllowDomains = [''evil.com''], bk_DenyDomains = [''evil.com''],
     bk_AllowIPs = [], bk_DenyIPs = [''10.9.0.0/16'']\<rparr>"

text \<open>
  C7: The verdict of a compiled block on a name and on an address is the one of the set-based
  specification: the highest-ranked matching entry decides (more labels, then an exact match; an
  exact address, then a longer prefix) and a deny wins a tie.
\<close>

theorem block_verdicts_refine_spec:
  "fst (decideName cb n) =
     policy_spec (\<lambda>r. fst (nameRule_match r n)) nr_deny (name_rank n) (set (cb_names cb)) \<and>
   fst (decideIP cb ip) =
     policy_spec (\<lambda>r. ipRule_contains r ip) ir_deny ip_rank (set (cb_ips cb))"
  by (simp add: decideName_verdict decideIP_verdict)

text \<open>
  C6: \<open>DecideAddr\<close> returns a verdict exactly when some block of the chain has an opinion on the name
  or on the address, and it is the opinion of the highest such block: every block above it is
  silent in both rule spaces.
\<close>

theorem DecideAddr_highest_block:
  "DecideAddr c name ip = (v, m, k) \<and> v \<noteq> VerdictNone \<longleftrightarrow>
     (\<exists>lo cb hi. ch_compiled c = lo @ cb # hi \<and>
        decideBoth cb (normalizeDomain name) (unmap ip) = Some (v, m, k) \<and>
        list_all (\<lambda>h. block_name_verdict h (normalizeDomain name) = VerdictNone \<and>
                        fst (decideIP h (unmap ip)) = VerdictNone) hi)"
proof -
  let ?op = "\<lambda>cb. decideBoth cb (normalizeDomain name) (unmap ip)"
  have "DecideAddr c name ip = (v, m, k) \<and> v \<noteq> VerdictNone \<longleftrightarrow>
      first_opinion ?op (ch_compiled c) = Some (v, m, k)"
  proof (cases "first_opinion ?op (ch_compiled c)")
    case None
    then show ?thesis by (auto simp: DecideAddr_def walkAddr_first_opinion)
  next
    case (Some r)
    then obtain cb where "?op cb = Some r" by (auto simp: first_opinion_Some_iff)
    then have "fst r \<noteq> VerdictNone" using decideBoth_Some_verdict by (metis prod.collapse)
    with Some show ?thesis by (auto simp: DecideAddr_def walkAddr_first_opinion)
  qed
  then show ?thesis by (simp add: first_opinion_Some_iff decideBoth_None_iff list_all_iff)
qed

text \<open>
  Inside the deciding block a deny in either rule space overrides an allow in the other, and a
  denied name is reported as a verdict on the name.
\<close>

theorem block_deny_overrides:
  "(\<exists>m. decideBoth cb n ip = Some (VerdictDeny, m, k)) \<longleftrightarrow>
     (block_name_verdict cb n = VerdictDeny \<or> fst (decideIP cb ip) = VerdictDeny) \<and>
     k = (block_name_verdict cb n = VerdictDeny)"
proof -
  have "(\<exists>m. decideBoth cb n ip = Some (VerdictDeny, m, k)) \<longleftrightarrow>
      both_spec (block_name_verdict cb n) (fst (decideIP cb ip)) = Some (VerdictDeny, k)"
    unfolding decideBoth_spec [symmetric] by auto
  then show ?thesis by (auto simp: both_spec_def split: if_splits)
qed

text \<open>
  Policy compilation succeeds exactly when every address entry of every block is empty, an
  address or a prefix; a failure names the first block with a bad entry and that entry.
\<close>

theorem NewChain_accepts:
  "((\<exists>c. NewChain bs = Inr c) \<longleftrightarrow> (\<forall>b \<in> set bs. block_ok b)) \<and>
   (NewChain bs = Inl (l, err) \<longrightarrow>
     (\<exists>lo b hi. bs = lo @ b # hi \<and> (\<forall>a \<in> set lo. block_ok a) \<and> l = blockLabel b \<and>
        (\<exists>e \<in> set (bk_AllowIPs b) \<union> set (bk_DenyIPs b).
           \<not> ip_entry_ok e \<and> (err = BadCIDR e \<or> err = BadIP e))))"
proof (intro conjI impI)
  show "(\<exists>c. NewChain bs = Inr c) \<longleftrightarrow> (\<forall>b \<in> set bs. block_ok b)"
    by (simp add: NewChain_iff)
  assume "NewChain bs = Inl (l, err)"
  then have "compileBlocks bs = Inl (l, err)" by (simp add: NewChain_def split: sum.splits)
  then show "\<exists>lo b hi. bs = lo @ b # hi \<and> (\<forall>a \<in> set lo. block_ok a) \<and> l = blockLabel b \<and>
        (\<exists>e \<in> set (bk_AllowIPs b) \<union> set (bk_DenyIPs b).
           \<not> ip_entry_ok e \<and> (err = BadCIDR e \<or> err = BadIP e))"
    by (rule compileBlocks_error)
qed

theorem NewChain_accepts_witness:
  "NewChain [base_block, guard_block\<lparr>bk_DenyIPs := [''10.0.0.0/8'', ''10.9.0.0/40'']\<rparr>] =
     Inl (OriginOnly ''custom'', BadCIDR ''10.9.0.0/40'') \<and>
   (\<exists>lo b hi. [base_block, guard_block\<lparr>bk_DenyIPs := [''10.0.0.0/8'', ''10.9.0.0/40'']\<rparr>] = lo @ b # hi \<and>
      OriginOnly ''custom'' = blockLabel b)"
proof -
  have h: "NewChain [base_block, guard_block\<lparr>bk_DenyIPs := [''10.0.0.0/8'', ''10.9.0.0/40'']\<rparr>] =
     Inl (OriginOnly ''custom'', BadCIDR ''10.9.0.0/40'')"
    by code_simp
  with NewChain_accepts [of "[base_block, guard_block\<lparr>bk_DenyIPs := [''10.0.0.0/8'', ''10.9.0.0/40'']\<rparr>]"]
  show ?thesis by blast
qed


text \<open>Blocks with the same entries, in any order and multiplicity.\<close>

definition same_entries :: "Block \<Rightarrow> Block \<Rightarrow> bool" where
  "same_entries b b' \<longleftrightarrow>
     set (bk_AllowDomains b) = set (bk_AllowDomains b') \<and> set (bk_DenyDomains b) = set (bk_DenyDomains b') \<and>
     set (bk_AllowIPs b) = set (bk_AllowIPs b') \<and> set (bk_DenyIPs b) = set (bk_DenyIPs b')"

lemma same_entries_verdicts:
  assumes "same_entries b b'"
  shows "block_name_verdict (compiled_form b) n = block_name_verdict (compiled_form b') n"
    and "fst (decideIP (compiled_form b) ip) = fst (decideIP (compiled_form b') ip)"
  using assms
  by (auto simp: block_name_verdict_def decideName_verdict decideIP_verdict compiled_form_def
      same_entries_def)

text \<open>
  C35: Order lives between blocks, never between the entries of one: two chains whose blocks have
  pairwise the same sets of entries give the same verdict, from the same rule space, on every
  destination.
\<close>

theorem entry_order_irrelevant:
  assumes "NewChain bs = Inr c" and "NewChain bs' = Inr c'" and "list_all2 same_entries bs bs'"
  shows "(\<lambda>(v, m, k). (v, k)) (DecideAddr c name ip) = (\<lambda>(v, m, k). (v, k)) (DecideAddr c' name ip)"
proof -
  from assms have c: "ch_compiled c = map compiled_form bs" "ch_compiled c' = map compiled_form bs'"
    by (auto simp: NewChain_iff)
  have "list_all2 (\<lambda>cb cb'. block_name_verdict cb n = block_name_verdict cb' n \<and>
      fst (decideIP cb a) = fst (decideIP cb' a)) (rev (ch_compiled c)) (rev (ch_compiled c'))" for n a
    using assms(3) unfolding c
    by (auto simp: list_all2_map1 list_all2_map2 same_entries_verdicts elim: list_all2_mono)
  from walkAddr_verdict_cong [OF this] show ?thesis by (simp add: DecideAddr_def)
qed

theorem entry_order_irrelevant_witness:
  "(\<lambda>(v, m, k). (v, k)) (DecideAddr (projr (NewChain [base_block])) ''x.example.com'' (IP4 1)) =
   (\<lambda>(v, m, k). (v, k)) (DecideAddr
      (projr (NewChain [base_block\<lparr>bk_AllowDomains := [''*.Example.com.'', ''api.evil.com'', ''api.evil.com'']\<rparr>]))
      ''x.example.com'' (IP4 1))"
proof (rule entry_order_irrelevant)
  have ok: "block_ok base_block" by code_simp
  show "NewChain [base_block] = Inr (projr (NewChain [base_block]))"
    using ok by (intro NewChain_projr) simp
  show "NewChain [base_block\<lparr>bk_AllowDomains := [''*.Example.com.'', ''api.evil.com'', ''api.evil.com'']\<rparr>] =
      Inr (projr (NewChain [base_block\<lparr>bk_AllowDomains := [''*.Example.com.'', ''api.evil.com'', ''api.evil.com'']\<rparr>]))"
    using ok by (intro NewChain_projr) (simp add: block_ok_def)
  show "list_all2 same_entries [base_block]
      [base_block\<lparr>bk_AllowDomains := [''*.Example.com.'', ''api.evil.com'', ''api.evil.com'']\<rparr>]"
    by (auto simp: same_entries_def base_block_def)
qed

text \<open>
  C8: A bare domain denied in the highest block is a guardrail: the domain itself and every
  subdomain of it are denied by name whatever the blocks below say and whatever the address is,
  unless the same block allows the name with a pattern of more labels.
\<close>

theorem deny_domain_guards_subtree:
  assumes "NewChain (lo @ [b]) = Inr c"
    and "d \<in> set (bk_DenyDomains b)" and "normalizeDomain d \<noteq> []"
    and "\<not> has_prefix (normalizeDomain d) ''*.''"
    and "normalizeDomain name = normalizeDomain d \<or>
         has_suffix (normalizeDomain name) (CHR ''.'' # normalizeDomain d)"
    and "\<forall>a \<in> set (bk_AllowDomains b). entry_matches False (normalizeDomain a) (normalizeDomain name) \<longrightarrow>
      count_byte (entry_pattern (normalizeDomain a)) (CHR ''.'') \<le> count_byte (normalizeDomain d) (CHR ''.'')"
  shows "\<exists>m. DecideAddr c name ip = (VerdictDeny, m, True)"
  using assms by (rule deny_in_top_block)

theorem deny_domain_guards_subtree_witness:
  "\<exists>m. DecideAddr (projr (NewChain ([base_block] @ [guard_block]))) ''api.EVIL.com.'' (IP4 0x0a000001) =
     (VerdictDeny, m, True)"
proof (rule deny_domain_guards_subtree)
  have ok: "block_ok base_block" "block_ok guard_block" by code_simp+
  show "NewChain ([base_block] @ [guard_block]) = Inr (projr (NewChain ([base_block] @ [guard_block])))"
    using ok by (intro NewChain_projr) simp
  show "''evil.com'' \<in> set (bk_DenyDomains guard_block)" by (simp add: guard_block_def)
  show "normalizeDomain ''evil.com'' \<noteq> []" by code_simp
  show "\<not> has_prefix (normalizeDomain ''evil.com'') ''*.''" by code_simp
  show "normalizeDomain ''api.EVIL.com.'' = normalizeDomain ''evil.com'' \<or>
      has_suffix (normalizeDomain ''api.EVIL.com.'') (CHR ''.'' # normalizeDomain ''evil.com'')"
    by code_simp
  have "count_byte (entry_pattern (normalizeDomain ''evil.com'')) (CHR ''.'') \<le>
      count_byte (normalizeDomain ''evil.com'') (CHR ''.'')"
    by code_simp
  then show "\<forall>a \<in> set (bk_AllowDomains guard_block).
      entry_matches False (normalizeDomain a) (normalizeDomain ''api.EVIL.com.'') \<longrightarrow>
      count_byte (entry_pattern (normalizeDomain a)) (CHR ''.'') \<le>
        count_byte (normalizeDomain ''evil.com'') (CHR ''.'')"
    by (simp add: guard_block_def)
qed

text \<open>
  The resolver's pattern list is the set of the non-empty normalised allow entries whose apex no
  higher block denies, each once.
\<close>

theorem AllowDomainPatterns_set:
  "distinct (AllowDomainPatterns c) \<and>
   set (AllowDomainPatterns c) =
     (\<Union>i < length (ch_blocks c). {p. \<exists>e \<in> set (bk_AllowDomains (ch_blocks c ! i)).
        p = normalizeDomain e \<and> p \<noteq> [] \<and> p \<noteq> ''*.'' \<and>
        \<not> apexDeniedAbove c i (trim_prefix p ''*.'')})"
  using patterns_of_blocks_spec [of "[]" c 0 "ch_blocks c"]
  by (simp add: AllowDomainPatterns_def live_patterns_def)


text \<open>
  A deny (or allow) range written as an IPv4-mapped IPv6 prefix compiles and then never matches:
  the queried address is unmapped before the comparison, the compiled prefix is not, and an
  IPv4-mapped prefix of at least 96 bits contains IPv4-mapped addresses only. (A single address
  written in the mapped form is unmapped by the compiler and does match.)
\<close>

theorem mapped_prefix_never_matches:
  assumes "ParsePrefix (trim_space e) = Some p" and "is4in6 (px_addr p)" and "96 \<le> px_bits p"
    and "NewChain [\<lparr>bk_Origin = orig, bk_Name = nm, bk_AllowDomains = [], bk_DenyDomains = [],
           bk_AllowIPs = [], bk_DenyIPs = [e]\<rparr>] = Inr c"
  shows "fst (DecideIP c ip) = VerdictNone"
proof -
  have slash: "CHR ''/'' \<in> set (trim_space e)" and "trim_space e \<noteq> []"
    using assms(1) by (auto simp: ParsePrefix_def split: if_splits)
  then have "ip_rules_of True e = [\<lparr>ir_entry = trim_space e, ir_addr = Addr0, ir_prefix = p,
      ir_exact = False, ir_deny = True\<rparr>]"
    using assms(1) by (simp add: ip_rules_of_def addIPRule_def empty_cb_def Let_def)
  moreover have "\<not> prefix_contains p (unmap ip)"
    using assms(2,3) by (rule mapped_prefix_inert)
  moreover from assms(4) have "ch_compiled c = [compiled_form \<lparr>bk_Origin = orig, bk_Name = nm,
      bk_AllowDomains = [], bk_DenyDomains = [], bk_AllowIPs = [], bk_DenyIPs = [e]\<rparr>]"
    by (auto simp: NewChain_iff)
  ultimately show ?thesis
    by (simp add: DecideIP_def compiled_form_def decideIP_def ip_view_def ipRule_contains_def)
qed

theorem mapped_prefix_never_matches_witness:
  "fst (DecideIP (projr (NewChain [\<lparr>bk_Origin = ''mod'', bk_Name = [], bk_AllowDomains = [],
      bk_DenyDomains = [], bk_AllowIPs = [], bk_DenyIPs = [''::ffff:10.0.0.0/104'']\<rparr>]))
      (IP4 0x0a000001)) = VerdictNone"
proof (rule mapped_prefix_never_matches)
  show "ParsePrefix (trim_space ''::ffff:10.0.0.0/104'') =
      Some \<lparr>px_addr = IP6 0xffff0a000000 [], px_bits = 104\<rparr>" by code_simp
  show "is4in6 (px_addr \<lparr>px_addr = IP6 0xffff0a000000 [], px_bits = 104\<rparr>)" by code_simp
  have "block_ok \<lparr>bk_Origin = ''mod'', bk_Name = [], bk_AllowDomains = [],
      bk_DenyDomains = [], bk_AllowIPs = [], bk_DenyIPs = [''::ffff:10.0.0.0/104'']\<rparr>" by code_simp
  then show "NewChain [\<lparr>bk_Origin = ''mod'', bk_Name = [], bk_AllowDomains = [],
      bk_DenyDomains = [], bk_AllowIPs = [], bk_DenyIPs = [''::ffff:10.0.0.0/104'']\<rparr>] =
    Inr (projr (NewChain [\<lparr>bk_Origin = ''mod'', bk_Name = [], bk_AllowDomains = [],
      bk_DenyDomains = [], bk_AllowIPs = [], bk_DenyIPs = [''::ffff:10.0.0.0/104'']\<rparr>]))"
    by (intro NewChain_projr) simp
qed simp

end
