(* ===== verification/Acl.thy ===== *)
theory Acl
  imports Blocks
begin

text \<open>
  \<open>src/internal/netfilter/acl.go\<close>: the egress allow list the userspace network stack consults on
  every outbound connection, and its runtime state: the policy chain, the addresses resolved,
  observed and granted, the time-boxed bypass, the attribution map and the denial ledger. The
  invariant of the state is kept by every operation; the decision procedure is characterised
  completely.

  Each operation of the code is one function here; \<open>now\<close> is the clock reading it takes. Two of them
  release the mutex on the way: \<open>refreshDomains\<close> resolves against the chain it read before, and
  \<open>Allow\<close> records a refusal after the gate has held the connection. The step relation has the
  steps of both halves, so that its invariant covers the interleavings. The DNS resolver is a service: \<open>lookup\<close>, what it answers for a host (None
  for an error), is a parameter.
\<close>

section \<open>Definitions\<close>

definition originCustom :: gostring where
  "originCustom = ''custom''"

record Denial =
  dn_Host :: gostring
  dn_IP :: gostring
  dn_Port :: gostring
  dn_Count :: nat
  dn_FirstSeen :: instant
  dn_LastSeen :: instant
  dn_Rule :: gostring

text \<open>
  \<open>al_gate\<close>: a gate is attached; \<open>al_kick\<close>: the one-slot refresh channel is full; \<open>al_ticking\<close> and
  \<open>al_stopped\<close>: the ticker exists, the stop channel is closed.
\<close>

record AllowList =
  al_chain :: Chain
  al_resolved :: "(addr, gostring) gomap"
  al_observed :: "(addr, gostring) gomap"
  al_granted :: "(addr, unit) gomap"
  al_gate :: bool
  al_allowAllUntil :: instant
  al_lastName :: "(addr, gostring) gomap"
  al_denials :: "(gostring, Denial) gomap"
  al_kick :: bool
  al_ticking :: bool
  al_stopped :: bool

definition maxObservedNames :: nat where
  "maxObservedNames = 4096"

definition maxDenialHosts :: nat where
  "maxDenialHosts = 256"

definition empty_chain :: Chain where
  "empty_chain = \<lparr>ch_blocks = [], ch_compiled = []\<rparr>"

definition NewAllowListFromChain :: "Chain option \<Rightarrow> AllowList" where
  "NewAllowListFromChain oc =
     \<lparr>al_chain = (case oc of None \<Rightarrow> empty_chain | Some c \<Rightarrow> c),
      al_resolved = [], al_observed = [], al_granted = [], al_gate = False,
      al_allowAllUntil = 0, al_lastName = [], al_denials = [],
      al_kick = False, al_ticking = False, al_stopped = False\<rparr>"

definition NewAllowList ::
  "gostring list \<Rightarrow> gostring list \<Rightarrow> gostring list \<Rightarrow> chain_error + AllowList" where
  "NewAllowList ips cidrs domains =
     (case NewChain [\<lparr>bk_Origin = originCustom, bk_Name = [], bk_AllowDomains = domains,
                      bk_DenyDomains = [], bk_AllowIPs = ips @ cidrs, bk_DenyIPs = []\<rparr>] of
        Inl err \<Rightarrow> Inl err
      | Inr c \<Rightarrow> Inr (NewAllowListFromChain (Some c)))"

fun SplitEntries :: "gostring list \<Rightarrow> gostring list \<times> gostring list" where
  "SplitEntries [] = ([], [])"
| "SplitEntries (e # es) =
     (case SplitEntries es of (ips, cidrs) \<Rightarrow>
        if trim_space e = [] then (ips, cidrs)
        else if CHR ''/'' \<in> set (trim_space e) then (ips, trim_space e # cidrs)
        else (trim_space e # ips, cidrs))"

subsection \<open>Refreshing the resolved set\<close>

fun addResolved :: "gostring \<Rightarrow> addr list \<Rightarrow> (addr, gostring) gomap \<Rightarrow> (addr, gostring) gomap" where
  "addResolved host [] m = m"
| "addResolved host (ip # ips) m = addResolved host ips (AList.update (unmap ip) host m)"

fun resolvePatterns ::
  "(gostring \<Rightarrow> addr list option) \<Rightarrow> gostring list \<Rightarrow> (addr, gostring) gomap \<Rightarrow> (addr, gostring) gomap" where
  "resolvePatterns lookup [] m = m"
| "resolvePatterns lookup (p # ps) m =
     resolvePatterns lookup ps
       (case lookup (trim_prefix p ''*.'') of
          None \<Rightarrow> m
        | Some ips \<Rightarrow> addResolved (trim_prefix p ''*.'') ips m)"

definition resolveDomains :: "(gostring \<Rightarrow> addr list option) \<Rightarrow> Chain \<Rightarrow> (addr, gostring) gomap" where
  "resolveDomains lookup c = resolvePatterns lookup (AllowDomainPatterns c) []"

definition refreshDomains :: "(gostring \<Rightarrow> addr list option) \<Rightarrow> AllowList \<Rightarrow> AllowList" where
  "refreshDomains lookup al =
     al\<lparr>al_resolved := resolveDomains lookup (al_chain al)\<rparr>"

definition kickRefresh :: "AllowList \<Rightarrow> AllowList" where
  "kickRefresh al = al\<lparr>al_kick := True\<rparr>"

definition Start :: "(gostring \<Rightarrow> addr list option) \<Rightarrow> AllowList \<Rightarrow> AllowList" where
  "Start lookup al = (refreshDomains lookup al)\<lparr>al_ticking := True\<rparr>"

text \<open>
  The goroutine \<open>Start\<close> spawns: one iteration of its select loop for each channel that can be
  ready. A tick and a kick refresh (a kick is consumed); once the stop channel is closed the
  goroutine may return, and None stands for that.
\<close>

datatype refresh_event = OnTick | OnKick | OnStop

fun refreshLoop ::
  "(gostring \<Rightarrow> addr list option) \<Rightarrow> refresh_event \<Rightarrow> AllowList \<Rightarrow> AllowList option" where
  "refreshLoop lookup OnTick al = Some (refreshDomains lookup al)"
| "refreshLoop lookup OnKick al = Some (refreshDomains lookup (al\<lparr>al_kick := False\<rparr>))"
| "refreshLoop lookup OnStop al = None"

text \<open>Closing the stop channel twice panics (None).\<close>

definition Stop :: "AllowList \<Rightarrow> AllowList option" where
  "Stop al = (if al_stopped al then None else Some (al\<lparr>al_ticking := False, al_stopped := True\<rparr>))"

subsection \<open>Policy changes\<close>

definition keeps_observed :: "Chain \<Rightarrow> addr \<times> gostring \<Rightarrow> bool" where
  "keeps_observed c an \<longleftrightarrow> fst (DecideName c (snd an)) = VerdictAllow"

definition setChainLocked :: "Chain \<Rightarrow> AllowList \<Rightarrow> AllowList" where
  "setChainLocked c al =
     al\<lparr>al_chain := c, al_observed := filter (keeps_observed c) (al_observed al)\<rparr>"

definition SetChain :: "Chain option \<Rightarrow> AllowList \<Rightarrow> AllowList" where
  "SetChain oc al =
     kickRefresh (setChainLocked (case oc of None \<Rightarrow> empty_chain | Some c \<Rightarrow> c) al)"

fun last_origin_idx :: "gostring \<Rightarrow> Block list \<Rightarrow> nat option" where
  "last_origin_idx orig [] = None"
| "last_origin_idx orig (b # bs) =
     (case last_origin_idx orig bs of
        Some i \<Rightarrow> Some (Suc i)
      | None \<Rightarrow> if bk_Origin b = orig then Some 0 else None)"

definition lastCustomIdx :: "Block list \<Rightarrow> nat option" where
  "lastCustomIdx bs = last_origin_idx originCustom bs"

definition customBlock :: Block where
  "customBlock = \<lparr>bk_Origin = originCustom, bk_Name = [], bk_AllowDomains = [],
     bk_DenyDomains = [], bk_AllowIPs = [], bk_DenyIPs = []\<rparr>"

definition editCustom :: "(Block \<Rightarrow> Block) \<Rightarrow> Block list \<Rightarrow> Block list" where
  "editCustom fn bs =
     (case lastCustomIdx bs of
        None \<Rightarrow> bs @ [fn customBlock]
      | Some i \<Rightarrow> bs[i := fn (bs ! i)])"

definition mutateCustomLocked :: "(Block \<Rightarrow> Block) \<Rightarrow> AllowList \<Rightarrow> chain_error + AllowList" where
  "mutateCustomLocked fn al =
     (case NewChain (editCustom fn (ch_blocks (al_chain al))) of
        Inl err \<Rightarrow> Inl err
      | Inr c \<Rightarrow> Inr (setChainLocked c al))"

definition SetPolicy ::
  "gostring list \<Rightarrow> gostring list \<Rightarrow> gostring list \<Rightarrow> AllowList \<Rightarrow> chain_error + AllowList" where
  "SetPolicy ips cidrs domains al =
     (case mutateCustomLocked (\<lambda>b. b\<lparr>bk_AllowDomains := domains, bk_AllowIPs := ips @ cidrs\<rparr>) al of
        Inl err \<Rightarrow> Inl err
      | Inr al' \<Rightarrow> Inr (kickRefresh al'))"

text \<open>An error of the two deny editors is dropped by the code: the list is then unchanged.\<close>

definition cleanDomain :: "gostring \<Rightarrow> gostring" where
  "cleanDomain d = trim_suffix (trim_space d) ''.''"

definition cleanDomains :: "gostring list \<Rightarrow> gostring list" where
  "cleanDomains ds = filter (\<lambda>d. d \<noteq> []) (map cleanDomain ds)"

definition SetDeniedDomains :: "gostring list \<Rightarrow> AllowList \<Rightarrow> AllowList" where
  "SetDeniedDomains domains al =
     (case mutateCustomLocked (\<lambda>b. b\<lparr>bk_DenyDomains := cleanDomains domains\<rparr>) al of
        Inl _ \<Rightarrow> al | Inr al' \<Rightarrow> al')"

definition addDeny :: "gostring \<Rightarrow> Block \<Rightarrow> Block" where
  "addDeny d b =
     (if d \<in> set (bk_DenyDomains b) then b else b\<lparr>bk_DenyDomains := bk_DenyDomains b @ [d]\<rparr>)"

definition denyDomain :: "gostring \<Rightarrow> AllowList \<Rightarrow> AllowList" where
  "denyDomain domain al =
     (if cleanDomain domain = [] then al
      else case mutateCustomLocked (addDeny (cleanDomain domain)) al of Inl _ \<Rightarrow> al | Inr al' \<Rightarrow> al')"

definition DeniedDomains :: "AllowList \<Rightarrow> gostring list" where
  "DeniedDomains al =
     (case lastCustomIdx (ch_blocks (al_chain al)) of
        None \<Rightarrow> [] | Some i \<Rightarrow> bk_DenyDomains (ch_blocks (al_chain al) ! i))"

fun nameUnderAnyDomain :: "gostring list \<Rightarrow> gostring \<Rightarrow> bool" where
  "nameUnderAnyDomain [] name = False"
| "nameUnderAnyDomain (d # ds) name =
     (if name = d \<or> has_suffix name (CHR ''.'' # d) then True else nameUnderAnyDomain ds name)"

subsection \<open>The gate, the bypass, grants\<close>

definition EnableInteractive :: "AllowList \<Rightarrow> AllowList" where
  "EnableInteractive al = al\<lparr>al_gate := True\<rparr>"

definition AllowAllFor :: "instant \<Rightarrow> duration \<Rightarrow> AllowList \<Rightarrow> AllowList" where
  "AllowAllFor now d al = al\<lparr>al_allowAllUntil := (if d \<le> 0 then 0 else now + d)\<rparr>"

definition AllowAllUntil :: "instant \<Rightarrow> AllowList \<Rightarrow> instant" where
  "AllowAllUntil now al =
     (if al_allowAllUntil al = 0 \<or> \<not> now < al_allowAllUntil al then 0 else al_allowAllUntil al)"

definition grant :: "addr \<Rightarrow> AllowList \<Rightarrow> AllowList" where
  "grant ip al = al\<lparr>al_granted := AList.update ip () (al_granted al)\<rparr>"

subsection \<open>The denial ledger\<close>

fun oldestDenial :: "(gostring, Denial) gomap \<Rightarrow> gostring \<Rightarrow> instant \<Rightarrow> gostring" where
  "oldestDenial [] oldest seen = oldest"
| "oldestDenial ((host, d) # ds) oldest seen =
     (if oldest = [] \<or> dn_LastSeen d < seen then oldestDenial ds host (dn_LastSeen d)
      else oldestDenial ds oldest seen)"

definition evictOldestDenialLocked :: "(gostring, Denial) gomap \<Rightarrow> (gostring, Denial) gomap" where
  "evictOldestDenialLocked ds = AList.delete (oldestDenial ds [] 0) ds"

definition denialHost :: "AllowList \<Rightarrow> addr \<Rightarrow> gostring" where
  "denialHost al ip =
     (case map_of (al_lastName al) ip of
        None \<Rightarrow> addr_string ip
      | Some n \<Rightarrow> if n = [] then addr_string ip else n)"

text \<open>The new list, a snapshot of the entry, and whether the host is new (the hook is called).\<close>

definition newDenial :: "gostring \<Rightarrow> instant \<Rightarrow> Denial" where
  "newDenial host now = \<lparr>dn_Host = host, dn_IP = [], dn_Port = [], dn_Count = 0,
     dn_FirstSeen = now, dn_LastSeen = 0, dn_Rule = []\<rparr>"

definition touchDenial :: "addr \<Rightarrow> gostring \<Rightarrow> gostring \<Rightarrow> instant \<Rightarrow> Denial \<Rightarrow> Denial" where
  "touchDenial ip port rule now d =
     d\<lparr>dn_IP := addr_string ip, dn_Port := port, dn_Rule := rule, dn_Count := Suc (dn_Count d),
       dn_LastSeen := now\<rparr>"

definition makeRoom :: "(gostring, Denial) gomap \<Rightarrow> (gostring, Denial) gomap" where
  "makeRoom ds = (if maxDenialHosts \<le> length ds then evictOldestDenialLocked ds else ds)"

definition storeDenial :: "gostring \<Rightarrow> Denial \<Rightarrow> (gostring, Denial) gomap \<Rightarrow> AllowList \<Rightarrow> AllowList" where
  "storeDenial host d ds al = al\<lparr>al_denials := AList.update host d ds\<rparr>"

definition recordDenial ::
  "instant \<Rightarrow> addr \<Rightarrow> gostring \<Rightarrow> gostring \<Rightarrow> AllowList \<Rightarrow> AllowList \<times> Denial \<times> bool" where
  "recordDenial now ip port rule al =
     (case map_of (al_denials al) (denialHost al ip) of
        Some d \<Rightarrow>
          (storeDenial (denialHost al ip) (touchDenial ip port rule now d) (al_denials al) al,
           touchDenial ip port rule now d, False)
      | None \<Rightarrow>
          (storeDenial (denialHost al ip)
             (touchDenial ip port rule now (newDenial (denialHost al ip) now))
             (makeRoom (al_denials al)) al,
           touchDenial ip port rule now (newDenial (denialHost al ip) now), True))"

definition Denials :: "AllowList \<Rightarrow> Denial list" where
  "Denials al = sort_key (\<lambda>d. (- dn_LastSeen d, dn_Host d)) (map snd (al_denials al))"

subsection \<open>The decision\<close>

datatype deny_reason = NotInAllowList | BlockedByDenyList

text \<open>A refusal carries the host when the ledger entry has one that is not the address itself.\<close>

datatype allow_error = NotLiteralIP gostring | Refused "gostring option" addr deny_reason

definition deny :: "instant \<Rightarrow> addr \<Rightarrow> gostring \<Rightarrow> Match option \<Rightarrow> AllowList \<Rightarrow> AllowList \<times> allow_error" where
  "deny now ip port om al =
     (case recordDenial now ip port (case om of None \<Rightarrow> [] | Some m \<Rightarrow> Match_String m) al of
        (al', d, _) \<Rightarrow>
          (al', Refused (if dn_Host d = dn_IP d then None else Some (dn_Host d)) ip
             (case om of None \<Rightarrow> NotInAllowList | Some _ \<Rightarrow> BlockedByDenyList)))"

definition attributedName :: "AllowList \<Rightarrow> addr \<Rightarrow> gostring" where
  "attributedName al ip =
     (case map_of (al_lastName al) ip of
        Some (c # cs) \<Rightarrow> c # cs
      | _ \<Rightarrow> (case map_of (al_resolved al) ip of None \<Rightarrow> [] | Some n \<Rightarrow> n))"

definition bypassed :: "instant \<Rightarrow> AllowList \<Rightarrow> bool" where
  "bypassed now al \<longleftrightarrow> al_allowAllUntil al \<noteq> 0 \<and> now < al_allowAllUntil al"

datatype outcome = Pass | Refuse "Match option" | AskGate gostring

definition allowOutcome :: "instant \<Rightarrow> AllowList \<Rightarrow> addr \<Rightarrow> outcome" where
  "allowOutcome now al ip =
     (if bypassed now al then Pass
      else case DecideAddr (al_chain al) (attributedName al ip) ip of (v, m, byName) \<Rightarrow>
        if byName \<and> v = VerdictDeny then Refuse (Some m)
        else if byName \<and> v = VerdictAllow then Pass
        else if map_of (al_granted al) ip \<noteq> None then Pass
        else if v = VerdictDeny then Refuse (Some m)
        else if v = VerdictAllow then Pass
        else if map_of (al_observed al) ip \<noteq> None \<or> map_of (al_resolved al) ip \<noteq> None then Pass
        else if al_gate al then AskGate (attributedName al ip)
        else Refuse None)"

definition parseDest :: "gostring \<Rightarrow> (addr \<times> gostring) option" where
  "parseDest addr =
     (case SplitHostPort addr of
        Some (host, port) \<Rightarrow> map_option (\<lambda>ip. (unmap ip, port)) (ParseAddr host)
      | None \<Rightarrow> map_option (\<lambda>ip. (unmap ip, [])) (ParseAddr addr))"

text \<open>
  \<open>Allow\<close>: \<open>ask\<close> is what the gate's blocking \<open>Decide\<close> answers (True to allow), \<open>now\<close> the clock at
  the check and \<open>now'\<close> the clock when a refusal is recorded. None is the nil error.
\<close>

definition Allow ::
  "(addr \<Rightarrow> gostring \<Rightarrow> gostring \<Rightarrow> bool) \<Rightarrow> instant \<Rightarrow> instant \<Rightarrow> gostring \<Rightarrow> AllowList \<Rightarrow>
     AllowList \<times> allow_error option" where
  "Allow ask now now' addr al =
     (case parseDest addr of
        None \<Rightarrow> (al, Some (NotLiteralIP addr))
      | Some (ip, port) \<Rightarrow>
          (case allowOutcome now al ip of
             Pass \<Rightarrow> (al, None)
           | Refuse om \<Rightarrow> apsnd Some (deny now' ip port om al)
           | AskGate name \<Rightarrow>
               if ask ip name port then (al, None) else apsnd Some (deny now' ip port None al)))"

definition AllowTCP ::
  "(addr \<Rightarrow> gostring \<Rightarrow> gostring \<Rightarrow> bool) \<Rightarrow> instant \<Rightarrow> instant \<Rightarrow> gostring \<Rightarrow> AllowList \<Rightarrow>
     AllowList \<times> allow_error option" where
  "AllowTCP ask now now' addr al = Allow ask now now' addr al"

definition AllowUDP ::
  "(addr \<Rightarrow> gostring \<Rightarrow> gostring \<Rightarrow> bool) \<Rightarrow> instant \<Rightarrow> instant \<Rightarrow> gostring \<Rightarrow> AllowList \<Rightarrow>
     AllowList \<times> allow_error option" where
  "AllowUDP ask now now' addr al = Allow ask now now' addr al"

definition AllowICMP ::
  "(addr \<Rightarrow> gostring \<Rightarrow> gostring \<Rightarrow> bool) \<Rightarrow> instant \<Rightarrow> instant \<Rightarrow> gostring \<Rightarrow> AllowList \<Rightarrow>
     AllowList \<times> allow_error option" where
  "AllowICMP ask now now' addr al = Allow ask now now' addr al"


definition Size :: "AllowList \<Rightarrow> nat \<times> nat" where
  "Size al =
     (case allowIPCounts (al_chain al) of (exact, npfx) \<Rightarrow>
        (exact + length (al_resolved al) + length (al_observed al) + length (al_granted al), npfx))"

subsection \<open>Observed DNS answers\<close>

definition rememberName :: "addr \<Rightarrow> gostring \<Rightarrow> (addr, gostring) gomap \<Rightarrow> (addr, gostring) gomap" where
  "rememberName ip name m =
     AList.update ip name (if maxObservedNames \<le> length m then [] else m)"

definition observeName :: "gostring \<Rightarrow> addr \<Rightarrow> AllowList \<Rightarrow> AllowList" where
  "observeName name ip al =
     (if fst (DecideName (al_chain al) name) = VerdictAllow
      then al\<lparr>al_lastName := rememberName ip name (al_lastName al),
              al_observed := AList.update ip name (al_observed al)\<rparr>
      else al\<lparr>al_lastName := rememberName ip name (al_lastName al)\<rparr>)"

definition ObserveDNSAnswer :: "gostring \<Rightarrow> 8 word list \<Rightarrow> AllowList \<Rightarrow> AllowList" where
  "ObserveDNSAnswer name ip al =
     (case AddrFromSlice ip of
        None \<Rightarrow> al
      | Some a \<Rightarrow> observeName (trim_suffix name ''.'') (unmap a) al)"

definition ObserveDNS :: "gostring \<Rightarrow> 8 word list \<Rightarrow> AllowList \<Rightarrow> AllowList" where
  "ObserveDNS name ip al = ObserveDNSAnswer name ip al"


section \<open>The invariant\<close>

definition denials_ok :: "(gostring, Denial) gomap \<Rightarrow> bool" where
  "denials_ok ds \<longleftrightarrow>
     map_wf ds \<and> length ds \<le> maxDenialHosts \<and> list_all (\<lambda>(h, d). h \<noteq> [] \<and> dn_Host d = h) ds"

definition chain_ok :: "Chain \<Rightarrow> bool" where
  "chain_ok c \<longleftrightarrow> NewChain (ch_blocks c) = Inr c"

definition al_inv :: "AllowList \<Rightarrow> bool" where
  "al_inv al \<longleftrightarrow>
     chain_ok (al_chain al) \<and>
     map_wf (al_resolved al) \<and> map_wf (al_observed al) \<and> map_wf (al_granted al) \<and>
     map_wf (al_lastName al) \<and> length (al_lastName al) \<le> maxObservedNames \<and>
     list_all (keeps_observed (al_chain al)) (al_observed al) \<and>
     denials_ok (al_denials al)"

text \<open>
  One step of the list: every operation that changes it, with any clock, any resolver and any
  argument. Chains are only built by \<open>NewChain\<close> (their fields are not exported).
\<close>

inductive al_step :: "AllowList \<Rightarrow> AllowList \<Rightarrow> bool" where
  start: "al_step al (Start lookup al)"
| loop: "refreshLoop lookup ev al = Some al' \<Longrightarrow> al_step al al'"
| stop: "Stop al = Some al' \<Longrightarrow> al_step al al'"
| set_chain: "NewChain bs = Inr c \<Longrightarrow> al_step al (SetChain (Some c) al)"
| set_nil: "al_step al (SetChain None al)"
| set_policy: "SetPolicy ips cidrs domains al = Inr al' \<Longrightarrow> al_step al al'"
| set_denied: "al_step al (SetDeniedDomains domains al)"
| deny_domain: "al_step al (denyDomain domain al)"
| interactive: "al_step al (EnableInteractive al)"
| allow_all: "al_step al (AllowAllFor now d al)"
| grant_ip: "al_step al (grant ip al)"
| observe: "al_step al (ObserveDNSAnswer name ip al)"
| allow: "al_step al (fst (Allow ask now now' dest al))"
| refresh_late: "al_step al (al\<lparr>al_resolved := resolveDomains lookup c\<rparr>)"
| refuse_late: "al_step al (fst (deny now ip port om al))"

definition al_init :: "AllowList \<Rightarrow> bool" where
  "al_init al \<longleftrightarrow> al = NewAllowListFromChain None \<or>
     (\<exists>bs c. NewChain bs = Inr c \<and> al = NewAllowListFromChain (Some c))"

section \<open>Lemmas\<close>

subsection \<open>Chains and the custom block\<close>

lemma NewChain_blocks: "NewChain bs = Inr c \<Longrightarrow> ch_blocks c = bs"
  by (auto simp: NewChain_iff)

lemma NewChain_chain_ok: "NewChain bs = Inr c \<Longrightarrow> chain_ok c"
  using NewChain_blocks by (auto simp: chain_ok_def)

lemma chain_ok_empty [simp]: "chain_ok empty_chain"
  by (simp add: chain_ok_def empty_chain_def NewChain_def)

lemma last_origin_idx_Some:
  "last_origin_idx orig bs = Some i \<Longrightarrow> i < length bs \<and> bk_Origin (bs ! i) = orig"
  by (induction bs arbitrary: i) (auto split: option.splits if_splits)

lemma chain_ok_blocks: "chain_ok c \<Longrightarrow> \<forall>b \<in> set (ch_blocks c). block_ok b"
  by (auto simp: chain_ok_def NewChain_iff)

text \<open>An edit that leaves the address entries alone always compiles.\<close>

lemma editCustom_blocks_ok:
  assumes "\<forall>b \<in> set bs. block_ok b" and "\<And>b. block_ok b \<Longrightarrow> block_ok (fn b)"
  shows "\<forall>b \<in> set (editCustom fn bs). block_ok b"
proof (cases "lastCustomIdx bs")
  case None
  have "block_ok customBlock" by (simp add: block_ok_def customBlock_def)
  with None assms show ?thesis by (simp add: editCustom_def)
next
  case (Some i)
  then have "i < length bs" by (auto simp: lastCustomIdx_def dest: last_origin_idx_Some)
  with Some assms show ?thesis
    by (auto simp: editCustom_def dest!: set_update_subset_insert [THEN subsetD])
qed

lemma mutateCustom_succeeds:
  assumes "chain_ok (al_chain al)" and "\<And>b. block_ok b \<Longrightarrow> block_ok (fn b)"
  shows "\<exists>c. NewChain (editCustom fn (ch_blocks (al_chain al))) = Inr c \<and>
           mutateCustomLocked fn al = Inr (setChainLocked c al)"
proof -
  from assms have "\<forall>b \<in> set (editCustom fn (ch_blocks (al_chain al))). block_ok b"
    by (intro editCustom_blocks_ok chain_ok_blocks)
  then obtain c where "NewChain (editCustom fn (ch_blocks (al_chain al))) = Inr c"
    using NewChain_iff by blast
  then show ?thesis by (simp add: mutateCustomLocked_def)
qed

subsection \<open>The ledger\<close>

lemma oldestDenial_incumbent:
  assumes "list_all (\<lambda>(h, d). h \<noteq> []) ds" and "old \<noteq> []"
  shows "(oldestDenial ds old s = old \<and> (\<forall>(h, e) \<in> set ds. s \<le> dn_LastSeen e)) \<or>
    (\<exists>d. (oldestDenial ds old s, d) \<in> set ds \<and> dn_LastSeen d < s \<and>
         (\<forall>(h, e) \<in> set ds. dn_LastSeen d \<le> dn_LastSeen e))"
  using assms
proof (induction ds arbitrary: old s)
  case Nil
  then show ?case by simp
next
  case (Cons p ds)
  obtain h d where p: "p = (h, d)" by fastforce
  show ?case
  proof (cases "dn_LastSeen d < s")
    case True
    with Cons.IH [of h "dn_LastSeen d"] Cons.prems show ?thesis
      by (auto simp: p)
  next
    case False
    with Cons.IH [of old s] Cons.prems show ?thesis
      by (auto simp: p)
  qed
qed

lemma oldestDenial_spec:
  assumes "list_all (\<lambda>(h, d). h \<noteq> []) ds" and "ds \<noteq> []"
  shows "\<exists>d. (oldestDenial ds [] 0, d) \<in> set ds \<and> (\<forall>(h, e) \<in> set ds. dn_LastSeen d \<le> dn_LastSeen e)"
proof -
  from assms(2) obtain h d ds' where ds: "ds = (h, d) # ds'" by (cases ds) auto
  with assms(1) oldestDenial_incumbent [of ds' h "dn_LastSeen d"] show ?thesis
    by auto
qed

lemma denials_ok_entries: "denials_ok ds \<Longrightarrow> list_all (\<lambda>(h, d). h \<noteq> []) ds"
  by (auto simp: denials_ok_def list_all_iff)

lemma oldestDenial_present:
  assumes "denials_ok ds" and "ds \<noteq> []"
  shows "map_of ds (oldestDenial ds [] 0) \<noteq> None"
proof -
  from oldestDenial_spec [OF denials_ok_entries [OF assms(1)] assms(2)]
  obtain d where "(oldestDenial ds [] 0, d) \<in> set ds" by blast
  then show ?thesis by (auto simp: map_of_eq_None_iff image_iff intro!: bexI)
qed

lemma makeRoom_bound:
  assumes "denials_ok ds"
  shows "length (AList.update h d (makeRoom ds)) \<le> maxDenialHosts"
proof (cases "maxDenialHosts \<le> length ds")
  case True
  then have "ds \<noteq> []" by (auto simp: maxDenialHosts_def)
  with assms True show ?thesis
    by (simp add: makeRoom_def evictOldestDenialLocked_def denials_ok_def alist.evict_upd
        oldestDenial_present [OF assms])
next
  case False
  with assms show ?thesis
    using alist.capped_upd [of ds maxDenialHosts h d] by (simp add: makeRoom_def denials_ok_def)
qed

lemma set_update_subset: "set (AList.update k v m) \<subseteq> insert (k, v) (set m)"
  by (induction m) auto

lemma set_makeRoom: "set (makeRoom ds) \<subseteq> set ds"
  by (auto simp: makeRoom_def evictOldestDenialLocked_def AList.delete_eq)

lemma map_wf_makeRoom: "map_wf ds \<Longrightarrow> map_wf (makeRoom ds)"
  by (simp add: makeRoom_def evictOldestDenialLocked_def)

lemma denials_ok_update_new:
  assumes "denials_ok ds" and "h \<noteq> []" and "dn_Host d = h"
  shows "denials_ok (AList.update h d (makeRoom ds))"
  using assms makeRoom_bound [OF assms(1), of h d] set_update_subset [of h d "makeRoom ds"]
    set_makeRoom [of ds]
  by (fastforce simp: denials_ok_def list_all_iff map_wf_makeRoom)

lemma denials_ok_update_old:
  assumes "denials_ok ds" and "map_of ds h = Some e" and "dn_Host d = h"
  shows "denials_ok (AList.update h d ds)"
proof -
  from assms(1,2) have "h \<noteq> []" by (auto simp: denials_ok_def list_all_iff dest: map_of_SomeD)
  with assms set_update_subset [of h d ds] show ?thesis
    by (fastforce simp: denials_ok_def list_all_iff length_update_old)
qed

lemma denialHost_nonempty [simp]: "denialHost al ip \<noteq> []"
  by (simp add: denialHost_def split: option.splits)

lemma dn_Host_touch [simp]: "dn_Host (touchDenial ip port rule now d) = dn_Host d"
  by (simp add: touchDenial_def)

lemma dn_Host_new [simp]: "dn_Host (newDenial h now) = h"
  by (simp add: newDenial_def)

lemma recordDenial_denials:
  "denials_ok (al_denials al) \<Longrightarrow> denials_ok (al_denials (fst (recordDenial now ip port rule al)))"
proof (cases "map_of (al_denials al) (denialHost al ip)")
  case (Some d)
  assume ok: "denials_ok (al_denials al)"
  with Some have "dn_Host d = denialHost al ip"
    by (auto simp: denials_ok_def list_all_iff dest: map_of_SomeD)
  with ok Some show ?thesis
    by (simp add: recordDenial_def storeDenial_def denials_ok_update_old)
qed (simp add: recordDenial_def storeDenial_def denials_ok_update_new)

lemma recordDenial_frame:
  "\<exists>ds. fst (recordDenial now ip port rule al) = al\<lparr>al_denials := ds\<rparr>"
  by (auto simp: recordDenial_def storeDenial_def split: option.splits)

lemma fst_deny:
  "fst (deny now ip port om al) =
     fst (recordDenial now ip port (case om of None \<Rightarrow> [] | Some m \<Rightarrow> Match_String m) al)"
  by (simp add: deny_def split: prod.splits)

subsection \<open>Every operation keeps the invariant\<close>

lemma map_wf_addResolved: "map_wf m \<Longrightarrow> map_wf (addResolved h ips m)"
  by (induction h ips m rule: addResolved.induct) simp_all

lemma map_wf_resolvePatterns: "map_wf m \<Longrightarrow> map_wf (resolvePatterns lookup ps m)"
  by (induction lookup ps m rule: resolvePatterns.induct)
    (simp add: map_wf_addResolved split: option.split)+

lemma map_wf_resolveDomains [simp]: "map_wf (resolveDomains lookup c)"
  by (simp add: resolveDomains_def map_wf_resolvePatterns)

lemma inv_resolved [inv_intros]:
  "al_inv al \<Longrightarrow> map_wf r \<Longrightarrow> al_inv (al\<lparr>al_resolved := r\<rparr>)"
  by (simp add: al_inv_def)

lemma inv_control [inv_intros]:
  "al_inv al \<Longrightarrow> al_inv (al\<lparr>al_kick := k\<rparr>)"
  "al_inv al \<Longrightarrow> al_inv (al\<lparr>al_ticking := t\<rparr>)"
  "al_inv al \<Longrightarrow> al_inv (al\<lparr>al_stopped := st\<rparr>)"
  "al_inv al \<Longrightarrow> al_inv (al\<lparr>al_gate := g\<rparr>)"
  "al_inv al \<Longrightarrow> al_inv (al\<lparr>al_allowAllUntil := u\<rparr>)"
  by (simp_all add: al_inv_def)

lemma inv_denials [inv_intros]:
  "al_inv al \<Longrightarrow> denials_ok ds \<Longrightarrow> al_inv (al\<lparr>al_denials := ds\<rparr>)"
  by (simp add: al_inv_def)

lemma inv_setChainLocked [inv_intros]:
  "al_inv al \<Longrightarrow> chain_ok c \<Longrightarrow> al_inv (setChainLocked c al)"
  by (simp add: al_inv_def setChainLocked_def map_wf_filter list_all_iff)

lemma inv_refresh [inv_intros]: "al_inv al \<Longrightarrow> al_inv (refreshDomains lookup al)"
  by (simp add: refreshDomains_def inv_intros)

lemma inv_refreshLoop:
  assumes "al_inv al" and "refreshLoop lookup ev al = Some al'" shows "al_inv al'"
  using assms by (cases ev) (auto intro: inv_intros)

lemma inv_SetChain:
  "al_inv al \<Longrightarrow> al_inv (SetChain None al)"
  "al_inv al \<Longrightarrow> chain_ok c \<Longrightarrow> al_inv (SetChain (Some c) al)"
  by (simp_all add: SetChain_def kickRefresh_def inv_intros)

lemma inv_mutateCustom:
  assumes "al_inv al" and "mutateCustomLocked fn al = Inr al'" shows "al_inv al'"
proof -
  from assms(2) obtain c where "NewChain (editCustom fn (ch_blocks (al_chain al))) = Inr c"
    and al': "al' = setChainLocked c al"
    by (auto simp: mutateCustomLocked_def split: sum.splits)
  then have "chain_ok c" by (auto intro: NewChain_chain_ok)
  with assms(1) show ?thesis by (simp add: al' inv_intros)
qed

lemma inv_SetPolicy:
  assumes "al_inv al" and "SetPolicy ips cidrs domains al = Inr al'" shows "al_inv al'"
  using assms inv_mutateCustom [OF assms(1)]
  by (auto simp: SetPolicy_def kickRefresh_def intro: inv_intros split: sum.splits)

lemma inv_deny_editors:
  assumes "al_inv al"
  shows "al_inv (SetDeniedDomains domains al)" and "al_inv (denyDomain domain al)"
  using assms inv_mutateCustom [OF assms]
  by (auto simp: SetDeniedDomains_def denyDomain_def split: sum.splits)

lemma inv_grant: "al_inv al \<Longrightarrow> al_inv (grant ip al)"
  by (simp add: al_inv_def grant_def)

lemma rememberName_ok:
  assumes "map_wf m" and "length m \<le> maxObservedNames"
  shows "map_wf (rememberName ip name m)" and "length (rememberName ip name m) \<le> maxObservedNames"
  using assms alist.capped_upd [of m maxObservedNames ip name]
  by (auto simp: rememberName_def maxObservedNames_def)

lemma list_all_update:
  "list_all P m \<Longrightarrow> P (k, v) \<Longrightarrow> list_all P (AList.update k v m)"
  using set_update_subset [of k v m] by (auto simp: list_all_iff)

lemma inv_observeName:
  assumes "al_inv al" shows "al_inv (observeName name ip al)"
  using assms
  by (auto simp: al_inv_def observeName_def rememberName_ok keeps_observed_def intro: list_all_update)

lemma inv_ObserveDNSAnswer: "al_inv al \<Longrightarrow> al_inv (ObserveDNSAnswer name ip al)"
  by (simp add: ObserveDNSAnswer_def inv_observeName split: option.split)

lemma inv_recordDenial:
  assumes "al_inv al" shows "al_inv (fst (recordDenial now ip port rule al))"
proof -
  obtain ds where ds: "fst (recordDenial now ip port rule al) = al\<lparr>al_denials := ds\<rparr>"
    using recordDenial_frame by blast
  have "denials_ok (al_denials al)" using assms by (simp add: al_inv_def)
  from recordDenial_denials [OF this, of now ip port rule] have "denials_ok ds" by (simp add: ds)
  with assms show ?thesis by (simp add: ds inv_intros)
qed

lemma inv_deny: "al_inv al \<Longrightarrow> al_inv (fst (deny now ip port om al))"
  by (simp add: fst_deny inv_recordDenial)

lemma inv_Allow: "al_inv al \<Longrightarrow> al_inv (fst (Allow ask now now' dest al))"
  by (simp add: Allow_def inv_deny split: option.split prod.split outcome.split)

lemma inv_NewAllowListFromChain:
  "chain_ok (case oc of None \<Rightarrow> empty_chain | Some c \<Rightarrow> c) \<Longrightarrow> al_inv (NewAllowListFromChain oc)"
  by (simp add: al_inv_def NewAllowListFromChain_def denials_ok_def)

interpretation acl_sys: inv_system al_init al_step al_inv
proof
  fix s assume "al_init s"
  then show "al_inv s"
    by (auto simp: al_init_def intro!: inv_NewAllowListFromChain intro: NewChain_chain_ok)
next
  fix s t assume "al_inv s" and "al_step s t"
  from this(2,1) show "al_inv t"
    by (induction rule: al_step.induct)
      (auto simp: Start_def EnableInteractive_def AllowAllFor_def Stop_def
        intro: inv_intros inv_refreshLoop inv_SetChain inv_SetPolicy inv_deny_editors inv_grant
          inv_ObserveDNSAnswer inv_Allow inv_deny NewChain_chain_ok split: if_splits)
qed

subsection \<open>The filter interface\<close>

text \<open>
  The hooks the network stack drives (\<open>machine.Filter\<close>): three that ask and one that reports a DNS
  answer. A call to an asking hook has a context: the clock and the gate's answer. What a client of
  the interface relies on is that the hooks keep the invariant and never touch the policy; a whole
  session of guest traffic then does neither.
\<close>

datatype 'c hook =
    HookTCP 'c gostring | HookUDP 'c gostring | HookICMP 'c gostring
  | HookDNS gostring "8 word list"

fun run_hook ::
  "('c \<Rightarrow> gostring \<Rightarrow> 's \<Rightarrow> 's \<times> 'e option) \<Rightarrow> ('c \<Rightarrow> gostring \<Rightarrow> 's \<Rightarrow> 's \<times> 'e option) \<Rightarrow>
   ('c \<Rightarrow> gostring \<Rightarrow> 's \<Rightarrow> 's \<times> 'e option) \<Rightarrow> (gostring \<Rightarrow> 8 word list \<Rightarrow> 's \<Rightarrow> 's) \<Rightarrow>
   'c hook \<Rightarrow> 's \<Rightarrow> 's" where
  "run_hook tcp udp icmp observe (HookTCP c d) s = fst (tcp c d s)"
| "run_hook tcp udp icmp observe (HookUDP c d) s = fst (udp c d s)"
| "run_hook tcp udp icmp observe (HookICMP c d) s = fst (icmp c d s)"
| "run_hook tcp udp icmp observe (HookDNS n ip) s = observe n ip s"

locale egress_filter =
  fixes tcp :: "'c \<Rightarrow> gostring \<Rightarrow> 's \<Rightarrow> 's \<times> 'e option"
    and udp :: "'c \<Rightarrow> gostring \<Rightarrow> 's \<Rightarrow> 's \<times> 'e option"
    and icmp :: "'c \<Rightarrow> gostring \<Rightarrow> 's \<Rightarrow> 's \<times> 'e option"
    and observe :: "gostring \<Rightarrow> 8 word list \<Rightarrow> 's \<Rightarrow> 's"
    and inv :: "'s \<Rightarrow> bool"
    and policy :: "'s \<Rightarrow> 'p"
  assumes tcp_inv: "inv s \<Longrightarrow> inv (fst (tcp c d s))"
    and udp_inv: "inv s \<Longrightarrow> inv (fst (udp c d s))"
    and icmp_inv: "inv s \<Longrightarrow> inv (fst (icmp c d s))"
    and observe_inv: "inv s \<Longrightarrow> inv (observe n ip s)"
    and tcp_policy: "policy (fst (tcp c d s)) = policy s"
    and udp_policy: "policy (fst (udp c d s)) = policy s"
    and icmp_policy: "policy (fst (icmp c d s)) = policy s"
    and observe_policy: "policy (observe n ip s) = policy s"
begin

lemma session_inv: "inv s \<Longrightarrow> inv (fold (run_hook tcp udp icmp observe) hs s)"
proof (induction hs arbitrary: s)
  case (Cons h hs)
  then show ?case by (cases h) (simp_all add: tcp_inv udp_inv icmp_inv observe_inv)
qed simp

lemma session_policy: "policy (fold (run_hook tcp udp icmp observe) hs s) = policy s"
proof (induction hs arbitrary: s)
  case (Cons h hs)
  then show ?case by (cases h) (simp_all add: tcp_policy udp_policy icmp_policy observe_policy)
qed simp

end

type_synonym ask_ctx = "(addr \<Rightarrow> gostring \<Rightarrow> gostring \<Rightarrow> bool) \<times> instant \<times> instant"

definition tcp_hook :: "ask_ctx \<Rightarrow> gostring \<Rightarrow> AllowList \<Rightarrow> AllowList \<times> allow_error option" where
  "tcp_hook c d al = (case c of (ask, now, now') \<Rightarrow> AllowTCP ask now now' d al)"

definition udp_hook :: "ask_ctx \<Rightarrow> gostring \<Rightarrow> AllowList \<Rightarrow> AllowList \<times> allow_error option" where
  "udp_hook c d al = (case c of (ask, now, now') \<Rightarrow> AllowUDP ask now now' d al)"

definition icmp_hook :: "ask_ctx \<Rightarrow> gostring \<Rightarrow> AllowList \<Rightarrow> AllowList \<times> allow_error option" where
  "icmp_hook c d al = (case c of (ask, now, now') \<Rightarrow> AllowICMP ask now now' d al)"

text \<open>What the operator and the human control.\<close>

definition al_policy :: "AllowList \<Rightarrow> Chain \<times> (addr, unit) gomap \<times> instant \<times> bool" where
  "al_policy al = (al_chain al, al_granted al, al_allowAllUntil al, al_gate al)"

lemma Allow_frame: "\<exists>ds. fst (Allow ask now now' dest al) = al\<lparr>al_denials := ds\<rparr>"
proof -
  have "\<exists>ds. al = al\<lparr>al_denials := ds\<rparr>" by (rule exI [of _ "al_denials al"]) simp
  then show ?thesis
    using recordDenial_frame
    by (auto simp: Allow_def fst_deny split: option.split prod.split outcome.split)
qed

lemma Allow_policy: "al_policy (fst (Allow ask now now' dest al)) = al_policy al"
  using Allow_frame [of ask now now' dest al] by (auto simp: al_policy_def)

lemma ObserveDNS_policy: "al_policy (ObserveDNS name ip al) = al_policy al"
  by (simp add: ObserveDNS_def ObserveDNSAnswer_def observeName_def al_policy_def split: option.split)

lemmas filter_hook_defs = tcp_hook_def udp_hook_def icmp_hook_def AllowTCP_def AllowUDP_def AllowICMP_def

interpretation acl: egress_filter tcp_hook udp_hook icmp_hook ObserveDNS al_inv al_policy
  by unfold_locales
    (simp_all add: filter_hook_defs ObserveDNS_def inv_Allow inv_ObserveDNSAnswer Allow_policy
      ObserveDNS_policy [unfolded ObserveDNS_def] split: prod.split)

subsection \<open>Effects of the operations\<close>

lemma DecideAddr_cases:
  obtains v m k where "DecideAddr c name ip = (v, m, k)"
  by (metis prod_cases3)

lemma setChainLocked_sel [simp]:
  "al_chain (setChainLocked c al) = c" "al_resolved (setChainLocked c al) = al_resolved al"
  "al_granted (setChainLocked c al) = al_granted al" "al_gate (setChainLocked c al) = al_gate al"
  "al_allowAllUntil (setChainLocked c al) = al_allowAllUntil al"
  "al_lastName (setChainLocked c al) = al_lastName al" "al_denials (setChainLocked c al) = al_denials al"
  by (simp_all add: setChainLocked_def)

lemma map_of_addResolved:
  "map_of (addResolved h ips m) ip = (if ip \<in> unmap ` set ips then Some h else map_of m ip)"
  by (induction h ips m rule: addResolved.induct) (auto simp: update_conv')

lemma map_of_resolvePatterns_None:
  "map_of (resolvePatterns lookup ps m) ip = None \<longleftrightarrow>
     map_of m ip = None \<and> (\<forall>p \<in> set ps. \<forall>ips. lookup (trim_prefix p ''*.'') = Some ips \<longrightarrow> ip \<notin> unmap ` set ips)"
  by (induction lookup ps m rule: resolvePatterns.induct)
    (auto simp: map_of_addResolved split: option.splits)

lemma map_of_resolvePatterns_Some:
  "map_of (resolvePatterns lookup ps m) ip = Some h \<Longrightarrow>
     map_of m ip = Some h \<or>
     (\<exists>p \<in> set ps. \<exists>ips. h = trim_prefix p ''*.'' \<and> lookup h = Some ips \<and> ip \<in> unmap ` set ips)"
proof (induction lookup ps m rule: resolvePatterns.induct)
  case (2 lookup p ps m)
  from "2.IH" [OF "2.prems" [unfolded resolvePatterns.simps]] show ?case
    by (auto simp: map_of_addResolved split: option.splits if_splits)
qed simp

lemma recordDenial_entry:
  assumes "recordDenial now ip port rule al = (al', d, new)"
  shows "map_of (al_denials al') (denialHost al ip) = Some d" and "dn_LastSeen d = now"
    and "dn_Rule d = rule" and "dn_IP d = addr_string ip" and "dn_Port d = port"
    and "dn_Count d = (case map_of (al_denials al) (denialHost al ip) of None \<Rightarrow> 1 | Some e \<Rightarrow> Suc (dn_Count e))"
    and "new \<longleftrightarrow> map_of (al_denials al) (denialHost al ip) = None"
  using assms
  by (auto simp: recordDenial_def storeDenial_def update_conv' touchDenial_def newDenial_def
      split: option.splits)

text \<open>Recording a refusal keeps every other entry of the ledger but the evicted one.\<close>

lemma recordDenial_others:
  assumes "h \<noteq> denialHost al ip"
    and "\<not> (map_of (al_denials al) (denialHost al ip) = None \<and> maxDenialHosts \<le> length (al_denials al) \<and>
           h = oldestDenial (al_denials al) [] 0)"
  shows "map_of (al_denials (fst (recordDenial now ip port rule al))) h = map_of (al_denials al) h"
  using assms
  by (auto simp: recordDenial_def storeDenial_def makeRoom_def evictOldestDenialLocked_def update_conv'
      delete_conv' split: option.splits)

lemma recordDenial_evicts_oldest:
  assumes ok: "denials_ok (al_denials al)" and rec: "recordDenial now ip port rule al = (al', d, new)"
  shows "\<forall>h e. h \<noteq> denialHost al ip \<and> map_of (al_denials al) h = Some e \<and> map_of (al_denials al') h \<noteq> Some e \<longrightarrow>
    length (al_denials al) = 256 \<and> (\<forall>(h', e') \<in> set (al_denials al). dn_LastSeen e \<le> dn_LastSeen e')"
proof (intro allI impI, elim conjE)
  fix h e
  assume h: "h \<noteq> denialHost al ip" "map_of (al_denials al) h = Some e" "map_of (al_denials al') h \<noteq> Some e"
  from h recordDenial_others [OF h(1), of now port rule]
  have full: "maxDenialHosts \<le> length (al_denials al)" and old: "h = oldestDenial (al_denials al) [] 0"
    by (auto simp: rec)
  then have "al_denials al \<noteq> []" by (auto simp: maxDenialHosts_def)
  from oldestDenial_spec [OF denials_ok_entries [OF ok] this] obtain f where
    "(h, f) \<in> set (al_denials al)" "\<forall>(h', e') \<in> set (al_denials al). dn_LastSeen f \<le> dn_LastSeen e'"
    by (auto simp: old)
  moreover from this(1) h(2) ok have "f = e" by (simp add: denials_ok_def map_wf_def)
  ultimately show "length (al_denials al) = 256 \<and>
      (\<forall>(h', e') \<in> set (al_denials al). dn_LastSeen e \<le> dn_LastSeen e')"
    using full ok by (simp add: denials_ok_def maxDenialHosts_def)
qed

lemma apsnd_Some_eq: "apsnd Some x = (a, Some b) \<longleftrightarrow> x = (a, b)"
  by (cases x) simp

lemma deny_ip: "deny now ip port om al = (al', Refused who ip' r) \<Longrightarrow> ip' = ip"
  by (auto simp: deny_def split: prod.splits)

lemma Allow_refused:
  assumes "Allow ask now now' dest al = (al', Some (Refused who ip r))"
  shows "\<exists>port om. parseDest dest = Some (ip, port) \<and> deny now' ip port om al = (al', Refused who ip r)"
proof -
  from assms obtain ip' port where "parseDest dest = Some (ip', port)"
    by (auto simp: Allow_def split: option.splits)
  moreover from this assms obtain om where "deny now' ip' port om al = (al', Refused who ip r)"
    by (auto simp: Allow_def apsnd_Some_eq split: outcome.splits if_splits)
  moreover from this have "ip = ip'" by (rule deny_ip)
  ultimately show ?thesis by blast
qed

lemma editCustom_idx:
  assumes "lastCustomIdx bs = Some i" and "bk_Origin (fn (bs ! i)) = originCustom"
  shows "lastCustomIdx (bs[i := fn (bs ! i)]) = Some i"
  using assms
proof (induction bs arbitrary: i)
  case (Cons b bs)
  then show ?case
    by (auto simp: lastCustomIdx_def split: option.splits if_splits nat.splits)
qed (simp add: lastCustomIdx_def)

lemma last_origin_idx_snoc:
  "last_origin_idx orig (bs @ [b]) = (if bk_Origin b = orig then Some (length bs) else last_origin_idx orig bs)"
  by (induction bs) (auto split: option.splits)

lemma custom_after_edit:
  assumes "\<And>b. bk_Origin (fn b) = bk_Origin b"
  shows "\<exists>i. lastCustomIdx (editCustom fn bs) = Some i \<and>
    editCustom fn bs ! i = fn (case lastCustomIdx bs of None \<Rightarrow> customBlock | Some i \<Rightarrow> bs ! i)"
proof (cases "lastCustomIdx bs")
  case None
  have "bk_Origin (fn customBlock) = originCustom" by (simp add: assms customBlock_def)
  with None show ?thesis
    by (simp add: editCustom_def lastCustomIdx_def last_origin_idx_snoc)
next
  case (Some i)
  then have i: "i < length bs" "bk_Origin (bs ! i) = originCustom"
    by (auto simp: lastCustomIdx_def dest: last_origin_idx_Some)
  then have "bk_Origin (fn (bs ! i)) = originCustom" by (simp add: assms)
  with Some i editCustom_idx [OF Some] show ?thesis by (simp add: editCustom_def)
qed

lemma al_inv_chain_ok: "al_inv al \<Longrightarrow> chain_ok (al_chain al)"
  by (simp add: al_inv_def)

text \<open>The deny editors never hit the error the code drops.\<close>

lemma mutateCustom_deny:
  assumes "al_inv al" and "\<And>b. block_ok b \<Longrightarrow> block_ok (fn b)"
  obtains c where "mutateCustomLocked fn al = Inr (setChainLocked c al)"
    and "NewChain (editCustom fn (ch_blocks (al_chain al))) = Inr c"
    and "ch_blocks c = editCustom fn (ch_blocks (al_chain al))"
  using mutateCustom_succeeds [of al fn, OF al_inv_chain_ok [OF assms(1)] assms(2)] NewChain_blocks
  by blast

lemma addDeny_ok: "block_ok b \<Longrightarrow> block_ok (addDeny d b)"
  by (simp add: addDeny_def block_ok_def)

lemma addDeny_sel [simp]:
  "bk_Origin (addDeny d b) = bk_Origin b" "bk_AllowDomains (addDeny d b) = bk_AllowDomains b"
  "set (bk_DenyDomains (addDeny d b)) = insert d (set (bk_DenyDomains b))"
  by (auto simp: addDeny_def)

lemma DeniedDomains_edit:
  assumes "ch_blocks (al_chain al') = editCustom fn (ch_blocks (al_chain al))"
    and "\<And>b. bk_Origin (fn b) = bk_Origin b"
  shows "DeniedDomains al' = bk_DenyDomains (fn (case lastCustomIdx (ch_blocks (al_chain al)) of
     None \<Rightarrow> customBlock | Some i \<Rightarrow> ch_blocks (al_chain al) ! i))"
  using custom_after_edit [OF assms(2), of "ch_blocks (al_chain al)"] assms(1)
  by (auto simp: DeniedDomains_def)

lemma DeniedDomains_custom:
  "DeniedDomains al = bk_DenyDomains (case lastCustomIdx (ch_blocks (al_chain al)) of
     None \<Rightarrow> customBlock | Some i \<Rightarrow> ch_blocks (al_chain al) ! i)"
  by (simp add: DeniedDomains_def customBlock_def split: option.split)

lemma setChainLocked_view [simp]:
  "attributedName (setChainLocked c al) ip = attributedName al ip"
  "bypassed now (setChainLocked c al) = bypassed now al"
  by (simp_all add: attributedName_def bypassed_def split: option.split list.split)

lemma denyDomain_chain:
  assumes "al_inv al" and "cleanDomain domain \<noteq> []"
  shows "\<exists>c. denyDomain domain al = setChainLocked c al \<and>
    NewChain (editCustom (addDeny (cleanDomain domain)) (ch_blocks (al_chain al))) = Inr c"
proof -
  obtain c where "mutateCustomLocked (addDeny (cleanDomain domain)) al = Inr (setChainLocked c al)"
    and "NewChain (editCustom (addDeny (cleanDomain domain)) (ch_blocks (al_chain al))) = Inr c"
    by (rule mutateCustom_deny [OF assms(1) addDeny_ok])
  with assms(2) show ?thesis by (auto simp: denyDomain_def)
qed

lemma SetDeniedDomains_chain:
  assumes "al_inv al"
  shows "\<exists>c. SetDeniedDomains domains al = setChainLocked c al \<and>
    NewChain (editCustom (\<lambda>b. b\<lparr>bk_DenyDomains := cleanDomains domains\<rparr>) (ch_blocks (al_chain al))) = Inr c"
proof -
  have "block_ok b \<Longrightarrow> block_ok (b\<lparr>bk_DenyDomains := cleanDomains domains\<rparr>)" for b
    by (simp add: block_ok_def)
  from mutateCustom_succeeds [of al "\<lambda>b. b\<lparr>bk_DenyDomains := cleanDomains domains\<rparr>",
      OF al_inv_chain_ok [OF assms] this] show ?thesis
    by (auto simp: SetDeniedDomains_def)
qed

lemma map_of_filter_keep:
  assumes "map_wf m"
  shows "map_of (filter P m) k = Some v \<longleftrightarrow> map_of m k = Some v \<and> P (k, v)"
  using assms by (induction m) (auto simp: map_wf_def map_of_eq_None_iff image_iff dest: map_of_SomeD)

lemma Allow_table:
  "snd (Allow ask now now' dest al) = None \<longleftrightarrow>
     (\<exists>ip port. parseDest dest = Some (ip, port) \<and>
        (bypassed now al \<or>
         (\<exists>v m k. DecideAddr (al_chain al) (attributedName al ip) ip = (v, m, k) \<and>
            (v = VerdictAllow \<or>
             v = VerdictDeny \<and> \<not> k \<and> map_of (al_granted al) ip = Some () \<or>
             v = VerdictNone \<and>
               (map_of (al_granted al) ip = Some () \<or> ip \<in> dom (map_of (al_observed al)) \<or>
                ip \<in> dom (map_of (al_resolved al)) \<or>
                al_gate al \<and> ask ip (attributedName al ip) port)))))"
proof (cases "parseDest dest")
  case None
  then show ?thesis by (simp add: Allow_def)
next
  case (Some p)
  then obtain ip port where p: "parseDest dest = Some (ip, port)" by (cases p) auto
  obtain v m k where d: "DecideAddr (al_chain al) (attributedName al ip) ip = (v, m, k)"
    by (rule DecideAddr_cases)
  show ?thesis
    by (cases v) (auto simp: Allow_def p allowOutcome_def d)
qed

section \<open>Properties\<close>

text \<open>
  C1: Over every interleaving of operations, with any clock, resolver, gate answers and arguments:
  the denial ledger stays within its cap and has one entry per host, filed under its own host; the
  attribution map stays within its cap; the installed chain is one the compiler accepted; and every
  observed address is held for a name the installed chain allows right now, so a policy change can
  never leave a stale observed justification behind.
\<close>

theorem acl_reachable_safe:
  assumes "reach al_init al_step al"
  shows "length (al_denials al) \<le> 256 \<and> distinct (map fst (al_denials al)) \<and>
    (\<forall>(h, d) \<in> set (al_denials al). h \<noteq> [] \<and> dn_Host d = h) \<and>
    length (al_lastName al) \<le> 4096 \<and> NewChain (ch_blocks (al_chain al)) = Inr (al_chain al) \<and>
    (\<forall>(ip, n) \<in> set (al_observed al). fst (DecideName (al_chain al) n) = VerdictAllow)"
  using acl_sys.reach_inv [OF assms]
  by (auto simp: al_inv_def denials_ok_def list_all_iff keeps_observed_def chain_ok_def map_wf_def
      maxDenialHosts_def maxObservedNames_def)

theorem acl_reachable_safe_witness:
  "length (al_denials (grant (IP4 7) (ObserveDNSAnswer ''a.b.'' [1, 2, 3, 4] (NewAllowListFromChain None)))) \<le> 256"
proof -
  have "reach al_init al_step (NewAllowListFromChain None)"
    by (rule reach_init) (simp add: al_init_def)
  then have "reach al_init al_step (ObserveDNSAnswer ''a.b.'' [1, 2, 3, 4] (NewAllowListFromChain None))"
    by (rule reach_step) (rule al_step.observe)
  then have "reach al_init al_step
      (grant (IP4 7) (ObserveDNSAnswer ''a.b.'' [1, 2, 3, 4] (NewAllowListFromChain None)))"
    by (rule reach_step) (rule al_step.grant_ip)
  from acl_reachable_safe [OF this] show ?thesis by simp
qed

text \<open>
  C2: The complete decision table of \<open>Allow\<close>. A connection passes exactly when its destination is a
  literal address and either the time-boxed bypass is open, or the chain allows it, or the chain
  denies it by an address rule and a human granted the address, or the chain has no opinion and the
  address is granted, observed, resolved, or the gate is attached and says so. In particular a denied
  name passes only during the bypass, and without any justification the list fails closed.
\<close>

theorem Allow_passes_iff:
  "snd (Allow ask now now' dest al) = None \<longleftrightarrow>
     (\<exists>ip port. parseDest dest = Some (ip, port) \<and>
        (bypassed now al \<or>
         (\<exists>v m k. DecideAddr (al_chain al) (attributedName al ip) ip = (v, m, k) \<and>
            (v = VerdictAllow \<or>
             v = VerdictDeny \<and> \<not> k \<and> map_of (al_granted al) ip = Some () \<or>
             v = VerdictNone \<and>
               (map_of (al_granted al) ip = Some () \<or> ip \<in> dom (map_of (al_observed al)) \<or>
                ip \<in> dom (map_of (al_resolved al)) \<or>
                al_gate al \<and> ask ip (attributedName al ip) port)))))"
  by (rule Allow_table)

text \<open>
  Every refusal is in the ledger, under the name the guest resolved or the address itself, with
  the time, the port and the rule to blame, and with its count one higher than before; every other
  entry is kept, except that a new host arriving at a full ledger evicts one, and then one whose last
  refusal is the oldest of all.
\<close>

theorem Allow_refusal_recorded:
  assumes "al_inv al" and "Allow ask now now' dest al = (al', Some (Refused who ip r))"
  shows "\<exists>d port. parseDest dest = Some (ip, port) \<and>
    map_of (al_denials al') (denialHost al ip) = Some d \<and> dn_LastSeen d = now' \<and>
    dn_IP d = addr_string ip \<and> dn_Port d = port \<and> (r = NotInAllowList \<longrightarrow> dn_Rule d = []) \<and>
    dn_Count d = (case map_of (al_denials al) (denialHost al ip) of None \<Rightarrow> 1 | Some e \<Rightarrow> Suc (dn_Count e)) \<and>
    (\<forall>h e. h \<noteq> denialHost al ip \<and> map_of (al_denials al) h = Some e \<and> map_of (al_denials al') h \<noteq> Some e \<longrightarrow>
       length (al_denials al) = 256 \<and> (\<forall>(h', e') \<in> set (al_denials al). dn_LastSeen e \<le> dn_LastSeen e'))"
proof -
  from Allow_refused [OF assms(2)] obtain port om where dest: "parseDest dest = Some (ip, port)"
    and dny: "deny now' ip port om al = (al', Refused who ip r)" by blast
  then obtain d new where
    rec: "recordDenial now' ip port (case om of None \<Rightarrow> [] | Some m \<Rightarrow> Match_String m) al = (al', d, new)"
    by (auto simp: deny_def split: prod.splits)
  have rule: "r = NotInAllowList \<longrightarrow> dn_Rule d = []"
    using dny recordDenial_entry(3) [OF rec] by (auto simp: deny_def split: prod.splits option.splits)
  have "denials_ok (al_denials al)" using assms(1) by (simp add: al_inv_def)
  from recordDenial_evicts_oldest [OF this rec] dest recordDenial_entry [OF rec] rule show ?thesis
    by blast
qed

theorem Allow_refusal_recorded_witness:
  "\<exists>d. map_of (al_denials (fst (Allow (\<lambda>_ _ _. True) 5 6 ''1.2.3.4:80''
      (ObserveDNSAnswer ''a.b.'' [1, 2, 3, 4] (NewAllowListFromChain None))))) ''a.b'' = Some d \<and>
     dn_LastSeen d = 6 \<and> dn_Count d = 1"
proof -
  let ?al = "ObserveDNSAnswer ''a.b.'' [1, 2, 3, 4] (NewAllowListFromChain None)"
  have inv: "al_inv ?al" by (intro inv_ObserveDNSAnswer inv_NewAllowListFromChain) simp
  have "snd (Allow (\<lambda>_ _ _. True) 5 6 ''1.2.3.4:80'' ?al) =
      Some (Refused (Some ''a.b'') (IP4 0x01020304) NotInAllowList)"
    by code_simp
  then have run: "Allow (\<lambda>_ _ _. True) 5 6 ''1.2.3.4:80'' ?al =
      (fst (Allow (\<lambda>_ _ _. True) 5 6 ''1.2.3.4:80'' ?al),
       Some (Refused (Some ''a.b'') (IP4 0x01020304) NotInAllowList))"
    by (simp add: prod_eq_iff)
  have host: "denialHost ?al (IP4 0x01020304) = ''a.b''" and empty: "al_denials ?al = []" by code_simp+
  from Allow_refusal_recorded [OF inv run] show ?thesis by (auto simp: host empty)
qed

text \<open>
  Editing the denied domains cannot fail, as the code assumes when it drops the error: the list
  reads back exactly the cleaned entries that were set, and a domain denied at run time is added to
  the ones already there (nothing is added for an empty one).
\<close>

theorem deny_edits_never_fail:
  assumes "al_inv al"
  shows "DeniedDomains (SetDeniedDomains domains al) = cleanDomains domains \<and>
    set (DeniedDomains (denyDomain domain al)) = set (DeniedDomains al) \<union> ({cleanDomain domain} - {[]})"
proof
  from SetDeniedDomains_chain [OF assms, of domains] obtain c where
    "al_chain (SetDeniedDomains domains al) = c" and
    "NewChain (editCustom (\<lambda>b. b\<lparr>bk_DenyDomains := cleanDomains domains\<rparr>) (ch_blocks (al_chain al))) = Inr c"
    by auto
  then have "ch_blocks (al_chain (SetDeniedDomains domains al)) =
      editCustom (\<lambda>b. b\<lparr>bk_DenyDomains := cleanDomains domains\<rparr>) (ch_blocks (al_chain al))"
    using NewChain_blocks by simp
  then show "DeniedDomains (SetDeniedDomains domains al) = cleanDomains domains"
    by (simp add: DeniedDomains_edit)
  show "set (DeniedDomains (denyDomain domain al)) = set (DeniedDomains al) \<union> ({cleanDomain domain} - {[]})"
  proof (cases "cleanDomain domain = []")
    case False
    from denyDomain_chain [OF assms this] obtain c where "al_chain (denyDomain domain al) = c" and
      "NewChain (editCustom (addDeny (cleanDomain domain)) (ch_blocks (al_chain al))) = Inr c"
      by auto
    then have "ch_blocks (al_chain (denyDomain domain al)) =
        editCustom (addDeny (cleanDomain domain)) (ch_blocks (al_chain al))"
      using NewChain_blocks by simp
    then show ?thesis
      using False by (simp add: DeniedDomains_edit DeniedDomains_custom [of al])
  qed (simp add: denyDomain_def)
qed

theorem deny_edits_never_fail_witness:
  "DeniedDomains (SetDeniedDomains ['' evil.com. '', ''.''] (NewAllowListFromChain None)) = [''evil.com'']"
proof -
  have "al_inv (NewAllowListFromChain None)" by (rule inv_NewAllowListFromChain) simp
  moreover have "cleanDomains ['' evil.com. '', ''.''] = [''evil.com'']" by code_simp
  ultimately show ?thesis using deny_edits_never_fail by simp
qed


definition custom_demo :: AllowList where
  "custom_demo = grant (IP4 0x01020304) (ObserveDNSAnswer ''api.evil.com.'' [1, 2, 3, 4]
     (NewAllowListFromChain (Some (projr (NewChain ([base_block] @ [customBlock]))))))"

lemma custom_demo_inv: "al_inv custom_demo"
proof -
  have "block_ok base_block" "block_ok customBlock" by code_simp+
  then have "NewChain ([base_block] @ [customBlock]) = Inr (projr (NewChain ([base_block] @ [customBlock])))"
    by (intro NewChain_projr) simp
  then have "chain_ok (projr (NewChain ([base_block] @ [customBlock])))" by (rule NewChain_chain_ok)
  then show ?thesis
    by (simp add: custom_demo_def inv_grant inv_ObserveDNSAnswer inv_NewAllowListFromChain)
qed


text \<open>
  A policy change revokes exactly what lost its justification. After \<open>SetChain\<close> and the refresh it
  kicks off, an address is observed exactly when it was before for a name the new chain allows, and
  resolved exactly when the resolver returned it for a pattern the new chain stands behind; grants
  and the ledger are untouched.
\<close>

theorem SetChain_then_refresh:
  assumes "al_inv al" and "refreshLoop lookup OnKick (SetChain (Some c) al) = Some al'"
  shows "(map_of (al_observed al') ip = Some n \<longleftrightarrow>
      map_of (al_observed al) ip = Some n \<and> fst (DecideName c n) = VerdictAllow) \<and>
    (map_of (al_resolved al') ip = None \<longleftrightarrow>
      (\<nexists>p ips. p \<in> set (AllowDomainPatterns c) \<and> lookup (trim_prefix p ''*.'') = Some ips \<and>
         ip \<in> unmap ` set ips)) \<and>
    al_chain al' = c \<and> al_granted al' = al_granted al \<and> al_denials al' = al_denials al"
proof -
  from assms(2) have al': "al' = (SetChain (Some c) al)\<lparr>al_kick := False, al_resolved := resolveDomains lookup c\<rparr>"
    by (auto simp: refreshDomains_def SetChain_def kickRefresh_def)
  from assms(1) have "map_wf (al_observed al)" by (simp add: al_inv_def)
  then show ?thesis
    by (auto simp: al' SetChain_def kickRefresh_def setChainLocked_def map_of_filter_keep keeps_observed_def
        resolveDomains_def map_of_resolvePatterns_None)
qed

theorem SetChain_then_refresh_witness:
  "al_granted (the (refreshLoop (\<lambda>_. None) OnKick (SetChain (Some empty_chain) custom_demo))) =
     al_granted custom_demo"
proof -
  have "refreshLoop (\<lambda>_. None) OnKick (SetChain (Some empty_chain) custom_demo) =
      Some (the (refreshLoop (\<lambda>_. None) OnKick (SetChain (Some empty_chain) custom_demo)))"
    by simp
  from SetChain_then_refresh [OF custom_demo_inv this] show ?thesis by blast
qed

text \<open>
  The legacy policy edit is accepted exactly when every address entry is well formed; it then
  replaces the custom allows and keeps the custom denies, and asks for a refresh.
\<close>

theorem SetPolicy_contract:
  assumes "al_inv al"
  shows "((\<exists>al'. SetPolicy ips cidrs domains al = Inr al') \<longleftrightarrow> list_all ip_entry_ok (ips @ cidrs)) \<and>
    (\<forall>al'. SetPolicy ips cidrs domains al = Inr al' \<longrightarrow>
       DeniedDomains al' = DeniedDomains al \<and> al_kick al' \<and>
       (\<exists>i. lastCustomIdx (ch_blocks (al_chain al')) = Some i \<and>
          bk_AllowDomains (ch_blocks (al_chain al') ! i) = domains \<and>
          bk_AllowIPs (ch_blocks (al_chain al') ! i) = ips @ cidrs))"
proof (intro conjI allI impI)
  let ?fn = "\<lambda>b. b\<lparr>bk_AllowDomains := domains, bk_AllowIPs := ips @ cidrs\<rparr>"
  let ?bs = "ch_blocks (al_chain al)"
  have runs: "SetPolicy ips cidrs domains al = Inr al' \<longleftrightarrow>
      (\<exists>c. NewChain (editCustom ?fn ?bs) = Inr c \<and> al' = kickRefresh (setChainLocked c al))" for al'
    by (auto simp: SetPolicy_def mutateCustomLocked_def split: sum.splits)
  obtain i where i: "lastCustomIdx (editCustom ?fn ?bs) = Some i"
    "editCustom ?fn ?bs ! i = ?fn (case lastCustomIdx ?bs of None \<Rightarrow> customBlock | Some i \<Rightarrow> ?bs ! i)"
    using custom_after_edit [of ?fn ?bs] by auto
  have "i < length (editCustom ?fn ?bs)"
    using i(1) by (auto simp: lastCustomIdx_def dest: last_origin_idx_Some)
  then have "?fn (case lastCustomIdx ?bs of None \<Rightarrow> customBlock | Some i \<Rightarrow> ?bs ! i) \<in> set (editCustom ?fn ?bs)"
    unfolding i(2) [symmetric] by (rule nth_mem)
  moreover have "block_ok (?fn b)" if "block_ok b" "list_all ip_entry_ok (ips @ cidrs)" for b
    using that by (simp add: block_ok_def)
  ultimately have "(\<forall>b \<in> set (editCustom ?fn ?bs). block_ok b) \<longleftrightarrow> list_all ip_entry_ok (ips @ cidrs)"
    using editCustom_blocks_ok [OF chain_ok_blocks [OF al_inv_chain_ok [OF assms]], of ?fn]
    by (fastforce simp: block_ok_def)
  then show "(\<exists>al'. SetPolicy ips cidrs domains al = Inr al') \<longleftrightarrow> list_all ip_entry_ok (ips @ cidrs)"
    unfolding runs NewChain_iff by blast
  fix al' assume "SetPolicy ips cidrs domains al = Inr al'"
  then have bs: "ch_blocks (al_chain al') = editCustom ?fn ?bs" and "al_kick al'"
    using NewChain_blocks by (auto simp: runs kickRefresh_def)
  then show "al_kick al'" by simp
  show "DeniedDomains al' = DeniedDomains al"
    using DeniedDomains_edit [OF bs] by (simp add: DeniedDomains_custom [of al])
  show "\<exists>i. lastCustomIdx (ch_blocks (al_chain al')) = Some i \<and>
      bk_AllowDomains (ch_blocks (al_chain al') ! i) = domains \<and>
      bk_AllowIPs (ch_blocks (al_chain al') ! i) = ips @ cidrs"
    using i by (simp add: bs)
qed

theorem SetPolicy_contract_witness:
  "(\<exists>al'. SetPolicy [''1.2.3.4''] [''10.0.0.0/8''] [''a.b''] custom_demo = Inr al') \<and>
   \<not> (\<exists>al'. SetPolicy [''1.2.3.4''] [''10.0.0.0/33''] [''a.b''] custom_demo = Inr al')"
proof -
  have "list_all ip_entry_ok ([''1.2.3.4''] @ [''10.0.0.0/8''])"
    "\<not> list_all ip_entry_ok ([''1.2.3.4''] @ [''10.0.0.0/33''])" by code_simp+
  then show ?thesis using SetPolicy_contract [OF custom_demo_inv] by blast
qed

text \<open>
  The ledger query returns every entry once, most recent first, ties by host.
\<close>

theorem Denials_sorted:
  "mset (Denials al) = mset (map snd (al_denials al)) \<and>
   sorted_wrt (\<lambda>a b. dn_LastSeen b < dn_LastSeen a \<or>
     dn_LastSeen a = dn_LastSeen b \<and> dn_Host a \<le> dn_Host b) (Denials al)"
proof
  have "sorted (map (\<lambda>d. (- dn_LastSeen d, dn_Host d)) (Denials al))"
    by (simp add: Denials_def)
  then show "sorted_wrt (\<lambda>a b. dn_LastSeen b < dn_LastSeen a \<or>
     dn_LastSeen a = dn_LastSeen b \<and> dn_Host a \<le> dn_Host b) (Denials al)"
    by (auto simp: sorted_map less_eq_prod_def elim: sorted_wrt_mono_rel [rotated])
qed (simp add: Denials_def)



end
