(* ===== verification/Gate.thy ===== *)
theory Gate
  imports Acl
begin

text \<open>
  \<open>src/internal/netfilter/gate.go\<close>: the interactive gate. A connection nothing has an opinion on is
  held; one prompt per destination address is published to the subscribers and the held connections
  are released together by a decision, by the deadline, by a bypass or by shutdown.

  \<open>Decide\<close> blocks, so it is two definitions: \<open>Decide\<close> up to the wait (a decision at once, or the hold
  the caller waits on) and \<open>awake\<close>, what the caller reads once the hold's channel is closed. The holds
  live in a store, \<open>g_heap\<close>, as the code's pointers to them outlive the two maps: a hold is the
  position it was allocated at. A subscriber is its channel's buffer. The callbacks that the daemon
  registers run off the lock; an operation returns the list of the calls it makes. The registrable
  domain of a host is computed by the package publicsuffix, a parameter here (None for an error).
\<close>

section \<open>Definitions\<close>

datatype Action = ActionDeny | ActionAllow

fun Action_String :: "Action \<Rightarrow> gostring" where
  "Action_String ActionAllow = ''allow''"
| "Action_String ActionDeny = ''deny''"

datatype Scope = ScopeOnce | ScopeSession | ScopeAlways

fun Scope_String :: "Scope \<Rightarrow> gostring" where
  "Scope_String ScopeSession = ''session''"
| "Scope_String ScopeAlways = ''always''"
| "Scope_String ScopeOnce = ''once''"

record Decision =
  de_Action :: Action
  de_Scope :: Scope

definition denied :: Decision where
  "denied = \<lparr>de_Action = ActionDeny, de_Scope = ScopeOnce\<rparr>"

datatype decision_error = UnknownAction gostring | UnknownScope gostring

definition parseAction :: "gostring \<Rightarrow> Action option" where
  "parseAction s =
     (if s = ''allow'' then Some ActionAllow else if s = ''deny'' then Some ActionDeny else None)"

definition parseScope :: "gostring \<Rightarrow> Scope option" where
  "parseScope s =
     (if s = [] \<or> s = ''once'' then Some ScopeOnce
      else if s = ''session'' then Some ScopeSession
      else if s = ''always'' then Some ScopeAlways else None)"

definition ParseDecision :: "gostring \<Rightarrow> gostring \<Rightarrow> decision_error + Decision" where
  "ParseDecision action scope =
     (case parseAction action of
        None \<Rightarrow> Inl (UnknownAction action)
      | Some a \<Rightarrow>
          (case parseScope scope of
             None \<Rightarrow> Inl (UnknownScope scope)
           | Some s \<Rightarrow> Inr \<lparr>de_Action = a, de_Scope = s\<rparr>))"

record Pending =
  pd_ID :: gostring
  pd_Host :: gostring
  pd_IP :: gostring
  pd_Port :: gostring
  pd_Waiters :: nat
  pd_Deadline :: instant

datatype Event = EventPending gostring Pending | EventResolved gostring gostring

text \<open>\<open>pe_timer\<close>: the expiry timer is armed; \<open>pe_done\<close>: the channel the waiters block on is closed.\<close>

record pending =
  pe_id :: gostring
  pe_key :: addr
  pe_host :: gostring
  pe_port :: gostring
  pe_waiters :: nat
  pe_deadline :: instant
  pe_timer :: bool
  pe_done :: bool
  pe_decision :: Decision
  pe_resolved :: bool

definition snapshot :: "pending \<Rightarrow> Pending" where
  "snapshot p = \<lparr>pd_ID = pe_id p, pd_Host = pe_host p, pd_IP = addr_string (pe_key p),
     pd_Port = pe_port p, pd_Waiters = pe_waiters p, pd_Deadline = pe_deadline p\<rparr>"

definition defaultHoldTimeout :: duration where
  "defaultHoldTimeout = 30 * second"

definition defaultMaxHold :: nat where
  "defaultMaxHold = 16"

definition eventBuffer :: nat where
  "eventBuffer = 64"

record Gate =
  g_timeout :: duration
  g_maxHold :: nat
  g_heap :: "pending list"
  g_byKey :: "(addr, nat) gomap"
  g_byID :: "(gostring, nat) gomap"
  g_seq :: "64 word"
  g_subs :: "(nat, Event list) gomap"
  g_nextSub :: nat
  g_closed :: bool
  g_onAlways :: bool
  g_onDenyDomain :: bool

definition newGate :: Gate where
  "newGate = \<lparr>g_timeout = defaultHoldTimeout, g_maxHold = defaultMaxHold, g_heap = [], g_byKey = [],
     g_byID = [], g_seq = 0, g_subs = [], g_nextSub = 0, g_closed = False, g_onAlways = False,
     g_onDenyDomain = False\<rparr>"

datatype callback = OnAlways gostring addr | OnDenyDomain gostring

definition SetOnAlways :: "Gate \<Rightarrow> Gate" where
  "SetOnAlways g = g\<lparr>g_onAlways := True\<rparr>"

definition SetOnDenyDomain :: "Gate \<Rightarrow> Gate" where
  "SetOnDenyDomain g = g\<lparr>g_onDenyDomain := True\<rparr>"

subsection \<open>Subscribers\<close>

text \<open>A subscriber whose buffer is full is dropped.\<close>

fun offer :: "Event \<Rightarrow> (nat, Event list) gomap \<Rightarrow> (nat, Event list) gomap" where
  "offer ev [] = []"
| "offer ev ((i, q) # subs) =
     (if length q < eventBuffer then (i, q @ [ev]) # offer ev subs else offer ev subs)"

definition broadcastLocked :: "Event \<Rightarrow> Gate \<Rightarrow> Gate" where
  "broadcastLocked ev g = g\<lparr>g_subs := offer ev (g_subs g)\<rparr>"

definition held :: "Gate \<Rightarrow> pending list" where
  "held g = map (\<lambda>(k, i). g_heap g ! i) (g_byKey g)"

definition pending_event :: "pending \<Rightarrow> Event" where
  "pending_event p = EventPending (pe_id p) (snapshot p)"

text \<open>
  \<open>Subscribe\<close> sends the outstanding holds to the fresh channel while it holds the lock: None when
  they do not fit its buffer, and the send would block.
\<close>

definition Subscribe :: "Gate \<Rightarrow> (Gate \<times> nat) option" where
  "Subscribe g =
     (if eventBuffer < length (g_byKey g) then None
      else Some (g\<lparr>g_nextSub := Suc (g_nextSub g),
                   g_subs := AList.update (g_nextSub g)
                     (map pending_event (sort_key pe_deadline (held g))) (g_subs g)\<rparr>,
                 g_nextSub g))"

definition cancel :: "nat \<Rightarrow> Gate \<Rightarrow> Gate" where
  "cancel i g = g\<lparr>g_subs := AList.delete i (g_subs g)\<rparr>"

text \<open>The client of a stream takes its next event.\<close>

definition receive :: "nat \<Rightarrow> Gate \<Rightarrow> (Event \<times> Gate) option" where
  "receive i g =
     (case map_of (g_subs g) i of
        Some (e # q) \<Rightarrow> Some (e, g\<lparr>g_subs := AList.update i q (g_subs g)\<rparr>)
      | _ \<Rightarrow> None)"

definition Pending_list :: "Gate \<Rightarrow> Pending list" where
  "Pending_list g = sort_key pd_Deadline (map snapshot (held g))"

definition Subscribers :: "Gate \<Rightarrow> nat" where
  "Subscribers g = length (g_subs g)"

subsection \<open>Holding a connection\<close>

definition hold_id :: "addr \<Rightarrow> 64 word \<Rightarrow> gostring" where
  "hold_id key seq = addr_string key @ ''#'' @ dec_digits (unat seq)"

definition new_pending :: "instant \<Rightarrow> addr \<Rightarrow> gostring \<Rightarrow> gostring \<Rightarrow> Gate \<Rightarrow> pending" where
  "new_pending now key host port g =
     \<lparr>pe_id = hold_id key (g_seq g + 1), pe_key = key, pe_host = host, pe_port = port,
      pe_waiters = 1, pe_deadline = now + g_timeout g, pe_timer = True, pe_done = False,
      pe_decision = denied, pe_resolved = False\<rparr>"

definition insert_pending :: "pending \<Rightarrow> Gate \<Rightarrow> Gate" where
  "insert_pending p g = g\<lparr>g_seq := g_seq g + 1, g_heap := g_heap g @ [p],
     g_byKey := AList.update (pe_key p) (length (g_heap g)) (g_byKey g),
     g_byID := AList.update (pe_id p) (length (g_heap g)) (g_byID g)\<rparr>"

definition join_pending :: "nat \<Rightarrow> Gate \<Rightarrow> Gate" where
  "join_pending i g =
     g\<lparr>g_heap := (g_heap g)[i := (g_heap g ! i)\<lparr>pe_waiters := Suc (pe_waiters (g_heap g ! i))\<rparr>]\<rparr>"

definition Decide ::
  "instant \<Rightarrow> addr \<Rightarrow> gostring \<Rightarrow> gostring \<Rightarrow> Gate \<Rightarrow> Gate \<times> (Decision + nat)" where
  "Decide now key host port g =
     (if g_closed g \<or> g_subs g = [] then (g, Inl denied)
      else case map_of (g_byKey g) key of
        None \<Rightarrow>
          if g_maxHold g \<le> length (g_byKey g) then (g, Inl denied)
          else (broadcastLocked (pending_event (new_pending now key host port g))
                  (insert_pending (new_pending now key host port g) g),
                Inr (length (g_heap g)))
      | Some i \<Rightarrow> (join_pending i g, Inr i))"

definition awake :: "nat \<Rightarrow> Gate \<Rightarrow> Decision option" where
  "awake i g = (if pe_done (g_heap g ! i) then Some (pe_decision (g_heap g ! i)) else None)"

subsection \<open>Releasing it\<close>

definition settle :: "Decision \<Rightarrow> pending \<Rightarrow> pending" where
  "settle d p = p\<lparr>pe_resolved := True, pe_decision := d, pe_timer := False, pe_done := True\<rparr>"

definition finishLocked :: "nat \<Rightarrow> Decision \<Rightarrow> Gate \<Rightarrow> Gate" where
  "finishLocked i d g =
     (if pe_resolved (g_heap g ! i) then g
      else broadcastLocked (EventResolved (pe_id (g_heap g ! i)) (Action_String (de_Action d)))
             (g\<lparr>g_heap := (g_heap g)[i := settle d (g_heap g ! i)],
                g_byKey := AList.delete (pe_key (g_heap g ! i)) (g_byKey g),
                g_byID := AList.delete (pe_id (g_heap g ! i)) (g_byID g)\<rparr>))"

definition expire :: "gostring \<Rightarrow> Gate \<Rightarrow> Gate" where
  "expire hid g = (case map_of (g_byID g) hid of None \<Rightarrow> g | Some i \<Rightarrow> finishLocked i denied g)"

definition rootDomain :: "(gostring \<Rightarrow> gostring option) \<Rightarrow> gostring \<Rightarrow> gostring" where
  "rootDomain etld1 host =
     (if trim_suffix host ''.'' = [] then []
      else if ParseAddr (trim_suffix host ''.'') \<noteq> None then []
      else case etld1 (trim_suffix host ''.'') of None \<Rightarrow> [] | Some d \<Rightarrow> d)"

definition resolve_list :: "(gostring \<Rightarrow> gostring option) \<Rightarrow> Decision \<Rightarrow> pending \<Rightarrow> AllowList \<Rightarrow> AllowList" where
  "resolve_list etld1 d p al =
     (if de_Action d = ActionAllow \<and> de_Scope d \<noteq> ScopeOnce then grant (pe_key p) al
      else if de_Action d = ActionDeny \<and> de_Scope d = ScopeAlways \<and> rootDomain etld1 (pe_host p) \<noteq> []
      then denyDomain (rootDomain etld1 (pe_host p)) al
      else al)"

definition resolve_calls :: "(gostring \<Rightarrow> gostring option) \<Rightarrow> Decision \<Rightarrow> pending \<Rightarrow> Gate \<Rightarrow> callback list" where
  "resolve_calls etld1 d p g =
     (if de_Action d = ActionAllow \<and> de_Scope d = ScopeAlways \<and> g_onAlways g
      then [OnAlways (pe_host p) (pe_key p)]
      else if de_Action d = ActionDeny \<and> de_Scope d = ScopeAlways \<and> rootDomain etld1 (pe_host p) \<noteq> [] \<and>
        g_onDenyDomain g
      then [OnDenyDomain (rootDomain etld1 (pe_host p))]
      else [])"

text \<open>None is \<open>ErrUnknownDecision\<close>.\<close>

definition Resolve ::
  "(gostring \<Rightarrow> gostring option) \<Rightarrow> gostring \<Rightarrow> Decision \<Rightarrow> AllowList \<Rightarrow> Gate \<Rightarrow>
     (AllowList \<times> Gate \<times> callback list) option" where
  "Resolve etld1 hid d al g =
     (case map_of (g_byID g) hid of
        None \<Rightarrow> None
      | Some i \<Rightarrow> Some (resolve_list etld1 d (g_heap g ! i) al, finishLocked i d g,
                         resolve_calls etld1 d (g_heap g ! i) g))"

fun finishAll :: "nat list \<Rightarrow> Decision \<Rightarrow> Gate \<Rightarrow> Gate" where
  "finishAll [] d g = g"
| "finishAll (i # is) d g = finishAll is d (finishLocked i d g)"

definition AllowAll :: "instant \<Rightarrow> duration \<Rightarrow> AllowList \<Rightarrow> Gate \<Rightarrow> AllowList \<times> Gate" where
  "AllowAll now d al g =
     (AllowAllFor now d al,
      finishAll (map snd (g_byKey g)) \<lparr>de_Action = ActionAllow, de_Scope = ScopeOnce\<rparr> g)"

fun closeAll :: "nat list \<Rightarrow> pending list \<Rightarrow> pending list" where
  "closeAll [] h = h"
| "closeAll (i # is) h =
     closeAll is (if pe_resolved (h ! i) then h else h[i := settle denied (h ! i)])"

definition Close :: "Gate \<Rightarrow> Gate" where
  "Close g = g\<lparr>g_closed := True, g_heap := closeAll (map snd (g_byKey g)) (g_heap g),
     g_byKey := [], g_byID := [], g_subs := []\<rparr>"

section \<open>The invariant\<close>

text \<open>
  The two maps index the same holds, each under its own key and id; a hold is in them exactly while
  nobody has decided it; its channel is closed exactly when it is decided; the number of holds is
  capped, and so is every subscriber's backlog.
\<close>

definition outstanding :: "Gate \<Rightarrow> nat \<Rightarrow> bool" where
  "outstanding g i \<longleftrightarrow> i < length (g_heap g) \<and> \<not> pe_resolved (g_heap g ! i)"

definition index_ok :: "Gate \<Rightarrow> bool" where
  "index_ok g \<longleftrightarrow>
     (\<forall>k i. map_of (g_byKey g) k = Some i \<longleftrightarrow> outstanding g i \<and> pe_key (g_heap g ! i) = k) \<and>
     (\<forall>h i. map_of (g_byID g) h = Some i \<longleftrightarrow> outstanding g i \<and> pe_id (g_heap g ! i) = h)"

definition ids_ok :: "Gate \<Rightarrow> bool" where
  "ids_ok g \<longleftrightarrow> length (g_heap g) < 2 ^ 64 \<and> g_seq g = of_nat (length (g_heap g)) \<and>
     (\<forall>i < length (g_heap g). pe_id (g_heap g ! i) = hold_id (pe_key (g_heap g ! i)) (of_nat (Suc i)))"

definition channels_ok :: "Gate \<Rightarrow> bool" where
  "channels_ok g \<longleftrightarrow> (\<forall>p \<in> set (g_heap g). pe_done p = pe_resolved p \<and> pe_timer p = (\<not> pe_resolved p))"

definition subs_ok :: "Gate \<Rightarrow> bool" where
  "subs_ok g \<longleftrightarrow> map_wf (g_subs g) \<and>
     (\<forall>i q. (i, q) \<in> set (g_subs g) \<longrightarrow> i < g_nextSub g \<and> length q \<le> eventBuffer)"

definition gate_inv :: "Gate \<Rightarrow> bool" where
  "gate_inv g \<longleftrightarrow>
     map_wf (g_byKey g) \<and> map_wf (g_byID g) \<and> index_ok g \<and> ids_ok g \<and> channels_ok g \<and> subs_ok g \<and>
     g_maxHold g = defaultMaxHold \<and> length (g_byKey g) \<le> g_maxHold g \<and>
     (g_closed g \<longrightarrow> g_byKey g = [])"

text \<open>
  The steps of the gate with its allow list. A hold takes the next number of a 64-bit counter: the
  relation is the one of a gate that has not used them up.
\<close>

inductive gate_step :: "AllowList \<times> Gate \<Rightarrow> AllowList \<times> Gate \<Rightarrow> bool" where
  decide: "Suc (length (g_heap g)) < 2 ^ 64 \<Longrightarrow> gate_step (al, g) (al, fst (Decide now key host port g))"
| resolve: "Resolve etld1 hid d al g = Some (al', g', cs) \<Longrightarrow> gate_step (al, g) (al', g')"
| allow_all: "gate_step (al, g) (AllowAll now d al g)"
| expire: "gate_step (al, g) (al, expire hid g)"
| subscribe: "Subscribe g = Some (g', i) \<Longrightarrow> gate_step (al, g) (al, g')"
| cancel: "gate_step (al, g) (al, cancel i g)"
| receive: "receive i g = Some (e, g') \<Longrightarrow> gate_step (al, g) (al, g')"
| close: "gate_step (al, g) (al, Close g)"
| on_always: "gate_step (al, g) (al, SetOnAlways g)"
| on_deny: "gate_step (al, g) (al, SetOnDenyDomain g)"
| list: "al_step al al' \<Longrightarrow> gate_step (al, g) (al', g)"

definition gate_init :: "AllowList \<times> Gate \<Rightarrow> bool" where
  "gate_init s \<longleftrightarrow> al_init (fst s) \<and> snd s = newGate"

section \<open>Lemmas\<close>

subsection \<open>Hold ids\<close>

lemma hash_not_in_digits: "CHR ''#'' \<notin> set (dec_digits n)"
  using dec_digits_char [of "CHR ''#''" n] by (auto simp: is_digit_def less_eq_char_def)

lemma append_Cons_eq_iff_left:
  "x \<notin> set xs \<Longrightarrow> x \<notin> set xs' \<Longrightarrow> xs @ x # ys = xs' @ x # ys' \<Longrightarrow> xs = xs'"
  by (auto simp: append_eq_append_conv2 append_eq_Cons_conv Cons_eq_append_conv)

lemma split_at_last:
  assumes "a @ x # b = a' @ x # b'" and "x \<notin> set b" and "x \<notin> set b'"
  shows "b = b'"
proof -
  from assms(1) have "rev b @ x # rev a = rev b' @ x # rev a'"
    by (metis append.assoc append_Cons append_Nil rev.simps(2) rev_append)
  moreover have "x \<notin> set (rev b)" "x \<notin> set (rev b')" using assms(2,3) by simp_all
  ultimately have "rev b = rev b'"
    by (metis append_Cons_eq_iff_left)
  then show ?thesis by simp
qed

lemma hold_id_inj: "hold_id k s = hold_id k' s' \<Longrightarrow> s = s'"
proof -
  assume "hold_id k s = hold_id k' s'"
  then have "addr_string k @ CHR ''#'' # dec_digits (unat s) = addr_string k' @ CHR ''#'' # dec_digits (unat s')"
    by (simp add: hold_id_def)
  then have "dec_digits (unat s) = dec_digits (unat s')"
    by (rule split_at_last) (rule hash_not_in_digits)+
  then show "s = s'" by (simp add: dec_digits_inj word_unat_eq_iff)
qed

lemma of_nat_word64_inj:
  assumes "i < 2 ^ 64" and "j < 2 ^ 64" and "(of_nat i :: 64 word) = of_nat j"
  shows "i = j"
proof -
  have "unat (of_nat n :: 64 word) = n" if "n < 2 ^ 64" for n
    using that by (simp add: unat_of_nat)
  with assms show ?thesis by metis
qed

text \<open>The id of a new hold is not in use.\<close>

lemma fresh_id:
  assumes "ids_ok g" and "Suc (length (g_heap g)) < 2 ^ 64" and "i < length (g_heap g)"
  shows "pe_id (g_heap g ! i) \<noteq> hold_id key (g_seq g + 1)"
proof
  assume "pe_id (g_heap g ! i) = hold_id key (g_seq g + 1)"
  with assms(1,3) have "hold_id (pe_key (g_heap g ! i)) (of_nat (Suc i)) = hold_id key (g_seq g + 1)"
    by (simp add: ids_ok_def)
  then have "(of_nat (Suc i) :: 64 word) = g_seq g + 1" by (rule hold_id_inj)
  also have "\<dots> = of_nat (Suc (length (g_heap g)))" using assms(1) by (simp add: ids_ok_def add.commute)
  finally have "Suc i = Suc (length (g_heap g))"
    using assms(2,3) by (intro of_nat_word64_inj) linarith+
  with assms(3) show False by simp
qed

subsection \<open>Subscribers\<close>

lemma map_of_offer:
  "map_wf subs \<Longrightarrow> map_of (offer ev subs) i =
     (case map_of subs i of None \<Rightarrow> None | Some q \<Rightarrow> if length q < eventBuffer then Some (q @ [ev]) else None)"
proof (induction ev subs rule: offer.induct)
  case (2 ev j q subs)
  then have "map_of subs j = None" by (simp add: map_wf_def map_of_eq_None_iff)
  with 2 show ?case by (auto simp: map_wf_def)
qed simp

lemma set_offer: "set (offer ev subs) \<subseteq> (\<lambda>(i, q). (i, q @ [ev])) ` {(i, q) \<in> set subs. length q < eventBuffer}"
  by (induction ev subs rule: offer.induct) auto

lemma keys_offer: "fst ` set (offer ev subs) \<subseteq> fst ` set subs"
  by (induction ev subs rule: offer.induct) auto

lemma map_wf_offer: "map_wf subs \<Longrightarrow> map_wf (offer ev subs)"
proof (induction ev subs rule: offer.induct)
  case (2 ev j q subs)
  then show ?case using keys_offer [of ev subs] by (auto simp: map_wf_def)
qed simp

lemma subs_ok_offer: "subs_ok g \<Longrightarrow> subs_ok (g\<lparr>g_subs := offer ev (g_subs g)\<rparr>)"
  using set_offer [of ev "g_subs g"] by (auto simp: subs_ok_def map_wf_offer)

lemma broadcast_sel [simp]:
  "g_heap (broadcastLocked ev g) = g_heap g" "g_byKey (broadcastLocked ev g) = g_byKey g"
  "g_byID (broadcastLocked ev g) = g_byID g" "g_closed (broadcastLocked ev g) = g_closed g"
  "g_seq (broadcastLocked ev g) = g_seq g" "g_maxHold (broadcastLocked ev g) = g_maxHold g"
  "g_subs (broadcastLocked ev g) = offer ev (g_subs g)"
  by (simp_all add: broadcastLocked_def)

lemma inv_broadcast: "gate_inv g \<Longrightarrow> gate_inv (broadcastLocked ev g)"
  using subs_ok_offer [of g ev]
  by (auto simp: gate_inv_def broadcastLocked_def index_ok_def ids_ok_def channels_ok_def outstanding_def)

lemma inv_subs: "gate_inv g \<Longrightarrow> subs_ok (g\<lparr>g_subs := subs\<rparr>) \<Longrightarrow> gate_inv (g\<lparr>g_subs := subs\<rparr>)"
  by (auto simp: gate_inv_def index_ok_def ids_ok_def channels_ok_def outstanding_def)

lemma inv_cancel: "gate_inv g \<Longrightarrow> gate_inv (cancel i g)"
  unfolding cancel_def by (rule inv_subs) (auto simp: gate_inv_def subs_ok_def AList.delete_eq map_wf_filter)

lemma inv_receive:
  assumes "gate_inv g" and "receive i g = Some (e, g')" shows "gate_inv g'"
proof -
  from assms(2) obtain q where q: "map_of (g_subs g) i = Some (e # q)"
    and g': "g' = g\<lparr>g_subs := AList.update i q (g_subs g)\<rparr>"
    by (auto simp: receive_def split: option.splits list.splits)
  from assms(1) have ok: "subs_ok g" by (simp add: gate_inv_def)
  with map_of_SomeD [OF q] have "i < g_nextSub g \<and> length (e # q) \<le> eventBuffer"
    unfolding subs_ok_def by blast
  with ok set_update_subset [of i q "g_subs g"] have "subs_ok g'"
    by (fastforce simp: g' subs_ok_def)
  with assms(1) show ?thesis by (simp add: g' inv_subs)
qed

lemma inv_Subscribe:
  assumes "gate_inv g" and "Subscribe g = Some (g', i)" shows "gate_inv g'"
proof -
  let ?q = "map pending_event (sort_key pe_deadline (held g))"
  from assms(2) have fits: "length (g_byKey g) \<le> eventBuffer"
    and g': "g' = g\<lparr>g_nextSub := Suc (g_nextSub g), g_subs := AList.update (g_nextSub g) ?q (g_subs g)\<rparr>"
    by (auto simp: Subscribe_def split: if_splits)
  from assms(1) have "subs_ok g" by (simp add: gate_inv_def)
  with set_update_subset [of "g_nextSub g" ?q "g_subs g"] fits have "subs_ok g'"
    by (fastforce simp: g' subs_ok_def held_def)
  moreover have "gate_inv (g\<lparr>g_nextSub := Suc (g_nextSub g)\<rparr>)"
    using assms(1)
    by (force simp: gate_inv_def index_ok_def ids_ok_def channels_ok_def outstanding_def subs_ok_def)
  ultimately show ?thesis unfolding g' by (intro inv_subs)
qed

subsection \<open>Holds\<close>

lemma outstanding_byKey:
  "index_ok g \<Longrightarrow> map_of (g_byKey g) k = Some i \<longleftrightarrow> outstanding g i \<and> pe_key (g_heap g ! i) = k"
  by (simp add: index_ok_def)

lemma outstanding_byID:
  "index_ok g \<Longrightarrow> map_of (g_byID g) h = Some i \<longleftrightarrow> outstanding g i \<and> pe_id (g_heap g ! i) = h"
  by (simp add: index_ok_def)

lemma outstanding_unique:
  "index_ok g \<Longrightarrow> outstanding g i \<Longrightarrow> outstanding g j \<Longrightarrow>
     pe_key (g_heap g ! i) = pe_key (g_heap g ! j) \<or> pe_id (g_heap g ! i) = pe_id (g_heap g ! j) \<Longrightarrow> i = j"
  by (metis option.inject outstanding_byID outstanding_byKey)

lemma outstanding_insert:
  assumes "\<not> pe_resolved p"
  shows "outstanding (insert_pending p g) i \<longleftrightarrow> outstanding g i \<or> i = length (g_heap g)"
  using assms by (auto simp: outstanding_def insert_pending_def nth_append)

lemma index_insert:
  assumes ok: "index_ok g" and p: "\<not> pe_resolved p" and new: "map_of (g_byKey g) (pe_key p) = None"
    and fresh: "\<And>i. i < length (g_heap g) \<Longrightarrow> pe_id (g_heap g ! i) \<noteq> pe_id p"
  shows "index_ok (insert_pending p g)"
proof -
  have nokey: "pe_key (g_heap g ! i) \<noteq> pe_key p" if "outstanding g i" for i
    using that new outstanding_byKey [OF ok, of "pe_key p" i] by auto
  have heap: "g_heap (insert_pending p g) ! i = (if i = length (g_heap g) then p else g_heap g ! i)"
    if "outstanding g i \<or> i = length (g_heap g)" for i
    using that by (auto simp: insert_pending_def nth_append outstanding_def)
  have lt: "outstanding g i \<Longrightarrow> i < length (g_heap g)" for i by (simp add: outstanding_def)
  show ?thesis
    unfolding index_ok_def outstanding_insert [OF p]
  proof (intro conjI allI)
    fix k i
    show "map_of (g_byKey (insert_pending p g)) k = Some i \<longleftrightarrow>
        (outstanding g i \<or> i = length (g_heap g)) \<and> pe_key (g_heap (insert_pending p g) ! i) = k"
      using ok nokey heap lt [of i]
      by (auto simp: insert_pending_def update_conv' index_ok_def)
  next
    fix h i
    show "map_of (g_byID (insert_pending p g)) h = Some i \<longleftrightarrow>
        (outstanding g i \<or> i = length (g_heap g)) \<and> pe_id (g_heap (insert_pending p g) ! i) = h"
      using ok fresh heap lt [of i]
      by (auto simp: insert_pending_def update_conv' index_ok_def)
  qed
qed

lemma inv_insert:
  assumes inv: "gate_inv g" and new: "map_of (g_byKey g) key = None"
    and room: "length (g_byKey g) < g_maxHold g" and "Suc (length (g_heap g)) < 2 ^ 64"
    and "\<not> g_closed g"
  shows "gate_inv (insert_pending (new_pending now key host port g) g)"
proof -
  let ?p = "new_pending now key host port g"
  let ?g = "insert_pending ?p g"
  from inv have ids: "ids_ok g" and ix: "index_ok g" by (simp_all add: gate_inv_def)
  have "index_ok ?g"
    by (rule index_insert [OF ix]) (use new fresh_id [OF ids assms(4)] in \<open>auto simp: new_pending_def\<close>)
  moreover have "ids_ok ?g"
    using ids assms(4) by (auto simp: ids_ok_def insert_pending_def new_pending_def nth_append less_Suc_eq add.commute)
  moreover have "channels_ok ?g" "subs_ok ?g" "map_wf (g_byKey ?g)" "map_wf (g_byID ?g)"
    "g_maxHold ?g = defaultMaxHold" "\<not> g_closed ?g"
    using inv assms(5) by (auto simp: gate_inv_def channels_ok_def subs_ok_def insert_pending_def new_pending_def)
  moreover have "length (g_byKey ?g) \<le> g_maxHold ?g"
    using room new by (simp add: insert_pending_def new_pending_def length_update_new)
  ultimately show ?thesis by (simp add: gate_inv_def)
qed

lemma inv_heap_update:
  assumes inv: "gate_inv g" and i: "i < length (g_heap g)"
    and same: "pe_key p = pe_key (g_heap g ! i)" "pe_id p = pe_id (g_heap g ! i)"
      "pe_resolved p = pe_resolved (g_heap g ! i)" "pe_done p = pe_resolved p" "pe_timer p = (\<not> pe_resolved p)"
  shows "gate_inv (g\<lparr>g_heap := (g_heap g)[i := p]\<rparr>)"
proof -
  let ?g = "g\<lparr>g_heap := (g_heap g)[i := p]\<rparr>"
  have nth: "pe_key (g_heap ?g ! j) = pe_key (g_heap g ! j)" "pe_id (g_heap ?g ! j) = pe_id (g_heap g ! j)"
    "pe_resolved (g_heap ?g ! j) = pe_resolved (g_heap g ! j)" for j
    using i same by (cases "j = i"; simp)+
  have "outstanding ?g j = outstanding g j" for j
    using nth(3) [of j] by (simp add: outstanding_def)
  then have "index_ok ?g" "ids_ok ?g"
    using inv nth(1,2) by (auto simp: gate_inv_def index_ok_def ids_ok_def)
  moreover have "channels_ok ?g"
    using inv same i by (auto simp: gate_inv_def channels_ok_def dest!: set_update_subset_insert [THEN subsetD])
  ultimately show ?thesis
    using inv by (simp add: gate_inv_def subs_ok_def)
qed

lemma inv_join:
  assumes "gate_inv g" and "map_of (g_byKey g) key = Some i"
  shows "gate_inv (join_pending i g)"
proof -
  from assms have "i < length (g_heap g)"
    by (auto simp: gate_inv_def index_ok_def outstanding_def)
  moreover from this assms(1) have "pe_done (g_heap g ! i) = pe_resolved (g_heap g ! i)"
    "pe_timer (g_heap g ! i) = (\<not> pe_resolved (g_heap g ! i))"
    by (simp_all add: gate_inv_def channels_ok_def)
  ultimately show ?thesis
    unfolding join_pending_def using assms(1) by (intro inv_heap_update) simp_all
qed

lemma inv_Decide:
  assumes "gate_inv g" and "Suc (length (g_heap g)) < 2 ^ 64"
  shows "gate_inv (fst (Decide now key host port g))"
  using assms inv_join [OF assms(1)]
  by (auto simp: Decide_def intro!: inv_broadcast inv_insert split: option.split)

lemma finish_resolved [simp]: "pe_resolved (g_heap g ! i) \<Longrightarrow> finishLocked i d g = g"
  by (simp add: finishLocked_def)

lemma finish_heap:
  "i < length (g_heap g) \<Longrightarrow> g_heap (finishLocked i d g) ! j =
     (if j = i \<and> \<not> pe_resolved (g_heap g ! i) then settle d (g_heap g ! i) else g_heap g ! j)"
  by (auto simp: finishLocked_def)

lemma finish_length [simp]: "length (g_heap (finishLocked i d g)) = length (g_heap g)"
  by (simp add: finishLocked_def)

lemma settle_sel [simp]:
  "pe_key (settle d p) = pe_key p" "pe_id (settle d p) = pe_id p" "pe_resolved (settle d p)"
  "pe_done (settle d p)" "\<not> pe_timer (settle d p)" "pe_decision (settle d p) = d"
  "pe_host (settle d p) = pe_host p"
  by (simp_all add: settle_def)

lemma finish_outstanding:
  "i < length (g_heap g) \<Longrightarrow> outstanding (finishLocked i d g) j \<longleftrightarrow> outstanding g j \<and> j \<noteq> i"
  by (auto simp: outstanding_def finish_heap)

lemma index_finish:
  assumes ok: "index_ok g" and i: "outstanding g i"
  shows "index_ok (finishLocked i d g)"
proof -
  from i have lt: "i < length (g_heap g)" and open_i: "\<not> pe_resolved (g_heap g ! i)"
    by (simp_all add: outstanding_def)
  have same: "pe_key (g_heap (finishLocked i d g) ! j) = pe_key (g_heap g ! j)"
    "pe_id (g_heap (finishLocked i d g) ! j) = pe_id (g_heap g ! j)" for j
    using lt by (simp_all add: finish_heap)
  have only: "pe_key (g_heap g ! j) = pe_key (g_heap g ! i) \<longleftrightarrow> j = i"
    "pe_id (g_heap g ! j) = pe_id (g_heap g ! i) \<longleftrightarrow> j = i" if "outstanding g j" for j
    using outstanding_unique [OF ok i that] by auto
  have maps: "g_byKey (finishLocked i d g) = AList.delete (pe_key (g_heap g ! i)) (g_byKey g)"
    "g_byID (finishLocked i d g) = AList.delete (pe_id (g_heap g ! i)) (g_byID g)"
    using open_i by (simp_all add: finishLocked_def)
  show ?thesis
    unfolding index_ok_def finish_outstanding [OF lt] maps same
    by (auto simp: delete_conv' outstanding_byKey [OF ok] outstanding_byID [OF ok] only)
qed

lemma inv_finish:
  assumes inv: "gate_inv g" and i: "outstanding g i"
  shows "gate_inv (finishLocked i d g)"
proof -
  from i have lt: "i < length (g_heap g)" and open_i: "\<not> pe_resolved (g_heap g ! i)"
    by (simp_all add: outstanding_def)
  let ?g = "finishLocked i d g"
  have "index_ok ?g" using inv i by (simp add: gate_inv_def index_finish)
  moreover have "ids_ok ?g"
    using inv lt by (auto simp: gate_inv_def ids_ok_def finish_heap finishLocked_def nth_list_update)
  moreover have "channels_ok ?g"
    using inv open_i
    by (auto simp: gate_inv_def channels_ok_def finishLocked_def dest!: set_update_subset_insert [THEN subsetD])
  moreover have "subs_ok ?g"
    using inv subs_ok_offer [of g] by (simp add: gate_inv_def finishLocked_def broadcastLocked_def subs_ok_def)
  moreover have "length (g_byKey ?g) \<le> length (g_byKey g)"
    by (simp add: finishLocked_def AList.delete_eq)
  ultimately show ?thesis
    using inv open_i by (auto simp: gate_inv_def finishLocked_def)
qed

lemma gate_inv_index: "gate_inv g \<Longrightarrow> index_ok g"
  by (simp add: gate_inv_def)

lemma inv_expire:
  assumes "gate_inv g" shows "gate_inv (expire hid g)"
proof (cases "map_of (g_byID g) hid")
  case (Some i)
  then have "outstanding g i" using outstanding_byID [OF gate_inv_index [OF assms]] by simp
  with assms Some show ?thesis by (simp add: expire_def inv_finish)
qed (simp add: expire_def assms)

lemma inv_Resolve:
  assumes "gate_inv g" and "Resolve etld1 hid d al g = Some (al', g', cs)" shows "gate_inv g'"
proof -
  from assms(2) obtain i where i: "map_of (g_byID g) hid = Some i" and g': "g' = finishLocked i d g"
    by (auto simp: Resolve_def split: option.splits)
  from i have "outstanding g i" using outstanding_byID [OF gate_inv_index [OF assms(1)]] by simp
  with assms(1) show ?thesis by (simp add: g' inv_finish)
qed

text \<open>Finishing holds one after the other leaves exactly the others outstanding.\<close>

lemma inv_finishAll:
  "gate_inv g \<Longrightarrow> \<forall>i \<in> set is. i < length (g_heap g) \<Longrightarrow> gate_inv (finishAll is d g)"
proof (induction "is" d g rule: finishAll.induct)
  case (2 i "is" d g)
  have "gate_inv (finishLocked i d g)"
    using "2.prems" inv_finish [of g i d] by (cases "pe_resolved (g_heap g ! i)") (simp_all add: outstanding_def)
  with 2 show ?case by simp
qed simp

lemma finishAll_length [simp]: "length (g_heap (finishAll is d g)) = length (g_heap g)"
  by (induction "is" d g rule: finishAll.induct) simp_all

lemma finishAll_heap:
  assumes "\<forall>i \<in> set is. i < length (g_heap g)"
  shows "g_heap (finishAll is d g) ! j =
    (if j \<in> set is \<and> \<not> pe_resolved (g_heap g ! j) then settle d (g_heap g ! j) else g_heap g ! j)"
  using assms
  by (induction "is" d g rule: finishAll.induct) (auto simp: finish_heap)

lemma byKey_range:
  assumes "gate_inv g"
  shows "i \<in> set (map snd (g_byKey g)) \<longleftrightarrow> outstanding g i"
proof -
  from assms have "map_wf (g_byKey g)" and ok: "index_ok g" by (simp_all add: gate_inv_def)
  then have "i \<in> set (map snd (g_byKey g)) \<longleftrightarrow> (\<exists>k. map_of (g_byKey g) k = Some i)"
    by (auto simp: map_wf_def dest: map_of_SomeD intro: rev_image_eqI)
  then show ?thesis by (simp add: outstanding_byKey [OF ok])
qed

lemma outstanding_lt: "outstanding g i \<Longrightarrow> i < length (g_heap g)"
  by (simp add: outstanding_def)

lemma byKey_lt: "gate_inv g \<Longrightarrow> \<forall>i \<in> set (map snd (g_byKey g)). i < length (g_heap g)"
  using byKey_range outstanding_lt by blast

lemma inv_AllowAll: "gate_inv g \<Longrightarrow> gate_inv (snd (AllowAll now d al g))"
  unfolding AllowAll_def snd_conv by (rule inv_finishAll [OF _ byKey_lt])

lemma closeAll_length [simp]: "length (closeAll is h) = length h"
  by (induction "is" h rule: closeAll.induct) simp_all

lemma closeAll_nth:
  assumes "\<forall>i \<in> set is. i < length h"
  shows "closeAll is h ! j =
    (if j \<in> set is \<and> \<not> pe_resolved (h ! j) then settle denied (h ! j) else h ! j)"
  using assms by (induction "is" h rule: closeAll.induct) (auto simp: nth_list_update)

lemma Close_heap:
  assumes "gate_inv g"
  shows "g_heap (Close g) ! j = (if outstanding g j then settle denied (g_heap g ! j) else g_heap g ! j)"
  using closeAll_nth [OF byKey_lt [OF assms], of j] byKey_range [OF assms, of j]
  by (auto simp: Close_def outstanding_def)

lemma Close_length [simp]: "length (g_heap (Close g)) = length (g_heap g)"
  by (simp add: Close_def)

lemma Close_outstanding: "gate_inv g \<Longrightarrow> \<not> outstanding (Close g) i"
  by (simp add: outstanding_def Close_heap)

lemma inv_Close:
  assumes inv: "gate_inv g" shows "gate_inv (Close g)"
proof -
  have "index_ok (Close g)"
    using Close_outstanding [OF inv] by (simp add: index_ok_def) (simp add: Close_def)
  moreover have "ids_ok (Close g)"
    using inv by (simp add: gate_inv_def ids_ok_def Close_heap [OF inv]) (simp add: Close_def)
  moreover have "channels_ok (Close g)"
    using inv by (simp add: gate_inv_def channels_ok_def all_set_conv_all_nth Close_heap [OF inv])
  ultimately show ?thesis
    using inv by (simp add: gate_inv_def subs_ok_def) (simp add: Close_def)
qed

interpretation gate_sys: inv_system gate_init gate_step "\<lambda>(al, g). al_inv al \<and> gate_inv g"
proof
  fix s assume "gate_init s"
  moreover have "gate_inv newGate"
    by (simp add: gate_inv_def newGate_def index_ok_def ids_ok_def channels_ok_def subs_ok_def outstanding_def)
  ultimately show "(\<lambda>(al, g). al_inv al \<and> gate_inv g) s"
    by (auto simp: gate_init_def acl_sys.inv_init)
next
  fix s t assume "(\<lambda>(al, g). al_inv al \<and> gate_inv g) s" and "gate_step s t"
  from this(2,1) show "(\<lambda>(al, g). al_inv al \<and> gate_inv g) t"
  proof (induction rule: gate_step.induct)
    case (resolve etld1 hid d al g al' g' cs)
    then show ?case
      using inv_Resolve [of g etld1 hid d al al' g' cs]
      by (auto simp: Resolve_def resolve_list_def inv_grant inv_deny_editors split: option.splits)
  next
    case (allow_all al g now d)
    then show ?case
      using inv_AllowAll [of g now d al] by (auto simp: AllowAll_def AllowAllFor_def inv_intros)
  next
    case (on_always al g)
    then show ?case
      by (auto simp: SetOnAlways_def gate_inv_def index_ok_def ids_ok_def channels_ok_def subs_ok_def outstanding_def)
  next
    case (on_deny al g)
    then show ?case
      by (auto simp: SetOnDenyDomain_def gate_inv_def index_ok_def ids_ok_def channels_ok_def subs_ok_def outstanding_def)
  qed (auto intro: inv_Decide inv_expire inv_Subscribe inv_cancel inv_receive inv_Close acl_sys.inv_step)
qed

subsection \<open>Decisions are final\<close>

definition decided :: "nat \<Rightarrow> Decision \<Rightarrow> Gate \<Rightarrow> bool" where
  "decided i d g \<longleftrightarrow> i < length (g_heap g) \<and> pe_resolved (g_heap g ! i) \<and> awake i g = Some d"

lemma awake_Some: "awake i g = Some d \<longleftrightarrow> pe_done (g_heap g ! i) \<and> pe_decision (g_heap g ! i) = d"
  by (simp add: awake_def)

lemma decided_same_heap: "g_heap g' = g_heap g \<Longrightarrow> decided i d g \<Longrightarrow> decided i d g'"
  by (simp add: decided_def awake_Some)

lemma decided_finish: "decided i d g \<Longrightarrow> j < length (g_heap g) \<Longrightarrow> decided i d (finishLocked j d' g)"
  by (auto simp: decided_def awake_Some finish_heap)

lemma decided_Decide:
  assumes "gate_inv g" and "decided i d g" shows "decided i d (fst (Decide now key host port g))"
proof (cases "map_of (g_byKey g) key")
  case None
  with assms(2) show ?thesis
    by (auto simp: Decide_def decided_def awake_Some insert_pending_def nth_append)
next
  case (Some j)
  then have "outstanding g j" by (simp add: outstanding_byKey gate_inv_index assms(1))
  then have "j \<noteq> i" using assms(2) by (auto simp: outstanding_def decided_def)
  with assms(2) Some show ?thesis
    by (auto simp: Decide_def decided_def awake_Some join_pending_def)
qed

lemma decided_AllowAll:
  assumes "gate_inv g" and "decided i d g" shows "decided i d (snd (AllowAll now d' al g))"
  using assms(2) by (simp add: AllowAll_def decided_def awake_Some finishAll_heap [OF byKey_lt [OF assms(1)]])

lemma decided_Close: "gate_inv g \<Longrightarrow> decided i d g \<Longrightarrow> decided i d (Close g)"
  by (simp add: decided_def awake_Some Close_heap outstanding_def)

lemma byID_lt: "gate_inv g \<Longrightarrow> map_of (g_byID g) hid = Some j \<Longrightarrow> j < length (g_heap g)"
  using outstanding_byID [OF gate_inv_index] outstanding_lt by blast

lemma decided_step:
  assumes "gate_step s t" and "gate_inv (snd s)" and "decided i d (snd s)"
  shows "decided i d (snd t)"
  using assms
proof (induction rule: gate_step.induct)
  case (decide g al now key host port)
  then show ?case by (simp add: decided_Decide)
next
  case (resolve etld1 hid d' al g al' g' cs)
  then show ?case using byID_lt [of g hid]
    by (auto simp: Resolve_def decided_finish split: option.splits)
next
  case (allow_all al g now d')
  then show ?case by (simp add: decided_AllowAll)
next
  case (expire al g hid)
  then show ?case using byID_lt [of g hid]
    by (auto simp: expire_def decided_finish split: option.splits)
next
  case (close al g)
  then show ?case by (simp add: decided_Close)
qed (auto simp: Subscribe_def cancel_def receive_def SetOnAlways_def SetOnDenyDomain_def
      split: if_splits option.splits list.splits intro: decided_same_heap [rotated])

lemma Resolve_grants:
  assumes "Resolve etld1 hid d al g = Some (al', g', cs)" and "de_Action d = ActionAllow" and "de_Scope d \<noteq> ScopeOnce"
  shows "\<exists>i. map_of (g_byID g) hid = Some i \<and> al' = grant (pe_key (g_heap g ! i)) al"
  using assms by (auto simp: Resolve_def resolve_list_def split: option.splits)

lemma grant_sel [simp]:
  "al_chain (grant ip al) = al_chain al" "attributedName (grant ip al) a = attributedName al a"
  "map_of (al_granted (grant ip al)) ip = Some ()"
  by (simp_all add: grant_def attributedName_def update_conv' split: option.split list.split)

section \<open>Properties\<close>

text \<open>
  C3: Over every interleaving of connections, decisions, deadlines, bypasses, subscriptions and
  shutdown: at most 16 destinations are held; a hold nobody has decided is always reachable, by its
  address and by its id, so no waiter is ever lost; a waiter is asleep exactly while its hold is
  undecided; and a new subscriber's replay always fits its channel, so subscribing never blocks the
  gate.
\<close>

theorem gate_reachable_safe:
  assumes "reach gate_init gate_step (al, g)"
  shows "length (g_byKey g) \<le> 16 \<and>
    (\<forall>i < length (g_heap g).
       (awake i g = None \<longleftrightarrow> outstanding g i) \<and>
       (outstanding g i \<longleftrightarrow> map_of (g_byKey g) (pe_key (g_heap g ! i)) = Some i) \<and>
       (outstanding g i \<longleftrightarrow> map_of (g_byID g) (pe_id (g_heap g ! i)) = Some i)) \<and>
    Subscribe g \<noteq> None"
proof -
  from gate_sys.reach_inv [OF assms] have inv: "gate_inv g" by simp
  then have "length (g_byKey g) \<le> 16" and ch: "channels_ok g"
    by (simp_all add: gate_inv_def defaultMaxHold_def)
  moreover from this have "Subscribe g \<noteq> None" by (simp add: Subscribe_def eventBuffer_def)
  moreover have "awake i g = None \<longleftrightarrow> outstanding g i" if "i < length (g_heap g)" for i
    using that ch by (simp add: awake_def outstanding_def channels_ok_def)
  ultimately show ?thesis
    using outstanding_byKey [OF gate_inv_index [OF inv]] outstanding_byID [OF gate_inv_index [OF inv]] by blast
qed

definition asked_gate :: Gate where
  "asked_gate = fst (Decide 5 (IP4 0x01020304) ''api.evil.com'' ''443'' (fst (the (Subscribe newGate))))"

lemma asked_gate_reachable: "reach gate_init gate_step (NewAllowListFromChain None, asked_gate)"
proof -
  have "reach gate_init gate_step (NewAllowListFromChain None, newGate)"
    by (rule reach_init) (simp add: gate_init_def al_init_def)
  moreover have "Subscribe newGate = Some (fst (the (Subscribe newGate)), 0)" by code_simp
  ultimately have "reach gate_init gate_step (NewAllowListFromChain None, fst (the (Subscribe newGate)))"
    using reach_step gate_step.subscribe by fast
  moreover have "g_heap (fst (the (Subscribe newGate))) = []" by code_simp
  then have "gate_step (NewAllowListFromChain None, fst (the (Subscribe newGate)))
      (NewAllowListFromChain None, asked_gate)"
    unfolding asked_gate_def by (intro gate_step.decide) simp
  ultimately show ?thesis using reach_step by fast
qed

theorem gate_reachable_safe_witness:
  "outstanding asked_gate 0 \<and> awake 0 asked_gate = None \<and> Subscribe asked_gate \<noteq> None"
proof -
  have "outstanding asked_gate 0" "0 < length (g_heap asked_gate)" by code_simp+
  then show ?thesis using gate_reachable_safe [OF asked_gate_reachable] by blast
qed

text \<open>
  C5: No held connection waits for ever: the deadline of its hold, shutdown and a bypass each release
  it, the first two with a refusal and the third with a pass.
\<close>

theorem every_hold_released:
  assumes "gate_inv g" and "outstanding g i"
  shows "awake i (expire (pe_id (g_heap g ! i)) g) = Some denied \<and>
    awake i (Close g) = Some denied \<and>
    awake i (snd (AllowAll now d al g)) = Some \<lparr>de_Action = ActionAllow, de_Scope = ScopeOnce\<rparr>"
proof -
  have i: "map_of (g_byID g) (pe_id (g_heap g ! i)) = Some i" "i \<in> set (map snd (g_byKey g))"
    using assms by (simp add: outstanding_byID gate_inv_index, simp only: byKey_range)
  have "\<not> pe_resolved (g_heap g ! i)" "i < length (g_heap g)" using assms(2) by (simp_all add: outstanding_def)
  with i assms show ?thesis
    by (simp add: awake_def expire_def finish_heap Close_heap AllowAll_def finishAll_heap [OF byKey_lt [OF assms(1)]]
        del: set_map)
qed

theorem every_hold_released_witness:
  "awake 0 (expire (pe_id (g_heap asked_gate ! 0)) asked_gate) = Some denied"
proof -
  have "gate_inv asked_gate" using gate_sys.reach_inv [OF asked_gate_reachable] by simp
  moreover have "outstanding asked_gate 0" by code_simp
  ultimately show ?thesis using every_hold_released by blast
qed

text \<open>
  C4: The first decision on a hold is the only one: once its waiters are released, no operation on the
  gate or the list changes what they read, be it a late decision, the timer or a shutdown racing
  with it.
\<close>

theorem decision_is_final:
  assumes "reach gate_init gate_step s" and "gate_step s t" and "decided i d (snd s)"
  shows "decided i d (snd t)"
  using gate_sys.reach_inv [OF assms(1)] assms(2,3) by (auto intro: decided_step split: prod.splits)

theorem decision_is_final_witness:
  "decided 0 denied (Close (expire ''1.2.3.4#1'' asked_gate))"
proof -
  have "reach gate_init gate_step (NewAllowListFromChain None, expire ''1.2.3.4#1'' asked_gate)"
    by (rule reach_step [OF asked_gate_reachable gate_step.expire])
  moreover have "decided 0 denied (snd (NewAllowListFromChain None, expire ''1.2.3.4#1'' asked_gate))"
    by code_simp
  ultimately have "decided 0 denied (snd (NewAllowListFromChain None, Close (expire ''1.2.3.4#1'' asked_gate)))"
    by (rule decision_is_final [OF _ gate_step.close])
  then show ?thesis by simp
qed

text \<open>
  \<open>Decide\<close> answers at once exactly when the gate is closed, nobody is subscribed, or the cap is
  reached by other destinations; the answer is then a refusal and the gate is unchanged. Otherwise
  the caller waits on an undecided hold for its own destination, and a second connection to that
  destination waits on the same one without a new prompt.
\<close>

theorem Decide_answers:
  assumes "gate_inv g" and "Suc (length (g_heap g)) < 2 ^ 64"
  shows "((\<exists>d. snd (Decide now key host port g) = Inl d) \<longleftrightarrow>
      g_closed g \<or> g_subs g = [] \<or> map_of (g_byKey g) key = None \<and> length (g_byKey g) = 16) \<and>
    (snd (Decide now key host port g) = Inl d \<longrightarrow>
      d = denied \<and> fst (Decide now key host port g) = g) \<and>
    (Decide now key host port g = (g', Inr i) \<longrightarrow>
      outstanding g' i \<and> pe_key (g_heap g' ! i) = key \<and>
      (g_subs g' \<noteq> [] \<longrightarrow> snd (Decide now2 key host2 port2 g') = Inr i \<and>
         g_subs (fst (Decide now2 key host2 port2 g')) = g_subs g'))"
proof (intro conjI impI)
  have cap: "g_maxHold g \<le> length (g_byKey g) \<longleftrightarrow> length (g_byKey g) = 16"
    using assms(1) by (auto simp: gate_inv_def defaultMaxHold_def)
  show "(\<exists>d. snd (Decide now key host port g) = Inl d) \<longleftrightarrow>
      g_closed g \<or> g_subs g = [] \<or> map_of (g_byKey g) key = None \<and> length (g_byKey g) = 16"
    by (auto simp: Decide_def cap split: option.split)
  assume "snd (Decide now key host port g) = Inl d"
  then show "d = denied" "fst (Decide now key host port g) = g"
    by (auto simp: Decide_def split: option.splits if_splits)
next
  assume dec: "Decide now key host port g = (g', Inr i)"
  then have open_g: "\<not> g_closed g" by (auto simp: Decide_def split: if_splits)
  from inv_Decide [OF assms, of now key host port] dec have inv': "gate_inv g'" by simp
  have "map_of (g_byKey g') key = Some i \<and> g_closed g' = g_closed g"
    using dec
    by (auto simp: Decide_def join_pending_def insert_pending_def new_pending_def update_conv'
        split: if_splits option.splits)
  then have key: "map_of (g_byKey g') key = Some i" and "\<not> g_closed g'" using open_g by simp_all
  then show "outstanding g' i" "pe_key (g_heap g' ! i) = key"
    using outstanding_byKey [OF gate_inv_index [OF inv']] by simp_all
  assume "g_subs g' \<noteq> []"
  with key \<open>\<not> g_closed g'\<close> show "snd (Decide now2 key host2 port2 g') = Inr i"
    "g_subs (fst (Decide now2 key host2 port2 g')) = g_subs g'"
    by (simp_all add: Decide_def join_pending_def)
qed

theorem Decide_answers_witness:
  "(\<exists>d. snd (Decide 7 (IP4 9) [] ''80'' newGate) = Inl d)"
proof -
  have "gate_inv newGate"
    using gate_sys.inv_init [of "(NewAllowListFromChain None, newGate)"] by (simp add: gate_init_def al_init_def)
  moreover have "Suc (length (g_heap newGate)) < 2 ^ 64" "g_subs newGate = []" by (simp_all add: newGate_def)
  ultimately show ?thesis using Decide_answers by blast
qed

text \<open>
  \<open>Resolve\<close> is an error exactly for an id that is not outstanding; otherwise the waiters of that
  hold read the given decision, the hold is gone (a second \<open>Resolve\<close> of the id is the error) and no
  other hold is touched.
\<close>

theorem Resolve_contract:
  assumes "gate_inv g"
  shows "(Resolve etld1 hid d al g = None \<longleftrightarrow> (\<nexists>i. outstanding g i \<and> pe_id (g_heap g ! i) = hid)) \<and>
    (Resolve etld1 hid d al g = Some (al', g', cs) \<longrightarrow>
      (\<exists>i. outstanding g i \<and> pe_id (g_heap g ! i) = hid \<and> awake i g' = Some d \<and>
         (\<forall>j. outstanding g' j \<longleftrightarrow> outstanding g j \<and> j \<noteq> i)) \<and>
      Resolve etld1 hid d2 al2 g' = None)"
proof (intro conjI impI)
  note ix = gate_inv_index [OF assms]
  show "Resolve etld1 hid d al g = None \<longleftrightarrow> (\<nexists>i. outstanding g i \<and> pe_id (g_heap g ! i) = hid)"
    using outstanding_byID [OF ix, of hid] by (cases "map_of (g_byID g) hid") (auto simp: Resolve_def)
  assume res: "Resolve etld1 hid d al g = Some (al', g', cs)"
  then obtain i where "map_of (g_byID g) hid = Some i" and g': "g' = finishLocked i d g"
    by (auto simp: Resolve_def split: option.splits)
  then have i: "outstanding g i" "pe_id (g_heap g ! i) = hid" by (simp_all add: outstanding_byID [OF ix])
  then have lt: "i < length (g_heap g)" by (simp add: outstanding_def)
  have "awake i g' = Some d" using i lt by (simp add: g' awake_def finish_heap outstanding_def)
  with i lt show "\<exists>i. outstanding g i \<and> pe_id (g_heap g ! i) = hid \<and> awake i g' = Some d \<and>
      (\<forall>j. outstanding g' j \<longleftrightarrow> outstanding g j \<and> j \<noteq> i)"
    by (auto simp: g' finish_outstanding)
  have "map_of (g_byID g') hid = None"
    using i by (simp add: g' finishLocked_def outstanding_def delete_conv')
  then show "Resolve etld1 hid d2 al2 g' = None" by (simp add: Resolve_def)
qed

theorem Resolve_contract_witness:
  "Resolve (\<lambda>_. None) ''1.2.3.4#2'' denied (NewAllowListFromChain None) asked_gate = None \<longleftrightarrow>
     (\<nexists>i. outstanding asked_gate i \<and> pe_id (g_heap asked_gate ! i) = ''1.2.3.4#2'')"
proof -
  have "gate_inv asked_gate" using gate_sys.reach_inv [OF asked_gate_reachable] by simp
  then show ?thesis using Resolve_contract by blast
qed

text \<open>
  An answer "allow" with a scope wider than once lets every later connection to that address
  through, whatever the address rules of the policy say, unless the policy denies the destination by
  name.
\<close>

theorem session_grant_admits:
  assumes "Resolve etld1 hid d al g = Some (al', g', cs)" and "de_Action d = ActionAllow"
    and "de_Scope d \<noteq> ScopeOnce" and "map_of (g_byID g) hid = Some i"
    and "parseDest dest = Some (pe_key (g_heap g ! i), port)"
    and "\<nexists>m. DecideAddr (al_chain al) (attributedName al (pe_key (g_heap g ! i))) (pe_key (g_heap g ! i)) =
           (VerdictDeny, m, True)"
  shows "snd (Allow ask now now' dest al') = None"
proof -
  let ?ip = "pe_key (g_heap g ! i)"
  from Resolve_grants [OF assms(1-3)] assms(4) have al': "al' = grant ?ip al" by simp
  obtain v m k where "DecideAddr (al_chain al) (attributedName al ?ip) ?ip = (v, m, k)"
    by (rule DecideAddr_cases)
  with assms(5,6) show ?thesis
    unfolding Allow_table by (cases v) (auto simp: al')
qed

theorem session_grant_admits_witness:
  "snd (Allow (\<lambda>_ _ _. False) 9 10 ''1.2.3.4:443''
     (fst (the (Resolve (\<lambda>_. None) ''1.2.3.4#1'' \<lparr>de_Action = ActionAllow, de_Scope = ScopeSession\<rparr>
        (NewAllowListFromChain None) asked_gate)))) = None"
proof (rule session_grant_admits)
  let ?r = "Resolve (\<lambda>_. None) ''1.2.3.4#1'' \<lparr>de_Action = ActionAllow, de_Scope = ScopeSession\<rparr>
    (NewAllowListFromChain None) asked_gate"
  have "map_of (g_byID asked_gate) ''1.2.3.4#1'' = Some 0" by code_simp
  then show "map_of (g_byID asked_gate) ''1.2.3.4#1'' = Some 0" .
  then show "?r = Some (fst (the ?r), fst (snd (the ?r)), snd (snd (the ?r)))"
    by (simp add: Resolve_def)
  show "parseDest ''1.2.3.4:443'' = Some (pe_key (g_heap asked_gate ! 0), ''443'')" by code_simp
  have "DecideAddr (al_chain (NewAllowListFromChain None))
      (attributedName (NewAllowListFromChain None) (pe_key (g_heap asked_gate ! 0)))
      (pe_key (g_heap asked_gate ! 0)) = (VerdictNone, zero_match, False)" by code_simp
  then show "\<nexists>m. DecideAddr (al_chain (NewAllowListFromChain None))
      (attributedName (NewAllowListFromChain None) (pe_key (g_heap asked_gate ! 0)))
      (pe_key (g_heap asked_gate ! 0)) = (VerdictDeny, m, True)" by simp
qed simp_all

text \<open>
  A new subscriber's stream starts with one event for every outstanding hold, soonest deadline
  first, and nothing else.
\<close>

theorem Subscribe_replays:
  assumes "gate_inv g" and "Subscribe g = Some (g', s)"
  shows "\<exists>ps. map_of (g_subs g') s = Some (map pending_event ps) \<and> sorted (map pe_deadline ps) \<and>
    set ps = {g_heap g ! i | i. outstanding g i} \<and> length ps = length (g_byKey g)"
proof -
  let ?ps = "sort_key pe_deadline (held g)"
  from assms(2) have "map_of (g_subs g') s = Some (map pending_event ?ps)"
    by (auto simp: Subscribe_def update_conv' split: if_splits)
  moreover have "set ?ps = (\<lambda>i. g_heap g ! i) ` set (map snd (g_byKey g))"
    by (force simp: held_def)
  then have "set ?ps = {g_heap g ! i | i. outstanding g i}"
    unfolding image_def by (simp only: byKey_range [OF assms(1)] bex_simps Bex_def) blast
  moreover have "sorted (map pe_deadline ?ps)" "length ?ps = length (g_byKey g)"
    by (simp_all add: held_def)
  ultimately show ?thesis by blast
qed

theorem Subscribe_replays_witness:
  "\<exists>ps. map_of (g_subs (fst (the (Subscribe asked_gate)))) 1 = Some (map pending_event ps) \<and> length ps = 1"
proof -
  have "gate_inv asked_gate" using gate_sys.reach_inv [OF asked_gate_reachable] by simp
  moreover have "Subscribe asked_gate = Some (fst (the (Subscribe asked_gate)), 1)" by code_simp
  moreover have "length (g_byKey asked_gate) = 1" by code_simp
  ultimately show ?thesis using Subscribe_replays [of asked_gate "fst (the (Subscribe asked_gate))" 1] by auto
qed

text \<open>
  Clearing the bypass (a non-positive duration) closes it and still releases every held connection
  as allowed, although no bypass is open to justify that.
\<close>

theorem clearing_bypass_admits_holds:
  assumes "gate_inv g" and "d \<le> 0" and "outstanding g i" and "AllowAll now d al g = (al', g')"
  shows "\<not> bypassed now' al' \<and> awake i g' = Some \<lparr>de_Action = ActionAllow, de_Scope = ScopeOnce\<rparr>"
proof -
  have "i \<in> set (map snd (g_byKey g))" using assms(1,3) by (simp only: byKey_range)
  then have "awake i g' = Some \<lparr>de_Action = ActionAllow, de_Scope = ScopeOnce\<rparr>"
    using assms(3,4)
    by (auto simp: AllowAll_def awake_def finishAll_heap [OF byKey_lt [OF assms(1)]] outstanding_def
        simp del: set_map)
  moreover have "\<not> bypassed now' al'"
    using assms(2,4) by (auto simp: AllowAll_def AllowAllFor_def bypassed_def)
  ultimately show ?thesis by simp
qed

theorem clearing_bypass_admits_holds_witness:
  "awake 0 (snd (AllowAll 9 0 (NewAllowListFromChain None) asked_gate)) =
     Some \<lparr>de_Action = ActionAllow, de_Scope = ScopeOnce\<rparr>"
proof -
  have "gate_inv asked_gate" using gate_sys.reach_inv [OF asked_gate_reachable] by simp
  moreover have "outstanding asked_gate 0" by code_simp
  ultimately show ?thesis
    using clearing_bypass_admits_holds [of asked_gate 0 0 9 "NewAllowListFromChain None"]
    by (metis order_refl prod.collapse)
qed

text \<open>
  The wire form of a decision round-trips, and everything else is refused.
\<close>

theorem ParseDecision_roundtrip:
  "ParseDecision (Action_String (de_Action d)) (Scope_String (de_Scope d)) = Inr d \<and>
   ((\<exists>r. ParseDecision a s = Inr r) \<longleftrightarrow>
      a \<in> {''allow'', ''deny''} \<and> s \<in> {[], ''once'', ''session'', ''always''})"
proof
  show "ParseDecision (Action_String (de_Action d)) (Scope_String (de_Scope d)) = Inr d"
    by (cases "de_Action d"; cases "de_Scope d")
      (simp_all add: ParseDecision_def parseAction_def parseScope_def)
  show "(\<exists>r. ParseDecision a s = Inr r) \<longleftrightarrow>
      a \<in> {''allow'', ''deny''} \<and> s \<in> {[], ''once'', ''session'', ''always''}"
    by (auto simp: ParseDecision_def parseAction_def parseScope_def)
qed

end
