(* ===== verification/Lexer.thy ===== *)
theory Lexer
  imports Prelude "HOL-Library.Sublist"
begin

text \<open>
  The lexer of the project file. \<open>src/internal/template/lex.go\<close>: tokens with their source positions,
  comments, quoted strings, parameter references and the check of the parentheses; and
  \<open>offsetOf\<close> of \<open>src/internal/template/rewrite.go\<close>, which turns a position back into a byte offset.
  The scanner is modelled on the rest of the source: each case of the loop consumes bytes from its
  front, and the column moves as the code moves it (a carriage return and a line comment do not move
  it).
\<close>

section \<open>Tokens\<close>

datatype TokenKind = TokEOF | TokNewline | TokLParen | TokRParen | TokEquals | TokIdent | TokString

definition TokenKind_String :: "TokenKind \<Rightarrow> gostring" where
  "TokenKind_String k = (case k of
     TokEOF \<Rightarrow> ''EOF'' | TokNewline \<Rightarrow> ''newline'' | TokLParen \<Rightarrow> [CHR 39, CHR ''('', CHR 39]
   | TokRParen \<Rightarrow> [CHR 39, CHR '')'', CHR 39] | TokEquals \<Rightarrow> [CHR 39, CHR ''='', CHR 39]
   | TokIdent \<Rightarrow> ''identifier'' | TokString \<Rightarrow> ''string'')"

record Token =
  tk_Kind :: TokenKind
  tk_Val :: gostring
  tk_Line :: int
  tk_Col :: int

definition mkTok :: "TokenKind \<Rightarrow> gostring \<Rightarrow> int \<Rightarrow> int \<Rightarrow> Token" where
  "mkTok k v l c = \<lparr>tk_Kind = k, tk_Val = v, tk_Line = l, tk_Col = c\<rparr>"

datatype lex_error =
    UnterminatedComment int int
  | UnterminatedString int int
  | UnknownEscape int int char
  | UnterminatedRef int int
  | UnmatchedRParen int int
  | UnmatchedLParen

section \<open>Scanners\<close>

text \<open>\<open>unicode.IsSpace\<close> of a byte read as a rune: the spaces of Latin-1.\<close>

definition is_space_byte :: "char \<Rightarrow> bool" where
  "is_space_byte c \<longleftrightarrow> c \<in> {CHR 9, CHR 10, CHR 11, CHR 12, CHR 13, CHR '' '', CHR 0x85, CHR 0xA0}"

definition ident_stop :: "char \<Rightarrow> bool" where
  "ident_stop c \<longleftrightarrow>
     c \<in> {CHR '' '', CHR 9, CHR 10, CHR 13, CHR ''('', CHR '')'', CHR ''#'', CHR 34, CHR ''=''}"

fun block_comment :: "gostring \<Rightarrow> int \<Rightarrow> int \<Rightarrow> (gostring \<times> int \<times> int) option" where
  "block_comment [] l c = None"
| "block_comment (x # s) l c =
     (if x = CHR ''*'' \<and> s \<noteq> [] \<and> hd s = CHR ''/'' then Some (tl s, l, c + 2)
      else if x = CHR 10 then block_comment s (l + 1) 1
      else block_comment s l (c + 1))"

definition lex_escape :: "char \<Rightarrow> char option" where
  "lex_escape e =
     (if e = CHR 34 \<or> e = CHR 92 then Some e
      else if e = CHR ''n'' then Some (CHR 10)
      else if e = CHR ''t'' then Some (CHR 9)
      else None)"

fun lex_string :: "int \<Rightarrow> int \<Rightarrow> int \<Rightarrow> gostring \<Rightarrow> gostring \<Rightarrow> lex_error + gostring \<times> gostring \<times> int" where
  "lex_string l startCol c sb [] = Inl (UnterminatedString l startCol)"
| "lex_string l startCol c sb (x # s) =
     (if x = CHR 34 then Inr (sb, s, c + 1)
      else if x = CHR 10 then Inl (UnterminatedString l startCol)
      else if x = CHR 92 \<and> s \<noteq> []
      then case lex_escape (hd s) of
             None \<Rightarrow> Inl (UnknownEscape l c (hd s))
           | Some e \<Rightarrow> lex_string l startCol (c + 2) (sb @ [e]) (tl s)
      else lex_string l startCol (c + 1) (sb @ [x]) s)"

text \<open>The inside of a parameter reference up to its closing brace, and what follows it.\<close>

fun skip_ref :: "nat \<Rightarrow> gostring \<Rightarrow> (gostring \<times> gostring) option" where
  "skip_ref 0 s = Some ([], s)"
| "skip_ref (Suc d) [] = None"
| "skip_ref (Suc d) (x # s) =
     (if x = CHR 10 then None
      else map_option (apfst (Cons x))
             (skip_ref (if x = CHR ''{'' then Suc (Suc d) else if x = CHR ''}'' then d else Suc d) s))"

lemma skip_ref_split: "skip_ref d s = Some (u, r) \<Longrightarrow> s = u @ r"
  by (induction d s arbitrary: u rule: skip_ref.induct) (auto split: if_splits)

function scan_ident :: "gostring \<Rightarrow> (gostring \<times> gostring) option" where
  "scan_ident s =
     (if s = [] then Some ([], [])
      else if hd s = CHR ''$'' \<and> tl s \<noteq> [] \<and> hd (tl s) = CHR ''{''
      then case skip_ref 1 (tl (tl s)) of
             None \<Rightarrow> None
           | Some (u, r) \<Rightarrow> map_option (apfst (\<lambda>v. ''${'' @ u @ v)) (scan_ident r)
      else if ident_stop (hd s) then Some ([], s)
      else map_option (apfst (Cons (hd s))) (scan_ident (tl s)))"
  by pat_completeness auto
termination
proof (relation "measure length")
  fix s x u r
  assume "skip_ref 1 (tl (tl s)) = Some x" and "(u, r) = x" and "s \<noteq> []"
  then have "tl (tl s) = u @ r" by (auto dest: skip_ref_split)
  then have "length (tl (tl s)) = length u + length r" by simp
  with \<open>s \<noteq> []\<close> show "(r, s) \<in> measure length" by (cases s) auto
qed (auto simp: length_tl)

declare scan_ident.simps [simp del]

lemma scan_ident_Nil [simp]: "scan_ident [] = Some ([], [])"
  by (simp add: scan_ident.simps)

lemma scan_ident_Cons:
  "scan_ident (x # t) =
     (if x = CHR ''$'' \<and> t \<noteq> [] \<and> hd t = CHR ''{''
      then case skip_ref 1 (tl t) of
             None \<Rightarrow> None
           | Some (u, r) \<Rightarrow> map_option (apfst (\<lambda>v. ''${'' @ u @ v)) (scan_ident r)
      else if ident_stop x then Some ([], x # t)
      else map_option (apfst (Cons x)) (scan_ident t))"
  by (subst scan_ident.simps) simp

lemma scan_ident_split: "scan_ident s = Some (v, r) \<Longrightarrow> s = v @ r"
proof (induction s arbitrary: v r rule: scan_ident.induct)
  case (1 s)
  show ?case
  proof (cases s)
    case Nil
    with 1(3) show ?thesis by simp
  next
    case (Cons x t)
    note ih = 1(1,2) [unfolded Cons, simplified]
    show ?thesis
    proof (cases "x = CHR ''$'' \<and> t \<noteq> [] \<and> hd t = CHR ''{''")
      case True
      then obtain u q w where "skip_ref 1 (tl t) = Some (u, q)" "scan_ident q = Some (w, r)" "v = ''${'' @ u @ w"
        using 1(3) by (auto simp: Cons scan_ident_Cons split: option.splits)
      with ih(1) [of "(u, q)" u q w r] True show ?thesis by (cases t) (auto simp: Cons dest!: skip_ref_split)
    next
      case False
      with 1(3) ih(2) show ?thesis by (auto simp: Cons scan_ident_Cons split: if_splits)
    qed
  qed
qed

lemma scan_ident_progress: "scan_ident (x # t) = Some (v, r) \<Longrightarrow> \<not> ident_stop x \<Longrightarrow> v \<noteq> []"
  by (auto simp: scan_ident_Cons split: if_splits option.splits)

lemma block_comment_rest: "block_comment s l c = Some (r, l', c') \<Longrightarrow> length r < length s"
  by (induction s l c rule: block_comment.induct) (auto split: if_splits simp: less_SucI)

lemma lex_string_rest: "lex_string l sc c sb s = Inr (v, r, c') \<Longrightarrow> length r < length s"
  by (induction l sc c sb s rule: lex_string.induct) (auto split: if_splits option.splits simp: less_SucI)

section \<open>The lexer\<close>

definition emit :: "Token \<Rightarrow> lex_error + Token list \<Rightarrow> lex_error + Token list" where
  "emit t m = map_sum id (Cons t) m"

function lex_from :: "int \<Rightarrow> int \<Rightarrow> gostring \<Rightarrow> lex_error + Token list" where
  "lex_from line col [] = Inr [mkTok TokEOF [] line col]"
| "lex_from line col (r # s) =
     (if r = CHR 10 then emit (mkTok TokNewline [] line col) (lex_from (line + 1) 1 s)
      else if r = CHR 13 then lex_from line col s
      else if is_space_byte r then lex_from line (col + 1) s
      else if r = CHR ''#'' then lex_from line col (dropWhile (\<lambda>c. c \<noteq> CHR 10) s)
      else if r = CHR ''/'' \<and> s \<noteq> [] \<and> hd s = CHR ''/'' then lex_from line col (dropWhile (\<lambda>c. c \<noteq> CHR 10) s)
      else if r = CHR ''/'' \<and> s \<noteq> [] \<and> hd s = CHR ''*''
      then case block_comment (tl s) line (col + 2) of
             None \<Rightarrow> Inl (UnterminatedComment line col)
           | Some (rest, l', c') \<Rightarrow> lex_from l' c' rest
      else if r = CHR ''('' then emit (mkTok TokLParen [] line col) (lex_from line (col + 1) s)
      else if r = CHR '')'' then emit (mkTok TokRParen [] line col) (lex_from line (col + 1) s)
      else if r = CHR ''='' then emit (mkTok TokEquals [] line col) (lex_from line (col + 1) s)
      else if r = CHR 34
      then case lex_string line col (col + 1) [] s of
             Inl err \<Rightarrow> Inl err
           | Inr (v, rest, c') \<Rightarrow> emit (mkTok TokString v line col) (lex_from line c' rest)
      else case scan_ident (r # s) of
             None \<Rightarrow> Inl (UnterminatedRef line col)
           | Some (v, rest) \<Rightarrow> emit (mkTok TokIdent v line col) (lex_from line (col + int (length v)) rest))"
  by pat_completeness auto
termination
proof (relation "measure (\<lambda>(l, c, s). length s)", goal_cases)
  case (7 line col r s p rest q l' c')
  then show ?case by (auto dest!: block_comment_rest)
next
  case (11 line col r s p v q rest c')
  then show ?case by (auto dest!: lex_string_rest)
next
  case (12 line col r s p v rest)
  then have "\<not> ident_stop r" by (auto simp: ident_stop_def is_space_byte_def)
  moreover have "scan_ident (r # s) = Some (v, rest)" using 12 by simp
  ultimately show ?case using scan_ident_progress [of r s v rest] scan_ident_split [of "r # s" v rest]
    by (cases v) auto
qed (auto intro: le_imp_less_Suc length_dropWhile_le)

declare lex_from.simps(2) [simp del]

fun validateTokens :: "nat \<Rightarrow> Token list \<Rightarrow> lex_error option" where
  "validateTokens depth [] = (if depth \<noteq> 0 then Some UnmatchedLParen else None)"
| "validateTokens depth (t # ts) =
     (case tk_Kind t of
        TokLParen \<Rightarrow> validateTokens (Suc depth) ts
      | TokRParen \<Rightarrow>
          if depth = 0 then Some (UnmatchedRParen (tk_Line t) (tk_Col t)) else validateTokens (depth - 1) ts
      | _ \<Rightarrow> validateTokens depth ts)"

definition Lex :: "gostring \<Rightarrow> lex_error + Token list" where
  "Lex src =
     (case lex_from 1 1 src of
        Inl err \<Rightarrow> Inl err
      | Inr toks \<Rightarrow> (case validateTokens 0 toks of Some err \<Rightarrow> Inl err | None \<Rightarrow> Inr toks))"

definition keyword_list :: "gostring list" where
  "keyword_list = [''provider'', ''includes'', ''allow'', ''ip'', ''forwards'', ''name'', ''nested'', ''cpu'',
     ''memory'', ''memory_max'', ''vm'', ''network'', ''deny'', ''skills'', ''on'', ''agent'', ''instructions'']"

definition isKeyword :: "gostring \<Rightarrow> bool" where
  "isKeyword s \<longleftrightarrow> s \<in> set keyword_list"

text \<open>\<open>offsetOf\<close>: the byte offset of a position; None stands for its errors.\<close>

fun skip_lines :: "int \<Rightarrow> int \<Rightarrow> nat \<Rightarrow> gostring \<Rightarrow> int \<times> nat" where
  "skip_lines line cur i [] = (cur, i)"
| "skip_lines line cur i (x # s) =
     (if cur < line then skip_lines line (if x = CHR 10 then cur + 1 else cur) (Suc i) s else (cur, i))"

definition offsetOf :: "gostring \<Rightarrow> int \<Rightarrow> int \<Rightarrow> nat option" where
  "offsetOf src line col =
     (if line < 1 \<or> col < 1 then None
      else case skip_lines line 1 0 src of (cur, i) \<Rightarrow>
        if cur \<noteq> line then None
        else if int (length src) < int i + col - 1 then None
        else Some (nat (int i + col - 1)))"

section \<open>Scanners stop where the text allows\<close>

lemma skip_ref_self: "skip_ref d s = Some (u, r) \<Longrightarrow> skip_ref d u = Some (u, [])"
  by (induction d s arbitrary: u rule: skip_ref.induct) (auto split: if_splits)

lemma skip_ref_append: "skip_ref d s = Some (u, r) \<Longrightarrow> skip_ref d (s @ y) = Some (u, r @ y)"
  by (induction d s arbitrary: u rule: skip_ref.induct) (auto split: if_splits)

lemma skip_ref_open: "skip_ref 1 t = Some (u, r) \<Longrightarrow> skip_ref 1 (u @ y) = Some (u, y)"
  using skip_ref_self skip_ref_append by fastforce

text \<open>An identifier is one on its own, and stays one in front of any byte that ends identifiers.\<close>

lemma scan_ident_self: "scan_ident s = Some (v, r) \<Longrightarrow> y = [] \<or> ident_stop (hd y) \<Longrightarrow> scan_ident (v @ y) = Some (v, y)"
proof (induction s arbitrary: v r rule: scan_ident.induct)
  case (1 s)
  have stop: "scan_ident y = Some ([], y)"
    using 1(4) by (cases y) (auto simp: scan_ident_Cons ident_stop_def)
  show ?case
  proof (cases s)
    case Nil
    with 1(3) stop show ?thesis by simp
  next
    case (Cons x t)
    note ih = 1(1,2) [unfolded Cons, simplified]
    show ?thesis
    proof (cases "x = CHR ''$'' \<and> t \<noteq> [] \<and> hd t = CHR ''{''")
      case True
      then obtain u q w where u: "skip_ref 1 (tl t) = Some (u, q)" "scan_ident q = Some (w, r)" "v = ''${'' @ u @ w"
        using 1(3) by (auto simp: Cons scan_ident_Cons split: option.splits)
      have "scan_ident (w @ y) = Some (w, y)" using ih(1) [of "(u, q)" u q w r] True u 1(4) by simp
      then show ?thesis using skip_ref_open [OF u(1), of "w @ y"] by (simp add: u(3) scan_ident_Cons)
    next
      case False
      then show ?thesis
      proof (cases "ident_stop x")
        case True
        with False 1(3) stop show ?thesis by (auto simp: Cons scan_ident_Cons)
      next
        case go: False
        then obtain w where w: "scan_ident t = Some (w, r)" "v = x # w"
          using False 1(3) by (auto simp: Cons scan_ident_Cons)
        have "t = w @ r" using w(1) by (rule scan_ident_split)
        then have "\<not> (x = CHR ''$'' \<and> w @ y \<noteq> [] \<and> hd (w @ y) = CHR ''{'')"
          using False 1(4) by (cases w) (auto simp: ident_stop_def)
        moreover have "scan_ident (w @ y) = Some (w, y)"
          using ih(2) [OF _ go w(1) 1(4)] False by simp
        ultimately show ?thesis using go by (auto simp: w(2) scan_ident_Cons)
      qed
    qed
  qed
qed

section \<open>Printing tokens\<close>

text \<open>
  The text of a token, and of a sequence of tokens: a blank after each token. What can be printed is
  any string, and an identifier that the scanner takes whole.
\<close>

type_synonym lexeme = "TokenKind \<times> gostring"

definition lexeme_of :: "Token \<Rightarrow> lexeme" where
  "lexeme_of t = (tk_Kind t, tk_Val t)"

definition escape_byte :: "char \<Rightarrow> gostring" where
  "escape_byte c =
     (if c = CHR 34 \<or> c = CHR 92 then [CHR 92, c]
      else if c = CHR 10 then [CHR 92, CHR ''n''] else [c])"

definition quote_string :: "gostring \<Rightarrow> gostring" where
  "quote_string v = CHR 34 # concat (map escape_byte v) @ [CHR 34]"

definition render_one :: "lexeme \<Rightarrow> gostring" where
  "render_one x = (case fst x of
     TokEOF \<Rightarrow> [] | TokNewline \<Rightarrow> [CHR 10] | TokLParen \<Rightarrow> ''('' | TokRParen \<Rightarrow> '')'' | TokEquals \<Rightarrow> ''=''
   | TokIdent \<Rightarrow> snd x | TokString \<Rightarrow> quote_string (snd x))"

definition render :: "lexeme list \<Rightarrow> gostring" where
  "render xs = concat (map (\<lambda>x. render_one x @ '' '') xs)"

definition ident_text :: "gostring \<Rightarrow> bool" where
  "ident_text v \<longleftrightarrow> v \<noteq> [] \<and> scan_ident v = Some (v, []) \<and> \<not> is_space_byte (hd v) \<and>
     \<not> has_prefix v ''//'' \<and> \<not> has_prefix v ''/*''"

definition printable :: "lexeme \<Rightarrow> bool" where
  "printable x \<longleftrightarrow> (case fst x of
     TokEOF \<Rightarrow> False | TokIdent \<Rightarrow> ident_text (snd x) | TokString \<Rightarrow> True | _ \<Rightarrow> snd x = [])"

lemma lexeme_of_mkTok [simp]: "lexeme_of (mkTok k v l c) = (k, v)"
  by (simp add: lexeme_of_def mkTok_def)

lemma ident_text_hd: "ident_text v \<Longrightarrow> \<not> ident_stop (hd v)"
  by (cases v) (auto simp: ident_text_def scan_ident_Cons ident_stop_def split: if_splits)

lemma lex_string_quoted:
  "\<exists>c'. lex_string l sc c sb (concat (map escape_byte v) @ CHR 34 # r) = Inr (sb @ v, r, c')"
proof (induction v arbitrary: sb c)
  case (Cons x v)
  show ?case
    using Cons [of "c + 1" "sb @ [x]"] Cons [of "c + 2" "sb @ [x]"]
    by (auto simp: escape_byte_def lex_escape_def)
qed simp

lemma lex_blank [simp]: "lex_from l c (CHR '' '' # s) = lex_from l (c + 1) s"
  by (simp add: lex_from.simps(2) is_space_byte_def)

lemma lex_marks [simp]:
  "lex_from l c (CHR 10 # s) = emit (mkTok TokNewline [] l c) (lex_from (l + 1) 1 s)"
  "lex_from l c (CHR ''('' # s) = emit (mkTok TokLParen [] l c) (lex_from l (c + 1) s)"
  "lex_from l c (CHR '')'' # s) = emit (mkTok TokRParen [] l c) (lex_from l (c + 1) s)"
  "lex_from l c (CHR ''='' # s) = emit (mkTok TokEquals [] l c) (lex_from l (c + 1) s)"
  "lex_from l c (CHR 34 # s) = (case lex_string l c (c + 1) [] s of Inl err \<Rightarrow> Inl err
     | Inr (v, rest, c') \<Rightarrow> emit (mkTok TokString v l c) (lex_from l c' rest))"
  by (simp_all add: lex_from.simps(2) is_space_byte_def)

lemma lex_from_ident:
  assumes "ident_text v"
  shows "lex_from l c (v @ CHR '' '' # s) = emit (mkTok TokIdent v l c) (lex_from l (c + int (length v) + 1) s)"
proof -
  obtain x w where v: "v = x # w" using assms by (cases v) (auto simp: ident_text_def)
  have "\<not> ident_stop x" "\<not> is_space_byte x" using ident_text_hd [OF assms] assms by (auto simp: v ident_text_def)
  then have x: "x \<notin> {CHR 10, CHR 13, CHR ''#'', CHR ''('', CHR '')'', CHR ''='', CHR 34}" "\<not> is_space_byte x"
    by (auto simp: ident_stop_def)
  have slash: "\<not> (x = CHR ''/'' \<and> w @ CHR '' '' # s \<noteq> [] \<and> hd (w @ CHR '' '' # s) \<in> {CHR ''/'', CHR ''*''})"
    using assms by (cases w) (auto simp: v ident_text_def has_prefix_def)
  have "scan_ident v = Some (v, [])" using assms by (simp add: ident_text_def)
  then have "scan_ident (v @ CHR '' '' # s) = Some (v, CHR '' '' # s)"
    by (rule scan_ident_self) (simp add: ident_stop_def)
  with x slash show ?thesis by (auto simp: v lex_from.simps(2) [of l c x] add.assoc)
qed

lemma emit_lexemes:
  "(\<exists>toks. emit t m = Inr toks \<and> map lexeme_of toks = lexeme_of t # xs) \<longleftrightarrow> (\<exists>toks. m = Inr toks \<and> map lexeme_of toks = xs)"
  by (cases m) (auto simp: emit_def)

lemma render_Cons: "render (x # xs) = render_one x @ CHR '' '' # render xs"
  by (simp add: render_def)

lemma lex_from_render:
  "list_all printable xs \<Longrightarrow> \<exists>toks. lex_from l c (render xs) = Inr toks \<and> map lexeme_of toks = xs @ [(TokEOF, [])]"
proof (induction xs arbitrary: l c)
  case Nil
  then show ?case by (simp add: render_def)
next
  case (Cons x xs)
  then have pr: "printable x" and ih: "\<And>l c. \<exists>toks. lex_from l c (render xs) = Inr toks \<and> map lexeme_of toks = xs @ [(TokEOF, [])]"
    by auto
  note r = render_Cons [of x xs]
  obtain k v where x: "x = (k, v)" by (cases x)
  show ?case
  proof (cases k)
    case TokString
    obtain c' where "lex_string l c (c + 1) [] (concat (map escape_byte v) @ CHR 34 # CHR '' '' # render xs) =
        Inr (v, CHR '' '' # render xs, c')"
      using lex_string_quoted [of l c "c + 1" "[]" v "CHR '' '' # render xs"] by auto
    then have "lex_from l c (render (x # xs)) = emit (mkTok TokString v l c) (lex_from l (c' + 1) (render xs))"
      unfolding r by (simp add: x render_one_def TokString quote_string_def)
    then show ?thesis using emit_lexemes [of "mkTok TokString v l c" _ "xs @ [(TokEOF, [])]"] ih [of l "c' + 1"] by (simp add: x TokString)
  next
    case TokIdent
    then have "lex_from l c (render (x # xs)) = emit (mkTok TokIdent v l c) (lex_from l (c + int (length v) + 1) (render xs))"
      using pr unfolding r by (simp add: x render_one_def printable_def lex_from_ident)
    then show ?thesis using emit_lexemes [of "mkTok TokIdent v l c" _ "xs @ [(TokEOF, [])]"] ih by (simp add: x TokIdent)
  qed (use pr ih emit_lexemes [of "mkTok k v l c" _ "xs @ [(TokEOF, [])]"] in
      \<open>auto simp: render_Cons x render_one_def printable_def\<close>)
qed

section \<open>What the lexer returns\<close>

lemma emit_Inr [simp]: "emit t m = Inr toks \<longleftrightarrow> (\<exists>ts. m = Inr ts \<and> toks = t # ts)"
  by (cases m) (auto simp: emit_def)

lemma lexed_ident:
  assumes "scan_ident (x # s) = Some (v, r)" and "\<not> ident_stop x" and "\<not> is_space_byte x"
    and "\<not> (x = CHR ''/'' \<and> s \<noteq> [] \<and> hd s \<in> {CHR ''/'', CHR ''*''})"
  shows "ident_text v"
proof -
  have ne: "v \<noteq> []" using scan_ident_progress assms(1,2) by blast
  then obtain w where v: "v = x # w" "s = w @ r" using scan_ident_split [OF assms(1)] by (cases v) auto
  have "scan_ident v = Some (v, [])" using scan_ident_self [OF assms(1), of "[]"] by simp
  with assms(3,4) show ?thesis by (cases w) (auto simp: ident_text_def v has_prefix_def)
qed

subsection \<open>Positions\<close>

text \<open>
  The line and the column after a piece of text, and what the lexer keeps of them: the line is right,
  and the column is right unless the next byte ends the line (a line comment does not move it).
\<close>

definition line_of :: "gostring \<Rightarrow> int" where
  "line_of p = 1 + int (count_byte p (CHR 10))"

definition col_of :: "gostring \<Rightarrow> int" where
  "col_of p = 1 + int (length (takeWhile (\<lambda>c. c \<noteq> CHR 10) (rev p)))"

definition at_pos :: "gostring \<Rightarrow> int \<Rightarrow> int \<Rightarrow> gostring \<Rightarrow> bool" where
  "at_pos p l c s \<longleftrightarrow> l = line_of p \<and> (c = col_of p \<or> s = [] \<or> hd s = CHR 10)"

lemma takeWhile_absent: "c \<notin> set xs \<Longrightarrow> takeWhile (\<lambda>x. x \<noteq> c) (xs @ ys) = xs @ takeWhile (\<lambda>x. x \<noteq> c) ys"
  by (induction xs) auto

lemma pos_append:
  "CHR 10 \<notin> set u \<Longrightarrow> line_of (p @ u) = line_of p" "CHR 10 \<notin> set u \<Longrightarrow> col_of (p @ u) = col_of p + int (length u)"
  "line_of (p @ [CHR 10]) = line_of p + 1" "col_of (p @ [CHR 10]) = 1"
  by (auto simp: line_of_def col_of_def count_byte_def filter_empty_conv takeWhile_absent)

lemma scan_ident_line: "scan_ident s = Some (v, r) \<Longrightarrow> CHR 10 \<notin> set v"
proof (induction s arbitrary: v r rule: scan_ident.induct)
  case (1 s)
  have ref: "CHR 10 \<notin> set u" if "skip_ref d t = Some (u, q)" for d t u q
    using that by (induction d t arbitrary: u rule: skip_ref.induct) (auto split: if_splits)
  show ?case
  proof (cases s)
    case (Cons x t)
    with 1(3) 1(1,2) [unfolded Cons, simplified] show ?thesis
      by (auto simp: Cons scan_ident_Cons ident_stop_def dest!: ref split: if_splits option.splits)
  qed (use 1(3) in simp)
qed

lemma lex_string_line:
  "lex_string l sc c sb s = Inr (v, r, c') \<Longrightarrow> \<exists>u. s = u @ r \<and> CHR 10 \<notin> set u \<and> c' = c + int (length u)"
proof (induction l sc c sb s rule: lex_string.induct)
  case (2 l sc c sb x s)
  consider "x = CHR 34" | e where "x = CHR 92" "s \<noteq> []" "lex_escape (hd s) = Some e"
    | "x \<noteq> CHR 34" "x \<noteq> CHR 10" "\<not> (x = CHR 92 \<and> s \<noteq> [])"
    using 2(3) by (auto split: if_splits option.splits)
  then show ?case
  proof cases
    case 1
    with 2(3) show ?thesis by (intro exI [of _ "[x]"]) auto
  next
    case (2 e)
    then have hd: "hd s \<noteq> CHR 10" by (auto simp: lex_escape_def)
    from 2 \<open>lex_string l sc c sb (x # s) = _\<close> have "lex_string l sc (c + 2) (sb @ [e]) (tl s) = Inr (v, r, c')" by simp
    with "2.IH"(1) 2 obtain u where "tl s = u @ r" "CHR 10 \<notin> set u" "c' = c + 2 + int (length u)" by auto
    with hd 2 show ?thesis by (intro exI [of _ "x # hd s # u"]) (cases s; auto)
  next
    case 3
    then have "lex_string l sc (c + 1) (sb @ [x]) s = Inr (v, r, c')" using 2(3) by auto
    with 2(2) 3 obtain u where "s = u @ r" "CHR 10 \<notin> set u" "c' = c + 1 + int (length u)" by auto
    with 3 show ?thesis by (intro exI [of _ "x # u"]) auto
  qed
qed simp

lemma block_comment_pos:
  "block_comment s l c = Some (r, l', c') \<Longrightarrow>
     \<exists>u. s = u @ r \<and> (\<forall>p. l = line_of p \<and> c = col_of p \<longrightarrow> l' = line_of (p @ u) \<and> c' = col_of (p @ u))"
proof (induction s l c rule: block_comment.induct)
  case (2 x s l c)
  have step: "\<exists>u. x # s = u @ r \<and> (\<forall>p. l = line_of p \<and> c = col_of p \<longrightarrow> l' = line_of (p @ u) \<and> c' = col_of (p @ u))"
    if "\<exists>u. s = u @ r \<and> (\<forall>p. l1 = line_of p \<and> c1 = col_of p \<longrightarrow> l' = line_of (p @ u) \<and> c' = col_of (p @ u))"
      and "\<And>p. l = line_of p \<and> c = col_of p \<Longrightarrow> l1 = line_of (p @ [x]) \<and> c1 = col_of (p @ [x])" for l1 c1
    using that by (metis append.assoc append_Cons append_Nil)
  consider "x = CHR ''*''" "s \<noteq> []" "hd s = CHR ''/''" | "x = CHR 10"
    | "x \<noteq> CHR 10" "\<not> (x = CHR ''*'' \<and> s \<noteq> [] \<and> hd s = CHR ''/'')" by blast
  then show ?case
  proof cases
    case 1
    with 2(3) show ?thesis
      by (intro exI [of _ "[x, hd s]"]) (cases s; auto simp: pos_append)
  next
    case nl: 2
    show ?thesis by (rule step [OF 2(1)]) (use nl 2(3) in \<open>auto simp: pos_append\<close>)
  next
    case 3
    show ?thesis by (rule step [OF 2(2)]) (use 3 2(3) in \<open>auto simp: pos_append\<close>)
  qed
qed simp

subsection \<open>One step of the loop\<close>

text \<open>
  What one turn of the loop does: it takes a non-empty piece off the front and either skips it or
  makes a printable token of it, which stands at the current position; the position stays right.
\<close>

fun cr_ok :: "gostring \<Rightarrow> bool" where
  "cr_ok [] = True"
| "cr_ok (x # s) \<longleftrightarrow> (x = CHR 13 \<longrightarrow> s = [] \<or> hd s = CHR 10) \<and> cr_ok s"

lemma cr_ok_rest: "cr_ok (u @ r) \<Longrightarrow> cr_ok r"
  by (induction u) auto

lemma lex_step:
  assumes lex: "lex_from l c (x # s) = Inr toks"
  obtains (skip) u r l' c' where "x # s = u @ r" "u \<noteq> []" "lex_from l' c' r = Inr toks"
      "\<And>p. cr_ok (x # s) \<Longrightarrow> at_pos p l c (x # s) \<Longrightarrow> at_pos (p @ u) l' c' r"
    | (tok) u r l' c' k v ts where "x # s = u @ r" "u \<noteq> []" "lex_from l' c' r = Inr ts"
      "\<And>p. cr_ok (x # s) \<Longrightarrow> at_pos p l c (x # s) \<Longrightarrow> at_pos (p @ u) l' c' r"
      "toks = mkTok k v l c # ts" "printable (k, v)" "k = TokIdent \<Longrightarrow> u = v \<and> x \<noteq> CHR 10"
proof -
  have one: "at_pos (p @ [x]) l (c + 1) s" if "at_pos p l c (x # s)" "x \<noteq> CHR 10" for p
    using that by (simp add: at_pos_def pos_append)
  have comment: thesis if "lex_from l c (dropWhile (\<lambda>c. c \<noteq> CHR 10) (x # s)) = Inr toks" "x \<noteq> CHR 10"
  proof (rule skip)
    let ?u = "takeWhile (\<lambda>c. c \<noteq> CHR 10) (x # s)"
    show "x # s = ?u @ dropWhile (\<lambda>c. c \<noteq> CHR 10) (x # s)" "?u \<noteq> []" using that(2) by simp_all
    have "CHR 10 \<notin> set ?u" using set_takeWhileD by fast
    moreover have "dropWhile (\<lambda>c. c \<noteq> CHR 10) (x # s) = [] \<or> hd (dropWhile (\<lambda>c. c \<noteq> CHR 10) (x # s)) = CHR 10"
      using hd_dropWhile [of "\<lambda>c. c \<noteq> CHR 10" "x # s"] by blast
    ultimately show "at_pos p l c (x # s) \<Longrightarrow> at_pos (p @ ?u) l c (dropWhile (\<lambda>c. c \<noteq> CHR 10) (x # s))" for p
      unfolding at_pos_def using pos_append(1) by metis
  qed (rule that(1))
  have "x = CHR 10 \<or> x \<in> {CHR ''('', CHR '')'', CHR ''=''} \<or> x = CHR 34 \<or> x = CHR ''#'' \<or> is_space_byte x \<or> \<not> ident_stop x"
    by (auto simp: ident_stop_def is_space_byte_def)
  then consider "x = CHR 10" | "x \<in> {CHR ''('', CHR '')'', CHR ''=''}" | "x = CHR 13"
    | "is_space_byte x" "x \<notin> {CHR 10, CHR 13}"
    | "x = CHR ''#'' \<or> x = CHR ''/'' \<and> s \<noteq> [] \<and> hd s = CHR ''/''"
    | t where "x = CHR ''/''" "s = CHR ''*'' # t" | "x = CHR 34"
    | "\<not> ident_stop x" "\<not> is_space_byte x" "\<not> (x = CHR ''/'' \<and> s \<noteq> [] \<and> hd s \<in> {CHR ''/'', CHR ''*''})"
    by (metis insert_iff list.collapse empty_iff)
  then show thesis
  proof cases
    case 1
    with lex show thesis by (auto intro!: tok [of "[x]"] simp: printable_def at_pos_def pos_append)
  next
    case 2
    then obtain k where "lex_from l c (x # s) = emit (mkTok k [] l c) (lex_from l (c + 1) s)" "printable (k, [])"
      "k \<noteq> TokIdent" "x \<noteq> CHR 10"
      by (auto simp: printable_def)
    with lex show thesis by (auto intro!: tok [of "[x]"] one)
  next
    case 3
    with lex show thesis by (auto intro!: skip [of "[x]"] simp: lex_from.simps(2) at_pos_def pos_append)
  next
    case 4
    with lex show thesis by (auto intro!: skip [of "[x]"] one simp: lex_from.simps(2))
  next
    case 5
    with lex show thesis by (intro comment) (auto simp: lex_from.simps(2) is_space_byte_def)
  next
    case (6 t)
    then obtain r l' c' where b: "block_comment t l (c + 2) = Some (r, l', c')" and r: "lex_from l' c' r = Inr toks"
      using lex by (auto simp: lex_from.simps(2) is_space_byte_def split: option.splits)
    obtain u where u: "t = u @ r"
      "\<And>p. l = line_of p \<Longrightarrow> c + 2 = col_of p \<Longrightarrow> l' = line_of (p @ u) \<and> c' = col_of (p @ u)"
      using block_comment_pos [OF b] by blast
    show thesis
    proof (rule skip [of "x # CHR ''*'' # u" r, OF _ _ r])
      fix p
      assume "at_pos p l c (x # s)"
      then have "l = line_of (p @ [x, CHR ''*''])" "c + 2 = col_of (p @ [x, CHR ''*''])"
        using 6 by (simp_all add: at_pos_def pos_append)
      from u(2) [OF this] show "at_pos (p @ x # CHR ''*'' # u) l' c' r" by (simp add: at_pos_def)
    qed (simp_all add: 6 u(1))
  next
    case 7
    then obtain v r c' ts where q: "lex_string l c (c + 1) [] s = Inr (v, r, c')" "lex_from l c' r = Inr ts"
      "toks = mkTok TokString v l c # ts"
      using lex by (auto split: sum.splits)
    obtain u where "s = u @ r" "CHR 10 \<notin> set u" "c' = c + 1 + int (length u)" using lex_string_line [OF q(1)] by blast
    with q 7 show thesis by (auto intro!: tok [of "x # u"] simp: printable_def at_pos_def pos_append)
  next
    case 8
    have "lex_from l c (x # s) = (case scan_ident (x # s) of None \<Rightarrow> Inl (UnterminatedRef l c)
        | Some (v, rest) \<Rightarrow> emit (mkTok TokIdent v l c) (lex_from l (c + int (length v)) rest))"
      using 8 by (auto simp: lex_from.simps(2) ident_stop_def is_space_byte_def)
    with lex obtain v r ts where v: "scan_ident (x # s) = Some (v, r)" "lex_from l (c + int (length v)) r = Inr ts"
      "toks = mkTok TokIdent v l c # ts" by (auto split: option.splits)
    have "x \<noteq> CHR 10" using 8(1) by (auto simp: ident_stop_def)
    then show thesis
      using v scan_ident_split [OF v(1)] scan_ident_progress [OF v(1) 8(1)] scan_ident_line [OF v(1)] lexed_ident [OF v(1) 8]
      by (intro tok [of v r l "c + int (length v)" ts TokIdent v]) (cases v; auto simp: printable_def at_pos_def pos_append)+
  qed
qed

lemma lex_from_shape:
  "lex_from l c s = Inr toks \<Longrightarrow>
     \<exists>ts e. toks = ts @ [e] \<and> lexeme_of e = (TokEOF, []) \<and> list_all (\<lambda>t. printable (lexeme_of t)) ts"
proof (induction s arbitrary: l c toks rule: measure_induct_rule [of length])
  case (less s)
  show ?case
  proof (cases s)
    case (Cons x t)
    with less.prems have "lex_from l c (x # t) = Inr toks" by simp
    then show ?thesis
    proof (cases rule: lex_step)
      case (skip u r l' c')
      then have "length r < length s" by (simp add: Cons)
      from less.IH [OF this skip(3)] show ?thesis .
    next
      case (tok u r l' c' k v ts)
      then have "length r < length s" by (simp add: Cons)
      from less.IH [OF this tok(3)] obtain us e where "ts = us @ [e]" "lexeme_of e = (TokEOF, [])"
        "list_all (\<lambda>t. printable (lexeme_of t)) us" by blast
      with tok(5,6) show ?thesis by (intro exI [of _ "mkTok k v l c # us"] exI [of _ e]) simp
    qed
  qed (use less.prems in auto)
qed

lemma lex_from_positions:
  "lex_from l c s = Inr toks \<Longrightarrow> cr_ok s \<Longrightarrow> at_pos p l c s \<Longrightarrow> t \<in> set toks \<Longrightarrow> tk_Kind t = TokIdent \<Longrightarrow>
     \<exists>q r. p @ s = q @ tk_Val t @ r \<and> tk_Line t = line_of q \<and> tk_Col t = col_of q"
proof (induction s arbitrary: l c toks p rule: measure_induct_rule [of length])
  case (less s)
  show ?case
  proof (cases s)
    case (Cons x s')
    with less.prems have "lex_from l c (x # s') = Inr toks" by simp
    then show ?thesis
    proof (cases rule: lex_step)
      case (skip u r l' c')
      then have "length r < length s" "at_pos (p @ u) l' c' r" "cr_ok r" using less.prems by (auto simp: Cons dest: cr_ok_rest)
      with less.IH [of r l' c' toks "p @ u"] skip less.prems show ?thesis by (simp add: Cons)
    next
      case (tok u r l' c' k v ts)
      then have shorter: "length r < length s" "at_pos (p @ u) l' c' r" "cr_ok r" using less.prems by (auto simp: Cons dest: cr_ok_rest)
      show ?thesis
      proof (cases "t \<in> set ts")
        case True
        with less.IH [of r l' c' ts "p @ u"] tok less.prems shorter show ?thesis by (simp add: Cons)
      next
        case False
        with less.prems(4,5) tok(5) have t: "t = mkTok TokIdent v l c" "k = TokIdent" by (auto simp: mkTok_def)
        with tok(7) less.prems(3) have "x \<noteq> CHR 10" "u = v" "l = line_of p" "c = col_of p" by (auto simp: at_pos_def Cons)
        with tok(1) show ?thesis by (intro exI [of _ p] exI [of _ r]) (simp add: t Cons mkTok_def)
      qed
    qed
  qed (use less.prems in \<open>auto simp: mkTok_def\<close>)
qed

lemma skip_lines_spec:
  "skip_lines (cur + int (count_byte p (CHR 10))) cur i (p @ r) =
     (cur + int (count_byte p (CHR 10)), i + (length p - length (takeWhile (\<lambda>c. c \<noteq> CHR 10) (rev p))))"
proof (induction p arbitrary: cur i)
  case Nil
  then show ?case by (cases r) (auto simp: count_byte_def)
next
  case (Cons x p)
  show ?case
  proof (cases "CHR 10 \<in> set (x # p)")
    case False
    then have "takeWhile (\<lambda>c. c \<noteq> CHR 10) (rev p @ [x]) = rev p @ [x]" "count_byte (x # p) (CHR 10) = 0"
      by (auto simp: takeWhile_absent count_byte_def filter_empty_conv)
    then have "length (takeWhile (\<lambda>c. c \<noteq> CHR 10) (rev (x # p))) = length (x # p)" "count_byte (x # p) (CHR 10) = 0"
      by (simp_all del: takeWhile_eq_all_conv)
    then show ?thesis by (simp del: rev.simps)
  next
    case True
    have tw: "length (takeWhile (\<lambda>c. c \<noteq> CHR 10) (rev p)) \<le> length p"
      using length_takeWhile_le [of _ "rev p"] by simp
    have "takeWhile (\<lambda>c. c \<noteq> CHR 10) (rev p @ [x]) = takeWhile (\<lambda>c. c \<noteq> CHR 10) (rev p)"
    proof (cases "CHR 10 \<in> set p")
      case False
      with True have "x = CHR 10" by simp
      with takeWhile_absent [of "CHR 10" "rev p" "[x]"] takeWhile_absent [of "CHR 10" "rev p" "[]"] False
      show ?thesis by (simp del: takeWhile_eq_all_conv)
    qed (simp add: takeWhile_append1)
    moreover have "0 < count_byte (x # p) (CHR 10)" using True by (auto simp: count_byte_def filter_empty_conv)
    ultimately show ?thesis
      using Cons [of "if x = CHR 10 then cur + 1 else cur" "Suc i"] tw by (auto simp: count_byte_def add.assoc Suc_diff_le)
  qed
qed

lemma offsetOf_prefix: "offsetOf (q @ r) (line_of q) (col_of q) = Some (length q)"
proof -
  have "length (takeWhile (\<lambda>c. c \<noteq> CHR 10) (rev q)) \<le> length q"
    using length_takeWhile_le [of _ "rev q"] by simp
  then show ?thesis
    using skip_lines_spec [of 1 q 0 r] by (simp add: offsetOf_def line_of_def col_of_def)
qed

lemma validateTokens_kinds:
  "map tk_Kind ts = map tk_Kind us \<Longrightarrow> validateTokens d ts = None \<longleftrightarrow> validateTokens d us = None"
proof (induction ts arbitrary: us d)
  case (Cons t ts)
  then obtain u vs where "us = u # vs" "tk_Kind t = tk_Kind u" "map tk_Kind ts = map tk_Kind vs" by (cases us) auto
  with Cons.IH show ?case by (simp split: TokenKind.split)
qed simp

lemma Lex_tokens: "Lex src = Inr toks \<longleftrightarrow> lex_from 1 1 src = Inr toks \<and> validateTokens 0 toks = None"
  by (auto simp: Lex_def split: sum.splits option.splits)

section \<open>Theorems\<close>

text \<open>
  The position the lexer records for an identifier is the place of its text: in a source whose
  carriage returns all end lines, \<open>offsetOf\<close> turns it into an offset at which the identifier stands, so the
  rewriter splices at the right bytes. Comments and strings before it, over any number of lines, do
  not disturb it.
\<close>

theorem Lex_positions_exact:
  assumes "Lex src = Inr toks" and "cr_ok src" and "t \<in> set toks" and "tk_Kind t = TokIdent"
  shows "\<exists>off. offsetOf src (tk_Line t) (tk_Col t) = Some off \<and> take (length (tk_Val t)) (drop off src) = tk_Val t"
proof -
  have "lex_from 1 1 src = Inr toks" using assms(1) by (simp add: Lex_tokens)
  moreover have "at_pos [] 1 1 src" by (simp add: at_pos_def line_of_def col_of_def count_byte_def)
  ultimately obtain q r where "src = q @ tk_Val t @ r" "tk_Line t = line_of q" "tk_Col t = col_of q"
    using lex_from_positions [of 1 1 src toks "[]" t] assms(2-4) by auto
  then show ?thesis using offsetOf_prefix [of q "tk_Val t @ r"] by simp
qed

theorem Lex_positions_exact_witness:
  "\<exists>off. offsetOf ''a /* ( */ b'' 1 11 = Some off \<and> take 1 (drop off ''a /* ( */ b'') = ''b''"
proof -
  have "Lex ''a /* ( */ b'' = Inr [mkTok TokIdent ''a'' 1 1, mkTok TokIdent ''b'' 1 11, mkTok TokEOF [] 1 12]"
    by code_simp
  from Lex_positions_exact [OF this, of "mkTok TokIdent ''b'' 1 11"] show ?thesis by (simp add: mkTok_def)
qed

text \<open>
  Printing is stable: whatever the source, printing the tokens of a file that lexes (each followed by
  a blank) gives a text with the same tokens, comments and layout apart. So a file can be written
  back from its tokens without changing its meaning.
\<close>

theorem Lex_render_stable:
  assumes "Lex src = Inr toks"
  shows "\<exists>toks'. Lex (render (map lexeme_of (butlast toks))) = Inr toks' \<and> map lexeme_of toks' = map lexeme_of toks"
proof -
  from assms have lex: "lex_from 1 1 src = Inr toks" and valid: "validateTokens 0 toks = None" by (auto simp: Lex_tokens)
  obtain ts e where ts: "toks = ts @ [e]" "lexeme_of e = (TokEOF, [])" "list_all (\<lambda>t. printable (lexeme_of t)) ts"
    using lex_from_shape [OF lex] by blast
  then have "list_all printable (map lexeme_of ts)" by (simp add: list.pred_map comp_def)
  from lex_from_render [OF this, of 1 1] obtain toks' where
    t: "lex_from 1 1 (render (map lexeme_of ts)) = Inr toks'" "map lexeme_of toks' = map lexeme_of toks"
    by (auto simp: ts)
  have "map (\<lambda>t. fst (lexeme_of t)) toks' = map (\<lambda>t. fst (lexeme_of t)) toks"
    using arg_cong [OF t(2), of "map fst"] by (simp add: comp_def)
  then have "map tk_Kind toks' = map tk_Kind toks" by (simp add: lexeme_of_def)
  with valid have "validateTokens 0 toks' = None" using validateTokens_kinds by blast
  with t show ?thesis by (auto simp: Lex_tokens ts)
qed

theorem Lex_render_stable_witness:
  "\<exists>toks'. Lex ''sandbox ( ) '' = Inr toks' \<and>
     map lexeme_of toks' = [(TokIdent, ''sandbox''), (TokLParen, []), (TokRParen, []), (TokEOF, [])]"
proof -
  have "Lex ''sandbox() // x'' = Inr [mkTok TokIdent ''sandbox'' 1 1, mkTok TokLParen [] 1 8, mkTok TokRParen [] 1 9, mkTok TokEOF [] 1 11]"
    by code_simp
  from Lex_render_stable [OF this] show ?thesis by (simp add: render_def render_one_def)
qed

end
