(* ===== verification/ModFile.thy ===== *)
theory ModFile
  imports Lexer "HOL-Library.Product_Lexorder"
begin

text \<open>
  What a project file declares. \<open>src/internal/template/parse.go\<close> and \<open>resources.go\<close>: the records of
  the parsed file (sandbox template, policies, namespaces) and the overlay of one template on another
  (\<open>Merge\<close>, \<open>Clone\<close>, \<open>mergeSkills\<close>); \<open>src/internal/template/skillref.go\<close>: skill references and the
  version forms their regular expressions accept; \<open>src/internal/template/rewrite.go\<close>: the rewriting of
  skill versions in the source text.

  A list field is a slice; only for the list of used policies does the code distinguish nil from
  empty, so that one is an option.
\<close>

section \<open>Records\<close>

record FileSpec =
  fl_HostPath :: gostring
  fl_GuestPath :: gostring
  fl_Mode :: "32 word"
  fl_Line :: int
  fl_Col :: int

record SerialSpec =
  se_HostPath :: gostring
  se_GuestName :: gostring
  se_Line :: int
  se_Col :: int

record ShareSpec =
  sh_HostPath :: gostring
  sh_GuestPath :: gostring
  sh_ReadOnly :: bool
  sh_Line :: int
  sh_Col :: int

record MCPSpec =
  mc_Name :: gostring
  mc_Transport :: gostring
  mc_URL :: gostring
  mc_Command :: "gostring list"
  mc_Headers :: "gostring list"
  mc_Env :: "gostring list"
  mc_Line :: int
  mc_Col :: int

record AgentDoc =
  ad_Text :: gostring
  ad_Path :: gostring

datatype SkillKind = SkillKindUnknown | SkillKindLocalHome | SkillKindLocalWorkspace | SkillKindDistributed

record SkillRef =
  sk_Path :: gostring
  sk_Version :: gostring
  sk_Kind :: SkillKind
  sk_Line :: int
  sk_Col :: int
  sk_VersionLine :: int
  sk_VersionCol :: int

record Template =
  tm_Name :: gostring
  tm_SandboxName :: gostring
  tm_Provider :: gostring
  tm_Includes :: "gostring list"
  tm_Domains :: "gostring list"
  tm_IPs :: "gostring list"
  tm_Use :: "gostring list option"
  tm_DenyDomains :: "gostring list"
  tm_DenyIPs :: "gostring list"
  tm_DenySources :: "gostring list"
  tm_Forwards :: "gostring list"
  tm_ReverseForwards :: "gostring list"
  tm_Env :: "gostring list"
  tm_OnCreate :: "gostring list"
  tm_OnUp :: "gostring list"
  tm_OnDown :: "gostring list"
  tm_OnEnter :: "gostring list"
  tm_Skills :: "SkillRef list"
  tm_Files :: "FileSpec list"
  tm_Shares :: "ShareSpec list"
  tm_Serials :: "SerialSpec list"
  tm_MCP :: "MCPSpec list"
  tm_Instructions :: "AgentDoc list"
  tm_Memory :: "AgentDoc list"
  tm_Nested :: bool
  tm_CPU :: uint64
  tm_MemoryMiB :: uint64
  tm_MemoryMaxMiB :: uint64
  tm_DiskMiB :: uint64
  tm_SwapMiB :: int
  tm_IdleTimeoutSec :: int
  tm_Image :: gostring
  tm_Kernel :: gostring

definition empty_template :: Template where
  "empty_template = \<lparr>tm_Name = [], tm_SandboxName = [], tm_Provider = [], tm_Includes = [], tm_Domains = [],
     tm_IPs = [], tm_Use = None, tm_DenyDomains = [], tm_DenyIPs = [], tm_DenySources = [], tm_Forwards = [],
     tm_ReverseForwards = [], tm_Env = [], tm_OnCreate = [], tm_OnUp = [], tm_OnDown = [], tm_OnEnter = [],
     tm_Skills = [], tm_Files = [], tm_Shares = [], tm_Serials = [], tm_MCP = [], tm_Instructions = [],
     tm_Memory = [], tm_Nested = False, tm_CPU = 0, tm_MemoryMiB = 0, tm_MemoryMaxMiB = 0, tm_DiskMiB = 0,
     tm_SwapMiB = 0, tm_IdleTimeoutSec = 0, tm_Image = [], tm_Kernel = []\<rparr>"

record PolicyDef =
  pf_Name :: gostring
  pf_AllowDomains :: "gostring list"
  pf_AllowIPs :: "gostring list"
  pf_DenyDomains :: "gostring list"
  pf_DenyIPs :: "gostring list"
  pf_Sources :: "gostring list"
  pf_Refresh :: duration
  pf_Line :: int
  pf_Col :: int

record NamespaceDef =
  nd_Name :: gostring
  nd_Template :: Template

record File =
  mf_Sandbox :: "Template option"
  mf_Policies :: "PolicyDef list"
  mf_Namespaces :: "NamespaceDef list"
  mf_FormatVersion :: int

section \<open>Overlays\<close>

text \<open>\<open>append\<close> to a slice that may be nil: nothing appended to nil stays nil.\<close>

definition append_nil :: "'a list option \<Rightarrow> 'a list \<Rightarrow> 'a list option" where
  "append_nil s xs = (case s of None \<Rightarrow> if xs = [] then None else Some xs | Some ys \<Rightarrow> Some (ys @ xs))"

fun add_skills :: "gostring list \<Rightarrow> SkillRef list \<Rightarrow> SkillRef list" where
  "add_skills seen [] = []"
| "add_skills seen (s # over) =
     (if sk_Path s \<in> set seen then add_skills seen over else s # add_skills (sk_Path s # seen) over)"

definition mergeSkills :: "SkillRef list \<Rightarrow> SkillRef list \<Rightarrow> SkillRef list" where
  "mergeSkills base over = (if over = [] then base else base @ add_skills (map sk_Path base) over)"

definition Merge :: "Template \<Rightarrow> Template option \<Rightarrow> Template" where
  "Merge t over = (case over of None \<Rightarrow> t | Some o' \<Rightarrow>
     t\<lparr>tm_Name := (if tm_Name o' \<noteq> [] then tm_Name o' else tm_Name t),
       tm_SandboxName := (if tm_SandboxName o' \<noteq> [] then tm_SandboxName o' else tm_SandboxName t),
       tm_Provider := (if tm_Provider o' \<noteq> [] then tm_Provider o' else tm_Provider t),
       tm_Kernel := (if tm_Kernel o' \<noteq> [] then tm_Kernel o' else tm_Kernel t),
       tm_Includes := tm_Includes t @ tm_Includes o',
       tm_Domains := tm_Domains t @ tm_Domains o',
       tm_IPs := tm_IPs t @ tm_IPs o',
       tm_DenyDomains := tm_DenyDomains t @ tm_DenyDomains o',
       tm_DenyIPs := tm_DenyIPs t @ tm_DenyIPs o',
       tm_Use := append_nil (tm_Use t) (case_option [] id (tm_Use o')),
       tm_Forwards := tm_Forwards t @ tm_Forwards o',
       tm_ReverseForwards := tm_ReverseForwards t @ tm_ReverseForwards o',
       tm_Env := tm_Env t @ tm_Env o',
       tm_OnCreate := tm_OnCreate t @ tm_OnCreate o',
       tm_OnUp := tm_OnUp t @ tm_OnUp o',
       tm_OnDown := tm_OnDown t @ tm_OnDown o',
       tm_OnEnter := tm_OnEnter t @ tm_OnEnter o',
       tm_Skills := mergeSkills (tm_Skills t) (tm_Skills o'),
       tm_Files := tm_Files t @ tm_Files o',
       tm_Shares := tm_Shares t @ tm_Shares o',
       tm_Serials := tm_Serials t @ tm_Serials o',
       tm_MCP := tm_MCP t @ tm_MCP o',
       tm_Instructions := tm_Instructions t @ tm_Instructions o',
       tm_Memory := tm_Memory t @ tm_Memory o',
       tm_Nested := (tm_Nested o' \<or> tm_Nested t),
       tm_CPU := (if tm_CPU o' \<noteq> 0 then tm_CPU o' else tm_CPU t),
       tm_MemoryMiB := (if tm_MemoryMiB o' \<noteq> 0 then tm_MemoryMiB o' else tm_MemoryMiB t),
       tm_MemoryMaxMiB := (if tm_MemoryMaxMiB o' \<noteq> 0 then tm_MemoryMaxMiB o' else tm_MemoryMaxMiB t),
       tm_DiskMiB := (if tm_DiskMiB o' \<noteq> 0 then tm_DiskMiB o' else tm_DiskMiB t),
       tm_SwapMiB := (if tm_SwapMiB o' \<noteq> 0 then tm_SwapMiB o' else tm_SwapMiB t),
       tm_IdleTimeoutSec := (if tm_IdleTimeoutSec o' \<noteq> 0 then tm_IdleTimeoutSec o' else tm_IdleTimeoutSec t)\<rparr>)"

text \<open>A copy shares nothing with the original, so as a value it is the original.\<close>

definition Clone :: "Template option \<Rightarrow> Template" where
  "Clone t = (case t of None \<Rightarrow> empty_template | Some t \<Rightarrow> t)"

section \<open>Skill references\<close>

definition isAlnum :: "char \<Rightarrow> bool" where
  "isAlnum b \<longleftrightarrow> is_lower b \<or> is_upper b \<or> is_digit b"

definition isDistributedPath :: "gostring \<Rightarrow> bool" where
  "isDistributedPath path =
     (case cut_byte path (CHR ''/'') of (host, rest, found) \<Rightarrow>
        found \<and> host \<noteq> [] \<and> rest \<noteq> [] \<and> CHR ''.'' \<in> set host \<and> isAlnum (hd host) \<and> isAlnum (last host))"

definition ClassifySkillPath :: "gostring \<Rightarrow> SkillKind" where
  "ClassifySkillPath path =
     (if has_prefix path ''~/'' \<or> path = ''~'' \<or> has_prefix path ''$HOME/'' \<or> path = ''$HOME'' then SkillKindLocalHome
      else if has_prefix path ''./'' \<or> has_prefix path ''../'' then SkillKindLocalWorkspace
      else if isDistributedPath path then SkillKindDistributed
      else SkillKindUnknown)"

text \<open>
  The regular expressions. Each class that is repeated excludes the byte that has to follow, so the
  longest run is the only match.
\<close>

definition version_core :: "gostring \<Rightarrow> gostring option" where
  "version_core s =
     (case s of [] \<Rightarrow> None | c # r \<Rightarrow>
        if c \<noteq> CHR ''v'' then None
        else let a = takeWhile is_digit r; r1 = dropWhile is_digit r;
                 b = takeWhile is_digit (tl r1); r2 = dropWhile is_digit (tl r1);
                 d = takeWhile is_digit (tl r2); r3 = dropWhile is_digit (tl r2)
             in if a \<noteq> [] \<and> r1 \<noteq> [] \<and> hd r1 = CHR ''.'' \<and> b \<noteq> [] \<and> r2 \<noteq> [] \<and> hd r2 = CHR ''.'' \<and> d \<noteq> []
                then Some r3 else None)"

definition is_lower_hex :: "char \<Rightarrow> bool" where
  "is_lower_hex c \<longleftrightarrow> is_digit c \<or> CHR ''a'' \<le> c \<and> c \<le> CHR ''f''"

definition pseudoVersionRE :: "gostring \<Rightarrow> bool" where
  "pseudoVersionRE s =
     (case version_core s of None \<Rightarrow> False | Some r \<Rightarrow>
        length r = 28 \<and> hd r = CHR ''-'' \<and> list_all is_digit (take 14 (tl r)) \<and> r ! 15 = CHR ''-'' \<and>
        list_all is_lower_hex (drop 16 r))"

definition suffix_char :: "char \<Rightarrow> bool" where
  "suffix_char c \<longleftrightarrow> isAlnum c \<or> c = CHR ''.'' \<or> c = CHR ''-''"

definition build_suffix :: "gostring \<Rightarrow> bool" where
  "build_suffix s \<longleftrightarrow> s = [] \<or> (hd s = CHR ''+'' \<and> tl s \<noteq> [] \<and> list_all suffix_char (tl s))"

definition semverRE :: "gostring \<Rightarrow> bool" where
  "semverRE s =
     (case version_core s of None \<Rightarrow> False | Some r \<Rightarrow>
        build_suffix r \<or>
        r \<noteq> [] \<and> hd r = CHR ''-'' \<and> takeWhile suffix_char (tl r) \<noteq> [] \<and> build_suffix (dropWhile suffix_char (tl r)))"

definition shortSHARE :: "gostring \<Rightarrow> bool" where
  "shortSHARE s \<longleftrightarrow> 7 \<le> length s \<and> length s \<le> 12 \<and> list_all is_lower_hex s"

definition branchNameRE :: "gostring \<Rightarrow> bool" where
  "branchNameRE s \<longleftrightarrow> s \<noteq> [] \<and> list_all (\<lambda>c. isAlnum c \<or> c \<in> {CHR ''.'', CHR ''_'', CHR ''/'', CHR ''+'', CHR ''-''}) s"

definition IsResolvedVersion :: "gostring \<Rightarrow> bool" where
  "IsResolvedVersion v = (if v = [] then False else pseudoVersionRE v \<or> semverRE v)"

definition IsTidyInputVersion :: "gostring \<Rightarrow> bool" where
  "IsTidyInputVersion v =
     (if v = [] then False
      else if IsResolvedVersion v then True
      else if v = ''latest'' then True
      else if shortSHARE v then True
      else branchNameRE v)"

datatype skill_error = BareSkill gostring | LocalSkillVersion gostring gostring | BadSkillVersion gostring gostring

definition validateSkillRef :: "SkillRef \<Rightarrow> skill_error option" where
  "validateSkillRef s = (case sk_Kind s of
     SkillKindUnknown \<Rightarrow> Some (BareSkill (sk_Path s))
   | SkillKindDistributed \<Rightarrow>
       if sk_Version s \<noteq> [] \<and> \<not> IsTidyInputVersion (sk_Version s)
       then Some (BadSkillVersion (sk_Path s) (sk_Version s)) else None
   | _ \<Rightarrow> if sk_Version s \<noteq> [] then Some (LocalSkillVersion (sk_Path s) (sk_Version s)) else None)"

section \<open>Rewriting skill versions\<close>

datatype resolution = Pinned gostring | SkipResolution | ResolveFailed

record SkillRewrite =
  rw_Path :: gostring
  rw_OldVersion :: gostring
  rw_NewVersion :: gostring
  rw_Line :: int
  rw_InsertedNew :: bool

record splice_edit =
  sp_start :: nat
  sp_end :: nat
  sp_text :: gostring
  sp_rewrite :: SkillRewrite

datatype tidy_error = ResolverError SkillRef | NotPinned gostring gostring | BadPosition int int | Overlap nat

definition StubRemoteResolver :: "SkillRef \<Rightarrow> resolution" where
  "StubRemoteResolver s =
     (if sk_Kind s \<noteq> SkillKindDistributed then SkipResolution
      else if IsResolvedVersion (sk_Version s) then SkipResolution
      else ResolveFailed)"

definition splice_of :: "gostring \<Rightarrow> SkillRef \<Rightarrow> gostring \<Rightarrow> tidy_error + splice_edit" where
  "splice_of src s newVer =
     (if sk_VersionLine s = 0
      then case offsetOf src (sk_Line s) (sk_Col s) of
             None \<Rightarrow> Inl (BadPosition (sk_Line s) (sk_Col s))
           | Some pathStart \<Rightarrow>
               Inr \<lparr>sp_start = pathStart + length (sk_Path s), sp_end = pathStart + length (sk_Path s),
                 sp_text = CHR '' '' # newVer,
                 sp_rewrite = \<lparr>rw_Path = sk_Path s, rw_OldVersion = [], rw_NewVersion = newVer, rw_Line = sk_Line s,
                   rw_InsertedNew = True\<rparr>\<rparr>
      else case offsetOf src (sk_VersionLine s) (sk_VersionCol s) of
             None \<Rightarrow> Inl (BadPosition (sk_VersionLine s) (sk_VersionCol s))
           | Some verStart \<Rightarrow>
               Inr \<lparr>sp_start = verStart, sp_end = verStart + length (sk_Version s), sp_text = newVer,
                 sp_rewrite = \<lparr>rw_Path = sk_Path s, rw_OldVersion = sk_Version s, rw_NewVersion = newVer,
                   rw_Line = sk_VersionLine s, rw_InsertedNew = False\<rparr>\<rparr>)"

fun skill_splices :: "(SkillRef \<Rightarrow> resolution) \<Rightarrow> gostring \<Rightarrow> SkillRef list \<Rightarrow> tidy_error + splice_edit list" where
  "skill_splices resolver src [] = Inr []"
| "skill_splices resolver src (s # ss) =
     (if sk_Kind s \<noteq> SkillKindDistributed then skill_splices resolver src ss
      else case resolver s of
        SkipResolution \<Rightarrow> skill_splices resolver src ss
      | ResolveFailed \<Rightarrow> Inl (ResolverError s)
      | Pinned newVer \<Rightarrow>
          if \<not> IsResolvedVersion newVer then Inl (NotPinned (sk_Path s) newVer)
          else if newVer = sk_Version s then skill_splices resolver src ss
          else case splice_of src s newVer of
            Inl err \<Rightarrow> Inl err
          | Inr sp \<Rightarrow> map_sum id (Cons sp) (skill_splices resolver src ss))"

text \<open>The pieces are gathered from the end of the source backwards, from the last splice to the first.\<close>

fun apply_splices :: "gostring \<Rightarrow> nat \<Rightarrow> splice_edit list \<Rightarrow> tidy_error + gostring" where
  "apply_splices src cursor [] = Inr (take cursor src)"
| "apply_splices src cursor (s # ss) =
     (if cursor < sp_end s then Inl (Overlap (sp_end s))
      else map_sum id (\<lambda>before. before @ sp_text s @ take (cursor - sp_end s) (drop (sp_end s) src))
             (apply_splices src (sp_start s) ss))"

definition by_position :: "splice_edit list \<Rightarrow> splice_edit list" where
  "by_position sps = sort_key (\<lambda>s. (- int (sp_start s), - int (sp_end s))) sps"

definition RewriteSkillVersions ::
  "gostring \<Rightarrow> Template option \<Rightarrow> (SkillRef \<Rightarrow> resolution) option \<Rightarrow> tidy_error + SkillRewrite list \<times> gostring" where
  "RewriteSkillVersions src tmpl resolver = (case (tmpl, resolver) of
     (Some t, Some res) \<Rightarrow>
       if tm_Skills t = [] then Inr ([], src)
       else (case skill_splices res src (tm_Skills t) of
               Inl err \<Rightarrow> Inl err
             | Inr sps \<Rightarrow>
                 if sps = [] then Inr ([], src)
                 else map_sum id (\<lambda>out. (map sp_rewrite (rev (by_position sps)), out))
                        (apply_splices src (length src) (by_position sps)))
   | _ \<Rightarrow> Inr ([], src))"

end
