(* ===== verification/NetPolicy.thy ===== *)
theory NetPolicy
  imports Blocks ModFile
begin

text \<open>
  How a sandbox's network policy is stored and resolved into the chain the filter enforces.
  \<open>src/internal/config/types.go\<close>: the stored policy, its migration and block order;
  \<open>src/internal/config/policy.go\<close> and \<open>namespace.go\<close>: the store of named policies, their fetch
  caches and the namespaces; \<open>src/internal/cli/netpolicy.go\<close>: composition from the project files and
  resolution into a chain.

  The store is a record of its files. A file is absent, cannot be read (an I/O or a JSON error), or
  holds a record; \<open>ds_writable\<close> is False when writes fail. The digest of a URL, the parser of a
  duration and the download of a blocklist are parameters.
\<close>

section \<open>Definitions\<close>

subsection \<open>The stored policy of a sandbox\<close>

record NetworkBlock =
  nb_Origin :: gostring
  nb_Name :: gostring
  nb_AllowDomains :: "gostring list"
  nb_AllowIPs :: "gostring list"
  nb_DenyDomains :: "gostring list"
  nb_DenyIPs :: "gostring list"

text \<open>\<open>np_Use\<close>: None is the nil list, "never made explicit".\<close>

record NetworkPolicy =
  np_AllowedDomains :: "gostring list"
  np_AllowedIPs :: "gostring list"
  np_DeniedDomains :: "gostring list"
  np_Use :: "gostring list option"
  np_Blocks :: "NetworkBlock list"

definition BlockOriginNamespace :: gostring where "BlockOriginNamespace = ''namespace''"
definition BlockOriginMCP :: gostring where "BlockOriginMCP = ''mcp''"
definition BlockOriginMod :: gostring where "BlockOriginMod = ''mod''"
definition BlockOriginCustom :: gostring where "BlockOriginCustom = ''custom''"

definition blockOriginRank :: "gostring \<Rightarrow> nat" where
  "blockOriginRank orig =
     (if orig = BlockOriginNamespace then 1
      else if orig = BlockOriginMCP then 2
      else if orig = BlockOriginMod then 3
      else if orig = BlockOriginCustom then 4
      else 0)"

definition empty_block :: "gostring \<Rightarrow> NetworkBlock" where
  "empty_block orig = \<lparr>nb_Origin = orig, nb_Name = [], nb_AllowDomains = [], nb_AllowIPs = [],
     nb_DenyDomains = [], nb_DenyIPs = []\<rparr>"

text \<open>
  \<open>Block\<close> returns a pointer to the layer of an origin, appending an empty layer when there is none; what
  its callers do is edit that layer.
\<close>

fun edit_layer :: "gostring \<Rightarrow> (NetworkBlock \<Rightarrow> NetworkBlock) \<Rightarrow> NetworkBlock list \<Rightarrow> NetworkBlock list" where
  "edit_layer orig f [] = [f (empty_block orig)]"
| "edit_layer orig f (b # bs) = (if nb_Origin b = orig then f b # bs else b # edit_layer orig f bs)"

definition fold_legacy :: "NetworkPolicy \<Rightarrow> NetworkBlock \<Rightarrow> NetworkBlock" where
  "fold_legacy n b =
     b\<lparr>nb_AllowDomains := nb_AllowDomains b @ np_AllowedDomains n,
       nb_AllowIPs := nb_AllowIPs b @ np_AllowedIPs n,
       nb_DenyDomains := nb_DenyDomains b @ np_DeniedDomains n\<rparr>"

definition has_legacy :: "NetworkPolicy \<Rightarrow> bool" where
  "has_legacy n \<longleftrightarrow>
     0 < length (np_AllowedDomains n) + length (np_AllowedIPs n) + length (np_DeniedDomains n)"

definition migrate_legacy :: "NetworkPolicy \<Rightarrow> NetworkPolicy" where
  "migrate_legacy n =
     (if has_legacy n
      then n\<lparr>np_Blocks := edit_layer BlockOriginCustom (fold_legacy n) (np_Blocks n),
             np_AllowedDomains := [], np_AllowedIPs := [], np_DeniedDomains := []\<rparr>
      else n)"

definition Normalize :: "NetworkPolicy \<Rightarrow> NetworkPolicy" where
  "Normalize n =
     (migrate_legacy n)\<lparr>np_Blocks :=
        sort_key (\<lambda>b. blockOriginRank (nb_Origin b)) (np_Blocks (migrate_legacy n))\<rparr>"

subsection \<open>The store\<close>

record Policy =
  po_Name :: gostring
  po_AllowDomains :: "gostring list"
  po_AllowIPs :: "gostring list"
  po_DenyDomains :: "gostring list"
  po_DenyIPs :: "gostring list"
  po_Source :: gostring
  po_Refresh :: gostring

record PolicyCache =
  pc_FetchedAt :: instant
  pc_ETag :: gostring
  pc_DenyDomains :: "gostring list"
  pc_AllowDomains :: "gostring list"

record Namespace =
  ns_Name :: gostring
  ns_AllowedDomains :: "gostring list"
  ns_AllowedIPs :: "gostring list"
  ns_DeniedDomains :: "gostring list"
  ns_DeniedIPs :: "gostring list"
  ns_Use :: "gostring list option"

record Sandbox =
  sb_Namespace :: gostring
  sb_Network :: NetworkPolicy

datatype 'a file_state = Unreadable | Content 'a

record Store =
  ds_policies :: "(gostring, Policy file_state) gomap"
  ds_caches :: "(gostring, PolicyCache file_state) gomap"
  ds_namespaces :: "(gostring, Namespace file_state) gomap"
  ds_writable :: bool

definition DefaultPolicyName :: gostring where
  "DefaultPolicyName = ''default''"

definition DefaultNamespace :: gostring where
  "DefaultNamespace = ''default''"

definition DefaultAllowedDomains :: "gostring list" where
  "DefaultAllowedDomains = [
     ''*.chatgpt.com'', ''*.oaistatic.com'', ''*.oaiusercontent.com'', ''*.openai.com'', ''*.claude.ai'',
     ''api.anthropic.com'', ''api.perplexity.ai'', ''claude.ai'', ''gemini.google.com'',
     ''generativelanguage.googleapis.com'', ''models.dev'', ''opencode.ai'', ''pi.dev'',
     ''platform.claude.com'', ''play.googleapis.com'', ''statsig.anthropic.com'', ''*.bun.sh'',
     ''*.gradle.org'', ''*.packagist.org'', ''*.yarnpkg.com'', ''apache.org'', ''astral.sh'',
     ''bootstrap.pypa.io'', ''cocoapods.org'', ''cpan.org'', ''crates.io'', ''dot.net'',
     ''dotnet.microsoft.com'', ''eclipse.org'', ''files.pythonhosted.org'', ''go.dev'', ''golang.org'',
     ''goproxy.io'', ''haskell.org'', ''hex.pm'', ''index.crates.io'', ''java.com'', ''java.net'',
     ''maven.org'', ''metacpan.org'', ''nodejs.org'', ''nodesource.com'', ''npm.duckdb.org'',
     ''npmjs.com'', ''npmjs.org'', ''nuget.org'', ''packagist.com'', ''pkg.go.dev'', ''proxy.golang.org'',
     ''pub.dev'', ''pypa.io'', ''pypi.org'', ''pypi.python.org'', ''pythonhosted.org'',
     ''registry.npmjs.org'', ''repo.maven.apache.org'', ''ruby-lang.org'', ''rubygems.org'',
     ''rubyonrails.org'', ''rustup.rs'', ''rvm.io'', ''sh.rustup.rs'', ''spring.io'', ''static.crates.io'',
     ''static.rust-lang.org'', ''sum.golang.org'', ''swift.org'', ''tuf-repo-cdn.sigstore.dev'',
     ''ziglang.org'', ''*.business.githubcopilot.com'', ''*.docker.com'', ''*.docker.io'', ''*.gcr.io'',
     ''*.github.com'', ''*.githubusercontent.com'', ''*.gitlab.com'',
     ''*.production.cloudflare.docker.com'', ''bitbucket.org'', ''dhi.io'',
     ''docker-images-prod.6aa30f8b08e16409b46e0173d6de2f56.r2.cloudflarestorage.com'', ''ghcr.io'',
     ''github.com'', ''k8s.io'', ''mcr.microsoft.com'', ''ppa.launchpad.net'', ''public.ecr.aws'',
     ''quay.io'', ''registry.k8s.io'', ''sourceforge.net'', ''*.amazonaws.com'', ''*.googleapis.com'',
     ''*.googleusercontent.com'', ''*.gstatic.com'', ''*.gvt1.com'', ''*.public.blob.vercel-storage.com'',
     ''*.visualstudio.com'', ''apis.google.com'', ''app.daytona.io'', ''azure.com'',
     ''binaries.prisma.sh'', ''challenges.cloudflare.com'', ''clerk.com'', ''csp.withgoogle.com'',
     ''dev.azure.com'', ''dl.google.com'', ''fastly.com'', ''figma.com'', ''hashicorp.com'',
     ''jsdelivr.net'', ''json-schema.org'', ''json.schemastore.org'', ''login.microsoftonline.com'',
     ''mise-versions.jdx.dev'', ''mise.run'', ''packages.microsoft.com'', ''play.google.com'',
     ''playwright.azureedge.net'', ''*.playwright.dev'', ''*.prss.microsoft.com'', ''supabase.com'',
     ''unpkg.com'', ''vercel.com'', ''www.google.com'', ''*.debian.org'', ''alpinelinux.org'',
     ''apt.llvm.org'', ''archive.ubuntu.com'', ''archlinux.org'', ''centos.org'', ''debian.org'',
     ''dl-cdn.alpinelinux.org'', ''fedoraproject.org'', ''packagecloud.io'', ''ports.ubuntu.com'',
     ''security.ubuntu.com'', ''ubuntu.com'', ''*.launchpad.net'', ''*.snapcraft.io'',
     ''*.snapcraftcontent.com'']"

datatype store_error =
    PolicyNotFound gostring | ReadFailed gostring | ReservedName gostring | InvalidName gostring | WriteFailed

definition name_lead :: "char \<Rightarrow> bool" where
  "name_lead c \<longleftrightarrow> is_lower c \<or> is_digit c"

definition policyNameRe :: "gostring \<Rightarrow> bool" where
  "policyNameRe s \<longleftrightarrow>
     (case s of
        [] \<Rightarrow> False
      | c # cs \<Rightarrow> name_lead c \<and>
          list_all (\<lambda>d. name_lead d \<or> d = CHR ''.'' \<or> d = CHR ''_'' \<or> d = CHR ''-'') cs)"

definition validatePolicyName :: "gostring \<Rightarrow> store_error option" where
  "validatePolicyName name =
     (if name = DefaultPolicyName then Some (ReservedName name)
      else if \<not> policyNameRe name then Some (InvalidName name)
      else None)"

definition BuiltinDefaultPolicy :: Policy where
  "BuiltinDefaultPolicy = \<lparr>po_Name = DefaultPolicyName, po_AllowDomains = DefaultAllowedDomains,
     po_AllowIPs = [], po_DenyDomains = [], po_DenyIPs = [], po_Source = [], po_Refresh = []\<rparr>"

definition SavePolicy :: "Policy \<Rightarrow> Store \<Rightarrow> store_error + Store" where
  "SavePolicy p st =
     (case validatePolicyName (po_Name p) of
        Some err \<Rightarrow> Inl err
      | None \<Rightarrow>
          if ds_writable st
          then Inr (st\<lparr>ds_policies := AList.update (po_Name p) (Content p) (ds_policies st)\<rparr>)
          else Inl WriteFailed)"

definition LoadPolicy :: "Store \<Rightarrow> gostring \<Rightarrow> store_error + Policy" where
  "LoadPolicy st name =
     (if name = DefaultPolicyName then Inr BuiltinDefaultPolicy
      else if \<not> policyNameRe name then Inl (PolicyNotFound name)
      else case map_of (ds_policies st) name of
        None \<Rightarrow> Inl (PolicyNotFound name)
      | Some Unreadable \<Rightarrow> Inl (ReadFailed name)
      | Some (Content p) \<Rightarrow> Inr (if po_Name p = [] then p\<lparr>po_Name := name\<rparr> else p))"

definition DeletePolicy :: "gostring \<Rightarrow> Store \<Rightarrow> store_error + Store" where
  "DeletePolicy name st =
     (case validatePolicyName name of
        Some err \<Rightarrow> Inl err
      | None \<Rightarrow>
          if ds_writable st
          then Inr (st\<lparr>ds_policies := AList.delete name (ds_policies st),
                       ds_caches := AList.delete name (ds_caches st)\<rparr>)
          else Inl WriteFailed)"

definition empty_cache :: PolicyCache where
  "empty_cache = \<lparr>pc_FetchedAt = 0, pc_ETag = [], pc_DenyDomains = [], pc_AllowDomains = []\<rparr>"

definition SavePolicyCache :: "gostring \<Rightarrow> PolicyCache \<Rightarrow> Store \<Rightarrow> store_error + Store" where
  "SavePolicyCache name c st =
     (case validatePolicyName name of
        Some err \<Rightarrow> Inl err
      | None \<Rightarrow>
          if ds_writable st then Inr (st\<lparr>ds_caches := AList.update name (Content c) (ds_caches st)\<rparr>)
          else Inl WriteFailed)"

definition LoadPolicyCache :: "Store \<Rightarrow> gostring \<Rightarrow> store_error + PolicyCache" where
  "LoadPolicyCache st name =
     (if \<not> policyNameRe name then Inr empty_cache
      else case map_of (ds_caches st) name of
        None \<Rightarrow> Inr empty_cache
      | Some Unreadable \<Rightarrow> Inl (ReadFailed name)
      | Some (Content c) \<Rightarrow> Inr c)"

definition defaultPolicyRefresh :: duration where
  "defaultPolicyRefresh = 86400 * second"

definition RefreshInterval :: "(gostring \<Rightarrow> duration option) \<Rightarrow> Policy \<Rightarrow> duration option" where
  "RefreshInterval parseDuration p =
     (if po_Refresh p = [] then Some defaultPolicyRefresh else parseDuration (po_Refresh p))"

definition empty_namespace :: "gostring \<Rightarrow> Namespace" where
  "empty_namespace name = \<lparr>ns_Name = name, ns_AllowedDomains = [], ns_AllowedIPs = [],
     ns_DeniedDomains = [], ns_DeniedIPs = [], ns_Use = None\<rparr>"

definition LoadNamespace :: "Store \<Rightarrow> gostring \<Rightarrow> store_error + Namespace" where
  "LoadNamespace st name =
     (case map_of (ds_namespaces st) name of
        None \<Rightarrow> Inr (empty_namespace name)
      | Some Unreadable \<Rightarrow> Inl (ReadFailed name)
      | Some (Content ns) \<Rightarrow> Inr (if ns_Name ns = [] then ns\<lparr>ns_Name := name\<rparr> else ns))"

definition NamespaceName :: "Sandbox \<Rightarrow> gostring" where
  "NamespaceName sb = (if sb_Namespace sb = [] then DefaultNamespace else sb_Namespace sb)"

subsection \<open>Resolution into a chain\<close>

definition policyOrigin :: "Policy \<Rightarrow> gostring" where
  "policyOrigin p =
     (if po_Name p = DefaultPolicyName then ''default''
      else if po_Source p \<noteq> [] then ''source'' else ''policy'')"

definition policyBlock :: "Policy \<Rightarrow> PolicyCache \<Rightarrow> Block" where
  "policyBlock p cache =
     \<lparr>bk_Origin = policyOrigin p, bk_Name = po_Name p,
      bk_AllowDomains = po_AllowDomains p @ pc_AllowDomains cache,
      bk_DenyDomains = po_DenyDomains p @ pc_DenyDomains cache,
      bk_AllowIPs = po_AllowIPs p, bk_DenyIPs = po_DenyIPs p\<rparr>"

fun dedup_from :: "gostring list \<Rightarrow> gostring list \<Rightarrow> gostring list" where
  "dedup_from seen [] = []"
| "dedup_from seen (x # xs) =
     (if x \<in> set seen then dedup_from seen xs else x # dedup_from (x # seen) xs)"

definition dedupStrings :: "gostring list \<Rightarrow> gostring list" where
  "dedupStrings xs = dedup_from [] xs"

definition effectiveUse :: "Namespace \<Rightarrow> Sandbox \<Rightarrow> gostring list" where
  "effectiveUse ns sb =
     (case (ns_Use ns, np_Use (sb_Network sb)) of
        (None, None) \<Rightarrow> [DefaultPolicyName]
      | (a, b) \<Rightarrow> dedup_from [] (case_option [] id a @ case_option [] id b))"

datatype warning =
    NamespaceUnreadable gostring | PolicyMissing gostring | CacheUnreadable gostring
  | NeverFetched gostring gostring | PolicyInvalid chain_error

definition cache_of :: "Store \<Rightarrow> gostring \<Rightarrow> PolicyCache" where
  "cache_of st name = (case LoadPolicyCache st name of Inl _ \<Rightarrow> empty_cache | Inr c \<Rightarrow> c)"

definition use_layer :: "Store \<Rightarrow> gostring \<Rightarrow> Block option" where
  "use_layer st name =
     (case LoadPolicy st name of Inl _ \<Rightarrow> None | Inr p \<Rightarrow> Some (policyBlock p (cache_of st name)))"

definition use_warnings :: "Store \<Rightarrow> gostring \<Rightarrow> warning list" where
  "use_warnings st name =
     (case LoadPolicy st name of
        Inl _ \<Rightarrow> [PolicyMissing name]
      | Inr p \<Rightarrow>
          (case LoadPolicyCache st name of Inl _ \<Rightarrow> [CacheUnreadable name] | Inr _ \<Rightarrow> []) @
          (if po_Source p \<noteq> [] \<and> pc_FetchedAt (cache_of st name) = 0
           then [NeverFetched name (po_Source p)] else []))"

definition namespace_layer :: "Namespace \<Rightarrow> Block list" where
  "namespace_layer ns =
     (if 0 < length (ns_AllowedDomains ns) + length (ns_AllowedIPs ns) +
             length (ns_DeniedDomains ns) + length (ns_DeniedIPs ns)
      then [\<lparr>bk_Origin = BlockOriginNamespace, bk_Name = ns_Name ns,
             bk_AllowDomains = ns_AllowedDomains ns, bk_DenyDomains = ns_DeniedDomains ns,
             bk_AllowIPs = ns_AllowedIPs ns, bk_DenyIPs = ns_DeniedIPs ns\<rparr>]
      else [])"

definition stored_layer :: "NetworkBlock \<Rightarrow> Block" where
  "stored_layer b = \<lparr>bk_Origin = nb_Origin b, bk_Name = nb_Name b, bk_AllowDomains = nb_AllowDomains b,
     bk_DenyDomains = nb_DenyDomains b, bk_AllowIPs = nb_AllowIPs b, bk_DenyIPs = nb_DenyIPs b\<rparr>"

definition sandbox_namespace :: "Store \<Rightarrow> Sandbox \<Rightarrow> Namespace \<times> warning list" where
  "sandbox_namespace st sb =
     (case LoadNamespace st (NamespaceName sb) of
        Inl _ \<Rightarrow> (empty_namespace (NamespaceName sb), [NamespaceUnreadable (NamespaceName sb)])
      | Inr ns \<Rightarrow> (ns, []))"

definition chain_blocks :: "Store \<Rightarrow> Sandbox \<Rightarrow> Block list" where
  "chain_blocks st sb =
     (case sandbox_namespace st sb of (ns, _) \<Rightarrow>
        List.map_filter (use_layer st) (effectiveUse ns sb) @ namespace_layer ns @
        map stored_layer (np_Blocks (sb_Network sb)))"

definition chain_warnings :: "Store \<Rightarrow> Sandbox \<Rightarrow> warning list" where
  "chain_warnings st sb =
     (case sandbox_namespace st sb of (ns, ws) \<Rightarrow> ws @ concat (map (use_warnings st) (effectiveUse ns sb)))"

definition resolveChain :: "Store \<Rightarrow> Sandbox \<Rightarrow> Chain \<times> warning list" where
  "resolveChain st sb =
     (case NewChain (chain_blocks st sb) of
        Inl err \<Rightarrow> (\<lparr>ch_blocks = [], ch_compiled = []\<rparr>, chain_warnings st sb @ [PolicyInvalid err])
      | Inr c \<Rightarrow> (c, chain_warnings st sb))"

subsection \<open>Composition from the project files\<close>

definition sourcePolicyName :: "(gostring \<Rightarrow> gostring) \<Rightarrow> gostring \<Rightarrow> gostring" where
  "sourcePolicyName digest8 url = ''src-'' @ digest8 url"

definition sourcePolicy :: "gostring \<Rightarrow> gostring \<Rightarrow> Policy" where
  "sourcePolicy name url = \<lparr>po_Name = name, po_AllowDomains = [], po_AllowIPs = [], po_DenyDomains = [],
     po_DenyIPs = [], po_Source = url, po_Refresh = []\<rparr>"

definition ensureSourcePolicy ::
  "(gostring \<Rightarrow> gostring) \<Rightarrow> gostring \<Rightarrow> Store \<Rightarrow> store_error + gostring \<times> Store" where
  "ensureSourcePolicy digest8 url st =
     (case LoadPolicy st (sourcePolicyName digest8 url) of
        Inr _ \<Rightarrow> Inr (sourcePolicyName digest8 url, st)
      | Inl (PolicyNotFound _) \<Rightarrow>
          (case SavePolicy (sourcePolicy (sourcePolicyName digest8 url) url) st of
             Inl err \<Rightarrow> Inl err
           | Inr st' \<Rightarrow> Inr (sourcePolicyName digest8 url, st'))
      | Inl err \<Rightarrow> Inl err)"

text \<open>A failure keeps the policies registered before it.\<close>

fun ensureSources ::
  "(gostring \<Rightarrow> gostring) \<Rightarrow> bool \<Rightarrow> gostring list \<Rightarrow> Store \<Rightarrow> Store \<times> (store_error + gostring list)" where
  "ensureSources digest8 dryRun [] st = (st, Inr [])"
| "ensureSources digest8 dryRun (url # urls) st =
     (if dryRun
      then apsnd (map_sum id (Cons (sourcePolicyName digest8 url))) (ensureSources digest8 dryRun urls st)
      else case ensureSourcePolicy digest8 url st of
        Inl err \<Rightarrow> (st, Inl err)
      | Inr (name, st') \<Rightarrow> apsnd (map_sum id (Cons name)) (ensureSources digest8 dryRun urls st'))"

definition splice :: "gostring list \<Rightarrow> bool \<Rightarrow> gostring list \<Rightarrow> gostring list" where
  "splice use expl srcNames =
     (if \<not> expl then DefaultPolicyName # srcNames
      else case use of
        u # us \<Rightarrow> if u = DefaultPolicyName then u # srcNames @ us else srcNames @ use
      | [] \<Rightarrow> srcNames)"

definition spliceSourcePolicies ::
  "(gostring \<Rightarrow> gostring) \<Rightarrow> gostring list option \<Rightarrow> bool \<Rightarrow> gostring list \<Rightarrow> bool \<Rightarrow> Store \<Rightarrow>
     Store \<times> (store_error + gostring list option)" where
  "spliceSourcePolicies digest8 use expl sources dryRun st =
     (if sources = [] then (st, Inr (if expl then map_option dedupStrings use else None))
      else case ensureSources digest8 dryRun (dedupStrings sources) st of
        (st', Inl err) \<Rightarrow> (st', Inl err)
      | (st', Inr srcNames) \<Rightarrow> (st', Inr (Some (dedupStrings (splice (case_option [] id use) expl srcNames)))))"

definition mod_block :: "Template list \<Rightarrow> NetworkBlock" where
  "mod_block ts = \<lparr>nb_Origin = BlockOriginMod, nb_Name = ''clawk.mod'',
     nb_AllowDomains = dedupStrings (concat (map tm_Domains ts)),
     nb_AllowIPs = dedupStrings (concat (map tm_IPs ts)),
     nb_DenyDomains = dedupStrings (concat (map tm_DenyDomains ts)),
     nb_DenyIPs = dedupStrings (concat (map tm_DenyIPs ts))\<rparr>"

definition composed_policy :: "gostring list option \<Rightarrow> Template list \<Rightarrow> NetworkPolicy" where
  "composed_policy use ts =
     \<lparr>np_AllowedDomains = [], np_AllowedIPs = [], np_DeniedDomains = [], np_Use = use,
      np_Blocks =
        (if concat (map (\<lambda>t. tm_Domains t @ tm_IPs t @ tm_DenyDomains t @ tm_DenyIPs t) ts) = []
         then [] else [mod_block ts])\<rparr>"

definition composeNetworkPolicy ::
  "(gostring \<Rightarrow> gostring) \<Rightarrow> Template option list \<Rightarrow> Store \<Rightarrow> Store \<times> (store_error + NetworkPolicy)" where
  "composeNetworkPolicy digest8 tmpls st =
     apsnd (map_sum id (\<lambda>use. composed_policy use (List.map_filter id tmpls)))
       (spliceSourcePolicies digest8
          (append_nil None (concat (map (\<lambda>t. case_option [] id (tm_Use t)) (List.map_filter id tmpls))))
          (list_ex (\<lambda>t. tm_Use t \<noteq> None) (List.map_filter id tmpls))
          (concat (map tm_DenySources (List.map_filter id tmpls))) False st)"

datatype register_error = ManySources gostring nat | StoreError store_error

definition policyFromDef :: "(duration \<Rightarrow> gostring) \<Rightarrow> PolicyDef \<Rightarrow> register_error + Policy" where
  "policyFromDef durationString def =
     (if 1 < length (pf_Sources def) then Inl (ManySources (pf_Name def) (length (pf_Sources def)))
      else Inr \<lparr>po_Name = pf_Name def, po_AllowDomains = pf_AllowDomains def, po_AllowIPs = pf_AllowIPs def,
                po_DenyDomains = pf_DenyDomains def, po_DenyIPs = pf_DenyIPs def,
                po_Source = (case pf_Sources def of s # _ \<Rightarrow> s | [] \<Rightarrow> []),
                po_Refresh = (if pf_Refresh def \<noteq> 0 then durationString (pf_Refresh def) else [])\<rparr>)"

fun registerFilePolicies ::
  "(duration \<Rightarrow> gostring) \<Rightarrow> PolicyDef list \<Rightarrow> Store \<Rightarrow> Store \<times> register_error option" where
  "registerFilePolicies ds [] st = (st, None)"
| "registerFilePolicies ds (d # defs) st =
     (case policyFromDef ds d of
        Inl err \<Rightarrow> (st, Some err)
      | Inr p \<Rightarrow>
          (case SavePolicy p st of
             Inl err \<Rightarrow> (st, Some (StoreError err))
           | Inr st' \<Rightarrow> registerFilePolicies ds defs st'))"

datatype refresh_error = BadInterval | CacheError store_error | FetchError

definition refreshPolicyCache ::
  "(gostring \<Rightarrow> duration option) \<Rightarrow> (gostring \<Rightarrow> (gostring list \<times> gostring list) option) \<Rightarrow>
     instant \<Rightarrow> Policy \<Rightarrow> bool \<Rightarrow> Store \<Rightarrow> Store \<times> refresh_error option" where
  "refreshPolicyCache parseDuration fetch now p force st =
     (if po_Source p = [] then (st, None)
      else case RefreshInterval parseDuration p of
        None \<Rightarrow> (st, Some BadInterval)
      | Some interval \<Rightarrow>
          (case LoadPolicyCache st (po_Name p) of
             Inl err \<Rightarrow> (st, Some (CacheError err))
           | Inr cache \<Rightarrow>
               if \<not> force \<and> time_sub now (pc_FetchedAt cache) < interval then (st, None)
               else case fetch (po_Source p) of
                 None \<Rightarrow> (st, Some FetchError)
               | Some (denies, allows) \<Rightarrow>
                   (case SavePolicyCache (po_Name p)
                      \<lparr>pc_FetchedAt = now, pc_ETag = [], pc_DenyDomains = denies, pc_AllowDomains = allows\<rparr> st of
                      Inl err \<Rightarrow> (st, Some (CacheError err))
                    | Inr st' \<Rightarrow> (st', None))))"

section \<open>Lemmas\<close>

subsection \<open>Deduplication\<close>

lemma set_dedup_from: "set (dedup_from seen xs) = set xs - set seen"
  by (induction seen xs rule: dedup_from.induct) auto

lemma distinct_dedup_from: "distinct (dedup_from seen xs)"
  by (induction seen xs rule: dedup_from.induct) (auto simp: set_dedup_from)

lemma dedup_set [simp]: "set (dedupStrings xs) = set xs"
  by (simp add: dedupStrings_def set_dedup_from)

lemma dedup_distinct [simp]: "distinct (dedupStrings xs)"
  by (simp add: dedupStrings_def distinct_dedup_from)

lemma dedup_from_cong: "set s = set s' \<Longrightarrow> dedup_from s zs = dedup_from s' zs"
proof (induction zs arbitrary: s s')
  case (Cons z zs)
  from Cons.IH [of "z # s" "z # s'"] Cons.IH [OF Cons.prems] Cons.prems show ?case by simp
qed simp

lemma dedup_from_append:
  "dedup_from seen (xs @ ys) = dedup_from seen xs @ dedup_from (xs @ seen) ys"
proof (induction seen xs rule: dedup_from.induct)
  case (2 seen x xs)
  have "dedup_from (xs @ x # seen) ys = dedup_from (x # xs @ seen) ys"
    by (rule dedup_from_cong) simp
  moreover have "dedup_from (xs @ seen) ys = dedup_from (x # xs @ seen) ys" if "x \<in> set seen"
    by (rule dedup_from_cong) (use that in auto)
  ultimately show ?case using 2 by (cases "x \<in> set seen") simp_all
qed simp

subsection \<open>Block order\<close>

definition rank_of :: "NetworkBlock \<Rightarrow> nat" where
  "rank_of b = blockOriginRank (nb_Origin b)"

lemma Normalize_blocks: "np_Blocks (Normalize n) = sort_key rank_of (np_Blocks (migrate_legacy n))"
  by (simp add: Normalize_def rank_of_def [abs_def])

lemma migrate_legacy_idem: "migrate_legacy (migrate_legacy n) = migrate_legacy n"
  by (simp add: migrate_legacy_def has_legacy_def)

lemma Normalize_legacy [simp]:
  "np_AllowedDomains (Normalize n) = []" "np_AllowedIPs (Normalize n) = []" "np_DeniedDomains (Normalize n) = []"
  by (simp_all add: Normalize_def migrate_legacy_def has_legacy_def)

lemma rank_custom: "blockOriginRank orig \<le> 4" "blockOriginRank orig = 4 \<longleftrightarrow> orig = BlockOriginCustom"
  by (simp_all add: blockOriginRank_def BlockOriginNamespace_def BlockOriginMCP_def BlockOriginMod_def
      BlockOriginCustom_def)

lemma edit_layer_has: "\<exists>b \<in> set (edit_layer orig f bs). \<exists>a. b = f a \<and> nb_Origin a = orig"
  by (induction bs) (auto simp: empty_block_def)

text \<open>The layer with the most precedence is a custom one when there is any.\<close>

lemma sorted_last_custom:
  assumes "\<exists>b \<in> set bs. nb_Origin b = BlockOriginCustom"
  shows "nb_Origin (last (sort_key rank_of bs)) = BlockOriginCustom"
proof -
  let ?s = "sort_key rank_of bs"
  from assms obtain b where b: "b \<in> set ?s" "rank_of b = 4" using rank_custom(2) by (auto simp: rank_of_def)
  then have "?s \<noteq> []" by (metis empty_iff list.set(1))
  then obtain xs y where s: "?s = xs @ [y]" by (metis append_butlast_last_id)
  have "sorted (map rank_of ?s)" by simp
  then have "rank_of b \<le> rank_of y" using b(1) by (auto simp: s sorted_append)
  then have "rank_of y = 4" using b(2) rank_custom(1) [of "nb_Origin y"] by (simp add: rank_of_def)
  then show ?thesis by (simp add: s rank_of_def rank_custom)
qed

subsection \<open>Layers of a chain\<close>

definition addr_opinion :: "gostring \<Rightarrow> addr \<Rightarrow> Block list \<Rightarrow> (Verdict \<times> Match \<times> bool) option" where
  "addr_opinion name ip bs =
     first_opinion (\<lambda>cb. decideBoth cb (normalizeDomain name) (unmap ip)) (map compiled_form bs)"

lemma DecideAddr_opinion:
  assumes "NewChain bs = Inr c"
  shows "fst (DecideAddr c name ip) = (case addr_opinion name ip bs of None \<Rightarrow> VerdictNone | Some r \<Rightarrow> fst r)"
  using assms by (auto simp: NewChain_iff DecideAddr_def walkAddr_first_opinion addr_opinion_def split: option.split)

lemma addr_opinion_append:
  "addr_opinion name ip (lo @ hi) =
     (case addr_opinion name ip hi of None \<Rightarrow> addr_opinion name ip lo | Some v \<Rightarrow> Some v)"
  by (auto simp: addr_opinion_def first_opinion_append split: option.split)

definition allow_only :: "Block \<Rightarrow> bool" where
  "allow_only b \<longleftrightarrow> bk_DenyDomains b = [] \<and> bk_DenyIPs b = []"

lemma policy_spec_no_deny: "\<forall>r \<in> rs. \<not> deny r \<Longrightarrow> policy_spec matches deny rank rs \<noteq> VerdictDeny"
  by (auto simp: policy_spec_def)

lemma allow_only_verdicts:
  assumes "allow_only b"
  shows "block_name_verdict (compiled_form b) n \<noteq> VerdictDeny" "fst (decideIP (compiled_form b) ip) \<noteq> VerdictDeny"
proof -
  have "\<not> nr_deny r" if "r \<in> set (cb_names (compiled_form b))" for r
    using that assms by (auto simp: compiled_form_def allow_only_def dest: name_rules_of_fields)
  then show "block_name_verdict (compiled_form b) n \<noteq> VerdictDeny"
    by (simp add: block_name_verdict_def decideName_verdict policy_spec_no_deny)
  have "\<not> ir_deny r" if "r \<in> set (cb_ips (compiled_form b))" for r
    using that assms by (auto simp: compiled_form_def allow_only_def dest: ip_rules_of_deny)
  then show "fst (decideIP (compiled_form b) ip) \<noteq> VerdictDeny"
    by (simp add: decideIP_verdict policy_spec_no_deny)
qed

lemma allow_only_opinion:
  assumes "allow_only b" and "decideBoth (compiled_form b) n ip = Some r"
  shows "fst r = VerdictAllow"
proof -
  from assms(2) have "both_spec (block_name_verdict (compiled_form b) n) (fst (decideIP (compiled_form b) ip)) =
      Some (fst r, snd (snd r))"
    unfolding decideBoth_spec [symmetric] by (cases r) simp
  with allow_only_verdicts(1) [OF assms(1), of n] allow_only_verdicts(2) [OF assms(1), of ip] show ?thesis
    by (cases "block_name_verdict (compiled_form b) n"; cases "fst (decideIP (compiled_form b) ip)")
      (auto simp: both_spec_def)
qed

text \<open>Taking an allow-only layer away never turns a verdict into allow.\<close>

lemma drop_allow_layer:
  assumes "allow_only b" and "NewChain (lo @ [b] @ hi) = Inr c" and "NewChain (lo @ hi) = Inr c'"
    and "fst (DecideAddr c' name ip) = VerdictAllow"
  shows "fst (DecideAddr c name ip) = VerdictAllow"
proof -
  have one: "addr_opinion name ip [b] = decideBoth (compiled_form b) (normalizeDomain name) (unmap ip)"
    by (simp add: addr_opinion_def)
  show ?thesis
    using assms(4) allow_only_opinion [OF assms(1)]
    unfolding DecideAddr_opinion [OF assms(2)] DecideAddr_opinion [OF assms(3)] addr_opinion_append one
    by (auto split: option.splits)
qed

subsection \<open>Missing layers\<close>

definition forget_policy :: "gostring \<Rightarrow> Store \<Rightarrow> Store" where
  "forget_policy name st = st\<lparr>ds_policies := AList.delete name (ds_policies st)\<rparr>"

lemma forget_cache [simp]: "cache_of (forget_policy name st) n = cache_of st n"
  by (simp add: cache_of_def LoadPolicyCache_def forget_policy_def)

lemma forget_other: "n \<noteq> name \<Longrightarrow> use_layer (forget_policy name st) n = use_layer st n"
proof -
  assume "n \<noteq> name"
  then have "LoadPolicy (forget_policy name st) n = LoadPolicy st n"
    by (simp add: LoadPolicy_def forget_policy_def delete_conv')
  then show ?thesis by (simp add: use_layer_def split: sum.split)
qed

lemma forget_self: "name \<noteq> DefaultPolicyName \<Longrightarrow> use_layer (forget_policy name st) name = None"
  by (simp add: use_layer_def LoadPolicy_def forget_policy_def delete_conv')

lemma forget_namespace [simp]: "sandbox_namespace (forget_policy name st) sb = sandbox_namespace st sb"
  by (simp add: sandbox_namespace_def LoadNamespace_def forget_policy_def)

lemma effectiveUse_distinct: "distinct (effectiveUse ns sb)"
  by (simp add: effectiveUse_def distinct_dedup_from split: option.split)

lemma map_filter_simps:
  "List.map_filter f [] = []"
  "List.map_filter f (x # xs) = (case f x of None \<Rightarrow> List.map_filter f xs | Some y \<Rightarrow> y # List.map_filter f xs)"
  by (simp_all add: List.map_filter_def split: option.split)

lemma map_filter_append: "List.map_filter f (xs @ ys) = List.map_filter f xs @ List.map_filter f ys"
  by (simp add: List.map_filter_def)

lemma map_filter_cong': "(\<And>x. x \<in> set xs \<Longrightarrow> f x = g x) \<Longrightarrow> List.map_filter f xs = List.map_filter g xs"
  by (induction xs) (simp_all add: map_filter_simps split: option.split)

text \<open>Forgetting a referenced policy takes exactly its layer out of the chain.\<close>

lemma forget_splits:
  assumes "name \<noteq> DefaultPolicyName" and "distinct names" and "name \<in> set names" and "use_layer st name = Some b"
  shows "\<exists>lo hi. List.map_filter (use_layer st) names = lo @ [b] @ hi \<and>
    List.map_filter (use_layer (forget_policy name st)) names = lo @ hi"
proof -
  from assms(3) obtain xs ys where names: "names = xs @ name # ys" by (meson split_list)
  with assms(2) have "name \<notin> set xs" "name \<notin> set ys" by auto
  then have "List.map_filter (use_layer (forget_policy name st)) zs = List.map_filter (use_layer st) zs"
    if "zs \<in> {xs, ys}" for zs
    using that by (intro map_filter_cong' forget_other) auto
  then show ?thesis
    using assms(1,4) by (auto simp: names map_filter_append map_filter_simps forget_self)
qed

lemma chain_blocks_forget:
  assumes "name \<noteq> DefaultPolicyName" and "name \<in> set (effectiveUse (fst (sandbox_namespace st sb)) sb)"
    and "use_layer st name = Some b"
  shows "\<exists>lo hi. chain_blocks st sb = lo @ [b] @ hi \<and> chain_blocks (forget_policy name st) sb = lo @ hi"
proof -
  from forget_splits [OF assms(1) effectiveUse_distinct assms(2,3)] obtain lo hi where
    "List.map_filter (use_layer st) (effectiveUse (fst (sandbox_namespace st sb)) sb) = lo @ [b] @ hi"
    "List.map_filter (use_layer (forget_policy name st)) (effectiveUse (fst (sandbox_namespace st sb)) sb) = lo @ hi"
    by blast
  then show ?thesis by (cases "sandbox_namespace st sb") (auto simp: chain_blocks_def)
qed

lemma resolveChain_ok: "NewChain (chain_blocks st sb) = Inr c \<Longrightarrow> fst (resolveChain st sb) = c"
  by (simp add: resolveChain_def)

subsection \<open>Migration keeps the rules\<close>

definition denied_names :: "NetworkBlock list \<Rightarrow> gostring set" where
  "denied_names bs = (\<Union>b \<in> set bs. set (nb_DenyDomains b))"

definition allowed_names :: "NetworkBlock list \<Rightarrow> gostring set" where
  "allowed_names bs = (\<Union>b \<in> set bs. set (nb_AllowDomains b))"

lemma edit_layer_names:
  "denied_names (edit_layer orig (fold_legacy n) bs) = denied_names bs \<union> set (np_DeniedDomains n)"
  "allowed_names (edit_layer orig (fold_legacy n) bs) = allowed_names bs \<union> set (np_AllowedDomains n)"
  by (induction bs) (auto simp: denied_names_def allowed_names_def fold_legacy_def empty_block_def)

lemma edit_layer_origin:
  "has_legacy n \<Longrightarrow> \<exists>b \<in> set (edit_layer orig (fold_legacy n) bs). nb_Origin b = orig"
  by (induction bs) (auto simp: fold_legacy_def empty_block_def)

lemma sort_key_sorted: "sorted (map f xs) \<Longrightarrow> sort_key f xs = xs"
  by (simp add: sort_key_id_if_sorted)

section \<open>Properties\<close>

text \<open>
  Loading a record normalises it: the flat legacy lists are empty afterwards, no allowed or denied
  name is lost or invented, the layers are in precedence order with the user's custom layer last
  whenever there is one (a record with legacy entries always has), and doing it again changes
  nothing.
\<close>

theorem Normalize_restores_order:
  "np_AllowedDomains (Normalize n) = [] \<and> np_AllowedIPs (Normalize n) = [] \<and> np_DeniedDomains (Normalize n) = [] \<and>
   denied_names (np_Blocks (Normalize n)) = denied_names (np_Blocks n) \<union> set (np_DeniedDomains n) \<and>
   allowed_names (np_Blocks (Normalize n)) = allowed_names (np_Blocks n) \<union> set (np_AllowedDomains n) \<and>
   sorted (map (\<lambda>b. blockOriginRank (nb_Origin b)) (np_Blocks (Normalize n))) \<and>
   (if has_legacy n \<or> list_ex (\<lambda>b. nb_Origin b = BlockOriginCustom) (np_Blocks n)
    then nb_Origin (last (np_Blocks (Normalize n))) = BlockOriginCustom else True) \<and>
   Normalize (Normalize n) = Normalize n"
proof -
  have set: "set (np_Blocks (Normalize n)) = set (np_Blocks (migrate_legacy n))"
    by (simp add: Normalize_blocks)
  have names: "denied_names (np_Blocks (Normalize n)) = denied_names (np_Blocks (migrate_legacy n))"
    "allowed_names (np_Blocks (Normalize n)) = allowed_names (np_Blocks (migrate_legacy n))"
    unfolding denied_names_def allowed_names_def set by simp_all
  have migrated: "denied_names (np_Blocks (migrate_legacy n)) = denied_names (np_Blocks n) \<union> set (np_DeniedDomains n)"
    "allowed_names (np_Blocks (migrate_legacy n)) = allowed_names (np_Blocks n) \<union> set (np_AllowedDomains n)"
    by (auto simp: migrate_legacy_def edit_layer_names has_legacy_def)
  have sorted: "sorted (map rank_of (np_Blocks (Normalize n)))" by (simp add: Normalize_blocks)
  have "Normalize (Normalize n) = Normalize n"
  proof -
    have m: "migrate_legacy (Normalize n) = Normalize n" by (simp add: migrate_legacy_def has_legacy_def)
    have "sort_key (\<lambda>b. blockOriginRank (nb_Origin b)) (np_Blocks (Normalize n)) = np_Blocks (Normalize n)"
      using sorted by (intro sort_key_sorted) (simp add: rank_of_def [abs_def])
    then show ?thesis unfolding Normalize_def [of "Normalize n"] m by simp
  qed
  moreover have "nb_Origin (last (np_Blocks (Normalize n))) = BlockOriginCustom"
    if "has_legacy n \<or> list_ex (\<lambda>b. nb_Origin b = BlockOriginCustom) (np_Blocks n)"
    unfolding Normalize_blocks
    using that edit_layer_origin [of n BlockOriginCustom "np_Blocks n"]
    by (intro sorted_last_custom) (auto simp: migrate_legacy_def list_ex_iff)
  ultimately show ?thesis
    using sorted names migrated by (simp add: rank_of_def [abs_def])
qed

text \<open>
  Resolution always yields a chain the compiler accepts. It is the policies referenced, then the
  namespace, then the sandbox's own layers, when every address entry of these is well formed;
  otherwise, with a warning, it is the empty chain, which has no opinion on any destination, so the
  filter refuses it.
\<close>

theorem resolveChain_total:
  "NewChain (ch_blocks (fst (resolveChain st sb))) = Inr (fst (resolveChain st sb)) \<and>
   ch_blocks (fst (resolveChain st sb)) = (if list_all block_ok (chain_blocks st sb) then chain_blocks st sb else []) \<and>
   (if list_all block_ok (chain_blocks st sb) then snd (resolveChain st sb) = chain_warnings st sb
    else (\<exists>e. last (snd (resolveChain st sb)) = PolicyInvalid e) \<and>
         DecideAddr (fst (resolveChain st sb)) name ip = (VerdictNone, zero_match, False))"
proof (cases "NewChain (chain_blocks st sb)")
  case (Inl err)
  then have "\<not> list_all block_ok (chain_blocks st sb)" using NewChain_projr by fastforce
  with Inl show ?thesis by (simp add: resolveChain_def NewChain_def DecideAddr_def)
next
  case (Inr c)
  then have "ch_blocks c = chain_blocks st sb" and "list_all block_ok (chain_blocks st sb)"
    unfolding NewChain_iff list_all_iff by auto
  moreover have "resolveChain st sb = (c, chain_warnings st sb)" using Inr by (simp add: resolveChain_def)
  ultimately show ?thesis by (simp add: Inr)
qed


text \<open>A small store for the instances: a policy that allows a domain and one that denies it.\<close>

definition demo_store :: Store where
  "demo_store = \<lparr>ds_policies =
      [(''base'', Content \<lparr>po_Name = ''base'', po_AllowDomains = [''*.evil.com''], po_AllowIPs = [],
          po_DenyDomains = [], po_DenyIPs = [], po_Source = [], po_Refresh = []\<rparr>),
       (''corp'', Content \<lparr>po_Name = ''corp'', po_AllowDomains = [], po_AllowIPs = [],
          po_DenyDomains = [''evil.com''], po_DenyIPs = [], po_Source = [], po_Refresh = []\<rparr>)],
     ds_caches = [], ds_namespaces = [], ds_writable = True\<rparr>"

definition demo_sandbox :: Sandbox where
  "demo_sandbox = \<lparr>sb_Namespace = [], sb_Network = \<lparr>np_AllowedDomains = [], np_AllowedIPs = [],
     np_DeniedDomains = [], np_Use = Some [''base'', ''corp''],
     np_Blocks = [\<lparr>nb_Origin = ''custom'', nb_Name = [], nb_AllowDomains = [''*.good.org''], nb_AllowIPs = [],
        nb_DenyDomains = [''bad.org''], nb_DenyIPs = []\<rparr>]\<rparr>\<rparr>"

lemma demo_chain: "NewChain (chain_blocks demo_store demo_sandbox) =
    Inr (projr (NewChain (chain_blocks demo_store demo_sandbox)))"
proof (rule NewChain_projr)
  show "list_all block_ok (chain_blocks demo_store demo_sandbox)" by code_simp
qed


text \<open>
  A referenced policy that cannot be found can open the filter: there is a store and a sandbox for
  which a destination is denied, and is allowed when one policy record, the one that denies it, is
  missing.
\<close>

theorem missing_deny_layer_fails_open:
  "\<exists>st sb name pol ip.
     fst (DecideAddr (fst (resolveChain st sb)) name ip) = VerdictDeny \<and>
     fst (DecideAddr (fst (resolveChain (forget_policy pol st) sb)) name ip) = VerdictAllow"
proof -
  have "fst (DecideAddr (fst (resolveChain demo_store demo_sandbox)) ''a.evil.com'' (IP4 7)) = VerdictDeny"
    by code_simp
  moreover have "fst (DecideAddr (fst (resolveChain (forget_policy ''corp'' demo_store) demo_sandbox)) ''a.evil.com'' (IP4 7)) =
      VerdictAllow"
    by code_simp
  ultimately show ?thesis by blast
qed

text \<open>
  The claim the code relies on holds for layers without denies: when the record of a referenced
  policy that only allows is missing, no destination is allowed that was not allowed with it.
\<close>

theorem missing_allow_layer_is_safe:
  assumes "pol \<noteq> DefaultPolicyName" and "pol \<in> set (effectiveUse (fst (sandbox_namespace st sb)) sb)"
    and "use_layer st pol = Some b" and "bk_DenyDomains b = []" and "bk_DenyIPs b = []"
    and "NewChain (chain_blocks st sb) = Inr c"
    and "fst (DecideAddr (fst (resolveChain (forget_policy pol st) sb)) name ip) = VerdictAllow"
  shows "fst (DecideAddr (fst (resolveChain st sb)) name ip) = VerdictAllow"
proof -
  from chain_blocks_forget [OF assms(1-3)] obtain lo hi where
    full: "chain_blocks st sb = lo @ [b] @ hi" and less: "chain_blocks (forget_policy pol st) sb = lo @ hi" by blast
  have c: "NewChain (lo @ [b] @ hi) = Inr c" using assms(6) by (simp add: full)
  then have "\<forall>x \<in> set (lo @ [b] @ hi). block_ok x" using NewChain_iff by blast
  then have "list_all block_ok (lo @ hi)" by (simp add: list_all_iff)
  then have c': "NewChain (lo @ hi) = Inr (projr (NewChain (lo @ hi)))" by (rule NewChain_projr)
  have "fst (resolveChain (forget_policy pol st) sb) = projr (NewChain (lo @ hi))"
    by (rule resolveChain_ok) (simp only: less c' [symmetric])
  with drop_allow_layer [OF _ c c'] assms(4,5,7) resolveChain_ok [OF assms(6)] show ?thesis
    by (simp add: allow_only_def)
qed

theorem missing_allow_layer_is_safe_witness:
  "fst (DecideAddr (fst (resolveChain demo_store demo_sandbox)) ''a.good.org'' (IP4 7)) = VerdictAllow"
proof (rule missing_allow_layer_is_safe)
  show "''base'' \<noteq> DefaultPolicyName" "''base'' \<in> set (effectiveUse (fst (sandbox_namespace demo_store demo_sandbox)) demo_sandbox)"
    by code_simp+
  show "use_layer demo_store ''base'' = Some (the (use_layer demo_store ''base''))"
    "bk_DenyDomains (the (use_layer demo_store ''base'')) = []" "bk_DenyIPs (the (use_layer demo_store ''base'')) = []"
    by code_simp+
  show "NewChain (chain_blocks demo_store demo_sandbox) = Inr (projr (NewChain (chain_blocks demo_store demo_sandbox)))"
    by (rule demo_chain)
  show "fst (DecideAddr (fst (resolveChain (forget_policy ''base'' demo_store) demo_sandbox)) ''a.good.org'' (IP4 7)) = VerdictAllow"
    by code_simp
qed

text \<open>
  The store keeps what it is given under safe names: an accepted policy reads back unchanged (the
  builtin and every other policy are untouched), and a name that is accepted has no path separator
  and does not start with a dot, so its directory is directly below the policies directory.
\<close>

theorem SavePolicy_LoadPolicy:
  assumes "SavePolicy p st = Inr st'"
  shows "LoadPolicy st' (po_Name p) = Inr p \<and>
    (if n = po_Name p then True else LoadPolicy st' n = LoadPolicy st n) \<and>
    LoadPolicy st' DefaultPolicyName = Inr BuiltinDefaultPolicy \<and>
    po_Name p \<noteq> [] \<and> CHR ''/'' \<notin> set (po_Name p) \<and> hd (po_Name p) \<noteq> CHR ''.''"
proof -
  from assms have name: "policyNameRe (po_Name p)" "po_Name p \<noteq> DefaultPolicyName"
    and st': "st' = st\<lparr>ds_policies := AList.update (po_Name p) (Content p) (ds_policies st)\<rparr>"
    by (auto simp: SavePolicy_def validatePolicyName_def split: if_splits)
  from name(1) obtain c cs where n: "po_Name p = c # cs" by (cases "po_Name p") (auto simp: policyNameRe_def)
  have "\<not> name_lead (CHR ''/'')" "\<not> name_lead (CHR ''.'')" by code_simp+
  with name(1) have "CHR ''/'' \<notin> set (po_Name p)" "hd (po_Name p) \<noteq> CHR ''.''"
    by (auto simp: n policyNameRe_def list_all_iff)
  with name n show ?thesis by (auto simp: st' LoadPolicy_def update_conv')
qed

theorem SavePolicy_LoadPolicy_witness:
  "LoadPolicy (projr (SavePolicy (sourcePolicy ''src-1'' ''u'') demo_store)) ''src-1'' = Inr (sourcePolicy ''src-1'' ''u'')"
proof -
  have "SavePolicy (sourcePolicy ''src-1'' ''u'') demo_store =
      Inr (projr (SavePolicy (sourcePolicy ''src-1'' ''u'') demo_store))" by code_simp
  from SavePolicy_LoadPolicy [OF this] show ?thesis by (simp add: sourcePolicy_def)
qed

text \<open>
  Blocklists written in a project file go below the policies it names: the chain is free of
  duplicates, has exactly the names written and the source policies, and no source policy comes after
  a written name other than the leading default.
\<close>

theorem splice_precedence:
  assumes "u = dedupStrings (splice use expl srcs)" and "set srcs \<inter> set use = {}" and "DefaultPolicyName \<notin> set srcs"
  shows "distinct u \<and> set u = set srcs \<union> (if expl then set use else {DefaultPolicyName}) \<and>
    (if expl \<and> (use = [] \<or> hd use \<noteq> DefaultPolicyName)
     then u = dedupStrings srcs @ dedupStrings use
     else u = DefaultPolicyName # dedupStrings srcs @ dedup_from [DefaultPolicyName] (if expl then tl use else []))"
proof -
  have fresh: "dedup_from (xs @ s) ys = dedup_from s ys" if "set xs \<inter> set ys = {}" for s xs ys :: "gostring list"
    using that
  proof (induction ys arbitrary: s)
    case (Cons y ys)
    have "dedup_from (y # xs @ s) ys = dedup_from (xs @ y # s) ys" by (rule dedup_from_cong) simp
    with Cons show ?case by auto
  qed simp
  have plain: "dedupStrings (srcs @ use) = dedupStrings srcs @ dedupStrings use"
    using fresh [of srcs use "[]"] assms(2) by (simp add: dedupStrings_def dedup_from_append)
  have srcs: "dedup_from [DefaultPolicyName] srcs = dedupStrings srcs"
    using fresh [of "[DefaultPolicyName]" srcs "[]"] assms(3) by (auto simp: dedupStrings_def)
  have lead: "dedupStrings (DefaultPolicyName # srcs @ us) = DefaultPolicyName # dedupStrings srcs @ dedup_from [DefaultPolicyName] us"
    if "set srcs \<inter> set us = {}" for us
    using fresh [OF that, of "[DefaultPolicyName]"] srcs by (simp add: dedupStrings_def dedup_from_append)
  have "set u = set srcs \<union> (if expl then set use else {DefaultPolicyName})" and "distinct u"
    by (auto simp: assms(1) splice_def split: list.split)
  then show ?thesis
    using plain lead [of "[]"] lead [of "tl use"] assms(2) by (cases use) (auto simp: assms(1) splice_def)
qed

theorem splice_precedence_witness:
  "dedupStrings (splice [''default'', ''corp''] True [''src-1'']) = [''default'', ''src-1'', ''corp'']"
  using splice_precedence [OF refl, of "[''src-1'']" "[''default'', ''corp'']" True]
  by (simp add: DefaultPolicyName_def dedupStrings_def)

text \<open>
  A blocklist is refetched exactly when its policy has a source and either the caller insists or
  the cache is older than the interval; an invalid interval, an unreadable cache or a failed download
  leaves the previous cache in place.
\<close>

theorem refreshPolicyCache_keeps_cache:
  assumes "refreshPolicyCache parseDuration fetch now p force st = (st', oe)"
  shows "(oe \<noteq> None \<longrightarrow> st' = st) \<and>
    (st' \<noteq> st \<longrightarrow> po_Source p \<noteq> [] \<and>
      (\<exists>interval cache denies allows. RefreshInterval parseDuration p = Some interval \<and>
         LoadPolicyCache st (po_Name p) = Inr cache \<and> fetch (po_Source p) = Some (denies, allows) \<and>
         (force \<or> interval \<le> time_sub now (pc_FetchedAt cache)) \<and>
         LoadPolicyCache st' (po_Name p) =
           Inr \<lparr>pc_FetchedAt = now, pc_ETag = [], pc_DenyDomains = denies, pc_AllowDomains = allows\<rparr>)) \<and>
    ds_policies st' = ds_policies st"
  using assms
  by (auto simp: refreshPolicyCache_def SavePolicyCache_def validatePolicyName_def LoadPolicyCache_def update_conv' not_less
      split: if_splits option.splits sum.splits file_state.splits)

theorem refreshPolicyCache_keeps_cache_witness:
  "ds_policies (fst (refreshPolicyCache (\<lambda>_. None) (\<lambda>_. Some ([''ads.com''], [])) 99 (sourcePolicy ''src-1'' ''u'') True demo_store)) =
     ds_policies demo_store"
  using refreshPolicyCache_keeps_cache [OF surjective_pairing] by blast

end
