(* ===== verification/Blocklist.thy ===== *)
theory Blocklist
  imports NetPolicy
begin

text \<open>
  External blocklists. \<open>src/internal/cli/blocklist.go\<close>: the download of a hosts file, a plain domain
  list or Adblock rules, and the domains it denies and excepts. The HTTP exchange is an input (no
  answer, or a status and a body that may break off); the line scanner, with its limit on the length
  of a line, and \<open>strings.Fields\<close> are modelled.
\<close>

section \<open>Lines\<close>

definition isDomainish :: "gostring \<Rightarrow> bool" where
  "isDomainish s \<longleftrightarrow> s \<noteq> [] \<and> length s \<le> 253 \<and> CHR ''.'' \<in> set s \<and>
     set s \<inter> {CHR '' '', CHR 9, CHR ''/'', CHR 92, CHR '':''} = {}"

definition parseBlocklistExceptionLine :: "gostring \<Rightarrow> gostring option" where
  "parseBlocklistExceptionLine line =
     (if \<not> has_prefix line ''@@||'' then None
      else case cut_byte (drop 4 line) (CHR ''$'') of (before, opts, found) \<Rightarrow>
        if found \<and> opts \<noteq> [] then None
        else let rest = trim_suffix before ''^'' in
          if set rest \<inter> {CHR ''/'', CHR ''^'', CHR ''*''} \<noteq> {} \<or> \<not> isDomainish rest then None
          else Some rest)"

definition host_aliases :: "gostring list" where
  "host_aliases = [''localhost'', ''localhost.localdomain'', ''broadcasthost'', ''ip6-localhost'']"

definition hosts_entry :: "gostring list \<Rightarrow> gostring list" where
  "hosts_entry fs =
     (case fs of
        [] \<Rightarrow> []
      | [f] \<Rightarrow> if isDomainish f then [f] else []
      | ip # hosts \<Rightarrow>
          if ip \<in> {''0.0.0.0'', ''127.0.0.1'', ''::1''}
          then filter (\<lambda>h. h \<notin> set host_aliases \<and> isDomainish h) hosts else [])"

definition parseBlocklistLine :: "gostring \<Rightarrow> gostring list" where
  "parseBlocklistLine line0 =
     (let line = trim_space line0 in
      if line = [] \<or> has_prefix line ''#'' \<or> has_prefix line ''!'' then []
      else if has_prefix line ''@@'' then []
      else if has_prefix line ''||''
           then let rest = takeWhile (\<lambda>c. c \<notin> {CHR ''^'', CHR ''$'', CHR ''/'', CHR ''*''}) (drop 2 line)
                in if isDomainish rest then [rest] else []
      else let line = (if CHR ''#'' \<in> set line then trim_space (takeWhile (\<lambda>c. c \<noteq> CHR ''#'') line) else line)
           in hosts_entry (string_fields line))"

section \<open>Download\<close>

text \<open>\<open>bufio.ScanLines\<close>: lines end at a newline, one carriage return before it is dropped, and a last line without newline counts when it is not empty.\<close>

definition drop_cr :: "gostring \<Rightarrow> gostring" where
  "drop_cr l = (if l \<noteq> [] \<and> last l = CHR 13 then butlast l else l)"

fun raw_lines :: "gostring \<Rightarrow> gostring \<Rightarrow> gostring list" where
  "raw_lines cur [] = (if cur = [] then [] else [cur])"
| "raw_lines cur (c # cs) = (if c = CHR 10 then cur # raw_lines [] cs else raw_lines (cur @ [c]) cs)"

definition max_line :: int where
  "max_line = 4 * 1024 * 1024"

record response =
  rs_status :: int
  rs_body :: gostring
  rs_broken :: bool

definition take_denies :: "gostring list \<Rightarrow> gostring list \<times> gostring list \<Rightarrow> gostring list \<times> gostring list" where
  "take_denies ds acc = (fold (\<lambda>d out. if d \<in> set out then out else out @ [d]) ds (fst acc), snd acc)"

definition scan_line :: "gostring \<Rightarrow> gostring list \<times> gostring list \<Rightarrow> gostring list \<times> gostring list" where
  "scan_line text acc =
     (let line = trim_space text in
      if has_prefix line ''@@''
      then case parseBlocklistExceptionLine line of
             Some d \<Rightarrow> if d \<in> set (snd acc) then acc else (fst acc, snd acc @ [d])
           | None \<Rightarrow> acc
      else take_denies (parseBlocklistLine line) acc)"

definition fetchBlocklistFull :: "response option \<Rightarrow> (gostring list \<times> gostring list) option" where
  "fetchBlocklistFull resp =
     (case resp of
        None \<Rightarrow> None
      | Some r \<Rightarrow>
          if rs_status r \<noteq> 200 then None
          else let raw = raw_lines [] (rs_body r) in
            if rs_broken r \<or> list_ex (\<lambda>l. max_line \<le> int (length l)) raw then None
            else Some (fold (\<lambda>l. scan_line (drop_cr l)) raw ([], [])))"

definition fetchBlocklist :: "response option \<Rightarrow> gostring list option" where
  "fetchBlocklist resp = map_option fst (fetchBlocklistFull resp)"

section \<open>Lemmas\<close>

lemma fold_new:
  "fold (\<lambda>d out. if d \<in> set out then out else out @ [d]) ds out = out @ dedup_from out ds"
proof (induction ds arbitrary: out)
  case (Cons d ds)
  have "dedup_from (out @ [d]) ds = dedup_from (d # out) ds" by (rule dedup_from_cong) simp
  with Cons show ?case by simp
qed simp

text \<open>The lines that deny, and those that except.\<close>

definition denied_by :: "gostring \<Rightarrow> gostring list" where
  "denied_by l = (if has_prefix (trim_space (drop_cr l)) ''@@'' then [] else parseBlocklistLine (trim_space (drop_cr l)))"

definition excepted_by :: "gostring \<Rightarrow> gostring list" where
  "excepted_by l = (case parseBlocklistExceptionLine (trim_space (drop_cr l)) of None \<Rightarrow> [] | Some d \<Rightarrow> [d])"

lemma exception_prefix: "parseBlocklistExceptionLine l = Some d \<Longrightarrow> has_prefix l ''@@''"
  by (auto simp: parseBlocklistExceptionLine_def has_prefix_iff split: if_splits)

lemma scan_line_spec:
  "scan_line (drop_cr l) (ds, as) = (ds @ dedup_from ds (denied_by l), as @ dedup_from as (excepted_by l))"
proof (cases "parseBlocklistExceptionLine (trim_space (drop_cr l))")
  case None
  then show ?thesis by (simp add: scan_line_def Let_def take_denies_def fold_new denied_by_def excepted_by_def)
next
  case (Some d)
  with exception_prefix [OF Some] show ?thesis
    by (simp add: scan_line_def Let_def denied_by_def excepted_by_def)
qed

lemma scan_lines_spec:
  "fold (\<lambda>l. scan_line (drop_cr l)) ls (ds, as) =
     (ds @ dedup_from ds (concat (map denied_by ls)), as @ dedup_from as (concat (map excepted_by ls)))"
proof (induction ls arbitrary: ds as)
  case (Cons l ls)
  have "dedup_from (x @ dedup_from x y) z = dedup_from (y @ x) z" for x y z :: "gostring list"
    by (rule dedup_from_cong) (auto simp: set_dedup_from)
  with Cons show ?case by (simp add: scan_line_spec dedup_from_append)
qed simp

lemma fetch_spec:
  "fetchBlocklistFull (Some r) = (if rs_status r = 200 \<and> \<not> rs_broken r \<and>
       list_all (\<lambda>l. int (length l) < max_line) (raw_lines [] (rs_body r))
     then Some (dedupStrings (concat (map denied_by (raw_lines [] (rs_body r)))),
                dedupStrings (concat (map excepted_by (raw_lines [] (rs_body r))))) else None)"
proof -
  have "list_ex (\<lambda>l. max_line \<le> int (length l)) ls \<longleftrightarrow> \<not> list_all (\<lambda>l. int (length l) < max_line) ls" for ls :: "gostring list"
    by (auto simp: list_ex_iff list_all_iff not_less)
  then show ?thesis by (simp add: fetchBlocklistFull_def Let_def scan_lines_spec dedupStrings_def)
qed

definition no_space :: "gostring \<Rightarrow> bool" where
  "no_space s \<longleftrightarrow> list_all (\<lambda>c. \<not> space_byte c) s"

definition hosts_line :: "gostring \<Rightarrow> gostring list \<Rightarrow> gostring" where
  "hosts_line ip hosts = ip @ concat (map (\<lambda>h. CHR '' '' # h) hosts)"

lemma trim_no_space: "no_space s \<Longrightarrow> trim_space s = s"
  by (rule trim_space_id) (simp add: no_space_def list_all_iff)

lemma find_no_space: "no_space w \<Longrightarrow> w \<noteq> [] \<Longrightarrow> find (\<lambda>e. e \<noteq> [] \<and> has_prefix (w @ r) e) space_encodings = None"
  by (rule find_none_hd)
    (simp add: no_space_def list_all_iff space_byte_def list_ex_iff hd_append, metis hd_in_set)

lemma fields_word: "no_space w \<Longrightarrow> fields_from cur (w @ r) = fields_from (cur @ w) r"
proof (induction w arbitrary: cur)
  case (Cons c w)
  then have "fields_from cur ((c # w) @ r) = fields_from (cur @ [c]) (w @ r)"
    using find_no_space [of "c # w" r] by (subst fields_from.simps) simp
  with Cons show ?case by (simp add: no_space_def)
qed simp

lemma fields_no_space: "no_space w \<Longrightarrow> w \<noteq> [] \<Longrightarrow> string_fields w = [w]"
  using fields_word [of w "[]" "[]"] by (simp add: string_fields_def fields_from.simps)

lemma fields_blank: "w \<noteq> [] \<Longrightarrow> fields_from w (CHR '' '' # r) = w # fields_from [] r"
  by (subst fields_from.simps) (simp add: space_encodings_def has_prefix_def)

lemma fields_hosts:
  "w \<noteq> [] \<Longrightarrow> list_all (\<lambda>h. no_space h \<and> h \<noteq> []) hosts \<Longrightarrow>
     fields_from w (concat (map (\<lambda>h. CHR '' '' # h) hosts)) = w # hosts"
proof (induction hosts arbitrary: w)
  case Nil
  then show ?case by (simp add: fields_from.simps)
next
  case (Cons h hosts)
  then show ?case using fields_word [of h "[]" "concat (map (\<lambda>h. CHR '' '' # h) hosts)"] by (simp add: fields_blank)
qed

lemma hosts_entry_hosts:
  "ip \<in> {''0.0.0.0'', ''127.0.0.1'', ''::1''} \<Longrightarrow> hosts \<noteq> [] \<Longrightarrow>
     list_all (\<lambda>h. isDomainish h \<and> h \<notin> set host_aliases) hosts \<Longrightarrow> hosts_entry (ip # hosts) = hosts"
  by (cases hosts) (auto simp: hosts_entry_def list_all_iff)

lemma hosts_line_parsed:
  assumes ip: "ip \<in> {''0.0.0.0'', ''127.0.0.1'', ''::1''}"
    and hosts: "list_all (\<lambda>h. isDomainish h \<and> h \<notin> set host_aliases \<and> (\<forall>c \<in> set h. \<not> space_byte c \<and> c \<noteq> CHR ''#'')) hosts"
    and ne: "hosts \<noteq> []" and opts: "no_space opts"
  shows "parseBlocklistLine (hosts_line ip hosts) = hosts \<and> parseBlocklistLine (hosts_line ip hosts @ '' #'' @ opts) = hosts"
proof -
  let ?l = "hosts_line ip hosts"
  have h: "list_all (\<lambda>h. no_space h \<and> h \<noteq> []) hosts" "list_all (\<lambda>h. isDomainish h \<and> h \<notin> set host_aliases) hosts"
    using hosts by (auto simp: list_all_iff no_space_def isDomainish_def)
  have sp: "no_space ip" "ip \<noteq> []" "hd ip \<notin> set ''#!|@''" "CHR ''#'' \<notin> set ip" "\<not> space_byte (CHR ''#'')"
    using ip by (auto simp: no_space_def space_byte_def space_encodings_def)
  have hash: "CHR ''#'' \<notin> set ?l" using hosts sp(4) by (auto simp: hosts_line_def list_all_iff)
  have last: "\<not> space_byte (last ?l)" "\<not> space_byte (hd ?l)"
    using sp h ne
    by (cases hosts rule: rev_cases;
        auto simp: hosts_line_def no_space_def list_all_iff hd_append last_append)+
  have pre: "\<not> has_prefix (?l @ r) ''#''" "\<not> has_prefix (?l @ r) ''!''" "\<not> has_prefix (?l @ r) ''@@''" "\<not> has_prefix (?l @ r) ''||''" "?l @ r \<noteq> []" for r
    using sp(2,3) by (cases ip; auto simp: hosts_line_def has_prefix_iff)+
  have fields: "string_fields ?l = ip # hosts"
    using fields_word [OF sp(1), of "[]"] fields_hosts [OF sp(2) h(1)] by (simp add: string_fields_def hosts_line_def)
  have "trim_space ?l = ?l" using last by (intro trim_space_id) simp
  moreover have "trim_space (?l @ '' #'' @ opts) = ?l @ '' #'' @ opts"
    using last opts sp(5) pre(5) by (intro trim_space_id) (auto simp: no_space_def list_all_iff hd_append last_append)
  moreover have "takeWhile (\<lambda>c. c \<noteq> CHR ''#'') (?l @ '' #'' @ opts) = ?l @ '' ''"
    using hash by (simp add: takeWhile_append)
  moreover have "trim_space (?l @ '' '') = ?l" using last pre(5) [of "[]"] by (intro trim_space_blank) simp_all
  ultimately show ?thesis
    using pre [of "[]"] pre [of "'' #'' @ opts"] hash fields hosts_entry_hosts [OF ip ne h(2)] by (simp add: parseBlocklistLine_def)
qed

lemma trim_suffix_caret: "trim_suffix s ''^'' = (if s \<noteq> [] \<and> last s = CHR ''^'' then butlast s else s)"
  by (cases s rule: rev_cases) (auto simp: trim_suffix_def has_suffix_iff)


lemma cut_dollar:
  "CHR ''$'' \<notin> set d \<Longrightarrow> cut_byte (d @ x) (CHR ''$'') =
     (if CHR ''$'' \<in> set x then (d @ takeWhile (\<lambda>c. c \<noteq> CHR ''$'') x, tl (dropWhile (\<lambda>c. c \<noteq> CHR ''$'') x), True)
      else (d @ x, [], False))"
  by (induction d) (auto simp: cut_byte_def)

text \<open>A successful refresh files exactly what was fetched.\<close>

lemma refreshed_cache:
  assumes "refreshPolicyCache parseDuration fetch now p True st = (st', None)" and "po_Source p \<noteq> []"
    and "fetch (po_Source p) = Some (ds, as)"
  shows "cache_of st' (po_Name p) = \<lparr>pc_FetchedAt = now, pc_ETag = [], pc_DenyDomains = ds, pc_AllowDomains = as\<rparr>"
  using assms
  by (auto simp: refreshPolicyCache_def SavePolicyCache_def validatePolicyName_def LoadPolicyCache_def update_conv' cache_of_def
      split: if_splits option.splits sum.splits)

section \<open>Properties\<close>

text \<open>
  An Adblock exception becomes an allow exactly when it names a whole domain: \<open>@@||domain\<close> with an
  optional separator and an optional empty option list. A path, a wildcard, a separator inside or any
  option leaves no allow.
\<close>

theorem exception_only_whole_domains:
  "parseBlocklistExceptionLine l = Some d \<longleftrightarrow>
     isDomainish d \<and> set d \<inter> {CHR ''/'', CHR ''^'', CHR ''*'', CHR ''$''} = {} \<and>
     l \<in> {''@@||'' @ d, ''@@||'' @ d @ ''^'', ''@@||'' @ d @ ''$'', ''@@||'' @ d @ ''^$''}"
proof
  assume "isDomainish d \<and> set d \<inter> {CHR ''/'', CHR ''^'', CHR ''*'', CHR ''$''} = {} \<and>
     l \<in> {''@@||'' @ d, ''@@||'' @ d @ ''^'', ''@@||'' @ d @ ''$'', ''@@||'' @ d @ ''^$''}"
  moreover from this have "d \<noteq> []" by (simp add: isDomainish_def)
  moreover from this have "last d \<in> set d" by simp
  ultimately have "d \<noteq> []" "last d \<noteq> CHR ''^''" "isDomainish d" "set d \<inter> {CHR ''/'', CHR ''^'', CHR ''*'', CHR ''$''} = {}"
    "l \<in> {''@@||'' @ d, ''@@||'' @ d @ ''^'', ''@@||'' @ d @ ''$'', ''@@||'' @ d @ ''^$''}" by blast+
  then show "parseBlocklistExceptionLine l = Some d"
    by (auto simp: parseBlocklistExceptionLine_def has_prefix_def cut_dollar [of d "[]", simplified] cut_dollar
        trim_suffix_caret Let_def)
next
  assume l: "parseBlocklistExceptionLine l = Some d"
  then obtain u where u: "l = ''@@||'' @ u"
    by (auto simp: parseBlocklistExceptionLine_def has_prefix_iff split: if_splits)
  obtain b where split: "u = b \<or> u = b @ ''$''" and nodollar: "CHR ''$'' \<notin> set b"
    and d: "d = trim_suffix b ''^''" "isDomainish d" "set d \<inter> {CHR ''/'', CHR ''^'', CHR ''*''} = {}"
  proof (cases "CHR ''$'' \<in> set u")
    case True
    then obtain b r where "u = b @ CHR ''$'' # r" "CHR ''$'' \<notin> set b" by (meson split_list_first)
    with l that [of b] show ?thesis
      by (auto simp: u parseBlocklistExceptionLine_def cut_byte_append Let_def has_prefix_def split: if_splits)
  next
    case False
    with l that [of u] show ?thesis
      by (auto simp: u parseBlocklistExceptionLine_def cut_byte_absent Let_def has_prefix_def split: if_splits)
  qed
  have b: "b = d \<or> b = d @ ''^''"
    using d(1) by (cases b rule: rev_cases) (auto simp: trim_suffix_caret split: if_splits)
  moreover from b nodollar have "CHR ''$'' \<notin> set d" by auto
  ultimately show "isDomainish d \<and> set d \<inter> {CHR ''/'', CHR ''^'', CHR ''*'', CHR ''$''} = {} \<and>
     l \<in> {''@@||'' @ d, ''@@||'' @ d @ ''^'', ''@@||'' @ d @ ''$'', ''@@||'' @ d @ ''^$''}"
    using split d(2,3) u by auto
qed

text \<open>
  Every list format yields its domain: a domain alone on a line, an Adblock rule for a whole domain
  with or without options, and a hosts file line with any number of hosts, trailing comment included;
  a comment line and an exception yield nothing.
\<close>

theorem blocklist_line_formats:
  assumes "isDomainish d" and "\<forall>c \<in> set d. \<not> space_byte c \<and> c \<notin> set ''#^$/*!|@''"
    and "\<forall>c \<in> set opts. \<not> space_byte c" and "ip \<in> {''0.0.0.0'', ''127.0.0.1'', ''::1''}"
    and "list_all (\<lambda>h. isDomainish h \<and> h \<notin> set host_aliases \<and> (\<forall>c \<in> set h. \<not> space_byte c \<and> c \<noteq> CHR ''#'')) hosts"
    and "hosts \<noteq> []"
  shows "parseBlocklistLine d = [d] \<and> parseBlocklistLine (''||'' @ d) = [d] \<and>
     parseBlocklistLine (''||'' @ d @ ''^'' @ opts) = [d] \<and>
     parseBlocklistLine (hosts_line ip hosts) = hosts \<and> parseBlocklistLine (hosts_line ip hosts @ '' #'' @ opts) = hosts \<and>
     parseBlocklistLine (CHR ''#'' # opts) = [] \<and> parseBlocklistLine (CHR ''!'' # opts) = [] \<and>
     parseBlocklistLine (''@@'' @ opts) = []"
proof (intro conjI)
  have ne: "d \<noteq> []" using assms(1) by (simp add: isDomainish_def)
  have d: "no_space d" "hd d \<notin> set ''#!|@''" "CHR ''#'' \<notin> set d"
    using assms(2) ne by (auto simp: no_space_def list_all_iff)
  have opts: "no_space opts" using assms(3) by (simp add: no_space_def list_all_iff)
  have lead: "\<not> space_byte (CHR ''|'')" "\<not> space_byte (CHR ''^'')" "\<not> space_byte (CHR ''#'')" "\<not> space_byte (CHR ''!'')"
    "\<not> space_byte (CHR ''@'')"
    by (simp_all add: space_byte_def space_encodings_def)
  have cut: "takeWhile (\<lambda>c. c \<noteq> CHR ''^'' \<and> c \<noteq> CHR ''$'' \<and> c \<noteq> CHR ''/'' \<and> c \<noteq> CHR ''*'') d = d"
    "takeWhile (\<lambda>c. c \<noteq> CHR ''^'' \<and> c \<noteq> CHR ''$'' \<and> c \<noteq> CHR ''/'' \<and> c \<noteq> CHR ''*'') (d @ CHR ''^'' # opts) = d"
    using assms(2) by (auto simp: takeWhile_eq_all_conv takeWhile_append)
  show "parseBlocklistLine d = [d]"
    using d ne assms(1) by (cases d) (auto simp: parseBlocklistLine_def trim_no_space has_prefix_def fields_no_space hosts_entry_def)
  show "parseBlocklistLine (''||'' @ d) = [d]" "parseBlocklistLine (''||'' @ d @ ''^'' @ opts) = [d]"
    using assms(1) d(1) opts lead
    by (simp_all add: parseBlocklistLine_def trim_no_space no_space_def has_prefix_def cut)
  show "parseBlocklistLine (hosts_line ip hosts) = hosts" "parseBlocklistLine (hosts_line ip hosts @ '' #'' @ opts) = hosts"
    using hosts_line_parsed [OF assms(4,5,6) opts] by simp_all
  show "parseBlocklistLine (CHR ''#'' # opts) = []" "parseBlocklistLine (CHR ''!'' # opts) = []"
    "parseBlocklistLine (''@@'' @ opts) = []"
    using opts lead by (simp_all add: parseBlocklistLine_def trim_no_space no_space_def has_prefix_def)
qed

theorem blocklist_line_formats_witness:
  "parseBlocklistLine ''||ads.example.com^$third-party'' = [''ads.example.com''] \<and>
   parseBlocklistLine ''0.0.0.0 a.com b.com #x'' = [''a.com'', ''b.com'']"
  using blocklist_line_formats [of "''ads.example.com''" "''$third-party''" "''::1''" "[''a.com'']"]
    blocklist_line_formats [of "''ads.example.com''" "''x''" "''0.0.0.0''" "[''a.com'', ''b.com'']"]
  by (simp add: isDomainish_def space_byte_def space_encodings_def host_aliases_def hosts_line_def)

text \<open>
  C11: What a blocklist says is what the filter does: after a refresh of a policy with a source, a
  domain that any line of the downloaded list denies is denied, with its subdomains, by the chain of
  a sandbox in which that policy is the highest layer, unless the policy or an exception of the list
  allows a longer name.
\<close>

theorem blocklist_line_denies:
  assumes "refreshPolicyCache parseDuration (\<lambda>url. fetchBlocklistFull (resp url)) now p True st = (st', None)"
    and "po_Source p \<noteq> []" and "resp (po_Source p) = Some r" and "fetchBlocklistFull (Some r) \<noteq> None"
    and "LoadPolicy st' (po_Name p) = Inr p" and "sandbox_namespace st' sb = (ns, ws)"
    and "effectiveUse ns sb = us @ [po_Name p]" and "namespace_layer ns = []" and "np_Blocks (sb_Network sb) = []"
    and "NewChain (chain_blocks st' sb) = Inr c"
    and "l \<in> set (raw_lines [] (rs_body r))" and "d \<in> set (parseBlocklistLine (drop_cr l))"
    and "normalizeDomain d \<noteq> []" and "\<not> has_prefix (normalizeDomain d) ''*.''"
    and "normalizeDomain name = normalizeDomain d \<or> has_suffix (normalizeDomain name) (CHR ''.'' # normalizeDomain d)"
    and "\<forall>a \<in> set (po_AllowDomains p) \<union> (\<Union>l \<in> set (raw_lines [] (rs_body r)). set (excepted_by l)).
      entry_matches False (normalizeDomain a) (normalizeDomain name) \<longrightarrow>
      count_byte (entry_pattern (normalizeDomain a)) (CHR ''.'') \<le> count_byte (normalizeDomain d) (CHR ''.'')"
  shows "\<exists>m. DecideAddr (fst (resolveChain st' sb)) name ip = (VerdictDeny, m, True)"
proof -
  obtain ds as where f: "fetchBlocklistFull (Some r) = Some (ds, as)" using assms(4) by auto
  then have sets: "set ds = (\<Union>l \<in> set (raw_lines [] (rs_body r)). set (denied_by l))"
    "set as = (\<Union>l \<in> set (raw_lines [] (rs_body r)). set (excepted_by l))"
    by (auto simp: fetch_spec split: if_splits)
  have "d \<in> set (denied_by l)"
    using assms(12) by (simp add: denied_by_def parseBlocklistLine_def) (simp add: Let_def split: if_splits)
  with sets(1) assms(11) have d: "d \<in> set ds" by blast
  let ?cache = "\<lparr>pc_FetchedAt = now, pc_ETag = [], pc_DenyDomains = ds, pc_AllowDomains = as\<rparr>"
  have "cache_of st' (po_Name p) = ?cache"
    by (rule refreshed_cache [OF assms(1,2)]) (simp add: assms(3) f)
  then have layer: "use_layer st' (po_Name p) = Some (policyBlock p ?cache)"
    by (simp add: use_layer_def assms(5))
  then have "chain_blocks st' sb = List.map_filter (use_layer st') us @ [policyBlock p ?cache]"
    by (simp add: chain_blocks_def assms(6-9) map_filter_simps map_filter_append)
  with assms(10) have c: "NewChain (List.map_filter (use_layer st') us @ [policyBlock p ?cache]) = Inr c" by simp
  have "\<exists>m. DecideAddr c name ip = (VerdictDeny, m, True)"
    by (rule deny_in_top_block [OF c _ assms(13,14,15)])
      (use d assms(16) sets(2) in \<open>auto simp: policyBlock_def\<close>)
  then show ?thesis by (simp add: resolveChain_ok [OF assms(10)])
qed


definition ads_policy :: Policy where
  "ads_policy = (sourcePolicy ''ads'' ''u'')\<lparr>po_AllowDomains := [''*.good.com'']\<rparr>"

definition ads_response :: response where
  "ads_response = \<lparr>rs_status = 200,
     rs_body = ''# list'' @ [CHR 10] @ ''0.0.0.0 ads.com'' @ [CHR 13, CHR 10] @ ''@@||ok.ads.com^'' @ [CHR 10], rs_broken = False\<rparr>"

definition ads_store :: Store where
  "ads_store = \<lparr>ds_policies = [(''ads'', Content ads_policy)], ds_caches = [], ds_namespaces = [], ds_writable = True\<rparr>"

definition ads_refreshed :: Store where
  "ads_refreshed = fst (refreshPolicyCache (\<lambda>_. None) (\<lambda>url. fetchBlocklistFull (Some ads_response)) 99 ads_policy True ads_store)"

definition ads_sandbox :: Sandbox where
  "ads_sandbox = \<lparr>sb_Namespace = [], sb_Network = \<lparr>np_AllowedDomains = [], np_AllowedIPs = [],
     np_DeniedDomains = [], np_Use = Some [''default'', ''ads''], np_Blocks = []\<rparr>\<rparr>"

lemma ads_lines: "raw_lines [] (rs_body ads_response) =
    [''# list'', ''0.0.0.0 ads.com'' @ [CHR 13], ''@@||ok.ads.com^'']"
  by (simp add: ads_response_def)

theorem blocklist_line_denies_witness:
  "\<exists>m. DecideAddr (fst (resolveChain ads_refreshed ads_sandbox)) ''x.Ads.com'' (IP4 7) = (VerdictDeny, m, True)"
proof (rule blocklist_line_denies [where p = ads_policy and r = ads_response and st = ads_store and
      resp = "\<lambda>_. Some ads_response" and now = 99 and parseDuration = "\<lambda>_. None" and us = "[''default'']" and d = "''ads.com''"
      and ns = "fst (sandbox_namespace ads_refreshed ads_sandbox)" and ws = "snd (sandbox_namespace ads_refreshed ads_sandbox)"
      and c = "projr (NewChain (chain_blocks ads_refreshed ads_sandbox))" and l = "''0.0.0.0 ads.com'' @ [CHR 13]"])
  have "snd (refreshPolicyCache (\<lambda>_. None) (\<lambda>url. fetchBlocklistFull (Some ads_response)) 99 ads_policy True ads_store) = None"
    by code_simp
  then show "refreshPolicyCache (\<lambda>_. None) (\<lambda>url. fetchBlocklistFull (Some ads_response)) 99 ads_policy True ads_store =
      (ads_refreshed, None)"
    by (metis ads_refreshed_def prod.collapse)
  show "fetchBlocklistFull (Some ads_response) \<noteq> None" "po_Source ads_policy \<noteq> []"
    "LoadPolicy ads_refreshed (po_Name ads_policy) = Inr ads_policy"
    "effectiveUse (fst (sandbox_namespace ads_refreshed ads_sandbox)) ads_sandbox = [''default''] @ [po_Name ads_policy]"
    "namespace_layer (fst (sandbox_namespace ads_refreshed ads_sandbox)) = []"
    "np_Blocks (sb_Network ads_sandbox) = []"
    "''ads.com'' \<in> set (parseBlocklistLine (drop_cr (''0.0.0.0 ads.com'' @ [CHR 13])))"
    "normalizeDomain ''ads.com'' \<noteq> []" "\<not> has_prefix (normalizeDomain ''ads.com'') ''*.''"
    "normalizeDomain ''x.Ads.com'' = normalizeDomain ''ads.com'' \<or>
     has_suffix (normalizeDomain ''x.Ads.com'') (CHR ''.'' # normalizeDomain ''ads.com'')"
    by code_simp+
  show "NewChain (chain_blocks ads_refreshed ads_sandbox) = Inr (projr (NewChain (chain_blocks ads_refreshed ads_sandbox)))"
  proof (rule NewChain_projr)
    show "list_all block_ok (chain_blocks ads_refreshed ads_sandbox)" by code_simp
  qed
  have no: "\<not> entry_matches False (normalizeDomain ''*.good.com'') (normalizeDomain ''x.Ads.com'')"
    "\<not> entry_matches False (normalizeDomain ''ok.ads.com'') (normalizeDomain ''x.Ads.com'')"
    by code_simp+
  have "excepted_by ''# list'' = []" "excepted_by (''0.0.0.0 ads.com'' @ [CHR 13]) = []"
    "excepted_by ''@@||ok.ads.com^'' = [''ok.ads.com'']" "po_AllowDomains ads_policy = [''*.good.com'']"
    by code_simp+
  with no show "\<forall>a \<in> set (po_AllowDomains ads_policy) \<union> (\<Union>l \<in> set (raw_lines [] (rs_body ads_response)). set (excepted_by l)).
      entry_matches False (normalizeDomain a) (normalizeDomain ''x.Ads.com'') \<longrightarrow>
      count_byte (entry_pattern (normalizeDomain a)) (CHR ''.'') \<le> count_byte (normalizeDomain ''ads.com'') (CHR ''.'')"
    unfolding ads_lines by simp
qed (simp_all add: ads_lines)

end
