(* ===== verification/Envspec.thy ===== *)
theory Envspec
  imports Prelude
begin

text \<open>
  \<open>src/internal/envspec/envspec.go\<close>: the entries of a template's env block, a small expression
  language over host variables. \<open>Parse\<close> and the canonical \<open>String\<close> form, evaluation against a host
  environment, and exactly when the two are inverse to each other.

  The code ranges over the runes of a string in three places. In \<open>ValidateName\<close> and in
  \<open>isSafeBareLiteral\<close> the runes it looks for are ASCII, so the loop is the same over bytes; in \<open>Quote\<close> a
  byte that is not part of a UTF-8 encoding is rewritten to the replacement character, so the model
  splits the string into its encodings.
\<close>

section \<open>Definitions\<close>

datatype Op =
  OpPassthrough | OpDefaultUnset | OpDefaultEmpty | OpRequiredUnset | OpRequiredEmpty | OpLiteral

record Spec =
  sp_Name :: gostring
  sp_Host :: gostring
  sp_Arg :: gostring
  sp_Op :: Op

datatype envspec_error =
    EmptyName | LeadingDigit gostring | BadNameChar gostring
  | EmptyRef gostring | BadOperator gostring gostring
  | MalformedQuote gostring | UnknownEscape char gostring

definition name_letter :: "char \<Rightarrow> bool" where
  "name_letter c \<longleftrightarrow> c = CHR ''_'' \<or> is_lower c \<or> is_upper c"

definition name_char :: "char \<Rightarrow> bool" where
  "name_char c \<longleftrightarrow> name_letter c \<or> is_digit c"

text \<open>None is the nil error.\<close>

definition ValidateName :: "gostring \<Rightarrow> envspec_error option" where
  "ValidateName s =
     (case s of
        [] \<Rightarrow> Some EmptyName
      | c # cs \<Rightarrow>
          if is_digit c then Some (LeadingDigit s)
          else if list_all name_char s then None else Some (BadNameChar s))"

definition scanName :: "gostring \<Rightarrow> gostring \<times> gostring" where
  "scanName s = (takeWhile name_char s, dropWhile name_char s)"

fun unescape :: "gostring \<Rightarrow> gostring \<Rightarrow> envspec_error + gostring" where
  "unescape whole [] = Inr []"
| "unescape whole [c] = Inr [c]"
| "unescape whole (c # e # cs) =
     (if c = CHR 92 then
        (if e = CHR 34 \<or> e = CHR 92 then map_sum id (Cons e) (unescape whole cs)
         else if e = CHR ''n'' then map_sum id (Cons (CHR 10)) (unescape whole cs)
         else if e = CHR ''t'' then map_sum id (Cons (CHR 9)) (unescape whole cs)
         else Inl (UnknownEscape e whole))
      else map_sum id (Cons c) (unescape whole (e # cs)))"

definition Unquote :: "gostring \<Rightarrow> envspec_error + gostring" where
  "Unquote s =
     (if length s < 2 \<or> hd s \<noteq> CHR 34 \<or> last s \<noteq> CHR 34 then Inl (MalformedQuote s)
      else unescape s (butlast (tl s)))"

definition mkRef :: "gostring \<Rightarrow> gostring \<Rightarrow> Op \<Rightarrow> gostring \<Rightarrow> Spec" where
  "mkRef name host op arg = \<lparr>sp_Name = name, sp_Host = host, sp_Arg = arg, sp_Op = op\<rparr>"

definition parseOp :: "gostring \<Rightarrow> (Op \<times> gostring) option" where
  "parseOp rest =
     (if rest = [] then Some (OpPassthrough, [])
      else if has_prefix rest '':-'' then Some (OpDefaultEmpty, drop 2 rest)
      else if has_prefix rest '':?'' then Some (OpRequiredEmpty, drop 2 rest)
      else if has_prefix rest ''-'' then Some (OpDefaultUnset, drop 1 rest)
      else if has_prefix rest ''?'' then Some (OpRequiredUnset, drop 1 rest)
      else None)"

definition parseRef :: "gostring \<Rightarrow> gostring \<Rightarrow> envspec_error + Spec" where
  "parseRef name inner =
     (case scanName inner of (host, rest) \<Rightarrow>
        if host = [] then Inl (EmptyRef inner)
        else case ValidateName host of
          Some err \<Rightarrow> Inl err
        | None \<Rightarrow>
            (case parseOp rest of
               None \<Rightarrow> Inl (BadOperator inner rest)
             | Some (op, arg) \<Rightarrow> Inr (mkRef name host op arg)))"

definition mkLiteral :: "gostring \<Rightarrow> gostring \<Rightarrow> Spec" where
  "mkLiteral name v = \<lparr>sp_Name = name, sp_Host = [], sp_Arg = v, sp_Op = OpLiteral\<rparr>"

definition parseRHS :: "gostring \<Rightarrow> gostring \<Rightarrow> envspec_error + Spec" where
  "parseRHS name rhs =
     (if has_prefix rhs [CHR 34] then map_sum id (mkLiteral name) (Unquote rhs)
      else if has_prefix rhs ''${'' \<and> has_suffix rhs ''}'' then parseRef name (butlast (drop 2 rhs))
      else Inr (mkLiteral name rhs))"

definition Parse :: "gostring \<Rightarrow> envspec_error + Spec" where
  "Parse entry =
     (case cut_byte entry (CHR ''='') of (nm, rhs, hasValue) \<Rightarrow>
        case ValidateName (trim_space nm) of
          Some err \<Rightarrow> Inl err
        | None \<Rightarrow>
            if \<not> hasValue then Inr (mkRef (trim_space nm) (trim_space nm) OpPassthrough [])
            else parseRHS (trim_space nm) (trim_space rhs))"

subsection \<open>Evaluation\<close>

datatype resolve_error = MissingWith gostring gostring gostring | Missing gostring gostring

definition missingErr :: "Spec \<Rightarrow> resolve_error" where
  "missingErr s =
     (if trim_space (sp_Arg s) \<noteq> [] then MissingWith (sp_Name s) (sp_Host s) (trim_space (sp_Arg s))
      else Missing (sp_Name s) (sp_Host s))"

text \<open>The value and the warning of an unset passthrough; \<open>lookup\<close> is the host environment.\<close>

definition Resolve_env :: "(gostring \<Rightarrow> gostring option) \<Rightarrow> Spec \<Rightarrow> resolve_error + gostring \<times> bool" where
  "Resolve_env lookup s =
     (case sp_Op s of
        OpLiteral \<Rightarrow> Inr (sp_Arg s, False)
      | OpPassthrough \<Rightarrow>
          (case lookup (sp_Host s) of None \<Rightarrow> Inr ([], True) | Some v \<Rightarrow> Inr (v, False))
      | OpDefaultUnset \<Rightarrow>
          (case lookup (sp_Host s) of None \<Rightarrow> Inr (sp_Arg s, False) | Some v \<Rightarrow> Inr (v, False))
      | OpDefaultEmpty \<Rightarrow>
          (case lookup (sp_Host s) of
             None \<Rightarrow> Inr (sp_Arg s, False)
           | Some v \<Rightarrow> if v = [] then Inr (sp_Arg s, False) else Inr (v, False))
      | OpRequiredUnset \<Rightarrow>
          (case lookup (sp_Host s) of None \<Rightarrow> Inl (missingErr s) | Some v \<Rightarrow> Inr (v, False))
      | OpRequiredEmpty \<Rightarrow>
          (case lookup (sp_Host s) of
             None \<Rightarrow> Inl (missingErr s)
           | Some v \<Rightarrow> if v = [] then Inl (missingErr s) else Inr (v, False)))"

subsection \<open>The canonical form\<close>

definition isSafeBareLiteral :: "gostring \<Rightarrow> bool" where
  "isSafeBareLiteral v \<longleftrightarrow>
     v \<noteq> [] \<and> hd v \<noteq> CHR 34 \<and> \<not> has_prefix v ''${'' \<and>
     list_all (\<lambda>c. c \<notin> {CHR 32, CHR 9, CHR 10, CHR 13, CHR ''('', CHR '')'', CHR ''#'', CHR 34, CHR ''=''}) v"

definition quoteRune :: "gostring \<Rightarrow> gostring" where
  "quoteRune r =
     (if r = [CHR 34] then [CHR 92, CHR 34]
      else if r = [CHR 92] then [CHR 92, CHR 92]
      else if r = [CHR 10] then [CHR 92, CHR ''n'']
      else if r = [CHR 9] then [CHR 92, CHR ''t'']
      else r)"

definition Quote :: "gostring \<Rightarrow> gostring" where
  "Quote v = [CHR 34] @ concat (map quoteRune (runes v)) @ [CHR 34]"

definition quoteLiteral :: "gostring \<Rightarrow> gostring" where
  "quoteLiteral v = (if isSafeBareLiteral v then v else Quote v)"

definition Spec_String :: "Spec \<Rightarrow> gostring" where
  "Spec_String s =
     (case sp_Op s of
        OpPassthrough \<Rightarrow>
          if sp_Host s = sp_Name s then sp_Name s else sp_Name s @ ''=${'' @ sp_Host s @ ''}''
      | OpDefaultUnset \<Rightarrow> sp_Name s @ ''=${'' @ sp_Host s @ ''-'' @ sp_Arg s @ ''}''
      | OpDefaultEmpty \<Rightarrow> sp_Name s @ ''=${'' @ sp_Host s @ '':-'' @ sp_Arg s @ ''}''
      | OpRequiredUnset \<Rightarrow> sp_Name s @ ''=${'' @ sp_Host s @ ''?'' @ sp_Arg s @ ''}''
      | OpRequiredEmpty \<Rightarrow> sp_Name s @ ''=${'' @ sp_Host s @ '':?'' @ sp_Arg s @ ''}''
      | OpLiteral \<Rightarrow> sp_Name s @ ''='' @ quoteLiteral (sp_Arg s))"

section \<open>Lemmas\<close>

subsection \<open>Names\<close>

definition valid_name :: "gostring \<Rightarrow> bool" where
  "valid_name s \<longleftrightarrow> s \<noteq> [] \<and> \<not> is_digit (hd s) \<and> list_all name_char s"

lemma ValidateName_iff: "ValidateName s = None \<longleftrightarrow> valid_name s"
  by (auto simp: ValidateName_def valid_name_def split: list.splits)

lemma ValidateName_valid [simp]: "valid_name s \<Longrightarrow> ValidateName s = None"
  by (simp add: ValidateName_iff)

lemma valid_name_nonempty [simp]: "valid_name s \<Longrightarrow> s \<noteq> []"
  by (simp add: valid_name_def)

lemma name_char_bytes:
  assumes "name_char c"
  shows "\<not> space_byte c" and "c \<noteq> CHR ''=''" and "c \<noteq> CHR '':''" and "c \<noteq> CHR ''-''" and "c \<noteq> CHR ''?''"
    and "c \<noteq> CHR ''}''"
proof -
  have "\<not> name_char d" if "space_byte d" for d
    using that
    by (auto simp: space_byte_def space_encodings_def name_char_def name_letter_def is_lower_def is_upper_def is_digit_def less_eq_char_def)
  with assms show "\<not> space_byte c" by blast
  show "c \<noteq> CHR ''=''" "c \<noteq> CHR '':''" "c \<noteq> CHR ''-''" "c \<noteq> CHR ''?''" "c \<noteq> CHR ''}''"
    using assms by (auto simp: name_char_def name_letter_def is_lower_def is_upper_def is_digit_def less_eq_char_def)
qed

lemma valid_name_trim: "valid_name s \<Longrightarrow> trim_space s = s"
  by (rule trim_space_id) (simp add: valid_name_def list_all_iff name_char_bytes)

lemma valid_name_no_eq: "valid_name s \<Longrightarrow> CHR ''='' \<notin> set s"
  using name_char_bytes(2) by (auto simp: valid_name_def list_all_iff)

lemma cut_name [simp]:
  "valid_name n \<Longrightarrow> cut_byte (n @ CHR ''='' # r) (CHR ''='') = (n, r, True)"
  "valid_name n \<Longrightarrow> cut_byte n (CHR ''='') = (n, [], False)"
  using valid_name_no_eq [of n] by (simp_all add: cut_byte_append cut_byte_absent)

lemma Parse_assign:
  "valid_name n \<Longrightarrow> Parse (n @ CHR ''='' # r) = parseRHS n (trim_space r)"
  by (simp add: Parse_def valid_name_trim)

lemma Parse_bare: "valid_name n \<Longrightarrow> Parse n = Inr (mkRef n n OpPassthrough [])"
  by (simp add: Parse_def valid_name_trim)

subsection \<open>References\<close>

lemma scanName_host:
  assumes "valid_name h" and "rest = [] \<or> \<not> name_char (hd rest)"
  shows "scanName (h @ rest) = (h, rest)"
proof -
  have h: "\<forall>c \<in> set h. name_char c" using assms(1) by (simp add: valid_name_def list_all_iff)
  then have "takeWhile name_char (h @ rest) = h @ takeWhile name_char rest"
    "dropWhile name_char (h @ rest) = dropWhile name_char rest"
    by (simp_all add: takeWhile_append2 dropWhile_append2)
  moreover have "takeWhile name_char rest = []" "dropWhile name_char rest = rest"
    using assms(2) by (cases rest; simp)+
  ultimately show ?thesis by (simp add: scanName_def)
qed

text \<open>A reference keeps its braces under trimming, and is read back.\<close>

lemma parse_braced:
  "parseRHS n (trim_space (''${'' @ inner @ ''}'')) = parseRef n inner"
proof -
  have "\<not> space_byte (CHR ''$'')" "\<not> space_byte (CHR ''}'')" by code_simp+
  then have "trim_space (''${'' @ inner @ ''}'') = ''${'' @ inner @ ''}''"
    by (intro trim_space_id) simp
  then show ?thesis
    by (simp add: parseRHS_def has_prefix_def has_suffix_iff)
qed

lemma parseRef_host:
  assumes "valid_name h" and "rest = [] \<or> \<not> name_char (hd rest)" and "parseOp rest = Some (op, arg)"
  shows "parseRef n (h @ rest) = Inr (mkRef n h op arg)"
  using assms by (simp add: parseRef_def scanName_host)

lemma op_chars: "\<not> name_char (CHR '':'')" "\<not> name_char (CHR ''-'')" "\<not> name_char (CHR ''?'')"
  by code_simp+

lemma Parse_ref:
  assumes "valid_name n" and "valid_name h"
  shows "Parse (n @ ''=${'' @ h @ ''}'') = Inr (mkRef n h OpPassthrough [])"
    and "Parse (n @ ''=${'' @ h @ ''-'' @ a @ ''}'') = Inr (mkRef n h OpDefaultUnset a)"
    and "Parse (n @ ''=${'' @ h @ '':-'' @ a @ ''}'') = Inr (mkRef n h OpDefaultEmpty a)"
    and "Parse (n @ ''=${'' @ h @ ''?'' @ a @ ''}'') = Inr (mkRef n h OpRequiredUnset a)"
    and "Parse (n @ ''=${'' @ h @ '':?'' @ a @ ''}'') = Inr (mkRef n h OpRequiredEmpty a)"
proof -
  have ref: "Parse (n @ ''=${'' @ h @ rest @ ''}'') = Inr (mkRef n h op arg)"
    if "rest = [] \<or> \<not> name_char (hd rest)" "parseOp rest = Some (op, arg)" for rest op arg
    using Parse_assign [OF assms(1), of "''${'' @ (h @ rest) @ ''}''"] parse_braced [of n "h @ rest"]
      parseRef_host [OF assms(2) that, of n] by simp
  show "Parse (n @ ''=${'' @ h @ ''}'') = Inr (mkRef n h OpPassthrough [])"
    using ref [of "[]"] by (simp add: parseOp_def)
  show "Parse (n @ ''=${'' @ h @ ''-'' @ a @ ''}'') = Inr (mkRef n h OpDefaultUnset a)"
    using ref [of "''-'' @ a"] by (simp add: parseOp_def has_prefix_def op_chars)
  show "Parse (n @ ''=${'' @ h @ '':-'' @ a @ ''}'') = Inr (mkRef n h OpDefaultEmpty a)"
    using ref [of "'':-'' @ a"] by (simp add: parseOp_def has_prefix_def op_chars)
  show "Parse (n @ ''=${'' @ h @ ''?'' @ a @ ''}'') = Inr (mkRef n h OpRequiredUnset a)"
    using ref [of "''?'' @ a"] by (simp add: parseOp_def has_prefix_def op_chars)
  show "Parse (n @ ''=${'' @ h @ '':?'' @ a @ ''}'') = Inr (mkRef n h OpRequiredEmpty a)"
    using ref [of "'':?'' @ a"] by (simp add: parseOp_def has_prefix_def op_chars)
qed

subsection \<open>Literals\<close>

lemma append_one: "(@) [c] = (#) c"
  by (simp add: fun_eq_iff)

lemma unescape_plain:
  "CHR 92 \<notin> set r \<Longrightarrow> unescape w (r @ t) = map_sum id (append r) (unescape w t)"
proof (induction r)
  case Nil
  then show ?case by (cases "unescape w t") simp_all
next
  case (Cons c r)
  then show ?case by (cases "r @ t") (auto simp: sum.map_comp comp_def)
qed

lemma unescape_quoteRune:
  assumes "rune_shape r"
  shows "unescape w (quoteRune r @ t) = map_sum id (append r) (unescape w t)"
proof (cases "r = [CHR 92]")
  case False
  with assms have "CHR 92 \<notin> set r" by (auto simp: rune_shape_def list_all_iff byte_in_def)
  then show ?thesis
    by (simp add: quoteRune_def unescape_plain append_one)
qed (simp add: quoteRune_def append_one)

lemma unescape_quote:
  "list_all rune_shape rs \<Longrightarrow> unescape w (concat (map quoteRune rs)) = Inr (concat rs)"
  by (induction rs) (simp_all add: unescape_quoteRune)

lemma Unquote_Quote: "Unquote (Quote v) = Inr (concat (runes v))"
  by (simp add: Unquote_def Quote_def unescape_quote [OF runes_shape] butlast_append)

lemma Quote_trim: "trim_space (Quote v) = Quote v"
proof (rule trim_space_id)
  have "\<not> space_byte (CHR 34)" by code_simp
  then show "\<not> space_byte (hd (Quote v)) \<and> \<not> space_byte (last (Quote v))" by (simp add: Quote_def)
qed

lemma Parse_quoted:
  "valid_name n \<Longrightarrow> Parse (n @ CHR ''='' # Quote v) = Inr (mkLiteral n (concat (runes v)))"
  by (simp add: Parse_assign Quote_trim parseRHS_def Unquote_Quote)
    (simp add: Quote_def has_prefix_def)

lemma parseRef_not_literal: "parseRef n inner \<noteq> Inr (mkLiteral m v)"
  by (auto simp: parseRef_def mkLiteral_def mkRef_def split: prod.splits option.splits)

lemma Parse_bare_literal:
  assumes "valid_name n" and "isSafeBareLiteral v"
  shows "Parse (n @ CHR ''='' # v) = Inr (mkLiteral n v) \<longleftrightarrow> trim_space v = v"
proof
  assume t: "trim_space v = v"
  with assms show "Parse (n @ CHR ''='' # v) = Inr (mkLiteral n v)"
    by (cases v) (auto simp: Parse_assign parseRHS_def isSafeBareLiteral_def has_prefix_def)
next
  assume "Parse (n @ CHR ''='' # v) = Inr (mkLiteral n v)"
  then have "parseRHS n (trim_space v) = Inr (mkLiteral n v)" by (simp add: Parse_assign assms(1))
  moreover have "\<not> has_prefix (trim_space v) [CHR 34]"
    using assms(2) set_trim_space [of v]
    by (auto simp: isSafeBareLiteral_def list_all_iff has_prefix_iff)
  ultimately have "mkLiteral n (trim_space v) = mkLiteral n v"
    using parseRef_not_literal by (fastforce simp: parseRHS_def split: if_splits)
  then show "trim_space v = v" by (simp add: mkLiteral_def)
qed

subsection \<open>Well-formed specs\<close>

definition valid_spec :: "Spec \<Rightarrow> bool" where
  "valid_spec s \<longleftrightarrow> valid_name (sp_Name s) \<and>
     (if sp_Op s = OpLiteral then sp_Host s = [] else valid_name (sp_Host s)) \<and>
     (sp_Op s = OpPassthrough \<longrightarrow> sp_Arg s = [])"

text \<open>The literals the canonical form keeps.\<close>

definition literal_kept :: "gostring \<Rightarrow> bool" where
  "literal_kept v \<longleftrightarrow> (if isSafeBareLiteral v then trim_space v = v else utf8_valid v)"

definition spec_kept :: "Spec \<Rightarrow> bool" where
  "spec_kept s \<longleftrightarrow> valid_spec s \<and> (if sp_Op s = OpLiteral then literal_kept (sp_Arg s) else True)"

lemma mkLiteral_inj: "mkLiteral n v = mkLiteral n w \<longleftrightarrow> v = w"
  by (auto simp: mkLiteral_def)

lemma Parse_literal_iff:
  "valid_name n \<Longrightarrow> Parse (n @ CHR ''='' # quoteLiteral v) = Inr (mkLiteral n v) \<longleftrightarrow> literal_kept v"
  by (simp add: quoteLiteral_def literal_kept_def Parse_bare_literal Parse_quoted mkLiteral_inj runes_concat_iff)

lemma roundtrip_iff:
  assumes "valid_spec s"
  shows "Parse (Spec_String s) = Inr s \<longleftrightarrow> spec_kept s"
proof (cases "sp_Op s = OpLiteral")
  case True
  with assms have "s = mkLiteral (sp_Name s) (sp_Arg s)" and "valid_name (sp_Name s)"
    by (simp_all add: valid_spec_def mkLiteral_def)
  with True assms Parse_literal_iff [of "sp_Name s" "sp_Arg s"] show ?thesis
    by (simp add: Spec_String_def spec_kept_def)
next
  case False
  with assms have names: "valid_name (sp_Name s)" "valid_name (sp_Host s)" by (simp_all add: valid_spec_def)
  have s: "s = mkRef (sp_Name s) (sp_Host s) (sp_Op s) (sp_Arg s)" by (simp add: mkRef_def)
  have "Parse (Spec_String s) = Inr s"
    using assms False
    by (cases "sp_Op s"; subst s)
      (simp_all add: Spec_String_def Parse_ref [OF names, simplified] Parse_bare [OF names(1)] valid_spec_def mkRef_def)
  with False assms show ?thesis by (simp add: spec_kept_def)
qed

interpretation envspec: codec Spec_String Parse spec_kept
  by unfold_locales (metis roundtrip_iff spec_kept_def)

lemma scanName_valid:
  "scanName inner = (h, rest) \<Longrightarrow> ValidateName h = None \<Longrightarrow> valid_name h"
  by (simp add: ValidateName_iff)

lemma parseOp_passthrough: "parseOp rest = Some (OpPassthrough, arg) \<Longrightarrow> arg = []"
  by (auto simp: parseOp_def split: if_splits)

lemma parseOp_not_literal: "parseOp rest \<noteq> Some (OpLiteral, arg)"
  by (auto simp: parseOp_def split: if_splits)

lemma parseRef_valid: "valid_name n \<Longrightarrow> parseRef n inner = Inr s \<Longrightarrow> valid_spec s"
  using parseOp_passthrough parseOp_not_literal
  by (fastforce simp: parseRef_def valid_spec_def mkRef_def ValidateName_iff
      split: prod.splits option.splits if_splits)

lemma parseRHS_valid: "valid_name n \<Longrightarrow> parseRHS n rhs = Inr s \<Longrightarrow> valid_spec s"
  using parseRef_valid [of n]
  by (cases "Unquote rhs") (auto simp: parseRHS_def valid_spec_def mkLiteral_def split: if_splits)

lemma Parse_valid:
  assumes "Parse entry = Inr s"
  shows "valid_spec s"
proof -
  obtain nm rhs found where cut: "cut_byte entry (CHR ''='') = (nm, rhs, found)"
    by (metis prod_cases3)
  show ?thesis
  proof (cases "ValidateName (trim_space nm)")
    case None
    then have n: "valid_name (trim_space nm)" by (simp add: ValidateName_iff)
    show ?thesis
    proof (cases found)
      case True
      with assms cut None have "parseRHS (trim_space nm) (trim_space rhs) = Inr s" by (simp add: Parse_def)
      with n show ?thesis by (rule parseRHS_valid)
    next
      case False
      with assms cut None n show ?thesis by (auto simp: Parse_def valid_spec_def mkRef_def)
    qed
  qed (use assms cut in \<open>simp add: Parse_def\<close>)
qed

section \<open>Properties\<close>

text \<open>
  The canonical text of a well-formed spec reads back as that spec exactly when it is not a
  literal, or a literal the canonical form keeps: one written bare that trimming leaves alone, or one
  written quoted that is valid UTF-8.
\<close>

theorem envspec_roundtrip:
  assumes "valid_spec s"
  shows "Parse (Spec_String s) = Inr s \<longleftrightarrow>
    (if sp_Op s = OpLiteral
     then (if isSafeBareLiteral (sp_Arg s) then trim_space (sp_Arg s) = sp_Arg s else utf8_valid (sp_Arg s))
     else True)"
  using roundtrip_iff [OF assms] assms by (simp add: spec_kept_def literal_kept_def)

theorem envspec_roundtrip_witness:
  "Parse (Spec_String (mkRef ''A'' ''B'' OpDefaultEmpty ''x = ${y} '')) = Inr (mkRef ''A'' ''B'' OpDefaultEmpty ''x = ${y} '') \<and>
   Parse (Spec_String (mkLiteral ''A'' [CHR 11])) \<noteq> Inr (mkLiteral ''A'' [CHR 11])"
proof
  have "valid_spec (mkRef ''A'' ''B'' OpDefaultEmpty ''x = ${y} '')" by code_simp
  from envspec_roundtrip [OF this]
  show "Parse (Spec_String (mkRef ''A'' ''B'' OpDefaultEmpty ''x = ${y} '')) =
      Inr (mkRef ''A'' ''B'' OpDefaultEmpty ''x = ${y} '')" by (simp add: mkRef_def)
  have "valid_spec (mkLiteral ''A'' [CHR 11])" "isSafeBareLiteral [CHR 11]" "trim_space [CHR 11] = []"
    by code_simp+
  with envspec_roundtrip [OF this(1)]
  show "Parse (Spec_String (mkLiteral ''A'' [CHR 11])) \<noteq> Inr (mkLiteral ''A'' [CHR 11])"
    by (simp add: mkLiteral_def)
qed

text \<open>
  A literal can turn into a reference to a host variable on its way through the canonical form: a
  vertical tab before \<open>${HOST}\<close> makes the literal safe to write bare, and the reader trims it.
\<close>

theorem literal_becomes_reference:
  assumes "valid_name n" and "valid_name h"
  shows "Parse (Spec_String (mkLiteral n ([CHR 11] @ ''${'' @ h @ ''}''))) = Inr (mkRef n h OpPassthrough [])"
proof -
  let ?v = "[CHR 11] @ ''${'' @ h @ ''}''"
  have special: "\<not> name_char c" if "c \<in> {CHR 32, CHR 9, CHR 10, CHR 13, CHR ''('', CHR '')'', CHR ''#'', CHR 34, CHR ''=''}" for c
    using that by (auto simp: name_char_def name_letter_def is_lower_def is_upper_def is_digit_def less_eq_char_def)
  have "list_all (\<lambda>c. c \<notin> {CHR 32, CHR 9, CHR 10, CHR 13, CHR ''('', CHR '')'', CHR ''#'', CHR 34, CHR ''=''}) h"
    using assms(2) special unfolding valid_name_def list_all_iff by blast
  then have "isSafeBareLiteral ?v" by (simp add: isSafeBareLiteral_def has_prefix_def)
  moreover have "trim_space ?v = trim_space (''${'' @ h @ ''}'')"
  proof -
    have "find (\<lambda>e. e \<noteq> [] \<and> has_prefix ?v e) space_encodings = Some [CHR 11]"
      by (simp add: space_encodings_def has_prefix_def)
    then have "trim_left_space ?v = trim_left_space (''${'' @ h @ ''}'')"
      unfolding trim_left_space_def by (subst trim_left_with.simps) simp
    then show ?thesis by (simp add: trim_space_def)
  qed
  ultimately show ?thesis
    using Parse_assign [OF assms(1), of ?v] Parse_ref(1) [OF assms] Parse_assign [OF assms(1), of "''${'' @ h @ ''}''"]
    by (simp add: Spec_String_def mkLiteral_def quoteLiteral_def)
qed

theorem literal_becomes_reference_witness:
  "Parse (Spec_String (mkLiteral ''A'' ([CHR 11] @ ''${'' @ ''SECRET'' @ ''}''))) =
     Inr (mkRef ''A'' ''SECRET'' OpPassthrough [])"
  by (rule literal_becomes_reference) code_simp+

text \<open>
  Whatever \<open>Parse\<close> accepts is well formed: a valid guest name, a valid host name exactly for the
  references, and no argument on a passthrough.
\<close>

theorem Parse_wellformed:
  assumes "Parse entry = Inr s"
  shows "valid_name (sp_Name s) \<and> (sp_Host s = [] \<longleftrightarrow> sp_Op s = OpLiteral) \<and>
    (if sp_Op s = OpLiteral then True else valid_name (sp_Host s)) \<and>
    (if sp_Op s = OpPassthrough then sp_Arg s = [] else True)"
  using Parse_valid [OF assms] by (auto simp: valid_spec_def)

theorem Parse_wellformed_witness:
  "valid_name (sp_Name (projr (Parse '' A = ${B:-1}'')))"
proof -
  have "Parse '' A = ${B:-1}'' = Inr (projr (Parse '' A = ${B:-1}''))" by code_simp
  from Parse_wellformed [OF this] show ?thesis by blast
qed

text \<open>
  Evaluation fails exactly for a required variable that is unset, or unset or empty under the
  colon form, warns exactly for an unset passthrough, and otherwise yields the host value or the
  argument by the shell's rules.
\<close>

theorem Resolve_env_table:
  "((\<exists>e. Resolve_env lookup s = Inl e) \<longleftrightarrow>
      sp_Op s = OpRequiredUnset \<and> lookup (sp_Host s) = None \<or>
      sp_Op s = OpRequiredEmpty \<and> lookup (sp_Host s) \<in> {None, Some []}) \<and>
   ((\<exists>v. Resolve_env lookup s = Inr (v, True)) \<longleftrightarrow> sp_Op s = OpPassthrough \<and> lookup (sp_Host s) = None) \<and>
   (Resolve_env lookup s = Inr (v, False) \<longleftrightarrow>
      sp_Op s = OpLiteral \<and> v = sp_Arg s \<or>
      sp_Op s \<in> {OpPassthrough, OpDefaultUnset, OpRequiredUnset} \<and> lookup (sp_Host s) = Some v \<or>
      sp_Op s \<in> {OpDefaultEmpty, OpRequiredEmpty} \<and> lookup (sp_Host s) = Some v \<and> v \<noteq> [] \<or>
      sp_Op s = OpDefaultUnset \<and> lookup (sp_Host s) = None \<and> v = sp_Arg s \<or>
      sp_Op s = OpDefaultEmpty \<and> lookup (sp_Host s) \<in> {None, Some []} \<and> v = sp_Arg s)"
  by (cases "sp_Op s"; cases "lookup (sp_Host s)") (auto simp: Resolve_env_def)

end
