(* ===== verification/Frames.thy ===== *)
theory Frames
  imports Prelude
begin

text \<open>
  The byte-level protocols between host and guest. \<open>src/internal/vsockproto/protocol.go\<close>: the frames of
  the terminal connection; \<open>src/internal/serialfwd/serialfwd.go\<close>: the frames, the control lines, the
  line modes and the device names of serial forwarding; \<open>src/internal/revfwd/revfwd.go\<close>: the control
  lines of reverse port forwarding.

  A reader is the bytes that will still arrive and how the stream ends after them (closed, or an I/O
  error); a writer is the bytes it has put on the wire and how many more it will take before it
  fails. The JSON encoder and decoder are parameters of the operations that call them.
\<close>

unbundle bit_operations_syntax

section \<open>Streams\<close>

type_synonym byte = "8 word"

datatype stream_end = Closed | Broken

record stream =
  st_bytes :: "byte list"
  st_end :: stream_end

datatype io_error = EOF | UnexpectedEOF | ReadError | WriteError

text \<open>\<open>io.ReadFull\<close> of \<open>n\<close> bytes: end of file only when not a single byte was read.\<close>

definition ReadFull :: "nat \<Rightarrow> stream \<Rightarrow> io_error + byte list \<times> stream" where
  "ReadFull n s =
     (if n \<le> length (st_bytes s)
      then Inr (take n (st_bytes s), s\<lparr>st_bytes := drop n (st_bytes s)\<rparr>)
      else case st_end s of
        Broken \<Rightarrow> Inl ReadError
      | Closed \<Rightarrow> Inl (if st_bytes s = [] then EOF else UnexpectedEOF))"

record writer =
  wr_out :: "byte list"
  wr_room :: "nat option"

text \<open>A write that does not fit puts a part of its bytes on the wire and fails.\<close>

definition Write :: "byte list \<Rightarrow> writer \<Rightarrow> writer \<times> io_error option" where
  "Write bs w =
     (case wr_room w of
        None \<Rightarrow> (w\<lparr>wr_out := wr_out w @ bs\<rparr>, None)
      | Some k \<Rightarrow>
          if length bs \<le> k then (w\<lparr>wr_out := wr_out w @ bs, wr_room := Some (k - length bs)\<rparr>, None)
          else (w\<lparr>wr_out := wr_out w @ take k bs, wr_room := Some 0\<rparr>, Some WriteError))"

section \<open>Big-endian integers\<close>

definition put32 :: "32 word \<Rightarrow> byte list" where
  "put32 w = [ucast (drop_bit 24 w), ucast (drop_bit 16 w), ucast (drop_bit 8 w), ucast w]"

definition get32 :: "byte list \<Rightarrow> 32 word" where
  "get32 bs = push_bit 24 (ucast (bs ! 0)) OR push_bit 16 (ucast (bs ! 1)) OR
     push_bit 8 (ucast (bs ! 2)) OR ucast (bs ! 3)"

definition put16 :: "16 word \<Rightarrow> byte list" where
  "put16 w = [ucast (drop_bit 8 w), ucast w]"

definition get16 :: "byte list \<Rightarrow> 16 word" where
  "get16 bs = push_bit 8 (ucast (bs ! 0)) OR ucast (bs ! 1)"

section \<open>Frames\<close>

text \<open>Both protocols have a type byte, a four-byte length and the payload.\<close>

type_synonym frame = "byte \<times> byte list"

definition frame_header :: "byte \<Rightarrow> byte list \<Rightarrow> byte list" where
  "frame_header t payload = t # put32 (of_nat (length payload))"

definition frame_bytes :: "frame \<Rightarrow> byte list" where
  "frame_bytes f = frame_header (fst f) (snd f) @ snd f"

datatype frame_error = IO io_error | TooLarge "32 word option"

definition write_framed :: "byte \<Rightarrow> byte list \<Rightarrow> writer \<Rightarrow> writer \<times> frame_error option" where
  "write_framed t payload w =
     (case Write (frame_header t payload) w of
        (w', Some e) \<Rightarrow> (w', Some (IO e))
      | (w', None) \<Rightarrow>
          if payload = [] then (w', None)
          else case Write payload w' of (w'', oe) \<Rightarrow> (w'', map_option IO oe))"

subsection \<open>The terminal protocol\<close>

definition MaxPayloadBytes :: int where
  "MaxPayloadBytes = 64 * 1024"

definition frameHeaderSize :: nat where
  "frameHeaderSize = 5"

definition vs_WriteFrame :: "byte \<Rightarrow> byte list \<Rightarrow> writer \<Rightarrow> writer \<times> frame_error option" where
  "vs_WriteFrame t payload w =
     (if MaxPayloadBytes < int (length payload) then (w, Some (TooLarge None)) else write_framed t payload w)"

definition vs_payload :: "byte list \<Rightarrow> stream \<Rightarrow> frame_error + frame \<times> stream" where
  "vs_payload hdr s =
     (if MaxPayloadBytes < uint (get32 (tl hdr)) then Inl (TooLarge (Some (get32 (tl hdr))))
      else if get32 (tl hdr) = 0 then Inr ((hd hdr, []), s)
      else case ReadFull (unat (get32 (tl hdr))) s of
        Inl e \<Rightarrow> Inl (IO e)
      | Inr (payload, s') \<Rightarrow> Inr ((hd hdr, payload), s'))"

definition vs_ReadFrame :: "stream \<Rightarrow> frame_error + frame \<times> stream" where
  "vs_ReadFrame s =
     (case ReadFull frameHeaderSize s of
        Inl e \<Rightarrow> Inl (IO e)
      | Inr (hdr, s') \<Rightarrow> vs_payload hdr s')"

definition EncodeWinsize :: "16 word \<Rightarrow> 16 word \<Rightarrow> byte list" where
  "EncodeWinsize rows cols = put16 rows @ put16 cols"

text \<open>None is the error of a short payload.\<close>

definition DecodeWinsize :: "byte list \<Rightarrow> (16 word \<times> 16 word) option" where
  "DecodeWinsize b = (if length b < 4 then None else Some (get16 (take 2 b), get16 (drop 2 b)))"

text \<open>An \<open>int32\<close> exit code is its 32-bit word (read by \<open>sint\<close>).\<close>

definition EncodeExit :: "32 word \<Rightarrow> byte list" where
  "EncodeExit code = put32 code"

definition DecodeExit :: "byte list \<Rightarrow> 32 word option" where
  "DecodeExit b = (if length b < 4 then None else Some (get32 (take 4 b)))"

subsection \<open>The serial protocol\<close>

definition MaxFrameBytes :: int where
  "MaxFrameBytes = 256 * 1024"

definition FrameHeaderBytes :: nat where
  "FrameHeaderBytes = 5"

definition sf_WriteFrame :: "byte \<Rightarrow> byte list \<Rightarrow> writer \<Rightarrow> writer \<times> frame_error option" where
  "sf_WriteFrame t payload w =
     (if MaxFrameBytes < int (length payload) then (w, Some (TooLarge None)) else write_framed t payload w)"

definition sf_payload :: "byte list \<Rightarrow> stream \<Rightarrow> frame_error + frame \<times> stream" where
  "sf_payload hdr s =
     (if MaxFrameBytes < uint (get32 (tl hdr)) then Inl (TooLarge None)
      else if get32 (tl hdr) = 0 then Inr ((hd hdr, []), s)
      else case ReadFull (unat (get32 (tl hdr))) s of
        Inl EOF \<Rightarrow> Inl (IO UnexpectedEOF)
      | Inl e \<Rightarrow> Inl (IO e)
      | Inr (payload, s') \<Rightarrow> Inr ((hd hdr, payload), s'))"

definition sf_ReadFrame :: "stream \<Rightarrow> frame_error + frame \<times> stream" where
  "sf_ReadFrame s =
     (case ReadFull FrameHeaderBytes s of
        Inl e \<Rightarrow> Inl (IO e)
      | Inr (hdr, s') \<Rightarrow> sf_payload hdr s')"

text \<open>The mode frame carries the JSON text of a mode, \<open>marshal\<close> (None for an encoding error).\<close>

definition FrameMode :: byte where
  "FrameMode = 2"

datatype mode_frame_error = EncodeFailed | FrameFailed frame_error

record Mode =
  md_Baud :: int
  md_Bits :: int
  md_Parity :: gostring
  md_Stop :: int

definition WriteModeFrame ::
  "(Mode \<Rightarrow> byte list option) \<Rightarrow> Mode \<Rightarrow> writer \<Rightarrow> writer \<times> mode_frame_error option" where
  "WriteModeFrame marshal m w =
     (case marshal m of
        None \<Rightarrow> (w, Some EncodeFailed)
      | Some b \<Rightarrow> (case sf_WriteFrame FrameMode b w of (w', oe) \<Rightarrow> (w', map_option FrameFailed oe)))"

definition DefaultMode :: Mode where
  "DefaultMode = \<lparr>md_Baud = 9600, md_Bits = 8, md_Parity = ''n'', md_Stop = 1\<rparr>"

definition dec_int :: "int \<Rightarrow> gostring" where
  "dec_int i = (if i < 0 then CHR ''-'' # dec_digits (nat (- i)) else dec_digits (nat i))"

definition Mode_String :: "Mode \<Rightarrow> gostring" where
  "Mode_String m =
     dec_int (md_Baud m) @ ''-'' @ dec_int (md_Bits m) @
     map (\<lambda>c. if is_lower c
              then (case c of Char b0 b1 b2 b3 b4 b5 b6 b7 \<Rightarrow> Char b0 b1 b2 b3 b4 False b6 b7) else c)
       (md_Parity m) @ dec_int (md_Stop m)"

datatype mode_error = BadBaud int | BadBits int | BadParity gostring | BadStop int

definition Mode_Validate :: "Mode \<Rightarrow> mode_error option" where
  "Mode_Validate m =
     (if md_Baud m \<le> 0 then Some (BadBaud (md_Baud m))
      else if md_Bits m < 5 \<or> 8 < md_Bits m then Some (BadBits (md_Bits m))
      else if md_Parity m \<noteq> ''n'' \<and> md_Parity m \<noteq> ''e'' \<and> md_Parity m \<noteq> ''o'' then Some (BadParity (md_Parity m))
      else if md_Stop m \<noteq> 1 \<and> md_Stop m \<noteq> 2 then Some (BadStop (md_Stop m))
      else None)"

text \<open>
  Device names. The loop over runes accepts ASCII only, so it is a loop over bytes; its error names
  the first character it refuses.
\<close>

datatype name_error = NameEmpty | NameTooLong gostring | NameSeparator gostring | NameDot gostring | NameChar gostring

definition device_char :: "char \<Rightarrow> bool" where
  "device_char c \<longleftrightarrow>
     is_lower c \<or> is_upper c \<or> is_digit c \<or>
     c = CHR ''.'' \<or> c = CHR ''-'' \<or> c = CHR ''_''"

definition ValidDeviceName :: "gostring \<Rightarrow> name_error option" where
  "ValidDeviceName name =
     (if name = [] then Some NameEmpty
      else if 64 < length name then Some (NameTooLong name)
      else if CHR ''/'' \<in> set name \<or> CHR 92 \<in> set name then Some (NameSeparator name)
      else if has_prefix name ''.'' then Some (NameDot name)
      else if list_all device_char name then None
      else Some (NameChar name))"

section \<open>Control lines\<close>

text \<open>
  One JSON value per line, in both packages. \<open>ReadSlice\<close> of a reader whose buffer has \<open>MaxLineBytes\<close>
  bytes: the line with its newline when that comes within the buffer, \<open>ErrLineTooLong\<close> when the buffer
  fills up without one, otherwise how the stream ends.
\<close>

definition MaxLineBytes :: int where
  "MaxLineBytes = 64 * 1024"

datatype line_error = LineIO io_error | LineTooLong | EncodeError | DecodeError

definition newline :: byte where
  "newline = 10"

definition WriteLine ::
  "('v \<Rightarrow> byte list option) \<Rightarrow> 'v \<Rightarrow> writer \<Rightarrow> writer \<times> line_error option" where
  "WriteLine marshal v w =
     (case marshal v of
        None \<Rightarrow> (w, Some EncodeError)
      | Some b \<Rightarrow>
          if MaxLineBytes < int (length b) + 1 then (w, Some LineTooLong)
          else case Write (b @ [newline]) w of (w', oe) \<Rightarrow> (w', map_option LineIO oe))"

fun break_at :: "'a \<Rightarrow> 'a list \<Rightarrow> ('a list \<times> 'a list) option" where
  "break_at x [] = None"
| "break_at x (y # ys) =
     (if y = x then Some ([y], ys)
      else case break_at x ys of None \<Rightarrow> None | Some (l, r) \<Rightarrow> Some (y # l, r))"

definition ReadSlice :: "stream \<Rightarrow> line_error + byte list \<times> stream" where
  "ReadSlice s =
     (case break_at newline (st_bytes s) of
        Some (line, rest) \<Rightarrow>
          if int (length line) \<le> MaxLineBytes then Inr (line, s\<lparr>st_bytes := rest\<rparr>) else Inl LineTooLong
      | None \<Rightarrow>
          if MaxLineBytes \<le> int (length (st_bytes s)) then Inl LineTooLong
          else Inl (LineIO (case st_end s of Closed \<Rightarrow> EOF | Broken \<Rightarrow> ReadError)))"

definition ReadLine :: "(byte list \<Rightarrow> 'v option) \<Rightarrow> stream \<Rightarrow> line_error + 'v \<times> stream" where
  "ReadLine unmarshal s =
     (case ReadSlice s of
        Inl e \<Rightarrow> Inl e
      | Inr (line, s') \<Rightarrow> (case unmarshal line of None \<Rightarrow> Inl DecodeError | Some v \<Rightarrow> Inr (v, s')))"

section \<open>Whole connections\<close>

text \<open>
  What the two ends do with frames: the sender writes one after the other and stops at the first
  error, the receiver reads until it gets an error. \<open>fuel\<close> bounds the number of frames read; a bound
  above the number of frames sent is never reached.
\<close>

fun write_frames :: "('f \<Rightarrow> writer \<Rightarrow> writer \<times> 'e option) \<Rightarrow> 'f list \<Rightarrow> writer \<Rightarrow> writer \<times> 'e option" where
  "write_frames wr [] w = (w, None)"
| "write_frames wr (f # fs) w =
     (case wr f w of (w', Some e) \<Rightarrow> (w', Some e) | (w', None) \<Rightarrow> write_frames wr fs w')"

fun read_frames :: "nat \<Rightarrow> (stream \<Rightarrow> 'e + 'f \<times> stream) \<Rightarrow> stream \<Rightarrow> 'f list \<times> 'e option" where
  "read_frames 0 rd s = ([], None)"
| "read_frames (Suc fuel) rd s =
     (case rd s of
        Inl e \<Rightarrow> ([], Some e)
      | Inr (f, s') \<Rightarrow> (case read_frames fuel rd s' of (fs, oe) \<Rightarrow> (f # fs, oe)))"

text \<open>
  The contract of a framing: a written frame reads back whatever follows it, a failed write leaves a
  proper part of the frame on the wire, and a proper part of a frame never reads as one.
\<close>

locale framing =
  fixes enc :: "'f \<Rightarrow> byte list"
    and wr :: "'f \<Rightarrow> writer \<Rightarrow> writer \<times> 'w option"
    and rd :: "stream \<Rightarrow> 'e + 'f \<times> stream"
    and ok :: "'f \<Rightarrow> bool" and eof :: 'e
  assumes rd_enc: "ok f \<Longrightarrow> rd \<lparr>st_bytes = enc f @ rest, st_end = c\<rparr> = Inr (f, \<lparr>st_bytes = rest, st_end = c\<rparr>)"
    and rd_end: "rd \<lparr>st_bytes = [], st_end = Closed\<rparr> = Inl eof"
    and rd_part: "ok f \<Longrightarrow> k < length (enc f) \<Longrightarrow> \<exists>e. rd \<lparr>st_bytes = take k (enc f), st_end = c\<rparr> = Inl e"
    and wr_done: "ok f \<Longrightarrow> wr f w = (w', None) \<Longrightarrow> wr_out w' = wr_out w @ enc f"
    and wr_fail: "ok f \<Longrightarrow> wr f w = (w', Some e) \<Longrightarrow> \<exists>k < length (enc f). wr_out w' = wr_out w @ take k (enc f)"
begin

lemma read_session:
  "list_all ok fs \<Longrightarrow> length fs < fuel \<Longrightarrow>
     read_frames fuel rd \<lparr>st_bytes = concat (map enc fs), st_end = Closed\<rparr> = (fs, Some eof)"
proof (induction fs arbitrary: fuel)
  case Nil
  then show ?case by (cases fuel) (simp_all add: rd_end)
next
  case (Cons f fs)
  then show ?case by (cases fuel) (simp_all add: rd_enc)
qed

lemma read_cut:
  assumes "list_all ok fs" and "ok f" and "length fs < fuel" and "k < length (enc f)"
  shows "\<exists>e. read_frames fuel rd \<lparr>st_bytes = concat (map enc fs) @ take k (enc f), st_end = c\<rparr> = (fs, Some e)"
  using assms
proof (induction fs arbitrary: fuel)
  case Nil
  with rd_part [of f k c] show ?case by (cases fuel) auto
next
  case (Cons g fs)
  then obtain n where n: "fuel = Suc n" "length fs < n" by (cases fuel) auto
  with Cons obtain e where
    "read_frames n rd \<lparr>st_bytes = concat (map enc fs) @ take k (enc f), st_end = c\<rparr> = (fs, Some e)"
    by fastforce
  with n Cons.prems show ?case by (simp add: rd_enc)
qed

lemma write_session:
  assumes "list_all ok fs" and "write_frames wr fs w = (w', oe)"
  shows "(oe = None \<and> wr_out w' = wr_out w @ concat (map enc fs)) \<or>
    (oe \<noteq> None \<and> (\<exists>n k. n < length fs \<and> k < length (enc (fs ! n)) \<and>
       wr_out w' = wr_out w @ concat (map enc (take n fs)) @ take k (enc (fs ! n))))"
  using assms
proof (induction fs arbitrary: w)
  case (Cons f fs)
  obtain w1 o1 where f: "wr f w = (w1, o1)" by fastforce
  show ?case
  proof (cases o1)
    case None
    with Cons.prems f have rest: "write_frames wr fs w1 = (w', oe)" and ok: "list_all ok fs" by auto
    have w1: "wr_out w1 = wr_out w @ enc f" using Cons.prems f None wr_done [of f w w1] by simp
    from Cons.IH [OF ok rest] have "(oe = None \<and> wr_out w' = wr_out w1 @ concat (map enc fs)) \<or>
      (oe \<noteq> None \<and> (\<exists>n k. n < length fs \<and> k < length (enc (fs ! n)) \<and>
         wr_out w' = wr_out w1 @ concat (map enc (take n fs)) @ take k (enc (fs ! n))))" .
    then show ?thesis
    proof (elim disjE conjE exE)
      fix n k
      assume "oe \<noteq> None" "n < length fs" "k < length (enc (fs ! n))"
        "wr_out w' = wr_out w1 @ concat (map enc (take n fs)) @ take k (enc (fs ! n))"
      then have "oe \<noteq> None \<and> Suc n < length (f # fs) \<and> k < length (enc ((f # fs) ! Suc n)) \<and>
          wr_out w' = wr_out w @ concat (map enc (take (Suc n) (f # fs))) @ take k (enc ((f # fs) ! Suc n))"
        by (simp add: w1)
      then show ?thesis by blast
    qed (simp add: w1)
  next
    case (Some e)
    with Cons.prems f wr_fail [of f w w1 e] obtain k where "oe \<noteq> None" "k < length (enc f)"
      "wr_out w' = wr_out w @ take k (enc f)" by auto
    then have "oe \<noteq> None \<and> 0 < length (f # fs) \<and> k < length (enc ((f # fs) ! 0)) \<and>
        wr_out w' = wr_out w @ concat (map enc (take 0 (f # fs))) @ take k (enc ((f # fs) ! 0))"
      by simp
    then show ?thesis by blast
  qed
qed simp

text \<open>The receiver gets exactly the frames that were sent in full, and then an error.\<close>

lemma end_to_end:
  assumes "list_all ok fs" and "length fs < fuel"
    and "write_frames wr fs \<lparr>wr_out = [], wr_room = room\<rparr> = (w', oe)"
  shows "\<exists>n e. read_frames fuel rd \<lparr>st_bytes = wr_out w', st_end = Closed\<rparr> = (take n fs, Some e) \<and>
    (oe = None \<longleftrightarrow> n = length fs) \<and> n \<le> length fs \<and> (oe = None \<longrightarrow> e = eof)"
proof (cases oe)
  case None
  with write_session [OF assms(1,3)] have "wr_out w' = concat (map enc fs)" by simp
  with None read_session [OF assms(1,2)] show ?thesis
    by (intro exI [of _ "length fs"] exI [of _ eof]) simp
next
  case (Some e)
  with write_session [OF assms(1,3)] obtain n k where n: "n < length fs" "k < length (enc (fs ! n))"
    and out: "wr_out w' = concat (map enc (take n fs)) @ take k (enc (fs ! n))" by auto
  have "list_all ok (take n fs)" "ok (fs ! n)"
    using assms(1) n(1) by (auto simp: list_all_iff dest: in_set_takeD)
  moreover have "length (take n fs) < fuel" using assms(2) n(1) by simp
  ultimately obtain e' where
    "read_frames fuel rd \<lparr>st_bytes = wr_out w', st_end = Closed\<rparr> = (take n fs, Some e')"
    using read_cut [of "take n fs" "fs ! n" fuel k Closed] n(2) out by auto
  with Some n(1) show ?thesis by auto
qed

end

section \<open>Lemmas\<close>

lemma get32_put32: "get32 (put32 w) = w"
proof (rule bit_word_eqI)
  fix n :: nat
  assume n: "n < LENGTH(32)"
  consider "n < 8" | "8 \<le> n" "n < 16" | "16 \<le> n" "n < 24" | "24 \<le> n" by linarith
  then show "bit (get32 (put32 w)) n = bit w n"
    using n by cases (auto simp: get32_def put32_def bit_simps)
qed

lemma get16_put16: "get16 (put16 w @ r) = w"
  by (rule bit_word_eqI) (auto simp: get16_def put16_def bit_simps)

lemma length_put32 [simp]: "length (put32 w) = 4"
  by (simp add: put32_def)

lemma length_header [simp]: "length (frame_header t p) = 5"
  by (simp add: frame_header_def)

lemma hd_header [simp]: "hd (frame_header t p) = t"
  by (simp add: frame_header_def)

lemma frame_bytes_simps: "frame_bytes (t, p) = frame_header t p @ p"
  by (simp add: frame_bytes_def)

lemma header_length:
  assumes "length p < 2 ^ 32"
  shows "unat (get32 (tl (frame_header t p))) = length p"
    "uint (get32 (tl (frame_header t p))) = int (length p)"
    "get32 (tl (frame_header t p)) = 0 \<longleftrightarrow> p = []"
proof -
  have n: "unat (of_nat (length p) :: 32 word) = length p"
    using assms by (simp add: unat_of_nat)
  then show "unat (get32 (tl (frame_header t p))) = length p" by (simp add: frame_header_def get32_put32)
  then show "uint (get32 (tl (frame_header t p))) = int (length p)" by (metis uint_nat)
  show "get32 (tl (frame_header t p)) = 0 \<longleftrightarrow> p = []"
    by (simp add: frame_header_def get32_put32 word_unat_eq_iff n)
qed

lemma ReadFull_append:
  "length a = n \<Longrightarrow> ReadFull n \<lparr>st_bytes = a @ b, st_end = c\<rparr> = Inr (a, \<lparr>st_bytes = b, st_end = c\<rparr>)"
  by (simp add: ReadFull_def)

lemma ReadFull_short: "length (st_bytes s) < n \<Longrightarrow> \<exists>e. ReadFull n s = Inl e"
  by (simp add: ReadFull_def split: stream_end.split)

lemma Write_spec:
  "Write bs w = (w', None) \<Longrightarrow> wr_out w' = wr_out w @ bs"
  "Write bs w = (w', Some e) \<Longrightarrow> \<exists>k < length bs. wr_out w' = wr_out w @ take k bs"
  by (auto simp: Write_def not_le intro: exI split: option.splits if_splits)

lemma write_framed_done: "write_framed t p w = (w', None) \<Longrightarrow> wr_out w' = wr_out w @ frame_bytes (t, p)"
  by (auto simp: write_framed_def frame_bytes_simps dest!: Write_spec(1) split: prod.splits option.splits if_splits)

lemma write_framed_fail:
  assumes "write_framed t p w = (w', Some e)"
  shows "\<exists>k < length (frame_bytes (t, p)). wr_out w' = wr_out w @ take k (frame_bytes (t, p))"
proof -
  obtain w1 o1 where h: "Write (frame_header t p) w = (w1, o1)" by fastforce
  show ?thesis
  proof (cases o1)
    case None
    with h have w1: "wr_out w1 = wr_out w @ frame_header t p" by (simp add: Write_spec)
    from assms h None obtain e' where "Write p w1 = (w', Some e')"
      by (auto simp: write_framed_def split: prod.splits if_splits)
    then obtain k where "k < length p" "wr_out w' = wr_out w1 @ take k p" using Write_spec(2) by blast
    with w1 have "length (frame_header t p) + k < length (frame_bytes (t, p))"
      "wr_out w' = wr_out w @ take (length (frame_header t p) + k) (frame_bytes (t, p))"
      by (simp_all add: frame_bytes_simps)
    then show ?thesis by blast
  next
    case (Some e')
    with assms h have "w' = w1" by (simp add: write_framed_def)
    with h Some obtain k where "k < length (frame_header t p)" "wr_out w' = wr_out w @ take k (frame_header t p)"
      using Write_spec(2) by blast
    then have "k < length (frame_bytes (t, p))" "wr_out w' = wr_out w @ take k (frame_bytes (t, p))"
      by (simp_all add: frame_bytes_simps)
    then show ?thesis by blast
  qed
qed

definition vs_ok :: "frame \<Rightarrow> bool" where
  "vs_ok f \<longleftrightarrow> int (length (snd f)) \<le> MaxPayloadBytes"

definition sf_ok :: "frame \<Rightarrow> bool" where
  "sf_ok f \<longleftrightarrow> int (length (snd f)) \<le> MaxFrameBytes"

lemma ok_length:
  "vs_ok (t, p) \<Longrightarrow> length p < 2 ^ 32" "sf_ok (t, p) \<Longrightarrow> length p < 2 ^ 32"
  by (simp_all add: vs_ok_def sf_ok_def MaxPayloadBytes_def MaxFrameBytes_def)

lemma vs_payload_header:
  assumes "vs_ok (t, p)"
  shows "vs_payload (frame_header t p) s =
    (if p = [] then Inr ((t, []), s)
     else case ReadFull (length p) s of Inl e \<Rightarrow> Inl (IO e) | Inr (q, s') \<Rightarrow> Inr ((t, q), s'))"
  using assms header_length [of p t, OF ok_length(1) [OF assms]]
  by (cases "ReadFull (length p) s") (auto simp: vs_payload_def vs_ok_def)

lemma sf_payload_header:
  assumes "sf_ok (t, p)"
  shows "sf_payload (frame_header t p) s =
    (if p = [] then Inr ((t, []), s)
     else case ReadFull (length p) s of
       Inl EOF \<Rightarrow> Inl (IO UnexpectedEOF) | Inl e \<Rightarrow> Inl (IO e) | Inr (q, s') \<Rightarrow> Inr ((t, q), s'))"
  using assms header_length [of p t, OF ok_length(2) [OF assms]]
  by (cases "ReadFull (length p) s") (auto simp: sf_payload_def sf_ok_def split: io_error.split)

text \<open>A cut inside a frame leaves a short header or a full header and a short payload.\<close>

lemma take_frame_cases:
  assumes "k < length (frame_bytes (t, p))"
  shows "(k < 5 \<and> length (take k (frame_bytes (t, p))) < 5) \<or>
    (\<exists>q. take k (frame_bytes (t, p)) = frame_header t p @ q \<and> length q < length p)"
proof (cases "k < 5")
  case False
  with assms have "take k (frame_bytes (t, p)) = frame_header t p @ take (k - 5) p \<and> length (take (k - 5) p) < length p"
    by (auto simp: frame_bytes_simps)
  then show ?thesis by blast
qed auto

interpretation vs: framing frame_bytes "\<lambda>f. vs_WriteFrame (fst f) (snd f)" vs_ReadFrame vs_ok "IO EOF"
proof
  fix f :: frame and rest c
  obtain t p where f: "f = (t, p)" by fastforce
  assume ok: "vs_ok f"
  then show "vs_ReadFrame \<lparr>st_bytes = frame_bytes f @ rest, st_end = c\<rparr> = Inr (f, \<lparr>st_bytes = rest, st_end = c\<rparr>)"
    by (simp add: f vs_ReadFrame_def frame_bytes_simps frameHeaderSize_def ReadFull_append vs_payload_header)
  fix k assume "k < length (frame_bytes f)"
  from take_frame_cases [OF this [unfolded f]]
  show "\<exists>e. vs_ReadFrame \<lparr>st_bytes = take k (frame_bytes f), st_end = c\<rparr> = Inl e"
  proof (elim disjE conjE exE)
    assume "length (take k (frame_bytes (t, p))) < 5"
    then show ?thesis
      using ReadFull_short [of "\<lparr>st_bytes = take k (frame_bytes f), st_end = c\<rparr>" 5]
      by (auto simp: vs_ReadFrame_def frameHeaderSize_def f)
  next
    fix q assume q: "take k (frame_bytes (t, p)) = frame_header t p @ q" "length q < length p"
    with ReadFull_short [of "\<lparr>st_bytes = q, st_end = c\<rparr>" "length p"] ok show ?thesis
      by (auto simp: vs_ReadFrame_def frameHeaderSize_def f ReadFull_append vs_payload_header)
  qed
next
  fix f :: frame and w w' :: writer and e
  assume ok: "vs_ok f"
  show "vs_WriteFrame (fst f) (snd f) w = (w', None) \<Longrightarrow> wr_out w' = wr_out w @ frame_bytes f"
    using ok write_framed_done [of "fst f" "snd f"] by (simp add: vs_WriteFrame_def vs_ok_def)
  show "vs_WriteFrame (fst f) (snd f) w = (w', Some e) \<Longrightarrow>
      \<exists>k < length (frame_bytes f). wr_out w' = wr_out w @ take k (frame_bytes f)"
    using ok write_framed_fail [of "fst f" "snd f"] by (simp add: vs_WriteFrame_def vs_ok_def)
qed (simp add: vs_ReadFrame_def ReadFull_def frameHeaderSize_def)

interpretation sf: framing frame_bytes "\<lambda>f. sf_WriteFrame (fst f) (snd f)" sf_ReadFrame sf_ok "IO EOF"
proof
  fix f :: frame and rest c
  obtain t p where f: "f = (t, p)" by fastforce
  assume ok: "sf_ok f"
  then show "sf_ReadFrame \<lparr>st_bytes = frame_bytes f @ rest, st_end = c\<rparr> = Inr (f, \<lparr>st_bytes = rest, st_end = c\<rparr>)"
    by (simp add: f sf_ReadFrame_def frame_bytes_simps FrameHeaderBytes_def ReadFull_append sf_payload_header)
  fix k assume "k < length (frame_bytes f)"
  from take_frame_cases [OF this [unfolded f]]
  show "\<exists>e. sf_ReadFrame \<lparr>st_bytes = take k (frame_bytes f), st_end = c\<rparr> = Inl e"
  proof (elim disjE conjE exE)
    assume "length (take k (frame_bytes (t, p))) < 5"
    then show ?thesis
      using ReadFull_short [of "\<lparr>st_bytes = take k (frame_bytes f), st_end = c\<rparr>" 5]
      by (auto simp: sf_ReadFrame_def FrameHeaderBytes_def f)
  next
    fix q assume q: "take k (frame_bytes (t, p)) = frame_header t p @ q" "length q < length p"
    with ReadFull_short [of "\<lparr>st_bytes = q, st_end = c\<rparr>" "length p"] ok show ?thesis
      by (auto simp: sf_ReadFrame_def FrameHeaderBytes_def f ReadFull_append sf_payload_header split: io_error.split)
  qed
next
  fix f :: frame and w w' :: writer and e
  assume ok: "sf_ok f"
  show "sf_WriteFrame (fst f) (snd f) w = (w', None) \<Longrightarrow> wr_out w' = wr_out w @ frame_bytes f"
    using ok write_framed_done [of "fst f" "snd f"] by (simp add: sf_WriteFrame_def sf_ok_def)
  show "sf_WriteFrame (fst f) (snd f) w = (w', Some e) \<Longrightarrow>
      \<exists>k < length (frame_bytes f). wr_out w' = wr_out w @ take k (frame_bytes f)"
    using ok write_framed_fail [of "fst f" "snd f"] by (simp add: sf_WriteFrame_def sf_ok_def)
qed (simp add: sf_ReadFrame_def ReadFull_def FrameHeaderBytes_def)

section \<open>Properties\<close>

text \<open>
  The terminal protocol delivers what was sent. Whatever frames within the size limit are written,
  and wherever the transport breaks while writing them, the receiver of the bytes on the wire reads
  exactly the frames that were written in full, in order, then an error: the clean end of file when
  all of them were written.
\<close>

theorem vsock_end_to_end:
  assumes "list_all (\<lambda>f. int (length (snd f)) \<le> MaxPayloadBytes) fs" and "length fs < fuel"
    and "write_frames (\<lambda>f. vs_WriteFrame (fst f) (snd f)) fs \<lparr>wr_out = [], wr_room = room\<rparr> = (w, oe)"
  shows "\<exists>n e. read_frames fuel vs_ReadFrame \<lparr>st_bytes = wr_out w, st_end = Closed\<rparr> = (take n fs, Some e) \<and>
    (oe = None \<longleftrightarrow> n = length fs) \<and> n \<le> length fs \<and> (oe = None \<longrightarrow> e = IO EOF)"
  by (rule vs.end_to_end [OF _ assms(2,3)]) (use assms(1) in \<open>simp add: list_all_iff vs_ok_def\<close>)

theorem vsock_end_to_end_witness:
  "\<exists>n e. read_frames 5 vs_ReadFrame
     \<lparr>st_bytes = wr_out (fst (write_frames (\<lambda>f. vs_WriteFrame (fst f) (snd f)) [(2, [104, 105]), (4, [0, 0, 0, 7])]
        \<lparr>wr_out = [], wr_room = Some 12\<rparr>)), st_end = Closed\<rparr> = (take n [(2, [104, 105]), (4, [0, 0, 0, 7])], Some e)"
proof -
  have "list_all (\<lambda>f :: frame. int (length (snd f)) \<le> MaxPayloadBytes) [(2, [104, 105]), (4, [0, 0, 0, 7])]"
    by (simp add: MaxPayloadBytes_def)
  from vsock_end_to_end [OF this _ surjective_pairing, of 5 "Some 12"] show ?thesis by auto
qed

text \<open>
  The same for the serial protocol.
\<close>

theorem serial_end_to_end:
  assumes "list_all (\<lambda>f. int (length (snd f)) \<le> MaxFrameBytes) fs" and "length fs < fuel"
    and "write_frames (\<lambda>f. sf_WriteFrame (fst f) (snd f)) fs \<lparr>wr_out = [], wr_room = room\<rparr> = (w, oe)"
  shows "\<exists>n e. read_frames fuel sf_ReadFrame \<lparr>st_bytes = wr_out w, st_end = Closed\<rparr> = (take n fs, Some e) \<and>
    (oe = None \<longleftrightarrow> n = length fs) \<and> n \<le> length fs \<and> (oe = None \<longrightarrow> e = IO EOF)"
  by (rule sf.end_to_end [OF _ assms(2,3)]) (use assms(1) in \<open>simp add: list_all_iff sf_ok_def\<close>)

theorem serial_end_to_end_witness:
  "\<exists>n e. read_frames 5 sf_ReadFrame
     \<lparr>st_bytes = wr_out (fst (write_frames (\<lambda>f. sf_WriteFrame (fst f) (snd f)) [(1, [104, 105])]
        \<lparr>wr_out = [], wr_room = None\<rparr>)), st_end = Closed\<rparr> = (take n [(1, [104, 105])], Some e)"
proof -
  have "list_all (\<lambda>f :: frame. int (length (snd f)) \<le> MaxFrameBytes) [(1, [104, 105])]"
    by (simp add: MaxFrameBytes_def)
  from serial_end_to_end [OF this _ surjective_pairing, of 5 None] show ?thesis by auto
qed

text \<open>
  When a connection ends right after the header of a frame with a payload, the terminal protocol
  reports the clean end of file it also reports between frames, the serial protocol reports the
  unexpected one.
\<close>

theorem cut_after_header:
  assumes "p \<noteq> []" and "int (length p) \<le> MaxPayloadBytes"
  shows "vs_ReadFrame \<lparr>st_bytes = frame_header t p, st_end = Closed\<rparr> = Inl (IO EOF) \<and>
    sf_ReadFrame \<lparr>st_bytes = frame_header t p, st_end = Closed\<rparr> = Inl (IO UnexpectedEOF)"
proof -
  from assms(2) have ok: "vs_ok (t, p)" "sf_ok (t, p)"
    by (simp_all add: vs_ok_def sf_ok_def MaxPayloadBytes_def MaxFrameBytes_def)
  have "ReadFull 5 \<lparr>st_bytes = frame_header t p, st_end = Closed\<rparr> =
      Inr (frame_header t p, \<lparr>st_bytes = [], st_end = Closed\<rparr>)"
    using ReadFull_append [of "frame_header t p" 5 "[]" Closed] by simp
  with assms(1) ok show ?thesis
    by (simp add: vs_ReadFrame_def sf_ReadFrame_def frameHeaderSize_def FrameHeaderBytes_def vs_payload_header
        sf_payload_header ReadFull_def)
qed

theorem cut_after_header_witness:
  "vs_ReadFrame \<lparr>st_bytes = frame_header 2 [104, 105], st_end = Closed\<rparr> = Inl (IO EOF)"
  using cut_after_header [of "[104, 105]" 2] by (simp add: MaxPayloadBytes_def)

text \<open>
  Window sizes and exit codes survive their payload encoding, also with bytes after it, and a
  payload is refused exactly when it is shorter than four bytes.
\<close>

theorem payload_codecs:
  "DecodeWinsize (EncodeWinsize rows cols @ r) = Some (rows, cols) \<and>
   DecodeExit (EncodeExit code @ r) = Some code \<and>
   (DecodeWinsize b = None \<longleftrightarrow> length b < 4) \<and> (DecodeExit b = None \<longleftrightarrow> length b < 4)"
proof -
  have "take 2 (put16 rows @ put16 cols @ r) = put16 rows @ []"
    "drop 2 (put16 rows @ put16 cols @ r) = put16 cols @ r" "length (put16 rows @ put16 cols @ r) \<ge> 4"
    by (simp_all add: put16_def)
  then have "DecodeWinsize (EncodeWinsize rows cols @ r) = Some (rows, cols)"
    using get16_put16 [of rows "[]"] get16_put16 [of cols r] by (simp add: DecodeWinsize_def EncodeWinsize_def)
  then show ?thesis by (simp add: DecodeWinsize_def DecodeExit_def EncodeExit_def get32_put32)
qed

text \<open>
  An accepted device name stays inside \<open>/dev\<close>: it has 1 to 64 characters, no path separator, does
  not start with a dot (so it is neither \<open>.\<close> nor \<open>..\<close>), and every name of those characters is
  accepted.
\<close>

theorem ValidDeviceName_iff:
  "ValidDeviceName name = None \<longleftrightarrow>
     1 \<le> length name \<and> length name \<le> 64 \<and> list_all device_char name \<and>
     CHR ''/'' \<notin> set name \<and> CHR 92 \<notin> set name \<and> hd name \<noteq> CHR ''.''"
proof (cases name)
  case (Cons c cs)
  then show ?thesis by (auto simp: ValidDeviceName_def has_prefix_def)
qed (simp add: ValidDeviceName_def)

lemma break_at_line: "x \<notin> set b \<Longrightarrow> break_at x (b @ x # r) = Some (b @ [x], r)"
  by (induction b) auto

text \<open>
  A control line that was written reads back as the value, whatever follows it on the connection,
  given a JSON codec whose texts are a single line; a line is refused for its length on the writing
  side exactly when the reading side would refuse it.
\<close>

theorem control_line_roundtrip:
  assumes codec: "marshal v = Some b" "newline \<notin> set b" "unmarshal (b @ [newline]) = Some v"
    and "WriteLine marshal v \<lparr>wr_out = [], wr_room = None\<rparr> = (w, oe)"
  shows "(oe = None \<longleftrightarrow> int (length b) < MaxLineBytes) \<and>
    (oe = None \<longrightarrow> ReadLine unmarshal \<lparr>st_bytes = wr_out w @ rest, st_end = c\<rparr> =
       Inr (v, \<lparr>st_bytes = rest, st_end = c\<rparr>)) \<and>
    (oe \<noteq> None \<longrightarrow> ReadLine unmarshal \<lparr>st_bytes = b @ newline # rest, st_end = c\<rparr> = Inl LineTooLong)"
  using assms break_at_line [OF codec(2)]
  by (auto simp: WriteLine_def Write_def ReadLine_def ReadSlice_def split: if_splits)

theorem control_line_roundtrip_witness:
  "ReadLine (\<lambda>l. if l = [123, 125, newline] then Some () else None)
     \<lparr>st_bytes = wr_out (fst (WriteLine (\<lambda>_. Some [123, 125]) () \<lparr>wr_out = [], wr_room = None\<rparr>)) @ [7], st_end = Closed\<rparr> =
   Inr ((), \<lparr>st_bytes = [7], st_end = Closed\<rparr>)"
proof -
  let ?w = "WriteLine (\<lambda>_. Some [123, 125]) () \<lparr>wr_out = [], wr_room = None\<rparr>"
  have run: "?w = (fst ?w, None)" by code_simp
  have "newline \<notin> set [123, 125]" by (simp add: newline_def)
  then show ?thesis
    using control_line_roundtrip [OF refl _ _ run, where unmarshal = "\<lambda>l. if l = [123, 125, newline] then Some () else None"
      and rest = "[7]" and c = Closed] by simp
qed

end
