(* ===== verification/Memory.thy ===== *)
theory Memory
  imports Frames
begin

text \<open>
  Guest memory. \<open>src/machine/vz/memreport.go\<close>: the snapshot a guest sends over vsock and its wire form;
  \<open>src/machine/vz/balloon.go\<close>: the balloon policy, which merges guest demand with host pressure;
  \<open>src/machine/vz/pressure_darwin.go\<close>: the controller that applies it, fed by two channels of depth
  one.

  Sizes are \<open>uint64\<close> and kept as 64-bit words, so that every product and sum wraps as in the code.
  The controller is a state and one operation per event of its \<open>select\<close>; the device it drives is the
  last target it was given. The two producers, the channels and the passage of time are a step
  relation around it.
\<close>

unbundle bit_operations_syntax

section \<open>Reports\<close>



definition put64 :: "uint64 \<Rightarrow> byte list" where
  "put64 w = put32 (ucast (drop_bit 32 w)) @ put32 (ucast w)"

definition get64 :: "byte list \<Rightarrow> uint64" where
  "get64 bs = push_bit 32 (ucast (get32 (take 4 bs))) OR ucast (get32 (take 4 (drop 4 bs)))"

definition slice :: "nat \<Rightarrow> nat \<Rightarrow> 'a list \<Rightarrow> 'a list" where
  "slice i j xs = take (j - i) (drop i xs)"

definition memReportLegacySize :: nat where "memReportLegacySize = 24"
definition memReportActivitySize :: nat where "memReportActivitySize = 40"
definition memReportSize :: nat where "memReportSize = 56"

record memReport =
  mr_TotalKiB :: uint64
  mr_AvailableKiB :: uint64
  mr_PSIMemSomeCenti :: uint64
  mr_Load1Centi :: uint64
  mr_NetIOBytes :: uint64
  mr_SwapTotalKiB :: uint64
  mr_SwapFreeKiB :: uint64
  mr_HasActivity :: bool

definition no_report :: memReport where
  "no_report = \<lparr>mr_TotalKiB = 0, mr_AvailableKiB = 0, mr_PSIMemSomeCenti = 0, mr_Load1Centi = 0,
     mr_NetIOBytes = 0, mr_SwapTotalKiB = 0, mr_SwapFreeKiB = 0, mr_HasActivity = False\<rparr>"

definition SwapUsedKiB :: "memReport \<Rightarrow> uint64" where
  "SwapUsedKiB r =
     (if mr_SwapTotalKiB r = 0 \<or> mr_SwapTotalKiB r < mr_SwapFreeKiB r then 0
      else mr_SwapTotalKiB r - mr_SwapFreeKiB r)"

definition encodeMemReport :: "memReport \<Rightarrow> byte list" where
  "encodeMemReport r =
     put64 (mr_TotalKiB r) @ put64 (mr_AvailableKiB r) @ put64 (mr_PSIMemSomeCenti r) @
     put64 (mr_Load1Centi r) @ put64 (mr_NetIOBytes r) @ put64 (mr_SwapTotalKiB r) @ put64 (mr_SwapFreeKiB r)"

datatype report_error = ReportShort nat | ReportIO io_error | DialFailed

definition decodeActivity :: "byte list \<Rightarrow> memReport \<Rightarrow> memReport" where
  "decodeActivity b r =
     (if memReportActivitySize \<le> length b
      then r\<lparr>mr_Load1Centi := get64 (slice 24 32 b), mr_NetIOBytes := get64 (slice 32 40 b), mr_HasActivity := True\<rparr>
      else r)"

definition decodeSwap :: "byte list \<Rightarrow> memReport \<Rightarrow> memReport" where
  "decodeSwap b r =
     (if memReportSize \<le> length b
      then r\<lparr>mr_SwapTotalKiB := get64 (slice 40 48 b), mr_SwapFreeKiB := get64 (slice 48 56 b)\<rparr>
      else r)"

definition decodeMemReport :: "byte list \<Rightarrow> report_error + memReport" where
  "decodeMemReport b =
     (if length b < memReportLegacySize then Inl (ReportShort (length b))
      else Inr (decodeSwap b (decodeActivity b
        (no_report\<lparr>mr_TotalKiB := get64 (slice 0 8 b), mr_AvailableKiB := get64 (slice 8 16 b),
                   mr_PSIMemSomeCenti := get64 (slice 16 24 b)\<rparr>))))"

text \<open>
  \<open>io.ReadAll\<close> over an \<open>io.LimitReader\<close>: the limit ends the stream cleanly, an error before it is
  reported.
\<close>

definition ReadAllLimit :: "nat \<Rightarrow> stream \<Rightarrow> io_error + byte list" where
  "ReadAllLimit n s =
     (if n \<le> length (st_bytes s) then Inr (take n (st_bytes s))
      else case st_end s of Broken \<Rightarrow> Inl ReadError | Closed \<Rightarrow> Inr (st_bytes s))"

text \<open>One poll: the connection is \<open>None\<close> when the dial fails, and a read past its deadline is a broken stream.\<close>

definition readGuestMemReport :: "stream option \<Rightarrow> report_error + memReport" where
  "readGuestMemReport conn =
     (case conn of
        None \<Rightarrow> Inl DialFailed
      | Some s \<Rightarrow>
          (case ReadAllLimit 256 s of Inl e \<Rightarrow> Inl (ReportIO e) | Inr buf \<Rightarrow> decodeMemReport buf))"

record GuestStats =
  gs_TotalKiB :: uint64
  gs_AvailableKiB :: uint64
  gs_PSIMemSomeCenti :: uint64
  gs_Load1Centi :: uint64
  gs_NetIOBytes :: uint64
  gs_SwapTotalKiB :: uint64
  gs_SwapFreeKiB :: uint64
  gs_HasActivity :: bool

definition guest_stats :: "memReport \<Rightarrow> GuestStats" where
  "guest_stats r = \<lparr>gs_TotalKiB = mr_TotalKiB r, gs_AvailableKiB = mr_AvailableKiB r,
     gs_PSIMemSomeCenti = mr_PSIMemSomeCenti r, gs_Load1Centi = mr_Load1Centi r,
     gs_NetIOBytes = mr_NetIOBytes r, gs_SwapTotalKiB = mr_SwapTotalKiB r,
     gs_SwapFreeKiB = mr_SwapFreeKiB r, gs_HasActivity = mr_HasActivity r\<rparr>"

definition FetchGuestStats :: "stream option \<Rightarrow> report_error + GuestStats" where
  "FetchGuestStats conn =
     (case conn of
        None \<Rightarrow> Inl DialFailed
      | Some s \<Rightarrow>
          (case ReadAllLimit 256 s of
             Inl e \<Rightarrow> Inl (ReportIO e)
           | Inr buf \<Rightarrow> map_sum id guest_stats (decodeMemReport buf)))"

section \<open>Policy\<close>

datatype pressureLevel = pressureNormal | pressureWarn | pressureCritical

definition pressureLevel_String :: "pressureLevel \<Rightarrow> gostring" where
  "pressureLevel_String p =
     (case p of pressureNormal \<Rightarrow> ''normal'' | pressureWarn \<Rightarrow> ''warn'' | pressureCritical \<Rightarrow> ''critical'')"

definition minBalloonFloorBytes :: uint64 where
  "minBalloonFloorBytes = 512 * 1024 * 1024"

definition clampFloor :: "uint64 \<Rightarrow> uint64 \<Rightarrow> uint64" where
  "clampFloor target full =
     (if full \<le> minBalloonFloorBytes then full
      else if target < minBalloonFloorBytes then minBalloonFloorBytes
      else target)"

definition balloonTarget :: "pressureLevel \<Rightarrow> uint64 \<Rightarrow> uint64" where
  "balloonTarget level fullBytes =
     (case level of
        pressureWarn \<Rightarrow> clampFloor (fullBytes div 4 * 3) fullBytes
      | pressureCritical \<Rightarrow> clampFloor (fullBytes div 2) fullBytes
      | pressureNormal \<Rightarrow> fullBytes)"

definition psiDemandCenti :: uint64 where "psiDemandCenti = 500"
definition lowSlackNum :: uint64 where "lowSlackNum = 1"
definition lowSlackDen :: uint64 where "lowSlackDen = 8"
definition highSlackNum :: uint64 where "highSlackNum = 2"
definition highSlackDen :: uint64 where "highSlackDen = 5"
definition swapUsedFloorKiB :: uint64 where "swapUsedFloorKiB = 64 * 1024"
definition swapQuietReportsBeforeReclaim :: nat where "swapQuietReportsBeforeReclaim = 24"
definition reclaimStepBytes :: uint64 where "reclaimStepBytes = 128 * 1024 * 1024"

record swapTrend =
  sw_prevUsedKiB :: uint64
  sw_quiet :: nat

definition observe_swap :: "memReport \<Rightarrow> swapTrend \<Rightarrow> swapTrend \<times> bool" where
  "observe_swap r s =
     (if SwapUsedKiB r < swapUsedFloorKiB
      then (\<lparr>sw_prevUsedKiB = SwapUsedKiB r, sw_quiet = 0\<rparr>, False)
      else let q = (if sw_prevUsedKiB s < SwapUsedKiB r then 0 else Suc (sw_quiet s))
           in (\<lparr>sw_prevUsedKiB = SwapUsedKiB r, sw_quiet = q\<rparr>, q < swapQuietReportsBeforeReclaim))"

definition clampRange :: "uint64 \<Rightarrow> uint64 \<Rightarrow> uint64 \<Rightarrow> uint64" where
  "clampRange v lo hi = (if hi < lo then lo else if v < lo then lo else if hi < v then hi else v)"

definition tight :: "memReport \<Rightarrow> bool" where
  "tight r \<longleftrightarrow> psiDemandCenti \<le> mr_PSIMemSomeCenti r \<or>
     mr_AvailableKiB r * lowSlackDen < mr_TotalKiB r * lowSlackNum"

definition roomy :: "memReport \<Rightarrow> bool" where
  "roomy r \<longleftrightarrow> mr_TotalKiB r * highSlackNum < mr_AvailableKiB r * highSlackDen"

definition guestDesiredTarget :: "uint64 \<Rightarrow> uint64 \<Rightarrow> uint64 \<Rightarrow> memReport \<Rightarrow> bool \<Rightarrow> uint64" where
  "guestDesiredTarget cur baseline ceiling r swapPressure =
     (if ceiling \<le> baseline \<or> mr_TotalKiB r = 0 then clampRange cur baseline ceiling
      else if tight r then ceiling
      else if swapPressure then clampRange cur baseline ceiling
      else if roomy r then (if cur \<le> baseline + reclaimStepBytes then baseline else cur - reclaimStepBytes)
      else clampRange cur baseline ceiling)"

definition mergedBalloonTarget ::
  "pressureLevel \<Rightarrow> uint64 \<Rightarrow> uint64 \<Rightarrow> uint64 \<Rightarrow> memReport \<Rightarrow> bool \<Rightarrow> uint64" where
  "mergedBalloonTarget level cur baseline ceiling r swapPressure =
     (if balloonTarget level ceiling < guestDesiredTarget cur baseline ceiling r swapPressure
      then balloonTarget level ceiling
      else guestDesiredTarget cur baseline ceiling r swapPressure)"

section \<open>Controller\<close>

definition levelFromFflags :: "32 word \<Rightarrow> pressureLevel" where
  "levelFromFflags f =
     (if f AND 4 \<noteq> 0 then pressureCritical else if f AND 2 \<noteq> 0 then pressureWarn else pressureNormal)"

definition memReportStaleAfter :: duration where
  "memReportStaleAfter = 20 * second"

definition balloonCeilingBytes :: "uint64 \<Rightarrow> uint64 \<Rightarrow> uint64" where
  "balloonCeilingBytes MemoryMiB MemoryMaxMiB =
     (if MemoryMiB < MemoryMaxMiB then MemoryMaxMiB else MemoryMiB) * 1024 * 1024"

record controller =
  bc_baseline :: uint64
  bc_ceiling :: uint64
  bc_cur :: uint64
  bc_level :: pressureLevel
  bc_rep :: memReport
  bc_lastReport :: instant
  bc_swap :: swapTrend
  bc_swapPressure :: bool
  bc_device :: uint64

definition fresh :: "instant \<Rightarrow> controller \<Rightarrow> bool" where
  "fresh now c \<longleftrightarrow> bc_lastReport c \<noteq> 0 \<and> time_sub now (bc_lastReport c) \<le> memReportStaleAfter"

definition next_target :: "instant \<Rightarrow> controller \<Rightarrow> uint64" where
  "next_target now c =
     (if fresh now c
      then mergedBalloonTarget (bc_level c) (bc_cur c) (bc_baseline c) (bc_ceiling c) (bc_rep c) (bc_swapPressure c)
      else balloonTarget (bc_level c) (bc_ceiling c))"

definition apply_target :: "instant \<Rightarrow> controller \<Rightarrow> controller" where
  "apply_target now c = c\<lparr>bc_cur := next_target now c, bc_device := next_target now c\<rparr>"

datatype balloon_event = OnLevel pressureLevel | OnReport memReport | OnTick

definition on_event :: "instant \<Rightarrow> balloon_event \<Rightarrow> controller \<Rightarrow> controller" where
  "on_event now ev c =
     (case ev of
        OnLevel l \<Rightarrow> apply_target now (c\<lparr>bc_level := l\<rparr>)
      | OnReport r \<Rightarrow>
          apply_target now
            (c\<lparr>bc_rep := r, bc_lastReport := now, bc_swap := fst (observe_swap r (bc_swap c)),
               bc_swapPressure := snd (observe_swap r (bc_swap c))\<rparr>)
      | OnTick \<Rightarrow> apply_target now c)"

definition runBalloonController :: "(instant \<times> balloon_event) list \<Rightarrow> controller \<Rightarrow> controller" where
  "runBalloonController evs c = fold (\<lambda>(now, ev). on_event now ev) evs c"

definition startBalloonController :: "gostring \<Rightarrow> bool \<Rightarrow> uint64 \<Rightarrow> uint64 \<Rightarrow> instant \<Rightarrow> controller option" where
  "startBalloonController env has_device MemoryMiB MemoryMaxMiB now =
     (if env = ''0'' then None
      else if \<not> has_device then None
      else
        let ceiling = balloonCeilingBytes MemoryMiB MemoryMaxMiB;
            baseline = MemoryMiB * 1024 * 1024
        in Some (apply_target now
             \<lparr>bc_baseline = (if ceiling < baseline then ceiling else baseline), bc_ceiling = ceiling,
              bc_cur = ceiling, bc_level = pressureNormal, bc_rep = no_report, bc_lastReport = 0,
              bc_swap = \<lparr>sw_prevUsedKiB = 0, sw_quiet = 0\<rparr>, bc_swapPressure = False,
              bc_device = ceiling\<rparr>))"

text \<open>
  A channel of depth one with a single producer: an attempt to send, and when the channel is full a
  receive that drops the unread value and a second attempt.
\<close>

definition try_send :: "'a \<Rightarrow> 'a option \<Rightarrow> 'a option \<times> bool" where
  "try_send v ch = (case ch of None \<Rightarrow> (Some v, True) | Some u \<Rightarrow> (Some u, False))"

definition sendLatest :: "'a \<Rightarrow> 'a option \<Rightarrow> 'a option" where
  "sendLatest v ch =
     (case try_send v ch of (ch', sent) \<Rightarrow> if sent then ch' else fst (try_send v None))"

record balloon_sys =
  bs_ctl :: controller
  bs_levels :: "pressureLevel option"
  bs_reports :: "memReport option"
  bs_now :: instant

text \<open>
  The interleavings: the kernel announces pressure, a poll of the guest delivers a report or fails,
  the controller takes a value from either channel or a tick, time passes.
\<close>

inductive balloon_step :: "balloon_sys \<Rightarrow> balloon_sys \<Rightarrow> bool" where
  watchMemoryPressure:
    "balloon_step s (s\<lparr>bs_levels := sendLatest (levelFromFflags f) (bs_levels s)\<rparr>)"
| poll_ok:
    "readGuestMemReport conn = Inr r \<Longrightarrow> balloon_step s (s\<lparr>bs_reports := sendLatest r (bs_reports s)\<rparr>)"
| poll_failed:
    "readGuestMemReport conn = Inl e \<Longrightarrow> balloon_step s s"
| take_level:
    "bs_levels s = Some l \<Longrightarrow>
     balloon_step s (s\<lparr>bs_ctl := on_event (bs_now s) (OnLevel l) (bs_ctl s), bs_levels := None\<rparr>)"
| take_report:
    "bs_reports s = Some r \<Longrightarrow>
     balloon_step s (s\<lparr>bs_ctl := on_event (bs_now s) (OnReport r) (bs_ctl s), bs_reports := None\<rparr>)"
| tick:
    "balloon_step s (s\<lparr>bs_ctl := on_event (bs_now s) OnTick (bs_ctl s)\<rparr>)"
| time_passes:
    "bs_now s \<le> now \<Longrightarrow> balloon_step s (s\<lparr>bs_now := now\<rparr>)"


section \<open>Lemmas\<close>

subsection \<open>Wire form\<close>

lemma get64_put64 [simp]: "get64 (put64 w) = w"
proof (rule bit_word_eqI)
  fix n assume "n < LENGTH(64)"
  then show "bit (get64 (put64 w)) n = bit w n"
    by (cases "n < 32") (auto simp: get64_def put64_def get32_put32 bit_simps)
qed

lemma length_put64 [simp]: "length (put64 w) = 8"
  by (simp add: put64_def)

lemma length_encode [simp]: "length (encodeMemReport r) = 56"
  by (simp add: encodeMemReport_def)

lemma slice_append [simp]:
  "length xs \<le> i \<Longrightarrow> slice i j (xs @ ys) = slice (i - length xs) (j - length xs) ys"
  "j \<le> length xs \<Longrightarrow> slice i j (xs @ ys) = slice i j xs"
  by (simp_all add: slice_def)

lemma slice_all [simp]: "j = length xs \<Longrightarrow> slice 0 j xs = xs"
  by (simp add: slice_def)

lemmas report_sizes = memReportLegacySize_def memReportActivitySize_def memReportSize_def

lemma decode_encode: "decodeMemReport (encodeMemReport r @ ext) = Inr (r\<lparr>mr_HasActivity := True\<rparr>)"
  by (simp add: decodeMemReport_def decodeActivity_def decodeSwap_def report_sizes encodeMemReport_def no_report_def)

text \<open>What an older guest sends is a prefix of the report.\<close>

lemma decode_prefix:
  assumes "24 \<le> k" and "k \<le> 56"
  shows "decodeMemReport (take k (encodeMemReport r)) = Inr
    \<lparr>mr_TotalKiB = mr_TotalKiB r, mr_AvailableKiB = mr_AvailableKiB r,
     mr_PSIMemSomeCenti = mr_PSIMemSomeCenti r,
     mr_Load1Centi = (if 40 \<le> k then mr_Load1Centi r else 0),
     mr_NetIOBytes = (if 40 \<le> k then mr_NetIOBytes r else 0),
     mr_SwapTotalKiB = (if k = 56 then mr_SwapTotalKiB r else 0),
     mr_SwapFreeKiB = (if k = 56 then mr_SwapFreeKiB r else 0),
     mr_HasActivity = (40 \<le> k)\<rparr>"
proof -
  have slice_take: "slice i j (take k xs) = slice i j xs" if "j \<le> k" for i j and xs :: "byte list"
    using that by (simp add: slice_def drop_take min_def)
  have "56 \<le> k \<longleftrightarrow> k = 56" using assms(2) by auto
  with assms show ?thesis
    by (auto simp: decodeMemReport_def decodeActivity_def decodeSwap_def report_sizes slice_take no_report_def)
      (simp_all add: encodeMemReport_def)
qed

subsection \<open>Targets\<close>

lemma unat_three_quarters: "unat ((w :: uint64) div 4 * 3) = unat w div 4 * 3"
proof -
  have "unat w < 2 ^ LENGTH(64)" by (rule unsigned_less)
  then have "unat w div 4 * 3 < 2 ^ 64" by simp
  then show ?thesis using unat_mult_lem [of "w div 4" 3] by (simp add: unat_div)
qed

lemma three_quarters_le: "(w :: uint64) div 4 * 3 \<le> w"
  by (simp add: word_le_nat_alt unat_three_quarters)

lemma half_le: "(w :: uint64) div 2 \<le> w"
  by (simp add: word_le_nat_alt unat_div)

lemma clampFloor_le: "t \<le> full \<Longrightarrow> clampFloor t full \<le> full"
  by (auto simp: clampFloor_def)

lemma balloonTarget_le: "balloonTarget level full \<le> full"
  by (cases level) (simp_all add: balloonTarget_def clampFloor_le three_quarters_le half_le)

text \<open>No level takes more than the critical one.\<close>

lemma balloonTarget_critical_le: "balloonTarget pressureCritical full \<le> balloonTarget level full"
proof (cases "full \<le> minBalloonFloorBytes")
  case False
  then have "4 \<le> unat full" by (simp add: minBalloonFloorBytes_def word_le_nat_alt)
  then have "unat full div 2 \<le> unat full div 4 * 3" by presburger
  then have "full div 2 \<le> full div 4 * 3" by (simp add: word_le_nat_alt unat_three_quarters unat_div)
  with False show ?thesis
    by (cases level) (auto simp: balloonTarget_def clampFloor_def intro: half_le order_trans)
qed (cases level, simp_all add: balloonTarget_def clampFloor_def)

lemma clampRange_in: "lo \<le> hi \<Longrightarrow> lo \<le> clampRange v lo hi \<and> clampRange v lo hi \<le> hi"
  by (auto simp: clampRange_def)

definition no_wrap :: "uint64 \<Rightarrow> bool" where
  "no_wrap baseline \<longleftrightarrow> baseline \<le> baseline + reclaimStepBytes"

lemma guestDesiredTarget_ge:
  assumes "no_wrap baseline" and "baseline \<le> ceiling"
  shows "baseline \<le> guestDesiredTarget cur baseline ceiling r sp"
proof -
  have "baseline \<le> cur - reclaimStepBytes" if "\<not> cur \<le> baseline + reclaimStepBytes"
    using that assms(1) unfolding no_wrap_def by uint_arith
  with assms(2) clampRange_in [OF assms(2), of cur] show ?thesis
    by (auto simp: guestDesiredTarget_def)
qed

lemma mergedBalloonTarget_le: "mergedBalloonTarget level cur baseline ceiling r sp \<le> balloonTarget level ceiling"
  by (auto simp: mergedBalloonTarget_def)

lemma mergedBalloonTarget_ge:
  assumes "no_wrap baseline" and "baseline \<le> ceiling"
  shows "min baseline (balloonTarget level ceiling) \<le> mergedBalloonTarget level cur baseline ceiling r sp"
  using guestDesiredTarget_ge [OF assms, of cur r sp] by (auto simp: mergedBalloonTarget_def min_def)


subsection \<open>Controller invariant\<close>

lemma apply_target_simps [simp]:
  "bc_cur (apply_target now c) = next_target now c" "bc_device (apply_target now c) = next_target now c"
  "bc_baseline (apply_target now c) = bc_baseline c" "bc_ceiling (apply_target now c) = bc_ceiling c"
  "bc_level (apply_target now c) = bc_level c" "bc_rep (apply_target now c) = bc_rep c"
  "bc_lastReport (apply_target now c) = bc_lastReport c" "bc_swap (apply_target now c) = bc_swap c"
  "bc_swapPressure (apply_target now c) = bc_swapPressure c"
  by (simp_all add: apply_target_def)

text \<open>The target stays in range, and the device has what the controller believes it has.\<close>

definition target_ok :: "controller \<Rightarrow> bool" where
  "target_ok c \<longleftrightarrow> bc_baseline c \<le> bc_ceiling c \<and> bc_device c = bc_cur c \<and>
     bc_cur c \<le> balloonTarget (bc_level c) (bc_ceiling c) \<and>
     (no_wrap (bc_baseline c) \<longrightarrow> min (bc_baseline c) (balloonTarget (bc_level c) (bc_ceiling c)) \<le> bc_cur c)"

lemma target_ok_sizes: "target_ok c \<Longrightarrow> bc_baseline c \<le> bc_ceiling c"
  by (simp add: target_ok_def)

lemma apply_target_ok: "bc_baseline c \<le> bc_ceiling c \<Longrightarrow> target_ok (apply_target now c)"
  by (auto simp: target_ok_def next_target_def intro: mergedBalloonTarget_le mergedBalloonTarget_ge)

lemma on_event_sizes [simp]:
  "bc_baseline (on_event now ev c) = bc_baseline c" "bc_ceiling (on_event now ev c) = bc_ceiling c"
  by (cases ev; simp add: on_event_def)+

lemma on_event_ok: "bc_baseline c \<le> bc_ceiling c \<Longrightarrow> target_ok (on_event now ev c)"
  by (cases ev) (simp_all add: on_event_def apply_target_ok)

lemma start_ok: "startBalloonController env dev m mx now = Some c \<Longrightarrow> target_ok c"
  by (auto simp: startBalloonController_def Let_def intro!: apply_target_ok split: if_splits)

definition sys_started :: "balloon_sys \<Rightarrow> bool" where
  "sys_started s \<longleftrightarrow> bs_levels s = None \<and> bs_reports s = None \<and>
     (\<exists>env dev m mx. startBalloonController env dev m mx (bs_now s) = Some (bs_ctl s))"

interpretation balloon: inv_system sys_started balloon_step "\<lambda>s. target_ok (bs_ctl s)"
proof
  show "target_ok (bs_ctl s)" if "sys_started s" for s
    using that start_ok by (auto simp: sys_started_def)
  show "target_ok (bs_ctl t)" if "target_ok (bs_ctl s)" "balloon_step s t" for s t
    using that(2,1) by (induction rule: balloon_step.induct) (simp_all add: on_event_ok target_ok_sizes)
qed

lemma sendLatest_Some: "sendLatest v ch = Some v"
  by (cases ch) (simp_all add: sendLatest_def try_send_def)

subsection \<open>Reclaim\<close>

text \<open>A report of a guest that does not need its memory.\<close>

definition idle_report :: "memReport \<Rightarrow> bool" where
  "idle_report r \<longleftrightarrow> mr_TotalKiB r \<noteq> 0 \<and> \<not> tight r \<and> roomy r \<and> SwapUsedKiB r < swapUsedFloorKiB"

lemma fresh_now: "0 < now \<Longrightarrow> fresh now (c\<lparr>bc_lastReport := now\<rparr>)"
  by (simp add: fresh_def time_sub_def memReportStaleAfter_def second_def max_duration_def min_duration_def)

lemma next_target_idle:
  assumes "fresh now c" and "bc_baseline c < bc_ceiling c" and "bc_level c = pressureNormal"
    and "idle_report (bc_rep c)" and "\<not> bc_swapPressure c" and "bc_cur c \<le> bc_ceiling c"
    and "no_wrap (bc_baseline c)"
  shows "next_target now c =
    (if bc_cur c \<le> bc_baseline c + reclaimStepBytes then bc_baseline c else bc_cur c - reclaimStepBytes)"
proof -
  have "bc_cur c - reclaimStepBytes \<le> bc_ceiling c" if "\<not> bc_cur c \<le> bc_baseline c + reclaimStepBytes"
    using that assms(6,7) unfolding no_wrap_def by uint_arith
  with assms show ?thesis
    by (auto simp: next_target_def mergedBalloonTarget_def guestDesiredTarget_def balloonTarget_def idle_report_def)
qed

definition excess :: "controller \<Rightarrow> nat" where
  "excess c = unat (bc_cur c) - unat (bc_baseline c)"

lemma idle_step:
  assumes "0 < now" and "idle_report r" and "bc_baseline c < bc_ceiling c" and "bc_level c = pressureNormal"
    and "bc_cur c \<le> bc_ceiling c" and "bc_baseline c \<le> bc_cur c" and "no_wrap (bc_baseline c)"
  shows "excess (on_event now (OnReport r) c) = excess c - unat reclaimStepBytes"
    "bc_baseline c \<le> bc_cur (on_event now (OnReport r) c)" "bc_cur (on_event now (OnReport r) c) \<le> bc_cur c"
    "bc_level (on_event now (OnReport r) c) = pressureNormal"
proof -
  let ?c = "c\<lparr>bc_rep := r, bc_lastReport := now, bc_swap := fst (observe_swap r (bc_swap c)),
      bc_swapPressure := snd (observe_swap r (bc_swap c))\<rparr>"
  have t: "bc_cur (on_event now (OnReport r) c) =
      (if bc_cur c \<le> bc_baseline c + reclaimStepBytes then bc_baseline c else bc_cur c - reclaimStepBytes)"
    using next_target_idle [of now ?c] fresh_now [OF assms(1), of c] assms
    by (simp add: on_event_def observe_swap_def idle_report_def fresh_def)
  have sum: "unat (bc_baseline c + reclaimStepBytes) = unat (bc_baseline c) + unat reclaimStepBytes"
    using assms(7) unfolding no_wrap_def by unat_arith
  show "excess (on_event now (OnReport r) c) = excess c - unat reclaimStepBytes"
    using sum by (simp add: excess_def t word_le_nat_alt) (unat_arith)
  show "bc_baseline c \<le> bc_cur (on_event now (OnReport r) c)" "bc_cur (on_event now (OnReport r) c) \<le> bc_cur c"
    using assms(6,7) unfolding t no_wrap_def by (auto; uint_arith)+
  show "bc_level (on_event now (OnReport r) c) = pressureNormal"
    using assms(4) by (simp add: on_event_def)
qed


lemma idle_run:
  assumes "list_all (\<lambda>(now, ev). 0 < now \<and> (case ev of OnReport r \<Rightarrow> idle_report r | _ \<Rightarrow> False)) evs"
    and "bc_baseline c < bc_ceiling c" and "bc_level c = pressureNormal" and "bc_cur c \<le> bc_ceiling c"
    and "bc_baseline c \<le> bc_cur c" and "no_wrap (bc_baseline c)"
  shows "excess (runBalloonController evs c) = excess c - length evs * unat reclaimStepBytes \<and>
    bc_baseline c \<le> bc_cur (runBalloonController evs c) \<and>
    bc_baseline (runBalloonController evs c) = bc_baseline c"
  using assms
proof (induction evs arbitrary: c)
  case (Cons e evs)
  from Cons.prems(1) obtain now r where e: "e = (now, OnReport r)" "0 < now" "idle_report r"
    by (cases e; cases "snd e") auto
  note step = idle_step [OF e(2,3) Cons.prems(2-6)]
  have "bc_cur (on_event now (OnReport r) c) \<le> bc_ceiling (on_event now (OnReport r) c)"
    using step(3) Cons.prems(4) by simp
  with Cons.IH [of "on_event now (OnReport r) c"] Cons.prems step show ?case
    by (simp add: e(1) runBalloonController_def)
qed (simp add: runBalloonController_def)

subsection \<open>Swap\<close>

definition observe_all :: "memReport list \<Rightarrow> swapTrend \<Rightarrow> swapTrend" where
  "observe_all rs s = fold (\<lambda>r s. fst (observe_swap r s)) rs s"

lemma quiet_counts:
  assumes "sorted_wrt (\<lambda>a b. SwapUsedKiB b \<le> SwapUsedKiB a) rs"
    and "list_all (\<lambda>r. SwapUsedKiB r \<le> sw_prevUsedKiB s \<and> swapUsedFloorKiB \<le> SwapUsedKiB r) rs"
  shows "sw_quiet (observe_all rs s) = sw_quiet s + length rs \<and>
    sw_prevUsedKiB (observe_all rs s) = (if rs = [] then sw_prevUsedKiB s else SwapUsedKiB (last rs))"
  using assms
proof (induction rs arbitrary: s)
  case (Cons r rs)
  then have "fst (observe_swap r s) = \<lparr>sw_prevUsedKiB = SwapUsedKiB r, sw_quiet = Suc (sw_quiet s)\<rparr>"
    by (simp add: observe_swap_def Let_def not_less)
  with Cons.prems Cons.IH [of "fst (observe_swap r s)"] show ?case
    by (simp add: observe_all_def list_all_iff)
qed (simp add: observe_all_def)

section \<open>Properties\<close>

text \<open>
  C39: Whatever the host announces, the guest reports (or fails to report) and in whatever order the
  controller sees it, the memory target it sets never exceeds what the host pressure level allows,
  never exceeds the ceiling, never falls below the smaller of the baseline and the critical fraction
  of the ceiling, and is what the device was last given. The lower bound needs the baseline to be
  below the top of the 64-bit range by one reclaim step.
\<close>

theorem balloon_target_bounded:
  assumes "reach sys_started balloon_step s"
  defines "c \<equiv> bs_ctl s"
  shows "bc_device c = bc_cur c \<and> bc_device c \<le> balloonTarget (bc_level c) (bc_ceiling c) \<and>
    bc_device c \<le> bc_ceiling c \<and> bc_baseline c \<le> bc_ceiling c \<and>
    (if unat (bc_baseline c) + 2 ^ 27 < 2 ^ 64
     then min (bc_baseline c) (balloonTarget pressureCritical (bc_ceiling c)) \<le> bc_device c else True)"
proof -
  have ok: "target_ok c" unfolding c_def by (rule balloon.reach_inv [OF assms(1)])
  have wrap: "no_wrap (bc_baseline c)" if "unat (bc_baseline c) + 2 ^ 27 < 2 ^ 64"
    using that by (simp add: no_wrap_def no_plus_overflow_unat_size word_size reclaimStepBytes_def)
  have "min (bc_baseline c) (balloonTarget pressureCritical (bc_ceiling c)) \<le>
      min (bc_baseline c) (balloonTarget (bc_level c) (bc_ceiling c))"
    using balloonTarget_critical_le by (auto simp: min_def intro: order_trans)
  with ok wrap have "min (bc_baseline c) (balloonTarget pressureCritical (bc_ceiling c)) \<le> bc_cur c"
    if "unat (bc_baseline c) + 2 ^ 27 < 2 ^ 64"
    using that order_trans unfolding target_ok_def by blast
  moreover have "bc_cur c \<le> bc_ceiling c"
    using ok balloonTarget_le order_trans unfolding target_ok_def by blast
  ultimately show ?thesis using ok by (simp add: target_ok_def)
qed

definition demo_controller :: controller where
  "demo_controller = the (startBalloonController [] True 1024 4096 1000)"

definition demo_report :: memReport where
  "demo_report = no_report\<lparr>mr_TotalKiB := 4000000, mr_AvailableKiB := 3000000\<rparr>"

definition demo_sys :: balloon_sys where
  "demo_sys = \<lparr>bs_ctl = demo_controller, bs_levels = None, bs_reports = None, bs_now = 1000\<rparr>"

lemma demo_reach: "reach sys_started balloon_step (demo_sys\<lparr>bs_levels := sendLatest (levelFromFflags 4) (bs_levels demo_sys)\<rparr>)"
proof (rule reach.reach_step [OF reach.reach_init])
  have "startBalloonController [] True 1024 4096 1000 = Some demo_controller"
    by (simp add: demo_controller_def startBalloonController_def Let_def)
  then show "sys_started demo_sys" by (auto simp: sys_started_def demo_sys_def)
qed (rule balloon_step.intros)

theorem balloon_target_bounded_witness:
  "bc_device demo_controller \<le> balloonTarget (bc_level demo_controller) (bc_ceiling demo_controller)"
  using balloon_target_bounded [OF demo_reach] by (auto simp: demo_sys_def)

text \<open>
  What each event makes of the target. Without a fresh report the guest gets what the host level
  allows of its ceiling; a report of a guest short of memory gives it that at once; a pressure event
  takes effect in the same step even against the guest's demand; a report of a guest that is paging
  out keeps the target.
\<close>

theorem controller_reacts:
  assumes "bc_baseline c < bc_ceiling c" and "0 < now"
  defines "host \<equiv> \<lambda>l. balloonTarget l (bc_ceiling c)"
  shows "(if fresh now c then True else bc_device (on_event now OnTick c) = host (bc_level c)) \<and>
    (if mr_TotalKiB r \<noteq> 0 \<and> tight r then bc_device (on_event now (OnReport r) c) = host (bc_level c) else True) \<and>
    bc_device (on_event now (OnLevel l) c) \<le> host l \<and>
    (if \<not> tight r \<and> snd (observe_swap r (bc_swap c)) \<and> bc_baseline c \<le> bc_cur c \<and> bc_cur c \<le> host (bc_level c)
     then bc_device (on_event now (OnReport r) c) = bc_cur c else True)"
proof -
  have fr: "fresh now (c\<lparr>bc_rep := r, bc_lastReport := now, bc_swap := t, bc_swapPressure := p\<rparr>)" for t p
    using fresh_now [OF assms(2), of c] by (simp add: fresh_def)
  have le: "bc_cur c \<le> bc_ceiling c" if "bc_cur c \<le> balloonTarget (bc_level c) (bc_ceiling c)"
    using that balloonTarget_le order_trans by blast
  have tight: "bc_device (on_event now (OnReport r) c) = host (bc_level c)" if "mr_TotalKiB r \<noteq> 0" "tight r"
    using that assms(1) balloonTarget_le [of "bc_level c" "bc_ceiling c"]
    by (auto simp: host_def on_event_def next_target_def fr mergedBalloonTarget_def guestDesiredTarget_def)
  have keep: "bc_device (on_event now (OnReport r) c) = bc_cur c"
    if "\<not> tight r" "snd (observe_swap r (bc_swap c))" "bc_baseline c \<le> bc_cur c" "bc_cur c \<le> host (bc_level c)"
    using that assms(1) le
    by (auto simp: host_def on_event_def next_target_def fr mergedBalloonTarget_def guestDesiredTarget_def clampRange_def)
  have "bc_device (on_event now (OnLevel l) c) \<le> host l"
    by (simp add: host_def on_event_def next_target_def mergedBalloonTarget_le)
  with tight keep show ?thesis by (simp add: host_def on_event_def next_target_def)
qed

theorem controller_reacts_witness:
  "bc_device (on_event 2000 (OnReport (no_report\<lparr>mr_TotalKiB := 4000000, mr_PSIMemSomeCenti := 900\<rparr>)) demo_controller) =
     balloonTarget (bc_level demo_controller) (bc_ceiling demo_controller)"
proof -
  have "bc_baseline demo_controller < bc_ceiling demo_controller"
    by (simp add: demo_controller_def startBalloonController_def Let_def balloonCeilingBytes_def)
  moreover have "tight (no_report\<lparr>mr_TotalKiB := 4000000, mr_PSIMemSomeCenti := 900\<rparr>)"
    by (simp add: tight_def psiDemandCenti_def)
  ultimately show ?thesis
    using controller_reacts [of demo_controller 2000 "no_report\<lparr>mr_TotalKiB := 4000000, mr_PSIMemSomeCenti := 900\<rparr>"]
    by simp
qed

text \<open>
  Reclaim ends: while the host is relaxed and the guest keeps reporting that it is idle, every
  report takes one step of 128 MiB off the target, so after as many reports as there are steps
  between the target and the baseline the guest is held at its baseline, and not below.
\<close>

theorem idle_guest_reaches_baseline:
  assumes "list_all (\<lambda>(now, ev). 0 < now \<and> (case ev of OnReport r \<Rightarrow> idle_report r | _ \<Rightarrow> False)) evs"
    and "bc_level c = pressureNormal" and "bc_baseline c \<le> bc_cur c" and "bc_cur c \<le> bc_ceiling c"
    and "bc_baseline c < bc_ceiling c" and "unat (bc_baseline c) + 2 ^ 27 < 2 ^ 64"
    and "unat (bc_cur c) - unat (bc_baseline c) \<le> length evs * 2 ^ 27"
  shows "bc_cur (runBalloonController evs c) = bc_baseline c"
proof -
  have wrap: "no_wrap (bc_baseline c)"
    using assms(6) by (simp add: no_wrap_def no_plus_overflow_unat_size word_size reclaimStepBytes_def)
  have "unat reclaimStepBytes = 2 ^ 27" by (simp add: reclaimStepBytes_def)
  with idle_run [OF assms(1,5,2,4,3) wrap] assms(7) show ?thesis
    by (simp add: excess_def word_le_nat_alt word_unat_eq_iff)
qed

theorem idle_guest_reaches_baseline_witness:
  "bc_cur (runBalloonController (replicate 24 (2000 :: instant, OnReport demo_report)) demo_controller) = bc_baseline demo_controller"
proof (rule idle_guest_reaches_baseline)
  have "idle_report demo_report"
    by (simp add: idle_report_def demo_report_def no_report_def tight_def roomy_def SwapUsedKiB_def psiDemandCenti_def
        lowSlackDen_def lowSlackNum_def highSlackDen_def highSlackNum_def swapUsedFloorKiB_def)
  then show "list_all (\<lambda>(now, ev). 0 < now \<and> (case ev of OnReport r \<Rightarrow> idle_report r | _ \<Rightarrow> False))
      (replicate 24 (2000 :: instant, OnReport demo_report))" by (simp add: list_all_iff)
qed (simp_all add: demo_controller_def startBalloonController_def Let_def balloonCeilingBytes_def next_target_def
    fresh_def balloonTarget_def)

text \<open>
  Swapped-out memory does not stop reclaim for good: a guest whose swap use has not grown for 24
  consecutive reports no longer counts as under pressure, and before that it does.
\<close>

theorem swap_hold_expires:
  assumes "sorted_wrt (\<lambda>a b. SwapUsedKiB b \<le> SwapUsedKiB a) (rs @ [r])"
    and "list_all (\<lambda>x. SwapUsedKiB x \<le> sw_prevUsedKiB s \<and> swapUsedFloorKiB \<le> SwapUsedKiB x) (rs @ [r])"
    and "sw_quiet s = 0"
  shows "snd (observe_swap r (observe_all rs s)) \<longleftrightarrow> length rs < 23"
proof -
  have "sw_quiet (observe_all rs s) = length rs" "SwapUsedKiB r \<le> sw_prevUsedKiB (observe_all rs s)"
    using quiet_counts [of rs s] assms by (auto simp: sorted_wrt_append list_all_iff)
  with assms(2) show ?thesis
    by (auto simp: observe_swap_def Let_def swapQuietReportsBeforeReclaim_def)
qed

theorem swap_hold_expires_witness:
  "snd (observe_swap (no_report\<lparr>mr_SwapTotalKiB := 90000\<rparr>) (observe_all [] \<lparr>sw_prevUsedKiB = 90000, sw_quiet = 0\<rparr>))"
  using swap_hold_expires [of "[]" "no_report\<lparr>mr_SwapTotalKiB := 90000\<rparr>" "\<lparr>sw_prevUsedKiB = 90000, sw_quiet = 0\<rparr>"]
  by (simp add: SwapUsedKiB_def no_report_def swapUsedFloorKiB_def)

text \<open>
  A report survives the wire with anything appended; a report cut to the length an older guest
  sends keeps the fields that guest knows, zeroes the others and says so; anything shorter than the
  oldest form is an error, never a report of zero memory.
\<close>

theorem mem_report_roundtrip:
  "decodeMemReport (encodeMemReport r @ ext) = Inr (r\<lparr>mr_HasActivity := True\<rparr>) \<and>
   decodeMemReport (take 40 (encodeMemReport r)) =
     Inr (r\<lparr>mr_SwapTotalKiB := 0, mr_SwapFreeKiB := 0, mr_HasActivity := True\<rparr>) \<and>
   decodeMemReport (take 24 (encodeMemReport r)) =
     Inr (r\<lparr>mr_Load1Centi := 0, mr_NetIOBytes := 0, mr_SwapTotalKiB := 0, mr_SwapFreeKiB := 0, mr_HasActivity := False\<rparr>) \<and>
   ((\<exists>e. decodeMemReport b = Inl e) \<longleftrightarrow> length b < 24)"
  by (simp add: decode_encode decode_prefix) (simp add: decodeMemReport_def report_sizes)

end
