(* ===== verification/Resources.thy ===== *)
theory Resources
  imports Memory ModFile
begin

text \<open>
  Memory budgets. \<open>src/internal/cli/resources.go\<close>: the resource directives of a workspace and its
  repositories merged into one sandbox, validated and completed with defaults;
  \<open>src/internal/cli/admission.go\<close>: the check that keeps the host from being oversubscribed before a
  sandbox starts. The environment variable, the physical memory, the list of sandbox records and the
  liveness of their processes are inputs.

  Starting a sandbox checks admission first and makes its process visible later, with no lock in
  between; the step relation at the end has the two as separate steps.
\<close>

section \<open>Merging the directives\<close>

text \<open>The templates of a workspace and of its repositories, where a repository may have none.\<close>

record workspace =
  ws_File :: Template
  ws_Repos :: "Template option list"

definition max_directive :: "(Template \<Rightarrow> uint64) \<Rightarrow> workspace \<Rightarrow> uint64" where
  "max_directive f ws =
     foldl (\<lambda>acc r. case r of None \<Rightarrow> acc | Some d \<Rightarrow> if acc < f d then f d else acc) (f (ws_File ws)) (ws_Repos ws)"

definition resolveResources :: "workspace \<Rightarrow> uint64 \<times> uint64 \<times> uint64" where
  "resolveResources ws = (max_directive tm_CPU ws, max_directive tm_MemoryMiB ws, max_directive tm_MemoryMaxMiB ws)"

definition resolveDisk :: "workspace \<Rightarrow> uint64" where
  "resolveDisk ws = max_directive tm_DiskMiB ws"

definition off_or_max :: "(Template \<Rightarrow> int) \<Rightarrow> workspace \<Rightarrow> int" where
  "off_or_max f ws =
     foldl (\<lambda>acc r. case r of None \<Rightarrow> acc
              | Some d \<Rightarrow> if f d < 0 \<or> acc < 0 then - 1 else if acc < f d then f d else acc)
       (f (ws_File ws)) (ws_Repos ws)"

definition resolveSwap :: "workspace \<Rightarrow> int" where
  "resolveSwap ws = off_or_max tm_SwapMiB ws"

definition resolveIdleTimeout :: "workspace \<Rightarrow> int" where
  "resolveIdleTimeout ws = off_or_max tm_IdleTimeoutSec ws"

section \<open>Validation and defaults\<close>

definition minDiskMiB :: uint64 where "minDiskMiB = 1024"

datatype resource_error = DiskTooSmall uint64 | MemoryExceedsMax uint64 uint64 | MemoryTooSmall uint64 | MemoryMaxTooSmall uint64

definition validateDisk :: "uint64 \<Rightarrow> resource_error option" where
  "validateDisk diskMiB = (if diskMiB \<noteq> 0 \<and> diskMiB < minDiskMiB then Some (DiskTooSmall diskMiB) else None)"

definition validateResources :: "uint64 \<Rightarrow> uint64 \<Rightarrow> resource_error option" where
  "validateResources memoryMiB memoryMaxMiB =
     (if 0 < memoryMiB \<and> 0 < memoryMaxMiB \<and> memoryMaxMiB < memoryMiB then Some (MemoryExceedsMax memoryMiB memoryMaxMiB)
      else if 0 < memoryMiB \<and> memoryMiB < 64 then Some (MemoryTooSmall memoryMiB)
      else if 0 < memoryMaxMiB \<and> memoryMaxMiB < 64 then Some (MemoryMaxTooSmall memoryMaxMiB)
      else None)"

definition normalizeMemory :: "uint64 \<Rightarrow> uint64 \<Rightarrow> uint64 \<times> uint64" where
  "normalizeMemory baseline ceiling =
     (if baseline = 0 \<and> ceiling = 0 then (0, 0)
      else let baseline = (if baseline = 0 then ceiling else baseline);
               ceiling = (if ceiling = 0 then baseline else ceiling)
           in (baseline, ceiling))"

definition defaultIdleTimeout :: duration where
  "defaultIdleTimeout = 30 * 60 * second"

text \<open>An \<open>int64\<close> product wraps.\<close>

definition wrap_int64 :: "int \<Rightarrow> int" where
  "wrap_int64 x = (x + 2 ^ 63) mod 2 ^ 64 - 2 ^ 63"

definition effectiveIdleTimeout :: "int \<Rightarrow> duration" where
  "effectiveIdleTimeout IdleTimeoutSec =
     (if IdleTimeoutSec < 0 then 0
      else if IdleTimeoutSec = 0 then defaultIdleTimeout
      else wrap_int64 (IdleTimeoutSec * second))"

definition defaultSandboxVCPU :: uint64 where "defaultSandboxVCPU = 4"
definition defaultSandboxMemoryMiB :: uint64 where "defaultSandboxMemoryMiB = 1024"
definition defaultSandboxMemoryMaxMiB :: uint64 where "defaultSandboxMemoryMaxMiB = 4096"

text \<open>What the memory code reads of a sandbox record.\<close>

record box =
  bx_Name :: gostring
  bx_CPU :: uint64
  bx_MemoryMiB :: uint64
  bx_MemoryMaxMiB :: uint64

definition spec_memory :: "uint64 \<Rightarrow> uint64 \<Rightarrow> uint64 \<times> uint64" where
  "spec_memory memMiB memMaxMiB =
     (if memMiB = 0 \<and> memMaxMiB = 0 then (defaultSandboxMemoryMiB, defaultSandboxMemoryMaxMiB)
      else if memMaxMiB = 0 then (memMiB, memMiB)
      else if memMiB = 0
           then (if memMaxMiB < defaultSandboxMemoryMiB then memMaxMiB else defaultSandboxMemoryMiB, memMaxMiB)
      else (memMiB, memMaxMiB))"

definition specResources :: "box \<Rightarrow> uint64 \<times> uint64 \<times> uint64" where
  "specResources sb =
     (if 0 < bx_CPU sb then bx_CPU sb else defaultSandboxVCPU, spec_memory (bx_MemoryMiB sb) (bx_MemoryMaxMiB sb))"

definition ceiling_of :: "box \<Rightarrow> uint64" where
  "ceiling_of sb = snd (snd (specResources sb))"

section \<open>Admission\<close>

definition hostReserveFloorMiB :: uint64 where "hostReserveFloorMiB = 3072"

text \<open>\<open>strconv.ParseUint\<close> in base ten: digits only, and in range.\<close>

definition ParseUint64 :: "gostring \<Rightarrow> uint64 option" where
  "ParseUint64 v =
     (if v \<noteq> [] \<and> list_all is_digit v \<and> int (dec_value v) < 2 ^ 64 then Some (of_nat (dec_value v)) else None)"

definition hostReserveMiB :: "gostring \<Rightarrow> uint64 \<Rightarrow> uint64" where
  "hostReserveMiB env hostMiB =
     (case if env \<noteq> [] then ParseUint64 env else None of
        Some n \<Rightarrow> n
      | None \<Rightarrow> if hostReserveFloorMiB < hostMiB div 4 then hostMiB div 4 else hostReserveFloorMiB)"

record admission_error =
  ae_want :: uint64
  ae_avail :: "64 word"
  ae_committed :: uint64

text \<open>
  The comparison is on \<open>int64\<close> values: the words are read as signed, and the differences wrap at 64
  bits.
\<close>

definition available :: "uint64 list \<Rightarrow> uint64 \<Rightarrow> uint64 \<Rightarrow> uint64" where
  "available otherMiB hostMiB reserveMiB =
     (let avail = hostMiB - reserveMiB - sum_list otherMiB in if avail <s 0 then 0 else avail)"

definition admitGuestMemory ::
  "uint64 \<Rightarrow> uint64 list \<Rightarrow> uint64 \<Rightarrow> uint64 \<Rightarrow> admission_error option" where
  "admitGuestMemory wantMiB otherMiB hostMiB reserveMiB =
     (if available otherMiB hostMiB reserveMiB <s wantMiB
      then Some \<lparr>ae_want = wantMiB, ae_avail = available otherMiB hostMiB reserveMiB, ae_committed = sum_list otherMiB\<rparr>
      else None)"

text \<open>
  A process is alive when its pid file holds a positive number and signal 0 reaches it, or is refused
  for lack of permission.
\<close>

datatype kill_result = KillOK | EPERM | ESRCH

definition vmProcessAlive :: "(gostring \<Rightarrow> int option) \<Rightarrow> (int \<Rightarrow> kill_result) \<Rightarrow> gostring \<Rightarrow> bool" where
  "vmProcessAlive readVMPID kill name =
     (case readVMPID name of
        None \<Rightarrow> False
      | Some pid \<Rightarrow> 0 < pid \<and> (kill pid = KillOK \<or> kill pid = EPERM))"

definition otherRunningCeilingsMiB :: "(gostring \<Rightarrow> bool) \<Rightarrow> box list option \<Rightarrow> gostring \<Rightarrow> uint64 list" where
  "otherRunningCeilingsMiB alive records self =
     (case records of
        None \<Rightarrow> []
      | Some boxes \<Rightarrow> map ceiling_of (filter (\<lambda>b. \<not> (bx_Name b = self \<or> \<not> alive (bx_Name b))) boxes))"

definition admitMemoryForStart ::
  "uint64 option \<Rightarrow> gostring \<Rightarrow> (gostring \<Rightarrow> bool) \<Rightarrow> box list option \<Rightarrow> box \<Rightarrow> admission_error option" where
  "admitMemoryForStart hostBytes env alive records sb =
     (case hostBytes of
        None \<Rightarrow> None
      | Some bytes \<Rightarrow>
          let hostMiB = bytes div (1024 * 1024) in
          admitGuestMemory (ceiling_of sb) (otherRunningCeilingsMiB alive records (bx_Name sb))
            hostMiB (hostReserveMiB env hostMiB))"

section \<open>Starting sandboxes\<close>

text \<open>
  The sandboxes on record, those whose process is alive, and those that passed admission and are being
  prepared.
\<close>

record fleet =
  fl_boxes :: "box list"
  fl_alive :: "gostring set"
  fl_preparing :: "gostring set"

inductive fleet_step :: "uint64 \<Rightarrow> gostring \<Rightarrow> fleet \<Rightarrow> fleet \<Rightarrow> bool" for hostBytes env where
  admit:
    "sb \<in> set (fl_boxes s) \<Longrightarrow> bx_Name sb \<notin> fl_alive s \<Longrightarrow> bx_Name sb \<notin> fl_preparing s \<Longrightarrow>
     admitMemoryForStart (Some hostBytes) env (\<lambda>n. n \<in> fl_alive s) (Some (fl_boxes s)) sb = None \<Longrightarrow>
     fleet_step hostBytes env s (s\<lparr>fl_preparing := insert (bx_Name sb) (fl_preparing s)\<rparr>)"
| launch:
    "n \<in> fl_preparing s \<Longrightarrow>
     fleet_step hostBytes env s (s\<lparr>fl_preparing := fl_preparing s - {n}, fl_alive := insert n (fl_alive s)\<rparr>)"
| give_up:
    "fleet_step hostBytes env s (s\<lparr>fl_preparing := fl_preparing s - {n}\<rparr>)"
| vm_exit:
    "fleet_step hostBytes env s (s\<lparr>fl_alive := fl_alive s - {n}\<rparr>)"

text \<open>One start at a time: no admission while another sandbox is being prepared.\<close>

inductive serial_step :: "uint64 \<Rightarrow> gostring \<Rightarrow> fleet \<Rightarrow> fleet \<Rightarrow> bool" for hostBytes env where
  serial:
    "fleet_step hostBytes env s t \<Longrightarrow> fl_preparing s = {} \<or> fl_preparing t \<subseteq> fl_preparing s \<Longrightarrow>
     serial_step hostBytes env s t"

definition committed :: "fleet \<Rightarrow> int" where
  "committed s = sum_list (map (\<lambda>b. uint (ceiling_of b))
     (filter (\<lambda>b. bx_Name b \<in> fl_alive s \<union> fl_preparing s) (fl_boxes s)))"


section \<open>Lemmas\<close>

subsection \<open>Sums of words\<close>

lemma uint_sum_list:
  assumes "sum_list (map uint (ws :: uint64 list)) < 2 ^ 64"
  shows "uint (sum_list ws) = sum_list (map uint ws)"
  using assms
proof (induction ws)
  case (Cons w ws)
  have nonneg: "0 \<le> sum_list (map uint ws)" by (rule sum_list_nonneg) auto
  with Cons.prems have "sum_list (map uint ws) < 2 ^ 64"
    using uint_ge_0 [of w] unfolding list.map sum_list.Cons by linarith
  with Cons.IH have "uint (sum_list ws) = sum_list (map uint ws)" .
  with Cons.prems nonneg show ?case using uint_ge_0 [of w] by (simp add: uint_word_ariths)
qed simp

lemma sint_small: "uint (w :: uint64) < 2 ^ 63 \<Longrightarrow> sint w = uint w"
proof -
  assume "uint w < 2 ^ 63"
  moreover have "- (2 ^ 63) \<le> uint w" by (rule order_trans [OF _ uint_ge_0]) simp
  ultimately show ?thesis by (simp add: sint_uint signed_take_bit_int_eq_self)
qed

lemma sint_of_int_small: "- (2 ^ 63) \<le> x \<Longrightarrow> x < 2 ^ 63 \<Longrightarrow> sint (of_int x :: uint64) = x"
  by (simp add: signed_of_int signed_take_bit_int_eq_self)

subsection \<open>Admission\<close>

lemma sint_available:
  assumes "uint host < 2 ^ 62" and "uint reserve < 2 ^ 62" and "sum_list (map uint others) < 2 ^ 62"
  shows "sint (available others host reserve) =
    max 0 (uint host - uint reserve - sum_list (map uint others))"
proof -
  let ?c = "sum_list (map uint others)"
  have pow: "(2 :: int) ^ 63 = 2 * 2 ^ 62" by simp
  have c: "0 \<le> ?c" "uint (sum_list others) = ?c"
    using assms(3) by (auto intro: sum_list_nonneg uint_sum_list)
  have "host - reserve - sum_list others = of_int (uint host - uint reserve - ?c)"
    by (simp flip: c(2))
  moreover have "sint (of_int (uint host - uint reserve - ?c) :: uint64) = uint host - uint reserve - ?c"
    using assms c(1) uint_ge_0 [of host] uint_ge_0 [of reserve] by (intro sint_of_int_small) (use pow in linarith)+
  ultimately have a: "sint (host - reserve - sum_list others) = uint host - uint reserve - ?c" by simp
  then show ?thesis by (simp add: available_def Let_def word_sless_alt max_def)
qed

lemma admit_iff:
  assumes "uint host < 2 ^ 62" and "uint reserve < 2 ^ 62" and "sum_list (map uint others) < 2 ^ 62"
    and "uint want < 2 ^ 63"
  shows "admitGuestMemory want others host reserve = None \<longleftrightarrow>
    want = 0 \<or> uint want + sum_list (map uint others) + uint reserve \<le> uint host"
proof -
  have "admitGuestMemory want others host reserve = None \<longleftrightarrow>
      \<not> max 0 (uint host - uint reserve - sum_list (map uint others)) < uint want"
    by (simp add: admitGuestMemory_def word_sless_alt sint_available [OF assms(1-3)] sint_small [OF assms(4)])
  moreover have "uint want = 0 \<longleftrightarrow> want = 0" by (rule uint_0_iff)
  moreover have "\<not> max 0 x < y \<longleftrightarrow> y = 0 \<or> y \<le> x" if "0 \<le> y" for x y :: int using that by auto
  ultimately show ?thesis using uint_ge_0 [of want] by (auto simp: algebra_simps not_less)
qed

lemma ceiling_of_pos: "ceiling_of sb \<noteq> 0"
  by (simp add: ceiling_of_def specResources_def spec_memory_def defaultSandboxMemoryMaxMiB_def)

subsection \<open>Merging\<close>

lemma max_directive_Max:
  "max_directive f ws = Max (insert (f (ws_File ws)) (f ` {d. Some d \<in> set (ws_Repos ws)}))"
proof -
  have "foldl (\<lambda>acc r. case r of None \<Rightarrow> acc | Some d \<Rightarrow> if acc < f d then f d else acc) a rs =
      Max (insert a (f ` {d. Some d \<in> set rs}))" for a rs
  proof (induction rs arbitrary: a)
    case (Cons r rs)
    have fin: "finite {d. Some d \<in> set rs}"
      by (rule finite_subset [of _ "the ` set rs"]) (force simp: image_iff, simp)
    show ?case
    proof (cases r)
      case (Some d)
      have "{e. e = d \<or> Some e \<in> set rs} = insert d {e. Some e \<in> set rs}" by auto
      with Some Cons fin show ?thesis
        by (cases "{e. Some e \<in> set rs} = {}") (auto simp: max_def insert_commute)
    qed (use Cons in simp)
  qed simp
  then show ?thesis by (simp add: max_directive_def)
qed

lemma off_or_max_neg: "off_or_max f ws < 0 \<longleftrightarrow> f (ws_File ws) < 0 \<or> (\<exists>d. Some d \<in> set (ws_Repos ws) \<and> f d < 0)"
proof -
  have "foldl (\<lambda>acc r. case r of None \<Rightarrow> acc
          | Some d \<Rightarrow> if f d < 0 \<or> acc < 0 then - 1 else if acc < f d then f d else acc) a rs < 0 \<longleftrightarrow>
      a < 0 \<or> (\<exists>d. Some d \<in> set rs \<and> f d < 0)" for a :: int and rs
  proof (induction rs arbitrary: a)
    case (Cons r rs)
    show ?case by (cases r) (auto simp: Cons)
  qed simp
  then show ?thesis by (simp add: off_or_max_def)
qed


subsection \<open>The fleet\<close>

definition fleet_bounded :: "uint64 \<Rightarrow> gostring \<Rightarrow> fleet \<Rightarrow> bool" where
  "fleet_bounded hostBytes env s \<longleftrightarrow> distinct (map bx_Name (fl_boxes s)) \<and>
     uint (hostReserveMiB env (hostBytes div (1024 * 1024))) < 2 ^ 62 \<and>
     sum_list (map (\<lambda>b. uint (ceiling_of b)) (fl_boxes s)) < 2 ^ 62"

definition fits :: "uint64 \<Rightarrow> gostring \<Rightarrow> fleet \<Rightarrow> bool" where
  "fits hostBytes env s \<longleftrightarrow> committed s = 0 \<or>
     committed s + uint (hostReserveMiB env (hostBytes div (1024 * 1024))) \<le> uint (hostBytes div (1024 * 1024))"

definition fleet_init :: "uint64 \<Rightarrow> gostring \<Rightarrow> fleet \<Rightarrow> bool" where
  "fleet_init hostBytes env s \<longleftrightarrow> fl_alive s = {} \<and> fl_preparing s = {} \<and> fleet_bounded hostBytes env s"

lemma sum_filter_mono:
  assumes "\<And>x. x \<in> set xs \<Longrightarrow> P x \<Longrightarrow> Q x"
  shows "sum_list (map (\<lambda>b. uint (f b)) (filter P xs)) \<le> sum_list (map (\<lambda>b. uint (f b)) (filter Q xs))"
  using assms
proof (induction xs)
  case (Cons x xs)
  then have "sum_list (map (\<lambda>b. uint (f b)) (filter P xs)) \<le> sum_list (map (\<lambda>b. uint (f b)) (filter Q xs))" by simp
  moreover have "0 \<le> uint (f x)" by simp
  ultimately show ?case using Cons.prems by (auto simp: add_increasing)
qed simp

lemma committed_nonneg: "0 \<le> committed s"
  unfolding committed_def by (rule sum_list_nonneg) auto

lemma fits_mono:
  assumes "fits hostBytes env s" and "fl_boxes t = fl_boxes s"
    and "fl_alive t \<union> fl_preparing t \<subseteq> fl_alive s \<union> fl_preparing s"
  shows "fits hostBytes env t"
proof -
  have "committed t \<le> committed s"
    unfolding committed_def assms(2) using assms(3) by (intro sum_filter_mono) blast
  with assms(1) committed_nonneg [of t] show ?thesis by (auto simp: fits_def)
qed

lemma committed_admit:
  assumes "distinct (map bx_Name (fl_boxes s))" and "sb \<in> set (fl_boxes s)"
    and "bx_Name sb \<notin> fl_alive s" and "fl_preparing s = {}"
  shows "committed (s\<lparr>fl_preparing := {bx_Name sb}\<rparr>) = uint (ceiling_of sb) + committed s"
proof -
  from assms(2) obtain xs ys where b: "fl_boxes s = xs @ sb # ys" by (auto simp: in_set_conv_decomp)
  with assms(1) have "\<forall>x \<in> set xs \<union> set ys. bx_Name x \<noteq> bx_Name sb" by (auto simp: image_iff)
  then have "filter (\<lambda>x. bx_Name x = bx_Name sb \<or> bx_Name x \<in> fl_alive s) zs = filter (\<lambda>x. bx_Name x \<in> fl_alive s) zs"
    if "set zs \<subseteq> set xs \<union> set ys" for zs
    using that by (intro filter_cong) auto
  with assms(3,4) show ?thesis by (simp add: committed_def b)
qed

lemma admitted_fits:
  assumes "fleet_bounded hostBytes env s" and "sb \<in> set (fl_boxes s)"
    and "bx_Name sb \<notin> fl_alive s" and "fl_preparing s = {}"
    and "admitMemoryForStart (Some hostBytes) env (\<lambda>n. n \<in> fl_alive s) (Some (fl_boxes s)) sb = None"
  shows "fits hostBytes env (s\<lparr>fl_preparing := {bx_Name sb}\<rparr>)"
proof -
  let ?host = "hostBytes div (1024 * 1024)"
  let ?others = "otherRunningCeilingsMiB (\<lambda>n. n \<in> fl_alive s) (Some (fl_boxes s)) (bx_Name sb)"
  have "filter (\<lambda>b. \<not> (bx_Name b = bx_Name sb \<or> bx_Name b \<notin> fl_alive s)) (fl_boxes s) =
      filter (\<lambda>b. bx_Name b \<in> fl_alive s \<union> fl_preparing s) (fl_boxes s)"
    using assms(3,4) by (intro filter_cong) auto
  then have others: "sum_list (map uint ?others) = committed s"
    by (simp add: otherRunningCeilingsMiB_def committed_def comp_def)
  have small: "committed (s\<lparr>fl_preparing := {bx_Name sb}\<rparr>) < 2 ^ 62"
    using sum_filter_mono [of "fl_boxes s" "\<lambda>b. bx_Name b \<in> fl_alive s \<union> {bx_Name sb}" "\<lambda>_. True" ceiling_of] assms(1)
    by (simp add: committed_def fleet_bounded_def)
  have new: "committed (s\<lparr>fl_preparing := {bx_Name sb}\<rparr>) = uint (ceiling_of sb) + committed s"
    using assms(1) by (intro committed_admit assms(2-4)) (simp add: fleet_bounded_def)
  have "uint (ceiling_of sb) < 2 ^ 62" "committed s < 2 ^ 62"
    using small new committed_nonneg [of s] uint_ge_0 [of "ceiling_of sb"] by linarith+
  moreover have "uint ?host < 2 ^ 62"
  proof -
    have "uint hostBytes < 2 ^ LENGTH(64)" by (rule unsigned_less)
    then show ?thesis by (simp add: uint_div)
  qed
  ultimately have "uint (ceiling_of sb) + committed s + uint (hostReserveMiB env ?host) \<le> uint ?host"
    using admit_iff [of ?host "hostReserveMiB env ?host" ?others "ceiling_of sb"] assms(1,5) ceiling_of_pos [of sb]
    by (simp add: others admitMemoryForStart_def Let_def fleet_bounded_def)
  with new show ?thesis by (simp add: fits_def)
qed

lemma fleet_step_keeps:
  assumes "serial_step hostBytes env s t" and "fleet_bounded hostBytes env s" and "fits hostBytes env s"
  shows "fleet_bounded hostBytes env t \<and> fits hostBytes env t"
  using assms(1)
proof cases
  case serial
  from serial(1) show ?thesis
  proof cases
    case (admit sb)
    with serial(2) have "fl_preparing s = {}" by auto
    with admitted_fits [OF assms(2) admit(2,3) _ admit(5)] admit assms(2) show ?thesis
      by (simp add: fleet_bounded_def)
  qed (use assms(2) in \<open>auto simp: fleet_bounded_def intro!: fits_mono [OF assms(3)]\<close>)
qed

interpretation fleet: inv_system "fleet_init hostBytes env" "serial_step hostBytes env"
  "\<lambda>s. fleet_bounded hostBytes env s \<and> fits hostBytes env s" for hostBytes env
proof
  show "fleet_bounded hostBytes env s \<and> fits hostBytes env s" if "fleet_init hostBytes env s" for s
    using that by (simp add: fleet_init_def fits_def committed_def)
qed (use fleet_step_keeps in blast)


section \<open>Properties\<close>

text \<open>
  The admission check is exact within 62-bit sizes: a sandbox is admitted exactly when its ceiling,
  the ceilings of the running ones and the host reserve fit in the host together (or it wants
  nothing). A ceiling of \<open>2 ^ 63\<close> MiB or more is read as a negative number and always admitted.
\<close>

theorem admission_exact:
  assumes "uint host < 2 ^ 62" and "uint reserve < 2 ^ 62" and "sum_list (map uint others) < 2 ^ 62"
  shows "admitGuestMemory want others host reserve = None \<longleftrightarrow>
    (if uint want < 2 ^ 63
     then want = 0 \<or> uint want + sum_list (map uint others) + uint reserve \<le> uint host else True)"
proof (cases "uint want < 2 ^ 63")
  case False
  have "uint want < 2 ^ LENGTH(64)" by (rule unsigned_less)
  with False have "uint want div 2 ^ 63 = 1" by simp
  then have "bit (uint want) 63" by (simp add: bit_iff_odd)
  then have "sint want < 0" by (simp add: sint_uint)
  moreover have "0 \<le> sint (available others host reserve)" by (simp add: sint_available [OF assms])
  ultimately show ?thesis using False by (simp add: admitGuestMemory_def word_sless_alt)
qed (use admit_iff [OF assms] in simp)

theorem admission_exact_witness:
  "admitGuestMemory 8192 [4096] 16384 4096 = None \<and> admitGuestMemory 8193 [4096] 16384 4096 \<noteq> None"
  using admission_exact [of 16384 4096 "[4096]" 8192] admission_exact [of 16384 4096 "[4096]" 8193] by simp


definition demo_boxes :: "box list" where
  "demo_boxes = map (\<lambda>n. \<lparr>bx_Name = n, bx_CPU = 2, bx_MemoryMiB = 1024, bx_MemoryMaxMiB = 8192\<rparr>) [''a'', ''b'', ''c'']"

definition demo_fleet :: "gostring set \<Rightarrow> fleet" where
  "demo_fleet preparing = \<lparr>fl_boxes = demo_boxes, fl_alive = {}, fl_preparing = preparing\<rparr>"

definition demo_host :: uint64 where
  "demo_host = 16384 * 1024 * 1024"

lemma demo_ceiling: "sb \<in> set demo_boxes \<Longrightarrow> ceiling_of sb = 8192"
  by (auto simp: demo_boxes_def ceiling_of_def specResources_def spec_memory_def)

lemma demo_init: "fleet_init demo_host [] (demo_fleet {})"
proof -
  have "distinct (map bx_Name demo_boxes)" by (simp add: demo_boxes_def)
  moreover have "sum_list (map (\<lambda>b. uint (ceiling_of b)) demo_boxes) = 24576"
    by (simp add: demo_boxes_def ceiling_of_def specResources_def spec_memory_def)
  ultimately show ?thesis
    by (simp add: fleet_init_def demo_fleet_def fleet_bounded_def demo_host_def hostReserveMiB_def hostReserveFloorMiB_def)
qed

lemma demo_admit:
  assumes "n \<in> bx_Name ` set demo_boxes" and "n \<notin> p"
  shows "fleet_step demo_host [] (demo_fleet p) (demo_fleet (insert n p))"
proof -
  from assms(1) obtain sb where sb: "sb \<in> set demo_boxes" "n = bx_Name sb" by blast
  have "admitMemoryForStart (Some demo_host) [] (\<lambda>n. n \<in> fl_alive (demo_fleet p)) (Some (fl_boxes (demo_fleet p))) sb = None"
    by (simp add: admitMemoryForStart_def demo_fleet_def otherRunningCeilingsMiB_def demo_ceiling [OF sb(1)] demo_host_def
        hostReserveMiB_def hostReserveFloorMiB_def admitGuestMemory_def available_def word_sless_alt)
  from fleet_step.admit [OF _ _ _ this] sb assms(2) show ?thesis by (simp add: demo_fleet_def)
qed


text \<open>
  Starts that overlap defeat the check: the admission of a sandbox does not count those that were
  admitted and whose process is not visible yet, so the sandboxes started together can claim more
  than the whole physical memory.
\<close>

theorem concurrent_starts_oversubscribe:
  "\<exists>hostBytes env s. reach (fleet_init hostBytes env) (fleet_step hostBytes env) s \<and>
     uint (hostBytes div (1024 * 1024)) < committed s"
proof (intro exI conjI)
  have "reach (fleet_init demo_host []) (fleet_step demo_host []) (demo_fleet {})"
    by (rule reach_init) (rule demo_init)
  then have "reach (fleet_init demo_host []) (fleet_step demo_host []) (demo_fleet {''a''})"
    by (rule reach_step) (rule demo_admit, auto simp: demo_boxes_def)
  then have "reach (fleet_init demo_host []) (fleet_step demo_host []) (demo_fleet {''b'', ''a''})"
    by (rule reach_step) (rule demo_admit, auto simp: demo_boxes_def)
  then show "reach (fleet_init demo_host []) (fleet_step demo_host []) (demo_fleet {''c'', ''b'', ''a''})"
    by (rule reach_step) (rule demo_admit, auto simp: demo_boxes_def)
  show "uint (demo_host div (1024 * 1024)) < committed (demo_fleet {''c'', ''b'', ''a''})"
    by (simp add: committed_def demo_fleet_def demo_boxes_def ceiling_of_def specResources_def spec_memory_def demo_host_def)
qed

text \<open>
  Validated memory directives reach the machine in order: whatever combination of baseline and
  ceiling is written, the baseline that results is at least 64 MiB and at most the ceiling, and below
  \<open>2 ^ 43\<close> MiB the sizes in bytes do not wrap, so the balloon starts between them.
\<close>

theorem validated_memory_ordered:
  assumes "validateResources m mx = None"
    and "spec_memory (fst (normalizeMemory m mx)) (snd (normalizeMemory m mx)) = (b, c)"
  shows "64 \<le> b \<and> b \<le> c \<and>
    (if uint c < 2 ^ 43
     then uint (balloonCeilingBytes b c) = uint c * 2 ^ 20 \<and> uint (b * 1024 * 1024) = uint b * 2 ^ 20 else True)"
proof -
  have "64 \<le> b \<and> b \<le> c"
    using assms by (auto simp: validateResources_def normalizeMemory_def spec_memory_def Let_def word_neq_0_conv
        defaultSandboxMemoryMiB_def defaultSandboxMemoryMaxMiB_def split: if_splits)
  moreover have "uint (w * 1024 * 1024) = uint w * 2 ^ 20" if "uint w < 2 ^ 43" for w :: uint64
    using that by (simp add: uint_word_ariths mod_mult_left_eq)
  ultimately show ?thesis by (auto simp: balloonCeilingBytes_def word_le_def word_less_def)
qed

theorem validated_memory_ordered_witness:
  "64 \<le> fst (spec_memory (fst (normalizeMemory 0 512)) (snd (normalizeMemory 0 512)))"
  using validated_memory_ordered [OF _ surjective_pairing, of 0 512]
  by (simp add: validateResources_def)

end
