(* ===== verification/Idle.thy ===== *)
theory Idle
  imports Resources
begin

text \<open>
  Parking an idle sandbox. \<open>src/internal/cli/idle.go\<close>: the tracker that decides from one sample per
  minute when a sandbox has been idle for its timeout; \<open>src/internal/cli/idle_watchdog_darwin.go\<close>: the
  watchdog that samples, and the stop it attempts; \<open>src/internal/cli/agent_proxy_darwin.go\<close>: the proxy
  whose accept loop counts client sessions, its fence against new sessions, and its judgement whether
  the guest is wedged.

  The tracker is a state with one operation per sample. The accept loop, the sessions and the stop
  attempt run concurrently; they are a step relation whose steps are the atomic operations of the
  code, so that a connection can be accepted and not yet counted.
\<close>

section \<open>Tracker\<close>

definition idleCheckInterval :: duration where "idleCheckInterval = 60 * second"
definition idleBusyLoadCenti :: uint64 where "idleBusyLoadCenti = 25"
definition idleBusyNetBytes :: uint64 where "idleBusyNetBytes = 32 * 1024"

record idleSample =
  is_now :: instant
  is_sessionsActive :: bool
  is_lastSessionNano :: int
  is_statsOK :: bool
  is_hasGuestActivity :: bool
  is_loadCenti :: uint64
  is_netIOBytes :: uint64

record idleTracker =
  it_timeout :: duration
  it_lastActive :: instant
  it_prevNet :: uint64
  it_havePrevNet :: bool

definition newIdleTracker :: "duration \<Rightarrow> instant \<Rightarrow> idleTracker" where
  "newIdleTracker timeout now =
     \<lparr>it_timeout = timeout, it_lastActive = now, it_prevNet = 0, it_havePrevNet = False\<rparr>"

text \<open>\<open>time.Unix\<close>: nanoseconds since 1970, as an instant.\<close>

definition unix_nano :: "int \<Rightarrow> instant" where
  "unix_nano n = 62135596800 * second + n"

definition sample_active :: "idleTracker \<Rightarrow> idleSample \<Rightarrow> bool" where
  "sample_active t s \<longleftrightarrow>
     is_sessionsActive s \<or> \<not> is_statsOK s \<or>
     (is_statsOK s \<and> is_hasGuestActivity s \<and>
        (idleBusyLoadCenti \<le> is_loadCenti s \<or>
         (it_havePrevNet t \<and> it_prevNet t \<le> is_netIOBytes s \<and>
          idleBusyNetBytes \<le> is_netIOBytes s - it_prevNet t)))"

definition rebaseline :: "idleSample \<Rightarrow> idleTracker \<Rightarrow> idleTracker" where
  "rebaseline s t =
     (if is_statsOK s \<and> is_hasGuestActivity s
      then t\<lparr>it_prevNet := is_netIOBytes s, it_havePrevNet := True\<rparr> else t)"

definition next_active :: "idleTracker \<Rightarrow> idleSample \<Rightarrow> instant" where
  "next_active t s =
     (if sample_active t s then is_now s
      else if 0 < is_lastSessionNano s \<and> it_lastActive t < unix_nano (is_lastSessionNano s)
           then unix_nano (is_lastSessionNano s)
      else it_lastActive t)"

definition observe :: "idleSample \<Rightarrow> idleTracker \<Rightarrow> idleTracker \<times> duration \<times> bool" where
  "observe s t =
     (let idleFor = time_sub (is_now s) (next_active t s)
      in ((rebaseline s t)\<lparr>it_lastActive := next_active t s\<rparr>, idleFor, it_timeout t \<le> idleFor))"

definition reset :: "instant \<Rightarrow> idleTracker \<Rightarrow> idleTracker" where
  "reset now t = t\<lparr>it_lastActive := now\<rparr>"

definition VMStateRunning :: gostring where "VMStateRunning = ''running''"
definition VMStateStopped :: gostring where "VMStateStopped = ''stopped''"
definition StopReasonIdle :: gostring where "StopReasonIdle = ''idle''"

record sandbox_status =
  ss_CreatePending :: bool
  ss_DesiredState :: gostring
  ss_VMState :: gostring
  ss_StopReason :: gostring

definition stopReasonFor :: "gostring \<Rightarrow> sandbox_status \<Rightarrow> gostring" where
  "stopReasonFor live sb = (if live = VMStateStopped then ss_StopReason sb else [])"

definition displayVMState :: "gostring \<Rightarrow> sandbox_status \<Rightarrow> gostring" where
  "displayVMState live sb =
     (if stopReasonFor live sb \<noteq> [] then live @ '' ('' @ stopReasonFor live sb @ '')'' else live)"

section \<open>Watchdog\<close>

definition startIdleWatchdog :: "int \<Rightarrow> bool \<Rightarrow> instant \<Rightarrow> idleTracker option" where
  "startIdleWatchdog IdleTimeoutSec has_proxy now =
     (if effectiveIdleTimeout IdleTimeoutSec \<le> 0 then None
      else if \<not> has_proxy then None
      else Some (newIdleTracker (effectiveIdleTimeout IdleTimeoutSec) now))"

definition watchdog_sample :: "instant \<Rightarrow> bool \<Rightarrow> int \<Rightarrow> report_error + GuestStats \<Rightarrow> idleSample" where
  "watchdog_sample now sessions lastSession stats =
     (case stats of
        Inl _ \<Rightarrow> \<lparr>is_now = now, is_sessionsActive = sessions, is_lastSessionNano = lastSession, is_statsOK = False,
                 is_hasGuestActivity = False, is_loadCenti = 0, is_netIOBytes = 0\<rparr>
      | Inr st \<Rightarrow> \<lparr>is_now = now, is_sessionsActive = sessions, is_lastSessionNano = lastSession, is_statsOK = True,
                  is_hasGuestActivity = gs_HasActivity st, is_loadCenti = gs_Load1Centi st,
                  is_netIOBytes = gs_NetIOBytes st\<rparr>)"

section \<open>Proxy and stop attempt\<close>

text \<open>
  \<open>ap_accepted\<close>: the accept loop holds a connection it has not counted yet. \<open>ap_clients\<close> is the number
  of client connections that exist, which the code does not keep; \<open>ap_active\<close> is its counter.
\<close>

record proxy =
  ap_listening :: bool
  ap_suspended :: bool
  ap_loop :: bool
  ap_accepted :: bool
  ap_active :: nat
  ap_clients :: nat
  ap_lastSession :: int

definition startAgentProxy :: proxy where
  "startAgentProxy = \<lparr>ap_listening = True, ap_suspended = False, ap_loop = True, ap_accepted = False,
     ap_active = 0, ap_clients = 0, ap_lastSession = 0\<rparr>"

definition HasActiveSessions :: "proxy \<Rightarrow> bool" where
  "HasActiveSessions p \<longleftrightarrow> 0 < ap_active p"

text \<open>\<open>SuspendAccept\<close> up to its wait for the accept loop.\<close>

definition SuspendAccept :: "proxy \<Rightarrow> proxy" where
  "SuspendAccept p = (if ap_suspended p then p else p\<lparr>ap_suspended := True, ap_listening := False\<rparr>)"

definition ResumeAccept :: "bool \<Rightarrow> proxy \<Rightarrow> proxy \<times> bool" where
  "ResumeAccept listen_ok p =
     (if \<not> ap_suspended p then (p, True)
      else if \<not> listen_ok then (p, False)
      else (p\<lparr>ap_listening := True, ap_suspended := False, ap_loop := True\<rparr>, True))"

definition count_session :: "int \<Rightarrow> proxy \<Rightarrow> proxy" where
  "count_session nano p = p\<lparr>ap_accepted := False, ap_active := Suc (ap_active p), ap_lastSession := nano\<rparr>"

definition end_session :: "int \<Rightarrow> proxy \<Rightarrow> proxy" where
  "end_session nano p = p\<lparr>ap_lastSession := nano, ap_active := ap_active p - 1, ap_clients := ap_clients p - 1\<rparr>"

datatype wd_pc = Sampling | Fencing | Parked

record park_sys =
  pk_proxy :: proxy
  pk_record :: "sandbox_status option"
  pk_loaded :: "sandbox_status option"
  pk_tracker :: idleTracker
  pk_pc :: wd_pc

definition may_park :: "sandbox_status \<Rightarrow> bool" where
  "may_park sb \<longleftrightarrow> \<not> ss_CreatePending sb \<and> ss_DesiredState sb \<noteq> VMStateStopped"

definition parked_record :: "sandbox_status \<Rightarrow> sandbox_status" where
  "parked_record sb = sb\<lparr>ss_VMState := VMStateStopped, ss_StopReason := StopReasonIdle\<rparr>"

definition reverted_record :: "sandbox_status \<Rightarrow> sandbox_status" where
  "reverted_record sb = sb\<lparr>ss_VMState := VMStateRunning, ss_StopReason := []\<rparr>"

text \<open>
  What follows the fence: abort when a session is there, otherwise record the park (a failed write is
  logged only) and signal the daemon; a failed signal writes the record back (a second
  write that can fail on its own). The tracker is reset after
  every abort.
\<close>

definition finish_attempt :: "bool \<Rightarrow> bool \<Rightarrow> bool \<Rightarrow> bool \<Rightarrow> instant \<Rightarrow> park_sys \<Rightarrow> park_sys" where
  "finish_attempt save_ok kill_ok revert_ok listen_ok now s =
     (case pk_loaded s of
        None \<Rightarrow> s
      | Some sb \<Rightarrow>
          if HasActiveSessions (pk_proxy s)
          then s\<lparr>pk_proxy := fst (ResumeAccept listen_ok (pk_proxy s)), pk_tracker := reset now (pk_tracker s),
                 pk_loaded := None, pk_pc := Sampling\<rparr>
          else if kill_ok
          then s\<lparr>pk_record := (if save_ok then Some (parked_record sb) else pk_record s), pk_pc := Parked\<rparr>
          else s\<lparr>pk_record := (if revert_ok then Some (reverted_record (parked_record sb))
                              else if save_ok then Some (parked_record sb) else pk_record s),
                 pk_proxy := fst (ResumeAccept listen_ok (pk_proxy s)), pk_tracker := reset now (pk_tracker s),
                 pk_loaded := None, pk_pc := Sampling\<rparr>)"

inductive park_step :: "park_sys \<Rightarrow> park_sys \<Rightarrow> bool" where
  accept:
    "ap_listening (pk_proxy s) \<Longrightarrow> ap_loop (pk_proxy s) \<Longrightarrow> \<not> ap_accepted (pk_proxy s) \<Longrightarrow>
     park_step s (s\<lparr>pk_proxy := (pk_proxy s)\<lparr>ap_accepted := True, ap_clients := Suc (ap_clients (pk_proxy s))\<rparr>\<rparr>)"
| count:
    "ap_accepted (pk_proxy s) \<Longrightarrow> park_step s (s\<lparr>pk_proxy := count_session nano (pk_proxy s)\<rparr>)"
| loop_exit:
    "\<not> ap_listening (pk_proxy s) \<Longrightarrow> \<not> ap_accepted (pk_proxy s) \<Longrightarrow>
     park_step s (s\<lparr>pk_proxy := (pk_proxy s)\<lparr>ap_loop := False\<rparr>\<rparr>)"
| session_end:
    "0 < ap_active (pk_proxy s) \<Longrightarrow> park_step s (s\<lparr>pk_proxy := end_session nano (pk_proxy s)\<rparr>)"
| sample_quiet:
    "pk_pc s = Sampling \<Longrightarrow>
     smp = watchdog_sample now (HasActiveSessions (pk_proxy s)) (ap_lastSession (pk_proxy s)) stats \<Longrightarrow>
     observe smp (pk_tracker s) = (t, idleFor, False) \<Longrightarrow> park_step s (s\<lparr>pk_tracker := t\<rparr>)"
| sample_refused:
    "pk_pc s = Sampling \<Longrightarrow>
     smp = watchdog_sample now (HasActiveSessions (pk_proxy s)) (ap_lastSession (pk_proxy s)) stats \<Longrightarrow>
     observe smp (pk_tracker s) = (t, idleFor, True) \<Longrightarrow> pk_record s = None \<or> \<not> may_park (the (pk_record s)) \<Longrightarrow>
     park_step s (s\<lparr>pk_tracker := reset now' t\<rparr>)"
| fence:
    "pk_pc s = Sampling \<Longrightarrow>
     smp = watchdog_sample now (HasActiveSessions (pk_proxy s)) (ap_lastSession (pk_proxy s)) stats \<Longrightarrow>
     observe smp (pk_tracker s) = (t, idleFor, True) \<Longrightarrow> pk_record s = Some sb \<Longrightarrow> may_park sb \<Longrightarrow>
     park_step s (s\<lparr>pk_tracker := t, pk_loaded := Some sb, pk_proxy := SuspendAccept (pk_proxy s), pk_pc := Fencing\<rparr>)"
| attempt:
    "pk_pc s = Fencing \<Longrightarrow> \<not> ap_loop (pk_proxy s) \<Longrightarrow> park_step s (finish_attempt save_ok kill_ok revert_ok listen_ok now s)"
| record_edited:
    "park_step s (s\<lparr>pk_record := r\<rparr>)"

section \<open>Wedge detection\<close>

definition wedgeThreshold :: int where "wedgeThreshold = 3"

record dials =
  dl_count :: int
  dl_wedged :: bool

datatype dial_result = DialOK | DialInvalidState | DialError

definition handle_dial :: "dial_result \<Rightarrow> dials \<Rightarrow> dials" where
  "handle_dial r d =
     (case r of
        DialInvalidState \<Rightarrow> d
      | DialError \<Rightarrow> \<lparr>dl_count = dl_count d + 1, dl_wedged = (dl_count d + 1 = wedgeThreshold \<or> dl_wedged d)\<rparr>
      | DialOK \<Rightarrow> if 0 < dl_count d then \<lparr>dl_count = 0, dl_wedged = False\<rparr> else d)"

text \<open>
  The same with the atomic operations of concurrent handlers apart: a handler that failed increments
  and, when its increment reached the threshold, sets the flag later; a handler that succeeded loads
  the counter, clears it, loads the flag and clears it.
\<close>

datatype handler = Fail | SetWedged | Loaded | Cleared | SawWedged

inductive dial_step :: "dials \<times> handler list \<Rightarrow> dials \<times> handler list \<Rightarrow> bool" where
  fail: "dial_step (d, hs) (d\<lparr>dl_count := dl_count d + 1\<rparr>, if dl_count d + 1 = wedgeThreshold then SetWedged # hs else hs)"
| set_wedged: "dial_step (d, xs @ SetWedged # ys) (d\<lparr>dl_wedged := True\<rparr>, xs @ ys)"
| ok_load: "dial_step (d, hs) (d, if 0 < dl_count d then Loaded # hs else hs)"
| ok_clear: "dial_step (d, xs @ Loaded # ys) (d\<lparr>dl_count := 0\<rparr>, xs @ Cleared # ys)"
| ok_check: "dial_step (d, xs @ Cleared # ys) (d, if dl_wedged d then xs @ SawWedged # ys else xs @ ys)"
| ok_recover: "dial_step (d, xs @ SawWedged # ys) (d\<lparr>dl_wedged := False\<rparr>, xs @ ys)"


section \<open>Lemmas\<close>

subsection \<open>Tracker\<close>

definition observe_run :: "idleSample list \<Rightarrow> idleTracker \<Rightarrow> idleTracker" where
  "observe_run ss t = fold (\<lambda>s t. fst (observe s t)) ss t"

text \<open>Every activity the samples show is at or before an instant.\<close>

fun active_before :: "instant \<Rightarrow> idleTracker \<Rightarrow> idleSample list \<Rightarrow> bool" where
  "active_before b t [] = True"
| "active_before b t (s # ss) \<longleftrightarrow>
     (if sample_active t s then is_now s \<le> b else True) \<and>
     (if 0 < is_lastSessionNano s then unix_nano (is_lastSessionNano s) \<le> b else True) \<and>
     active_before b (fst (observe s t)) ss"

fun samples_ordered :: "instant \<Rightarrow> idleSample list \<Rightarrow> bool" where
  "samples_ordered b [] = True"
| "samples_ordered b (s # ss) \<longleftrightarrow> b \<le> is_now s \<and>
     (if 0 < is_lastSessionNano s then unix_nano (is_lastSessionNano s) \<le> is_now s else True) \<and> samples_ordered (is_now s) ss"

lemma observe_fields [simp]:
  "it_timeout (fst (observe s t)) = it_timeout t" "it_lastActive (fst (observe s t)) = next_active t s"
  by (simp_all add: observe_def rebaseline_def Let_def)

lemma observe_run_timeout [simp]: "it_timeout (observe_run ss t) = it_timeout t"
  unfolding observe_run_def by (induction ss arbitrary: t) simp_all

lemma next_active_le:
  assumes "it_lastActive t \<le> is_now s"
    and "if 0 < is_lastSessionNano s then unix_nano (is_lastSessionNano s) \<le> is_now s else True"
  shows "next_active t s \<le> is_now s"
    "next_active t s \<le> b \<longleftrightarrow> it_lastActive t \<le> b \<and> (if sample_active t s then is_now s \<le> b else True) \<and>
      (if 0 < is_lastSessionNano s then unix_nano (is_lastSessionNano s) \<le> b else True)"
  using assms by (auto simp: next_active_def split: if_splits)

lemma lastActive_le_iff:
  "samples_ordered l ss \<Longrightarrow> it_lastActive t \<le> l \<Longrightarrow>
    it_lastActive (observe_run ss t) \<le> b \<longleftrightarrow> it_lastActive t \<le> b \<and> active_before b t ss"
proof (induction ss arbitrary: t l)
  case (Cons s ss)
  then have le: "it_lastActive t \<le> is_now s"
    "if 0 < is_lastSessionNano s then unix_nano (is_lastSessionNano s) \<le> is_now s else True" and ord: "samples_ordered (is_now s) ss" by simp_all
  note nxt = next_active_le [OF le]
  have "it_lastActive (observe_run ss (fst (observe s t))) \<le> b \<longleftrightarrow>
      next_active t s \<le> b \<and> active_before b (fst (observe s t)) ss"
    using Cons.IH [OF ord, of "fst (observe s t)"] nxt(1) by simp
  with nxt(2) [of b] show ?case by (simp add: observe_run_def)
qed (simp add: observe_run_def)

subsection \<open>The fence\<close>

definition park_init :: "park_sys \<Rightarrow> bool" where
  "park_init s \<longleftrightarrow> pk_proxy s = startAgentProxy \<and> pk_loaded s = None \<and> pk_pc s = Sampling"

definition park_inv :: "park_sys \<Rightarrow> bool" where
  "park_inv s \<longleftrightarrow>
     ap_clients (pk_proxy s) = ap_active (pk_proxy s) + (if ap_accepted (pk_proxy s) then 1 else 0) \<and>
     ap_suspended (pk_proxy s) = (\<not> ap_listening (pk_proxy s)) \<and>
     (ap_loop (pk_proxy s) \<or> \<not> ap_accepted (pk_proxy s) \<and> \<not> ap_listening (pk_proxy s)) \<and>
     (pk_pc s = Sampling \<or> \<not> ap_listening (pk_proxy s)) \<and>
     (pk_pc s \<noteq> Sampling \<longleftrightarrow> pk_loaded s \<noteq> None) \<and>
     (case pk_loaded s of None \<Rightarrow> True | Some sb \<Rightarrow> may_park sb) \<and>
     (pk_pc s = Parked \<longrightarrow> \<not> ap_loop (pk_proxy s) \<and> ap_active (pk_proxy s) = 0)"

lemmas proxy_defs = startAgentProxy_def HasActiveSessions_def SuspendAccept_def ResumeAccept_def count_session_def
  end_session_def

interpretation park: inv_system park_init park_step park_inv
proof
  show "park_inv s" if "park_init s" for s
    using that by (simp add: park_init_def park_inv_def proxy_defs)
  show "park_inv t" if "park_inv s" "park_step s t" for s t
    using that(2,1)
  proof (induction rule: park_step.induct)
    case (attempt s save_ok kill_ok revert_ok listen_ok now)
    then show ?case
      by (cases "pk_loaded s") (auto simp: park_inv_def finish_attempt_def proxy_defs)
  qed (auto simp: park_inv_def proxy_defs)
qed

subsection \<open>Wedge\<close>

definition wedge_run :: "dial_result list \<Rightarrow> dials \<Rightarrow> dials" where
  "wedge_run rs d = fold handle_dial rs d"

text \<open>The failures since the last success, refusals of a paused machine apart.\<close>

definition recent_failures :: "dial_result list \<Rightarrow> nat" where
  "recent_failures rs = length (takeWhile (\<lambda>r. r = DialError) (filter (\<lambda>r. r \<noteq> DialInvalidState) (rev rs)))"

lemma wedge_run_state:
  "wedge_run rs \<lparr>dl_count = 0, dl_wedged = False\<rparr> =
     \<lparr>dl_count = int (recent_failures rs), dl_wedged = (3 \<le> recent_failures rs)\<rparr>"
proof (induction rs rule: rev_induct)
  case (snoc r rs)
  then show ?case
    by (cases r) (auto simp: wedge_run_def recent_failures_def handle_dial_def wedgeThreshold_def)
qed (simp add: wedge_run_def recent_failures_def)


section \<open>Properties\<close>


definition demo_status :: sandbox_status where
  "demo_status = \<lparr>ss_CreatePending = False, ss_DesiredState = VMStateRunning, ss_VMState = VMStateRunning, ss_StopReason = []\<rparr>"

definition demo_tracker :: idleTracker where
  "demo_tracker = newIdleTracker (60 * second) 1"

definition demo_park :: park_sys where
  "demo_park = \<lparr>pk_proxy = startAgentProxy, pk_record = Some demo_status, pk_loaded = None,
     pk_tracker = demo_tracker, pk_pc = Sampling\<rparr>"

definition quiet_stats :: GuestStats where
  "quiet_stats = guest_stats no_report"

definition demo_fenced :: park_sys where
  "demo_fenced = demo_park\<lparr>pk_tracker := fst (observe (watchdog_sample (61 * second) False 0 (Inr quiet_stats)) demo_tracker),
     pk_loaded := Some demo_status, pk_proxy := SuspendAccept startAgentProxy, pk_pc := Fencing\<rparr>"

definition demo_parked :: park_sys where
  "demo_parked = finish_attempt True True True True 1 (demo_fenced\<lparr>pk_proxy := (pk_proxy demo_fenced)\<lparr>ap_loop := False\<rparr>\<rparr>)"

lemma demo_parked_reach: "reach park_init park_step demo_parked"
proof -
  have "reach park_init park_step demo_park" by (rule reach_init) (simp add: park_init_def demo_park_def)
  moreover have "observe (watchdog_sample (61 * second) False 0 (Inr quiet_stats)) demo_tracker =
      (fst (observe (watchdog_sample (61 * second) False 0 (Inr quiet_stats)) demo_tracker), 61 * second - 1, True)"
    by (simp add: observe_def watchdog_sample_def quiet_stats_def guest_stats_def no_report_def demo_tracker_def
        newIdleTracker_def next_active_def sample_active_def Let_def time_sub_def max_duration_def min_duration_def second_def)
  then have "park_step demo_park demo_fenced"
    unfolding demo_fenced_def
    using park_step.fence [of demo_park "watchdog_sample (61 * second) False 0 (Inr quiet_stats)" "61 * second" "Inr quiet_stats"]
    by (simp add: demo_park_def startAgentProxy_def HasActiveSessions_def may_park_def demo_status_def VMStateRunning_def
        VMStateStopped_def)
  ultimately have "reach park_init park_step demo_fenced" by (rule reach_step)
  then have "reach park_init park_step (demo_fenced\<lparr>pk_proxy := (pk_proxy demo_fenced)\<lparr>ap_loop := False\<rparr>\<rparr>)"
    by (rule reach_step) (rule park_step.loop_exit, simp_all add: demo_fenced_def proxy_defs)
  then show ?thesis unfolding demo_parked_def
    by (rule reach_step) (rule park_step.attempt, simp_all add: demo_fenced_def)
qed


text \<open>
  The tracker reports expiry exactly when everything that counts as activity is at least the
  timeout ago: the start of the window, every sample with an open session, an unreadable guest, load
  or traffic, and every start or end of a session the proxy saw, also between samples. Samples come in
  order and session times are not in the future.
\<close>

theorem idle_expiry_exact:
  assumes "samples_ordered l (ss @ [s])" and "it_lastActive t \<le> l" and "0 < it_timeout t"
    and "it_timeout t \<le> max_duration"
  shows "snd (snd (observe s (observe_run ss t))) \<longleftrightarrow>
    it_lastActive t \<le> is_now s - it_timeout t \<and> active_before (is_now s - it_timeout t) t (ss @ [s])"
proof -
  have "fst (observe s (observe_run ss t)) = observe_run (ss @ [s]) t" by (simp add: observe_run_def)
  then have "next_active (observe_run ss t) s = it_lastActive (observe_run (ss @ [s]) t)"
    using observe_fields(2) [of s "observe_run ss t"] by simp
  with lastActive_le_iff [OF assms(1,2), of "is_now s - it_timeout t"] assms(3,4) show ?thesis
    by (auto simp: observe_def Let_def time_sub_def min_duration_def max_duration_def min_le_iff_disj le_max_iff_disj)
qed

theorem idle_expiry_exact_witness:
  "snd (snd (observe (watchdog_sample (61 * second) False 0 (Inr quiet_stats)) (observe_run [] demo_tracker)))"
  using idle_expiry_exact [of 1 "[]" "watchdog_sample (61 * second) False 0 (Inr quiet_stats)" demo_tracker]
  by (simp add: watchdog_sample_def demo_tracker_def newIdleTracker_def second_def max_duration_def quiet_stats_def
      guest_stats_def no_report_def sample_active_def)

text \<open>
  With handlers one at a time the wedge flag is exact: it is set exactly while the last three or
  more dials that count failed. With concurrent handlers it can stick: a handler whose failure reaches
  the threshold can set the flag after another handler's success has cleared the counter, and then no
  successful dial clears it, because a success looks at the flag only when the counter is positive.
\<close>

theorem wedge_flag_exact_but_races:
  "wedge_run rs \<lparr>dl_count = 0, dl_wedged = False\<rparr> =
     \<lparr>dl_count = int (recent_failures rs), dl_wedged = (3 \<le> recent_failures rs)\<rparr> \<and>
   reach (\<lambda>s. s = (\<lparr>dl_count = 0, dl_wedged = False\<rparr>, [])) dial_step (\<lparr>dl_count = 0, dl_wedged = True\<rparr>, []) \<and>
   wedge_run (replicate n DialOK) \<lparr>dl_count = 0, dl_wedged = True\<rparr> = \<lparr>dl_count = 0, dl_wedged = True\<rparr>"
proof (intro conjI)
  let ?r = "reach (\<lambda>s. s = (\<lparr>dl_count = 0, dl_wedged = False\<rparr>, [])) dial_step"
  show "wedge_run rs \<lparr>dl_count = 0, dl_wedged = False\<rparr> =
      \<lparr>dl_count = int (recent_failures rs), dl_wedged = (3 \<le> recent_failures rs)\<rparr>" by (rule wedge_run_state)
  show "wedge_run (replicate n DialOK) \<lparr>dl_count = 0, dl_wedged = True\<rparr> = \<lparr>dl_count = 0, dl_wedged = True\<rparr>"
    by (induction n) (simp_all add: wedge_run_def handle_dial_def)
  have "?r (\<lparr>dl_count = 0, dl_wedged = False\<rparr>, [])" by (rule reach_init) simp
  from reach_step [OF this dial_step.fail] have "?r (\<lparr>dl_count = 1, dl_wedged = False\<rparr>, [])"
    by (simp add: wedgeThreshold_def)
  from reach_step [OF this dial_step.fail] have "?r (\<lparr>dl_count = 2, dl_wedged = False\<rparr>, [])"
    by (simp add: wedgeThreshold_def)
  from reach_step [OF this dial_step.fail] have "?r (\<lparr>dl_count = 3, dl_wedged = False\<rparr>, [SetWedged])"
    by (simp add: wedgeThreshold_def)
  from reach_step [OF this dial_step.ok_load] have "?r (\<lparr>dl_count = 3, dl_wedged = False\<rparr>, [Loaded, SetWedged])" by simp
  from reach_step [OF this] dial_step.ok_clear [of _ "[]" "[SetWedged]"]
  have "?r (\<lparr>dl_count = 3, dl_wedged = False\<rparr>\<lparr>dl_count := 0\<rparr>, [Cleared, SetWedged])" by fastforce
  then have "?r (\<lparr>dl_count = 0, dl_wedged = False\<rparr>, [Cleared, SetWedged])" by simp
  from reach_step [OF this] dial_step.ok_check [of "\<lparr>dl_count = 0, dl_wedged = False\<rparr>" "[]" "[SetWedged]"]
  have "?r (\<lparr>dl_count = 0, dl_wedged = False\<rparr>, [SetWedged])" by fastforce
  from reach_step [OF this] dial_step.set_wedged [of "\<lparr>dl_count = 0, dl_wedged = False\<rparr>" "[]" "[]"]
  show "?r (\<lparr>dl_count = 0, dl_wedged = True\<rparr>, [])" by fastforce
qed

end
