(* ===== verification/Records.thy ===== *)
theory Records
  imports Idle NetPolicy
begin

text \<open>
  Sandbox records on disk. \<open>src/internal/config/store.go\<close>: the resolution of a key to a record or a
  directory over the three layouts a store may still hold, and the operations on records;
  \<open>src/internal/config/migrate.go\<close>: the migration log that brings an old store to the current schema;
  the parts of \<open>src/internal/config/types.go\<close> they use.

  A path below the store's root is a place: the current namespaced layout, the interim layout or the
  flat one. Names and namespaces are single path components, as the name validation of the commands
  requires. The disk is the records by place, the directory families that exist, and the schema
  version file; it may refuse writes. Renaming a directory onto one that exists fails.
\<close>

section \<open>Data\<close>

datatype place = Current gostring gostring | Interim gostring gostring | Flat gostring

record Phase =
  ph_Worktree :: gostring
  ph_InPlace :: bool

record SandboxRec =
  rc_Name :: gostring
  rc_Provider :: gostring
  rc_Namespace :: gostring
  rc_Anchor :: gostring
  rc_ResourceVersion :: int
  rc_RecordSchema :: int
  rc_Phases :: "Phase list"
  rc_Network :: NetworkPolicy
  rc_VMState :: gostring

record disk =
  dk_root :: gostring
  dk_records :: "(place, SandboxRec file_state) gomap"
  dk_dirs :: "(gostring \<times> place) list"
  dk_meta :: "int file_state option"
  dk_writable :: bool

datatype record_error =
    SandboxNotFound gostring | RecordRead gostring | RecordWrite | MetaRead | MoveFailed gostring
  | MigrationFailed int record_error

definition ProviderVZ :: gostring where "ProviderVZ = ''vz''"
definition legacyProviderVFKit :: gostring where "legacyProviderVFKit = ''vfkit''"

definition Provider_Normalize :: "gostring \<Rightarrow> gostring" where
  "Provider_Normalize p = (if p = legacyProviderVFKit then ProviderVZ else p)"

definition rec_namespace :: "SandboxRec \<Rightarrow> gostring" where
  "rec_namespace sb = (if rc_Namespace sb = [] then DefaultNamespace else rc_Namespace sb)"

definition Key :: "SandboxRec \<Rightarrow> gostring" where
  "Key sb = rec_namespace sb @ ''/'' @ rc_Name sb"

definition DisplayName :: "gostring \<Rightarrow> gostring" where
  "DisplayName key = key"

section \<open>Resolution\<close>

definition splitKey :: "gostring \<Rightarrow> gostring \<times> gostring" where
  "splitKey key =
     (case cut_byte key (CHR ''/'') of (ns, name, found) \<Rightarrow> if found then (ns, name) else (DefaultNamespace, key))"

definition statExists :: "disk \<Rightarrow> place \<Rightarrow> bool" where
  "statExists dk p \<longleftrightarrow> map_of (dk_records dk) p \<noteq> None"

definition recordPath :: "disk \<Rightarrow> gostring \<Rightarrow> place" where
  "recordPath dk key =
     (case splitKey key of (ns, name) \<Rightarrow>
        if statExists dk (Current ns name) then Current ns name
        else if statExists dk (Interim ns name) then Interim ns name
        else if statExists dk (Flat name) then Flat name
        else Current ns name)"

definition savePath :: "disk \<Rightarrow> SandboxRec \<Rightarrow> place" where
  "savePath dk sb =
     (if statExists dk (recordPath dk (Key sb)) then recordPath dk (Key sb)
      else case splitKey (Key sb) of (ns, name) \<Rightarrow> Current ns name)"

definition dirPath :: "disk \<Rightarrow> gostring \<Rightarrow> gostring \<Rightarrow> place" where
  "dirPath dk kind key =
     (case splitKey key of (ns, name) \<Rightarrow>
        if (kind, Current ns name) \<in> set (dk_dirs dk) then Current ns name
        else if (kind, Interim ns name) \<in> set (dk_dirs dk) then Interim ns name
        else if (kind, Flat name) \<in> set (dk_dirs dk) then Flat name
        else Current ns name)"

definition VMDir :: "disk \<Rightarrow> gostring \<Rightarrow> place" where
  "VMDir dk sandboxName = dirPath dk ''vms'' sandboxName"

definition WorktreeDir :: "disk \<Rightarrow> gostring \<Rightarrow> place" where
  "WorktreeDir dk sandboxName = dirPath dk ''worktrees'' sandboxName"

definition StateDir :: "disk \<Rightarrow> gostring \<Rightarrow> place" where
  "StateDir dk sandboxName = dirPath dk ''state'' sandboxName"

section \<open>Operations\<close>

definition RecordSchemaVersion :: int where "RecordSchemaVersion = 1"

definition stamped :: "SandboxRec \<Rightarrow> SandboxRec" where
  "stamped sb = sb\<lparr>rc_ResourceVersion := rc_ResourceVersion sb + 1, rc_RecordSchema := RecordSchemaVersion\<rparr>"

definition Save :: "SandboxRec \<Rightarrow> disk \<Rightarrow> record_error + disk" where
  "Save sb dk =
     (if dk_writable dk
      then Inr (dk\<lparr>dk_records := AList.update (savePath dk sb) (Content (stamped sb)) (dk_records dk)\<rparr>)
      else Inl RecordWrite)"

definition Load :: "disk \<Rightarrow> gostring \<Rightarrow> record_error + SandboxRec" where
  "Load dk name =
     (case map_of (dk_records dk) (recordPath dk name) of
        None \<Rightarrow> Inl (SandboxNotFound name)
      | Some Unreadable \<Rightarrow> Inl (RecordRead name)
      | Some (Content sb) \<Rightarrow> Inr (sb\<lparr>rc_Network := Normalize (rc_Network sb)\<rparr>))"

definition Delete :: "gostring \<Rightarrow> disk \<Rightarrow> record_error + disk" where
  "Delete name dk =
     (if \<not> statExists dk (recordPath dk name) then Inl (SandboxNotFound name)
      else if \<not> dk_writable dk then Inl RecordWrite
      else Inr (dk\<lparr>dk_records := AList.delete (recordPath dk name) (dk_records dk)\<rparr>))"

definition Exists :: "disk \<Rightarrow> gostring \<Rightarrow> bool" where
  "Exists dk name \<longleftrightarrow> statExists dk (recordPath dk name)"

text \<open>
  The scan of \<open>List\<close>: directories are read in the order of file names, the current layout first, then the
  legacy directory, in which the flat records and the namespace directories are entries side by side.
\<close>

definition scan_key :: "place \<Rightarrow> nat \<times> gostring \<times> gostring" where
  "scan_key p =
     (case p of
        Current ns name \<Rightarrow> (0, ns, name @ ''.json'')
      | Interim ns name \<Rightarrow> (1, ns, name @ ''.json'')
      | Flat name \<Rightarrow> (1, name @ ''.json'', []))"

definition place_key :: "place \<Rightarrow> gostring" where
  "place_key p =
     (case p of Current ns name \<Rightarrow> ns @ ''/'' @ name | Interim ns name \<Rightarrow> ns @ ''/'' @ name | Flat name \<Rightarrow> name)"

definition scan_order :: "disk \<Rightarrow> gostring list" where
  "scan_order dk = map place_key (sort_key scan_key (map fst (dk_records dk)))"

fun add_records :: "disk \<Rightarrow> (gostring \<times> gostring) list \<Rightarrow> gostring list \<Rightarrow> SandboxRec list" where
  "add_records dk seen [] = []"
| "add_records dk seen (key # keys) =
     (if splitKey key \<in> set seen then add_records dk seen keys
      else case Load dk key of
        Inr sb \<Rightarrow> sb # add_records dk (splitKey key # seen) keys
      | Inl _ \<Rightarrow> add_records dk seen keys)"

definition List_records :: "disk \<Rightarrow> SandboxRec list" where
  "List_records dk = add_records dk [] (scan_order dk)"

section \<open>Migrations\<close>

record migResult =
  mg_changed :: nat
  mg_deferred :: "gostring list"

text \<open>A step that edits records one by one: those the edit leaves alone are skipped, a failed write ends it.\<close>

fun edit_records :: "(SandboxRec \<Rightarrow> SandboxRec option) \<Rightarrow> SandboxRec list \<Rightarrow> nat \<Rightarrow> disk \<Rightarrow> disk \<times> (record_error + migResult)" where
  "edit_records f [] n dk = (dk, Inr \<lparr>mg_changed = n, mg_deferred = []\<rparr>)"
| "edit_records f (sb # sbs) n dk =
     (case f sb of
        None \<Rightarrow> edit_records f sbs n dk
      | Some sb' \<Rightarrow>
          (case Save sb' dk of Inl err \<Rightarrow> (dk, Inl err) | Inr dk' \<Rightarrow> edit_records f sbs (Suc n) dk'))"

definition normalize_provider :: "SandboxRec \<Rightarrow> SandboxRec option" where
  "normalize_provider sb =
     (if Provider_Normalize (rc_Provider sb) \<noteq> rc_Provider sb
      then Some (sb\<lparr>rc_Provider := Provider_Normalize (rc_Provider sb)\<rparr>) else None)"

definition migNormalizeProviders :: "disk \<Rightarrow> disk \<times> (record_error + migResult)" where
  "migNormalizeProviders dk = edit_records normalize_provider (List_records dk) 0 dk"

fun legacyAnchor_phases :: "Phase list \<Rightarrow> gostring" where
  "legacyAnchor_phases [] = []"
| "legacyAnchor_phases (p # ps) = (if ph_InPlace p \<and> ph_Worktree p \<noteq> [] then ph_Worktree p else legacyAnchor_phases ps)"

definition legacyAnchor :: "SandboxRec \<Rightarrow> gostring" where
  "legacyAnchor sb = legacyAnchor_phases (rc_Phases sb)"

definition backfill :: "SandboxRec \<Rightarrow> SandboxRec option" where
  "backfill sb =
     (let sb1 = (if rc_Anchor sb = [] \<and> legacyAnchor sb \<noteq> [] then sb\<lparr>rc_Anchor := legacyAnchor sb\<rparr> else sb);
          sb2 = (if rc_Namespace sb1 = [] then sb1\<lparr>rc_Namespace := DefaultNamespace\<rparr> else sb1)
      in if sb2 = sb then None else Some sb2)"

definition migBackfillFields :: "disk \<Rightarrow> disk \<times> (record_error + migResult)" where
  "migBackfillFields dk = edit_records backfill (List_records dk) 0 dk"

definition fold_network :: "SandboxRec \<Rightarrow> SandboxRec option" where
  "fold_network sb =
     (if has_legacy (rc_Network sb) then Some (sb\<lparr>rc_Network := Normalize (rc_Network sb)\<rparr>) else None)"

definition migNetworkBlocks :: "disk \<Rightarrow> disk \<times> (record_error + migResult)" where
  "migNetworkBlocks dk = edit_records fold_network (List_records dk) 0 dk"

text \<open>Absolute paths, as the phases store them.\<close>

definition place_path :: "disk \<Rightarrow> gostring \<Rightarrow> place \<Rightarrow> gostring" where
  "place_path dk kind p =
     dk_root dk @ (case p of
        Current ns name \<Rightarrow> ''/namespaces/'' @ ns @ ''/'' @ kind @ ''/'' @ name
      | Interim ns name \<Rightarrow> ''/'' @ kind @ ''/'' @ ns @ ''/'' @ name
      | Flat name \<Rightarrow> ''/'' @ kind @ ''/'' @ name)"

definition move_dir :: "SandboxRec \<Rightarrow> gostring \<Rightarrow> gostring \<Rightarrow> disk \<Rightarrow> disk \<times> record_error option" where
  "move_dir sb cleanName kind dk =
     (let src = dirPath dk kind (rc_Name sb); dst = Current (rec_namespace sb) cleanName in
      if src = dst \<or> (kind, src) \<notin> set (dk_dirs dk) then (dk, None)
      else if \<not> dk_writable dk \<or> (kind, dst) \<in> set (dk_dirs dk) then (dk, Some (MoveFailed kind))
      else (dk\<lparr>dk_dirs := (kind, dst) # filter (\<lambda>d. d \<noteq> (kind, src)) (dk_dirs dk)\<rparr>, None))"

fun move_dirs :: "SandboxRec \<Rightarrow> gostring \<Rightarrow> gostring list \<Rightarrow> disk \<Rightarrow> disk \<times> record_error option" where
  "move_dirs sb cleanName [] dk = (dk, None)"
| "move_dirs sb cleanName (kind # kinds) dk =
     (case move_dir sb cleanName kind dk of
        (dk', Some err) \<Rightarrow> (dk', Some err)
      | (dk', None) \<Rightarrow> move_dirs sb cleanName kinds dk')"

definition rebase_phase :: "disk \<Rightarrow> SandboxRec \<Rightarrow> gostring \<Rightarrow> Phase \<Rightarrow> Phase" where
  "rebase_phase dk sb cleanName p =
     (if ph_InPlace p \<or> ph_Worktree p = [] then p
      else case find (has_prefix (ph_Worktree p))
               [place_path dk ''worktrees'' (Flat (rc_Name sb)),
                place_path dk ''worktrees'' (Interim (rec_namespace sb) (rc_Name sb))] of
        None \<Rightarrow> p
      | Some old \<Rightarrow> p\<lparr>ph_Worktree := place_path dk ''worktrees'' (Current (rec_namespace sb) cleanName) @
                        drop (length old) (ph_Worktree p)\<rparr>)"

definition nested :: "disk \<Rightarrow> SandboxRec \<Rightarrow> gostring \<Rightarrow> SandboxRec" where
  "nested dk sb cleanName = sb\<lparr>rc_Phases := map (rebase_phase dk sb cleanName) (rc_Phases sb), rc_Name := cleanName\<rparr>"

definition nest :: "SandboxRec \<Rightarrow> gostring \<Rightarrow> disk \<Rightarrow> disk \<times> record_error option" where
  "nest sb cleanName dk =
     (case move_dirs sb cleanName [''vms'', ''worktrees'', ''state''] dk of
        (dk1, Some err) \<Rightarrow> (dk1, Some err)
      | (dk1, None) \<Rightarrow>
          let old = recordPath dk1 (Key sb); dest = Current (rec_namespace sb) cleanName in
          if \<not> dk_writable dk1 then (dk1, Some RecordWrite)
          else
            let dk2 = dk1\<lparr>dk_records := AList.update dest (Content (nested dk1 sb cleanName)) (dk_records dk1)\<rparr>
            in (if old = dest then dk2 else dk2\<lparr>dk_records := AList.delete old (dk_records dk2)\<rparr>, None))"

definition nest_one :: "SandboxRec \<Rightarrow> migResult \<Rightarrow> disk \<Rightarrow> disk \<times> (record_error + migResult)" where
  "nest_one sb res dk =
     (let cleanName = DisplayName (rc_Name sb); dest = Current (rec_namespace sb) cleanName in
      if statExists dk dest
      then (dk, Inr (if recordPath dk (Key sb) = dest then res
                     else res\<lparr>mg_deferred := mg_deferred res @ [cleanName]\<rparr>))
      else if rc_VMState sb = VMStateRunning
      then (dk, Inr (res\<lparr>mg_deferred := mg_deferred res @ [cleanName]\<rparr>))
      else case nest sb cleanName dk of
        (dk', Some err) \<Rightarrow> (dk', Inl err)
      | (dk', None) \<Rightarrow> (dk', Inr (res\<lparr>mg_changed := Suc (mg_changed res)\<rparr>)))"

fun nest_all :: "SandboxRec list \<Rightarrow> migResult \<Rightarrow> disk \<Rightarrow> disk \<times> (record_error + migResult)" where
  "nest_all [] res dk = (dk, Inr res)"
| "nest_all (sb # sbs) res dk =
     (case nest_one sb res dk of
        (dk', Inl err) \<Rightarrow> (dk', Inl err)
      | (dk', Inr res') \<Rightarrow> nest_all sbs res' dk')"

definition migNestNamespaces :: "disk \<Rightarrow> disk \<times> (record_error + migResult)" where
  "migNestNamespaces dk = nest_all (List_records dk) \<lparr>mg_changed = 0, mg_deferred = []\<rparr> dk"

record migration =
  mi_to :: int
  mi_disruptive :: bool
  mi_run :: "disk \<Rightarrow> disk \<times> (record_error + migResult)"

definition migrations :: "migration list" where
  "migrations =
     [\<lparr>mi_to = 1, mi_disruptive = False, mi_run = migNormalizeProviders\<rparr>,
      \<lparr>mi_to = 2, mi_disruptive = False, mi_run = migBackfillFields\<rparr>,
      \<lparr>mi_to = 3, mi_disruptive = True, mi_run = migNestNamespaces\<rparr>,
      \<lparr>mi_to = 4, mi_disruptive = False, mi_run = migNetworkBlocks\<rparr>]"

definition currentSchemaVersion :: int where "currentSchemaVersion = 4"

definition schemaVersion :: "disk \<Rightarrow> record_error + int" where
  "schemaVersion dk =
     (case dk_meta dk of None \<Rightarrow> Inr 0 | Some Unreadable \<Rightarrow> Inl MetaRead | Some (Content v) \<Rightarrow> Inr v)"

definition SchemaVersion :: "disk \<Rightarrow> int" where
  "SchemaVersion dk = (case schemaVersion dk of Inl _ \<Rightarrow> 0 | Inr v \<Rightarrow> v)"

definition setSchemaVersion :: "int \<Rightarrow> disk \<Rightarrow> record_error + disk" where
  "setSchemaVersion v dk = (if dk_writable dk then Inr (dk\<lparr>dk_meta := Some (Content v)\<rparr>) else Inl RecordWrite)"

text \<open>The result says why the replay stopped: an error, a deferral, or the end of the log.\<close>

datatype replay = Replayed | Deferred "gostring list" | Failed record_error

fun replay_from :: "migration list \<Rightarrow> int \<Rightarrow> disk \<Rightarrow> disk \<times> replay" where
  "replay_from [] v dk = (dk, Replayed)"
| "replay_from (m # ms) v dk =
     (if mi_to m \<le> v then replay_from ms v dk
      else case mi_run m dk of
        (dk1, Inl err) \<Rightarrow> (dk1, Failed (MigrationFailed (mi_to m) err))
      | (dk1, Inr res) \<Rightarrow>
          if mi_disruptive m \<and> mg_deferred res \<noteq> [] then (dk1, Deferred (mg_deferred res))
          else case setSchemaVersion (mi_to m) dk1 of
            Inl err \<Rightarrow> (dk1, Failed err)
          | Inr dk2 \<Rightarrow> replay_from ms (mi_to m) dk2)"

definition RunMigrations :: "disk \<Rightarrow> disk \<times> replay" where
  "RunMigrations dk =
     (case schemaVersion dk of Inl err \<Rightarrow> (dk, Failed err) | Inr v \<Rightarrow> replay_from migrations v dk)"


section \<open>Lemmas\<close>

lemma splitKey_Key: "CHR ''/'' \<notin> set (rec_namespace sb) \<Longrightarrow> splitKey (Key sb) = (rec_namespace sb, rc_Name sb)"
  by (simp add: splitKey_def Key_def cut_byte_append)

lemma statExists_update: "statExists (dk\<lparr>dk_records := AList.update p v (dk_records dk)\<rparr>) q \<longleftrightarrow> q = p \<or> statExists dk q"
  by (auto simp: statExists_def update_conv')

lemma savePath_recordPath: "savePath dk sb = recordPath dk (Key sb)"
  by (auto simp: savePath_def recordPath_def split: prod.splits)

lemma recordPath_saved: "recordPath (dk\<lparr>dk_records := AList.update (recordPath dk key) v (dk_records dk)\<rparr>) key = recordPath dk key"
  by (auto simp: recordPath_def statExists_update split: prod.splits if_splits)

lemma Load_Save:
  assumes "Save sb dk = Inr dk'"
  shows "Load dk' (Key sb) = Inr ((stamped sb)\<lparr>rc_Network := Normalize (rc_Network sb)\<rparr>)"
proof -
  have dk': "dk' = dk\<lparr>dk_records := AList.update (recordPath dk (Key sb)) (Content (stamped sb)) (dk_records dk)\<rparr>"
    using assms by (auto simp: Save_def savePath_recordPath split: if_splits)
  show ?thesis unfolding Load_def dk' recordPath_saved by (simp add: update_conv' stamped_def)
qed

text \<open>A key resolves to a place that carries its name, in its namespace or in the flat layout.\<close>

lemma recordPath_cases: "splitKey key = (ns, name) \<Longrightarrow> recordPath dk key \<in> {Current ns name, Interim ns name, Flat name}"
  by (auto simp: recordPath_def)

lemma Load_other:
  assumes "Save sb dk = Inr dk'" and "recordPath dk key \<noteq> savePath dk sb"
    and "splitKey key = (ns, name)" and "savePath dk sb \<notin> {Current ns name, Interim ns name, Flat name}"
  shows "Load dk' key = Load dk key"
proof -
  have dk': "dk' = dk\<lparr>dk_records := AList.update (savePath dk sb) (Content (stamped sb)) (dk_records dk)\<rparr>"
    using assms(1) by (auto simp: Save_def split: if_splits)
  have "recordPath dk' key = recordPath dk key"
    using assms(3,4) by (auto simp: recordPath_def dk' statExists_update)
  then show ?thesis using assms(2) by (simp add: Load_def dk' update_conv')
qed

lemma Load_normal: "Load dk key = Inr sb \<Longrightarrow> \<not> has_legacy (rc_Network sb)"
  by (auto simp: Load_def Normalize_def migrate_legacy_def has_legacy_def split: option.splits file_state.splits)

lemma List_records_loaded: "list_all (\<lambda>sb. \<exists>key. Load dk key = Inr sb) (List_records dk)"
proof -
  have "list_all (\<lambda>sb. \<exists>key. Load dk key = Inr sb) (add_records dk seen keys)" for seen keys
    by (induction dk seen keys rule: add_records.induct) (auto split: sum.split)
  then show ?thesis by (simp add: List_records_def)
qed

lemma edit_none: "list_all (\<lambda>sb. f sb = None) sbs \<Longrightarrow> edit_records f sbs n dk = (dk, Inr \<lparr>mg_changed = n, mg_deferred = []\<rparr>)"
  by (induction sbs) auto

lemma edit_records_meta:
  "dk_meta (fst (edit_records f sbs n dk)) = dk_meta dk \<and> dk_writable (fst (edit_records f sbs n dk)) = dk_writable dk"
proof (induction f sbs n dk rule: edit_records.induct)
  case (2 f sb sbs n dk)
  then show ?case by (auto simp: Save_def split: option.split sum.split if_splits)
qed simp

lemma move_dirs_meta:
  "dk_meta (fst (move_dirs sb nm kinds dk)) = dk_meta dk \<and> dk_writable (fst (move_dirs sb nm kinds dk)) = dk_writable dk"
proof (induction kinds arbitrary: dk)
  case (Cons kind kinds)
  obtain dk' e where m: "move_dir sb nm kind dk = (dk', e)" by (cases "move_dir sb nm kind dk")
  then have "dk_meta dk' = dk_meta dk \<and> dk_writable dk' = dk_writable dk"
    by (auto simp: move_dir_def Let_def split: if_splits)
  with Cons [of dk'] m show ?case by (cases e) simp_all
qed simp

lemma nest_meta: "dk_meta (fst (nest sb nm dk)) = dk_meta dk \<and> dk_writable (fst (nest sb nm dk)) = dk_writable dk"
  using move_dirs_meta [of sb nm "[''vms'', ''worktrees'', ''state'']" dk]
  by (auto simp: nest_def Let_def split: prod.split option.split)

lemma nest_all_meta:
  "dk_meta (fst (nest_all sbs res dk)) = dk_meta dk \<and> dk_writable (fst (nest_all sbs res dk)) = dk_writable dk"
proof (induction sbs res dk rule: nest_all.induct)
  case (2 sb sbs res dk)
  have "dk_meta (fst (nest_one sb res dk)) = dk_meta dk \<and> dk_writable (fst (nest_one sb res dk)) = dk_writable dk"
    using nest_meta [of sb "DisplayName (rc_Name sb)" dk]
    by (auto simp: nest_one_def Let_def split: prod.split option.split)
  with 2 show ?case by (auto split: prod.split sum.split)
qed simp

lemma run_meta:
  "m \<in> set migrations \<Longrightarrow> dk_meta (fst (mi_run m dk)) = dk_meta dk \<and> dk_writable (fst (mi_run m dk)) = dk_writable dk"
  using edit_records_meta nest_all_meta
  by (auto simp: migrations_def migNormalizeProviders_def migBackfillFields_def migNetworkBlocks_def migNestNamespaces_def)


lemma setSchemaVersion_version: "setSchemaVersion v dk = Inr dk' \<Longrightarrow> schemaVersion dk' = Inr v"
  by (auto simp: setSchemaVersion_def schemaVersion_def split: if_splits)

lemma replay_props:
  assumes "set ms \<subseteq> set migrations" and "schemaVersion dk = Inr v" and "replay_from ms v dk = (dk', r)"
  shows "\<exists>v'. schemaVersion dk' = Inr v' \<and> v \<le> v' \<and> (r = Replayed \<longrightarrow> (\<forall>m \<in> set ms. mi_to m \<le> v')) \<and>
    (\<forall>ns. r = Deferred ns \<longrightarrow> (\<exists>m \<in> set ms. mi_disruptive m \<and> v' < mi_to m))"
  using assms
proof (induction ms arbitrary: v dk)
  case (Cons m ms)
  show ?case
  proof (cases "mi_to m \<le> v")
    case True
    with Cons.IH [of dk v] Cons.prems show ?thesis by fastforce
  next
    case False
    obtain dk1 o1 where run: "mi_run m dk = (dk1, o1)" by (cases "mi_run m dk")
    with run_meta [of m dk] Cons.prems(1,2) have v1: "schemaVersion dk1 = Inr v"
      by (simp add: schemaVersion_def)
    show ?thesis
    proof (cases "\<exists>res dk2. o1 = Inr res \<and> \<not> (mi_disruptive m \<and> mg_deferred res \<noteq> []) \<and> setSchemaVersion (mi_to m) dk1 = Inr dk2")
      case True
      then obtain res dk2 where o: "o1 = Inr res" "\<not> (mi_disruptive m \<and> mg_deferred res \<noteq> [])"
        "setSchemaVersion (mi_to m) dk1 = Inr dk2" by blast
      with Cons.prems(3) run False have "replay_from ms (mi_to m) dk2 = (dk', r)" by simp
      from Cons.IH [OF _ setSchemaVersion_version [OF o(3)] this] Cons.prems(1) obtain v' where
        "schemaVersion dk' = Inr v'" "mi_to m \<le> v'" "r = Replayed \<longrightarrow> (\<forall>m \<in> set ms. mi_to m \<le> v')"
        "\<forall>ns. r = Deferred ns \<longrightarrow> (\<exists>m \<in> set ms. mi_disruptive m \<and> v' < mi_to m)"
        by (metis (no_types, lifting) set_subset_Cons subset_trans)
      with False show ?thesis by (intro exI [of _ v']) auto
    next
      case stop: False
      with Cons.prems(3) run False have "dk' = dk1" "r \<noteq> Replayed" "\<And>ns. r = Deferred ns \<Longrightarrow> mi_disruptive m"
        by (auto split: sum.splits if_splits)
      with v1 False show ?thesis by auto
    qed
  qed
qed simp

lemma replay_done: "\<forall>m \<in> set ms. mi_to m \<le> v \<Longrightarrow> replay_from ms v dk = (dk, Replayed)"
  by (induction ms) auto

text \<open>A directory asked for by a bare name is never looked for in a namespace of its own.\<close>

lemma VMDir_bare: "CHR ''/'' \<notin> set n \<Longrightarrow> VMDir dk n \<in> {Current DefaultNamespace n, Interim DefaultNamespace n, Flat n}"
  by (simp add: VMDir_def dirPath_def splitKey_def cut_byte_absent)

section \<open>Properties\<close>

text \<open>
  A saved record reads back under its key, with the version counter advanced and the network policy
  in normal form, in whichever layout the record lives; records of other names read as before.
\<close>

theorem Save_Load_record:
  assumes "Save sb dk = Inr dk'" and "CHR ''/'' \<notin> set (rec_namespace sb)"
  shows "Load dk' (Key sb) = Inr (sb\<lparr>rc_ResourceVersion := rc_ResourceVersion sb + 1,
      rc_RecordSchema := RecordSchemaVersion, rc_Network := Normalize (rc_Network sb)\<rparr>) \<and>
    (if snd (splitKey key) = rc_Name sb then True else Load dk' key = Load dk key)"
proof -
  have "savePath dk sb \<in> {Current (rec_namespace sb) (rc_Name sb), Interim (rec_namespace sb) (rc_Name sb), Flat (rc_Name sb)}"
    unfolding savePath_recordPath by (rule recordPath_cases [OF splitKey_Key [OF assms(2)]])
  then have "Load dk' key = Load dk key" if "snd (splitKey key) \<noteq> rc_Name sb"
    using that recordPath_cases [of key "fst (splitKey key)" "snd (splitKey key)" dk]
    by (intro Load_other [OF assms(1), of key "fst (splitKey key)" "snd (splitKey key)"]) auto
  with Load_Save [OF assms(1)] show ?thesis by (simp add: stamped_def)
qed

definition demo_record :: "gostring \<Rightarrow> SandboxRec" where
  "demo_record ns = \<lparr>rc_Name = ''x'', rc_Provider = ''vz'', rc_Namespace = ns, rc_Anchor = [], rc_ResourceVersion = 3,
     rc_RecordSchema = 1, rc_Phases = [], rc_Network = \<lparr>np_AllowedDomains = [], np_AllowedIPs = [],
     np_DeniedDomains = [], np_Use = None, np_Blocks = []\<rparr>, rc_VMState = ''stopped''\<rparr>"

definition demo_disk :: disk where
  "demo_disk = \<lparr>dk_root = ''/r'', dk_records = [(Flat ''x'', Content (demo_record []))], dk_dirs = [(''vms'', Flat ''x'')],
     dk_meta = None, dk_writable = True\<rparr>"

theorem Save_Load_record_witness:
  "Load (projr (Save (demo_record []) demo_disk)) (Key (demo_record [])) =
     Inr ((demo_record [])\<lparr>rc_ResourceVersion := 4, rc_RecordSchema := RecordSchemaVersion,
       rc_Network := Normalize (rc_Network (demo_record []))\<rparr>)"
proof -
  have "Save (demo_record []) demo_disk = Inr (projr (Save (demo_record []) demo_disk))"
    by (simp add: Save_def demo_disk_def)
  moreover have "CHR ''/'' \<notin> set (rec_namespace (demo_record []))" by code_simp
  ultimately show ?thesis using Save_Load_record [of "demo_record []" demo_disk] by (simp add: demo_record_def)
qed

text \<open>
  A leftover flat record answers for its name in every namespace: as long as a namespace has no
  record of its own under that name, loading from it returns the flat record, and creating a sandbox
  in it overwrites the flat record, which is then gone from its own namespace.
\<close>

theorem flat_record_captured:
  assumes "map_of (dk_records dk) (Flat n) = Some (Content old)" and "CHR ''/'' \<notin> set ns" and "CHR ''/'' \<notin> set n"
    and "\<forall>m \<in> {ns, DefaultNamespace}. \<not> statExists dk (Current m n) \<and> \<not> statExists dk (Interim m n)"
    and "rc_Name sb = n" and "rec_namespace sb = ns" and "Save sb dk = Inr dk'"
  shows "Load dk (ns @ ''/'' @ n) = Load dk n \<and> Load dk' n = Load dk' (Key sb) \<and>
    map_of (dk_records dk') (Flat n) = Some (Content (stamped sb))"
proof -
  have split: "splitKey (ns @ ''/'' @ n) = (ns, n)" "splitKey n = (DefaultNamespace, n)"
    "splitKey (ns @ CHR ''/'' # n) = (ns, n)"
    using assms(2,3) by (simp_all add: splitKey_def cut_byte_append cut_byte_absent)
  have ex: "statExists dk (Flat n)" using assms(1) by (simp add: statExists_def)
  then have rp: "recordPath dk (ns @ ''/'' @ n) = Flat n" "recordPath dk n = Flat n"
    using assms(4) by (simp_all add: recordPath_def split)
  have dk': "dk' = dk\<lparr>dk_records := AList.update (Flat n) (Content (stamped sb)) (dk_records dk)\<rparr>"
    using assms(5-7) rp(1) by (auto simp: Save_def savePath_recordPath Key_def split: if_splits)
  have "recordPath dk' (ns @ ''/'' @ n) = Flat n" "recordPath dk' n = Flat n"
    using assms(4) ex unfolding dk' by (auto simp: recordPath_def split statExists_update)
  then show ?thesis
    using assms(1,5,6) rp by (auto simp: Load_def dk' update_conv' Key_def stamped_def)
qed

theorem flat_record_captured_witness:
  "map_of (dk_records (projr (Save (demo_record ''work'') demo_disk))) (Flat ''x'') = Some (Content (stamped (demo_record ''work'')))"
proof -
  have "Save (demo_record ''work'') demo_disk = Inr (projr (Save (demo_record ''work'') demo_disk))"
    by (simp add: Save_def demo_disk_def)
  moreover have "map_of (dk_records demo_disk) (Flat ''x'') = Some (Content (demo_record []))" by (simp add: demo_disk_def)
  moreover have "\<forall>m \<in> {''work'', DefaultNamespace}. \<not> statExists demo_disk (Current m ''x'') \<and> \<not> statExists demo_disk (Interim m ''x'')"
    by code_simp
  ultimately show ?thesis
    using flat_record_captured [of demo_disk "''x''" "demo_record []" "''work''" "demo_record ''work''"]
    by (simp add: demo_record_def rec_namespace_def)
qed

text \<open>
  The migration that should fold flat network lists into blocks on disk never writes anything:
  records are normalised while they are loaded, so the step finds nothing left to fold.
\<close>

theorem migNetworkBlocks_noop:
  "migNetworkBlocks dk = (dk, Inr \<lparr>mg_changed = 0, mg_deferred = []\<rparr>)"
  unfolding migNetworkBlocks_def
  by (rule edit_none) (use List_records_loaded [of dk] in \<open>auto simp: list_all_iff fold_network_def dest: Load_normal\<close>)

text \<open>
  Replaying the migration log is monotone and resumable: the recorded version never decreases; a
  replay that runs to the end leaves the store at the current version, and a second replay changes
  nothing; a replay stopped by a sandbox it may not move stays below the version of that step, so
  the next one retries it.
\<close>

theorem RunMigrations_resumable:
  assumes "RunMigrations dk = (dk', r)"
  shows "SchemaVersion dk \<le> SchemaVersion dk' \<and>
    (if r = Replayed then currentSchemaVersion \<le> SchemaVersion dk' \<and> RunMigrations dk' = (dk', Replayed) else True) \<and>
    (case r of Deferred ns \<Rightarrow> SchemaVersion dk' < 3 | _ \<Rightarrow> True)"
proof (cases "schemaVersion dk")
  case (Inr v)
  with assms have "replay_from migrations v dk = (dk', r)" by (simp add: RunMigrations_def)
  from replay_props [OF subset_refl Inr this] obtain v' where v':
    "schemaVersion dk' = Inr v'" "v \<le> v'" "r = Replayed \<longrightarrow> (\<forall>m \<in> set migrations. mi_to m \<le> v')"
    "\<forall>ns. r = Deferred ns \<longrightarrow> (\<exists>m \<in> set migrations. mi_disruptive m \<and> v' < mi_to m)" by blast
  have "RunMigrations dk' = (dk', Replayed)" if "r = Replayed"
    using that v'(1,3) by (simp add: RunMigrations_def replay_done)
  with v' Inr show ?thesis
    by (cases r) (auto simp: SchemaVersion_def currentSchemaVersion_def migrations_def)
qed (use assms in \<open>auto simp: RunMigrations_def SchemaVersion_def\<close>)

theorem RunMigrations_resumable_witness:
  "SchemaVersion demo_disk \<le> SchemaVersion (fst (RunMigrations demo_disk))"
  using RunMigrations_resumable [OF surjective_pairing, of demo_disk] by blast

end
