(* ===== verification/ModParser.thy ===== *)
theory ModParser
  imports ModFile NetIP Envspec
begin

text \<open>
  The parser of the project file. \<open>src/internal/template/parse.go\<close> and \<open>resources.go\<close>, and
  \<open>ParseString\<close> of \<open>template.go\<close>: every directive and block of the grammar.

  The parser state is the list of the tokens not consumed yet; its last token is the end of file, which
  \<open>advance\<close> never passes. A directive that writes into a template returns it changed. Each block is
  one loop over its entries, which runs on fuel: \<open>Diverges\<close> marks a loop that used it up, and the
  theorems show that no source makes one. \<open>url.Parse\<close> and \<open>time.ParseDuration\<close> are parameters.
\<close>

section \<open>Parser state\<close>

type_synonym parser = "Token list"

datatype parse_error =
    ErrAt int int gostring
  | LexError lex_error
  | NoSandboxBlock
  | Diverges

type_synonym 'a parsed = "parse_error + parser \<times> 'a"

record parsed_url =
  url_Scheme :: gostring
  url_Hostname :: gostring
  url_User :: bool

record stdlib =
  parseURL :: "gostring \<Rightarrow> parsed_url option"
  parseDuration :: "gostring \<Rightarrow> duration option"

definition peek :: "parser \<Rightarrow> Token" where
  "peek p = hd p"

fun advance :: "parser \<Rightarrow> parser" where
  "advance (t # u # p) = u # p"
| "advance p = p"

definition errorAt :: "Token \<Rightarrow> gostring \<Rightarrow> parse_error + 'a" where
  "errorAt t msg = Inl (ErrAt (tk_Line t) (tk_Col t) msg)"

definition andThen :: "'e + 'a \<Rightarrow> ('a \<Rightarrow> 'e + 'b) \<Rightarrow> 'e + 'b" where
  "andThen m f = (case m of Inl err \<Rightarrow> Inl err | Inr x \<Rightarrow> f x)"

fun skipNewlines :: "parser \<Rightarrow> parser" where
  "skipNewlines (t # u # p) = (if tk_Kind t = TokNewline then skipNewlines (u # p) else t # u # p)"
| "skipNewlines p = p"

definition expectNewlineOrEOF :: "parser \<Rightarrow> parse_error + parser" where
  "expectNewlineOrEOF p = (case tk_Kind (peek p) of
     TokNewline \<Rightarrow> Inr (advance p)
   | TokEOF \<Rightarrow> Inr p
   | _ \<Rightarrow> errorAt (peek p) ''expected newline'')"

definition end_line :: "parser \<Rightarrow> 'a \<Rightarrow> 'a parsed" where
  "end_line p x = andThen (expectNewlineOrEOF p) (\<lambda>p. Inr (p, x))"

text \<open>The loop every block has: entries until the closing parenthesis, which ends its line.\<close>

fun block_loop ::
  "nat \<Rightarrow> (TokenKind \<Rightarrow> bool) \<Rightarrow> gostring \<Rightarrow> (parser \<Rightarrow> 's \<Rightarrow> 's parsed) \<Rightarrow> parser \<Rightarrow> 's \<Rightarrow> 's parsed" where
  "block_loop 0 starts msg entry p st = Inl Diverges"
| "block_loop (Suc n) starts msg entry p st =
     (let p = skipNewlines p in
      if tk_Kind (peek p) = TokRParen then end_line (advance p) st
      else if \<not> starts (tk_Kind (peek p)) then errorAt (peek p) msg
      else andThen (entry p st) (\<lambda>(p, st). block_loop n starts msg entry p st))"

definition run_block ::
  "(TokenKind \<Rightarrow> bool) \<Rightarrow> gostring \<Rightarrow> (parser \<Rightarrow> 's \<Rightarrow> 's parsed) \<Rightarrow> parser \<Rightarrow> 's \<Rightarrow> 's parsed" where
  "run_block starts msg entry p st = block_loop (Suc (length p)) starts msg entry p st"

definition is_ident :: "TokenKind \<Rightarrow> bool" where
  "is_ident k \<longleftrightarrow> k = TokIdent"

definition is_value :: "TokenKind \<Rightarrow> bool" where
  "is_value k \<longleftrightarrow> k = TokString \<or> k = TokIdent"

text \<open>A block that takes only the form in parentheses, after its keyword.\<close>

definition paren_block :: "gostring \<Rightarrow> (parser \<Rightarrow> 's \<Rightarrow> 's parsed) \<Rightarrow> parser \<Rightarrow> 's \<Rightarrow> 's parsed" where
  "paren_block msg entry p st =
     (let p = advance p in
      if tk_Kind (peek p) \<noteq> TokLParen then errorAt (peek p) ''expected (''
      else run_block is_ident msg entry (advance p) st)"

definition end_of_entry :: "gostring \<Rightarrow> parser \<Rightarrow> 'a \<Rightarrow> 'a parsed" where
  "end_of_entry msg p x =
     (if tk_Kind (peek p) \<notin> {TokNewline, TokRParen, TokEOF} then errorAt (peek p) msg else Inr (p, x))"

section \<open>Lists\<close>

definition ident_entry :: "(gostring \<Rightarrow> gostring option) option \<Rightarrow> parser \<Rightarrow> gostring list \<Rightarrow> gostring list parsed" where
  "ident_entry validate p dst =
     (let t = peek p in
      if isKeyword (tk_Val t) then errorAt t ''unexpected keyword''
      else case validate of
        Some f \<Rightarrow> (case f (tk_Val t) of Some err \<Rightarrow> errorAt t err | None \<Rightarrow> Inr (advance p, dst @ [tk_Val t]))
      | None \<Rightarrow> Inr (advance p, dst @ [tk_Val t]))"

definition parseValidatedIdentBlock ::
  "(gostring \<Rightarrow> gostring option) option \<Rightarrow> parser \<Rightarrow> gostring list \<Rightarrow> gostring list parsed" where
  "parseValidatedIdentBlock validate p dst =
     (let p = advance p in
      if tk_Kind (peek p) = TokIdent
      then andThen (ident_entry validate p dst) (\<lambda>(p, dst). end_line p dst)
      else if tk_Kind (peek p) \<noteq> TokLParen then errorAt (peek p) ''expected ( or identifier''
      else run_block is_ident ''expected entry or )'' (ident_entry validate) (advance p) dst)"

definition parseIdentBlock :: "parser \<Rightarrow> gostring list \<Rightarrow> gostring list parsed" where
  "parseIdentBlock p dst = parseValidatedIdentBlock None p dst"

definition parseForwardEntry :: "parser \<Rightarrow> Template \<Rightarrow> Template parsed" where
  "parseForwardEntry p tmpl =
     (let t = peek p in
      if tk_Val t \<noteq> ''reverse''
      then if isKeyword (tk_Val t) then errorAt t ''unexpected keyword''
           else Inr (advance p, tmpl\<lparr>tm_Forwards := tm_Forwards tmpl @ [tk_Val t]\<rparr>)
      else let spec = peek (advance p) in
        if tk_Kind spec \<noteq> TokIdent \<or> isKeyword (tk_Val spec) then errorAt spec ''expected a port spec after reverse''
        else Inr (advance (advance p), tmpl\<lparr>tm_ReverseForwards := tm_ReverseForwards tmpl @ [tk_Val spec]\<rparr>))"

definition parseForwardsBlock :: "parser \<Rightarrow> Template \<Rightarrow> Template parsed" where
  "parseForwardsBlock p tmpl =
     (let p = advance p in
      if tk_Kind (peek p) = TokIdent
      then andThen (parseForwardEntry p tmpl) (\<lambda>(p, tmpl). end_line p tmpl)
      else if tk_Kind (peek p) \<noteq> TokLParen then errorAt (peek p) ''expected ( or identifier''
      else run_block is_ident ''expected entry or )'' parseForwardEntry (advance p) tmpl)"

definition env_entry :: "Token \<Rightarrow> gostring \<Rightarrow> parser \<Rightarrow> gostring parsed" where
  "env_entry nameTok src p =
     (case Parse src of
        Inl err \<Rightarrow> errorAt nameTok ''invalid env entry''
      | Inr spec \<Rightarrow> Inr (p, Spec_String spec))"

definition parseEnvEntry :: "parser \<Rightarrow> gostring parsed" where
  "parseEnvEntry p =
     (let nameTok = peek p in
      if isKeyword (tk_Val nameTok) then errorAt nameTok ''unexpected keyword''
      else let p = advance p in
        if tk_Kind (peek p) \<noteq> TokEquals then env_entry nameTok (tk_Val nameTok) p
        else let p = advance p; valTok = peek p in
          case tk_Kind valTok of
            TokIdent \<Rightarrow> env_entry nameTok (tk_Val nameTok @ ''='' @ tk_Val valTok) (advance p)
          | TokString \<Rightarrow> env_entry nameTok (tk_Val nameTok @ ''='' @ Quote (tk_Val valTok)) (advance p)
          | _ \<Rightarrow> errorAt valTok ''expected a value after ='')"

definition env_append :: "parser \<Rightarrow> gostring list \<Rightarrow> gostring list parsed" where
  "env_append p dst = andThen (parseEnvEntry p) (\<lambda>(p, entry). Inr (p, dst @ [entry]))"

definition parseEnvBlock :: "parser \<Rightarrow> gostring list \<Rightarrow> gostring list parsed" where
  "parseEnvBlock p dst =
     (let p = advance p in
      if tk_Kind (peek p) = TokIdent
      then andThen (env_append p dst) (\<lambda>(p, dst). end_line p dst)
      else if tk_Kind (peek p) \<noteq> TokLParen then errorAt (peek p) ''expected ( or identifier''
      else run_block is_ident ''expected env entry or )'' env_append (advance p) dst)"

section \<open>The vm block\<close>

text \<open>\<open>strconv.ParseUint\<close> with base and bit size, and \<open>strconv.Atoi\<close>.\<close>

definition base_value :: "int \<Rightarrow> gostring \<Rightarrow> int" where
  "base_value base s = foldl (\<lambda>acc c. acc * base + digit_val c) 0 s"

definition ParseUint10 :: "nat \<Rightarrow> gostring \<Rightarrow> int option" where
  "ParseUint10 bits s =
     (if s \<noteq> [] \<and> list_all is_digit s \<and> base_value 10 s < 2 ^ bits then Some (base_value 10 s) else None)"

definition Atoi :: "gostring \<Rightarrow> int option" where
  "Atoi s =
     (let neg = has_prefix s ''-''; digits = (if neg \<or> has_prefix s ''+'' then tl s else s) in
      if digits \<noteq> [] \<and> list_all is_digit digits
      then let n = (if neg then - base_value 10 digits else base_value 10 digits) in
        if - (2 ^ 63) \<le> n \<and> n < 2 ^ 63 then Some n else None
      else None)"

definition parseProvider :: "parser \<Rightarrow> Template \<Rightarrow> Template parsed" where
  "parseProvider p tmpl =
     (let p = advance p; val = peek p in
      if tk_Kind val \<noteq> TokIdent then errorAt val ''expected provider name''
      else if isKeyword (tk_Val val) then errorAt val ''provider name is a reserved keyword''
      else if tm_Provider tmpl \<noteq> [] then errorAt val ''duplicate provider directive''
      else end_line (advance p) (tmpl\<lparr>tm_Provider := tk_Val val\<rparr>))"

definition parseCPU :: "parser \<Rightarrow> Template \<Rightarrow> Template parsed" where
  "parseCPU p tmpl =
     (let p = advance p; val = peek p in
      if tk_Kind val \<noteq> TokIdent then errorAt val ''expected vCPU count''
      else if tm_CPU tmpl \<noteq> 0 then errorAt val ''duplicate cpu directive''
      else case ParseUint10 32 (tk_Val val) of
        None \<Rightarrow> errorAt val ''invalid cpu count''
      | Some n \<Rightarrow>
          if n = 0 then errorAt val ''cpu count must be >= 1''
          else end_line (advance p) (tmpl\<lparr>tm_CPU := of_int n\<rparr>))"

datatype size_error = EmptySize | NoNumber | NoUnit | SizeRange | UnknownUnit

definition mib_of_unit :: "uint64 \<Rightarrow> gostring \<Rightarrow> size_error + uint64" where
  "mib_of_unit n unit =
     (if unit = ''MiB'' \<or> unit = ''M'' then Inr n
      else if unit = ''GiB'' \<or> unit = ''G'' then Inr (n * 1024)
      else if unit = ''TiB'' \<or> unit = ''T'' then Inr (n * 1048576)
      else if unit = ''MB'' then Inr (n * 1000000 div 1048576)
      else if unit = ''GB'' then Inr (n * 1000000000 div 1048576)
      else if unit = ''TB'' then Inr (n * 1000000000000 div 1048576)
      else Inl UnknownUnit)"

definition parseMiB :: "gostring \<Rightarrow> size_error + uint64" where
  "parseMiB s =
     (if s = [] then Inl EmptySize
      else let digits = takeWhile is_digit s; unit = dropWhile is_digit s in
        if digits = [] then Inl NoNumber
        else if unit = [] then Inl NoUnit
        else case ParseUint10 64 digits of
          None \<Rightarrow> Inl SizeRange
        | Some n \<Rightarrow> mib_of_unit (of_int n) unit)"

definition parseMemory :: "parser \<Rightarrow> uint64 \<Rightarrow> uint64 parsed" where
  "parseMemory p dst =
     (let p = advance p; val = peek p in
      if tk_Kind val \<noteq> TokIdent then errorAt val ''expected size''
      else if dst \<noteq> 0 then errorAt val ''duplicate directive''
      else case parseMiB (tk_Val val) of
        Inl err \<Rightarrow> errorAt val ''invalid size''
      | Inr mib \<Rightarrow> end_line (advance p) mib)"

definition parseIdleTimeout :: "stdlib \<Rightarrow> parser \<Rightarrow> Template \<Rightarrow> Template parsed" where
  "parseIdleTimeout std p tmpl =
     (let p = advance p; val = peek p in
      if tk_Kind val \<noteq> TokIdent then errorAt val ''expected duration or off''
      else if tm_IdleTimeoutSec tmpl \<noteq> 0 then errorAt val ''duplicate idle_timeout directive''
      else if tk_Val val = ''off'' \<or> tk_Val val = ''0'' then end_line (advance p) (tmpl\<lparr>tm_IdleTimeoutSec := - 1\<rparr>)
      else case parseDuration std (tk_Val val) of
        None \<Rightarrow> errorAt val ''invalid idle_timeout''
      | Some d \<Rightarrow>
          if d < 60 * second then errorAt val ''idle_timeout too short''
          else end_line (advance p) (tmpl\<lparr>tm_IdleTimeoutSec := d div second\<rparr>))"

definition minSwapMiB :: uint64 where "minSwapMiB = 64"

definition parseSwap :: "parser \<Rightarrow> Template \<Rightarrow> Template parsed" where
  "parseSwap p tmpl =
     (let p = advance p; val = peek p in
      if tk_Kind val \<noteq> TokIdent then errorAt val ''expected size or off''
      else if tm_SwapMiB tmpl \<noteq> 0 then errorAt val ''duplicate swap directive''
      else if tk_Val val = ''off'' \<or> tk_Val val = ''0'' then end_line (advance p) (tmpl\<lparr>tm_SwapMiB := - 1\<rparr>)
      else case parseMiB (tk_Val val) of
        Inl err \<Rightarrow> errorAt val ''invalid size''
      | Inr mib \<Rightarrow>
          if mib < minSwapMiB then errorAt val ''swap too small''
          else end_line (advance p) (tmpl\<lparr>tm_SwapMiB := sint mib\<rparr>))"

definition parseNested :: "parser \<Rightarrow> Template \<Rightarrow> Template parsed" where
  "parseNested p tmpl = end_line (advance p) (tmpl\<lparr>tm_Nested := True\<rparr>)"

definition parseImage :: "parser \<Rightarrow> Template \<Rightarrow> Template parsed" where
  "parseImage p tmpl =
     (let p = advance p; val = peek p in
      if tk_Kind val \<noteq> TokIdent \<and> tk_Kind val \<noteq> TokString then errorAt val ''expected image reference''
      else if tk_Kind val = TokIdent \<and> isKeyword (tk_Val val) then errorAt val ''image reference is a reserved keyword''
      else if tm_Image tmpl \<noteq> [] then errorAt val ''duplicate image directive''
      else end_line (advance p) (tmpl\<lparr>tm_Image := tk_Val val\<rparr>))"

definition parseKernel :: "parser \<Rightarrow> Template \<Rightarrow> Template parsed" where
  "parseKernel p tmpl =
     (let p = advance p; val = peek p in
      if tk_Kind val \<noteq> TokIdent \<and> tk_Kind val \<noteq> TokString then errorAt val ''expected kernel path or URL''
      else if tk_Kind val = TokIdent \<and> isKeyword (tk_Val val) then errorAt val ''kernel reference is a reserved keyword''
      else if tm_Kernel tmpl \<noteq> [] then errorAt val ''duplicate kernel directive''
      else end_line (advance p) (tmpl\<lparr>tm_Kernel := tk_Val val\<rparr>))"

definition vm_entry :: "stdlib \<Rightarrow> parser \<Rightarrow> Template \<Rightarrow> Template parsed" where
  "vm_entry std p tmpl =
     (let v = tk_Val (peek p) in
      if v = ''provider'' then parseProvider p tmpl
      else if v = ''cpu'' then parseCPU p tmpl
      else if v = ''memory''
      then andThen (parseMemory p (tm_MemoryMiB tmpl)) (\<lambda>(p, m). Inr (p, tmpl\<lparr>tm_MemoryMiB := m\<rparr>))
      else if v = ''memory_max''
      then andThen (parseMemory p (tm_MemoryMaxMiB tmpl)) (\<lambda>(p, m). Inr (p, tmpl\<lparr>tm_MemoryMaxMiB := m\<rparr>))
      else if v = ''disk''
      then andThen (parseMemory p (tm_DiskMiB tmpl)) (\<lambda>(p, m). Inr (p, tmpl\<lparr>tm_DiskMiB := m\<rparr>))
      else if v = ''swap'' then parseSwap p tmpl
      else if v = ''nested'' then parseNested p tmpl
      else if v = ''idle_timeout'' then parseIdleTimeout std p tmpl
      else if v = ''image'' then parseImage p tmpl
      else if v = ''kernel'' then parseKernel p tmpl
      else errorAt (peek p) ''unknown vm directive'')"

definition parseVMBlock :: "stdlib \<Rightarrow> parser \<Rightarrow> Template \<Rightarrow> Template parsed" where
  "parseVMBlock std p tmpl = paren_block ''expected vm directive or )'' (vm_entry std) p tmpl"

section \<open>The network block\<close>

definition looksLikeAddress :: "gostring \<Rightarrow> bool" where
  "looksLikeAddress s = (if CHR ''/'' \<in> set s then True else ParseAddr s \<noteq> None)"

fun use_names :: "parser \<Rightarrow> gostring list option \<Rightarrow> gostring list option parsed" where
  "use_names (t # u # p) use =
     (if tk_Kind t \<noteq> TokIdent then Inr (t # u # p, use)
      else if isKeyword (tk_Val t) then errorAt t ''unexpected keyword in use''
      else if tk_Val t \<in> set (case_option [] id use) then errorAt t ''duplicate policy in use''
      else use_names (u # p) (append_nil use [tk_Val t]))"
| "use_names p use = Inr (p, use)"

definition parseUseEntry :: "parser \<Rightarrow> Template \<Rightarrow> Template parsed" where
  "parseUseEntry p tmpl =
     (let p = advance p in
      if tk_Kind (peek p) \<noteq> TokIdent then errorAt (peek p) ''expected policy name after use''
      else andThen (use_names p (tm_Use tmpl)) (\<lambda>(p, use). Inr (p, tmpl\<lparr>tm_Use := use\<rparr>)))"

definition parseNetworkEntry :: "bool \<Rightarrow> parser \<Rightarrow> Template \<Rightarrow> Template parsed" where
  "parseNetworkEntry deny p tmpl =
     (let t = peek p in
      if tk_Kind t \<noteq> TokIdent then errorAt t ''expected domain or ip''
      else if tk_Val t = ''ip''
      then let ip = peek (advance p) in
        if tk_Kind ip \<noteq> TokIdent then errorAt ip ''expected IP or CIDR after ip''
        else Inr (advance (advance p),
               if deny then tmpl\<lparr>tm_DenyIPs := tm_DenyIPs tmpl @ [tk_Val ip]\<rparr>
               else tmpl\<lparr>tm_IPs := tm_IPs tmpl @ [tk_Val ip]\<rparr>)
      else if deny \<and> tk_Val t = ''source''
      then let u = peek (advance p) in
        if tk_Kind u \<noteq> TokString then errorAt u ''expected a quoted URL after deny source''
        else Inr (advance (advance p), tmpl\<lparr>tm_DenySources := tm_DenySources tmpl @ [tk_Val u]\<rparr>)
      else if isKeyword (tk_Val t) then errorAt t ''unexpected keyword in network entry''
      else if looksLikeAddress (tk_Val t) then errorAt t ''is an IP or CIDR, not a domain''
      else Inr (advance p,
             if deny then tmpl\<lparr>tm_DenyDomains := tm_DenyDomains tmpl @ [tk_Val t]\<rparr>
             else tmpl\<lparr>tm_Domains := tm_Domains tmpl @ [tk_Val t]\<rparr>))"

definition network_entry :: "parser \<Rightarrow> Template \<Rightarrow> Template parsed" where
  "network_entry p tmpl =
     (let v = tk_Val (peek p) in
      if v = ''allow'' then parseNetworkEntry False (advance p) tmpl
      else if v = ''deny'' then parseNetworkEntry True (advance p) tmpl
      else if v = ''use'' then parseUseEntry p tmpl
      else errorAt (peek p) ''unknown network directive'')"

definition parseNetworkBlock :: "parser \<Rightarrow> Template \<Rightarrow> Template parsed" where
  "parseNetworkBlock p tmpl = paren_block ''expected allow or deny or )'' network_entry p tmpl"

section \<open>Skills, files, serial ports and shares\<close>

definition skill_entry :: "parser \<Rightarrow> Template \<Rightarrow> Template parsed" where
  "skill_entry p tmpl =
     (let t = peek p; v = peek (advance p);
          ref = \<lparr>sk_Path = tk_Val t, sk_Version = [], sk_Kind = ClassifySkillPath (tk_Val t), sk_Line = tk_Line t,
                 sk_Col = tk_Col t, sk_VersionLine = 0, sk_VersionCol = 0\<rparr>;
          versioned = tk_Kind v = TokIdent;
          ref = (if versioned
                 then ref\<lparr>sk_Version := tk_Val v, sk_VersionLine := tk_Line v, sk_VersionCol := tk_Col v\<rparr> else ref);
          p = (if versioned then advance (advance p) else advance p)
      in case validateSkillRef ref of
           Some err \<Rightarrow> errorAt t ''invalid skill''
         | None \<Rightarrow> end_of_entry ''unexpected token after skill entry'' p (tmpl\<lparr>tm_Skills := tm_Skills tmpl @ [ref]\<rparr>))"

definition parseSkillsBlock :: "parser \<Rightarrow> Template \<Rightarrow> Template parsed" where
  "parseSkillsBlock p tmpl = paren_block ''expected skill path or )'' skill_entry p tmpl"

text \<open>\<open>for range 2\<close> over the optional tokens of an entry; the flag is False where the code breaks out.\<close>

definition twice :: "(parser \<Rightarrow> 'a \<Rightarrow> ('a \<times> bool) parsed) \<Rightarrow> parser \<Rightarrow> 'a \<Rightarrow> 'a parsed" where
  "twice f p x =
     andThen (f p x) (\<lambda>(p, x, more).
       if more then andThen (f p x) (\<lambda>(p, x, more). Inr (p, x)) else Inr (p, x))"

definition is_octal :: "char \<Rightarrow> bool" where
  "is_octal c \<longleftrightarrow> CHR ''0'' \<le> c \<and> c \<le> CHR ''7''"

definition parseFileMode :: "gostring \<Rightarrow> 32 word option" where
  "parseFileMode s =
     (if length s < 2 \<or> hd s \<noteq> CHR ''0'' then None
      else if \<not> list_all is_octal (tl s) then None
      else if base_value 8 s < 2 ^ 32 then Some (of_int (base_value 8 s)) else None)"

definition file_token :: "parser \<Rightarrow> FileSpec \<Rightarrow> (FileSpec \<times> bool) parsed" where
  "file_token p spec =
     (let nx = peek p in
      if tk_Kind nx \<noteq> TokIdent then Inr (p, spec, False)
      else case parseFileMode (tk_Val nx) of
        Some mode \<Rightarrow>
          if fl_Mode spec \<noteq> 0 then errorAt nx ''duplicate mode on files entry''
          else Inr (advance p, spec\<lparr>fl_Mode := mode\<rparr>, True)
      | None \<Rightarrow>
          if fl_GuestPath spec \<noteq> [] then errorAt nx ''unexpected token after files entry''
          else Inr (advance p, spec\<lparr>fl_GuestPath := tk_Val nx\<rparr>, True))"

definition file_entry :: "parser \<Rightarrow> Template \<Rightarrow> Template parsed" where
  "file_entry p tmpl =
     (let t = peek p in
      andThen (twice file_token (advance p)
                 \<lparr>fl_HostPath = tk_Val t, fl_GuestPath = [], fl_Mode = 0, fl_Line = tk_Line t, fl_Col = tk_Col t\<rparr>)
        (\<lambda>(p, spec). end_of_entry ''unexpected token after files entry'' p (tmpl\<lparr>tm_Files := tm_Files tmpl @ [spec]\<rparr>)))"

definition parseFilesBlock :: "parser \<Rightarrow> Template \<Rightarrow> Template parsed" where
  "parseFilesBlock p tmpl = paren_block ''expected file path or )'' file_entry p tmpl"

definition serial_entry :: "parser \<Rightarrow> Template \<Rightarrow> Template parsed" where
  "serial_entry p tmpl =
     (let t = peek p; nx = peek (advance p); named = tk_Kind nx = TokIdent;
          spec = \<lparr>se_HostPath = tk_Val t, se_GuestName = (if named then tk_Val nx else []), se_Line = tk_Line t,
                  se_Col = tk_Col t\<rparr>
      in end_of_entry ''unexpected token after serial entry'' (if named then advance (advance p) else advance p)
           (tmpl\<lparr>tm_Serials := tm_Serials tmpl @ [spec]\<rparr>))"

definition parseSerialBlock :: "parser \<Rightarrow> Template \<Rightarrow> Template parsed" where
  "parseSerialBlock p tmpl = paren_block ''expected serial device path or )'' serial_entry p tmpl"

definition share_token :: "parser \<Rightarrow> ShareSpec \<times> bool \<Rightarrow> ((ShareSpec \<times> bool) \<times> bool) parsed" where
  "share_token p st =
     (let nx = peek p; spec = fst st; sawFlag = snd st in
      if tk_Kind nx \<noteq> TokIdent then Inr (p, st, False)
      else if tk_Val nx = ''ro'' \<or> tk_Val nx = ''rw''
      then if sawFlag then errorAt nx ''duplicate ro/rw flag on shares entry''
           else Inr (advance p, (spec\<lparr>sh_ReadOnly := (tk_Val nx = ''ro'')\<rparr>, True), True)
      else if sh_GuestPath spec \<noteq> [] then errorAt nx ''unexpected token after shares entry''
      else Inr (advance p, (spec\<lparr>sh_GuestPath := tk_Val nx\<rparr>, sawFlag), True))"

definition share_entry :: "parser \<Rightarrow> Template \<Rightarrow> Template parsed" where
  "share_entry p tmpl =
     (let t = peek p in
      andThen (twice share_token (advance p)
                 (\<lparr>sh_HostPath = tk_Val t, sh_GuestPath = [], sh_ReadOnly = True, sh_Line = tk_Line t,
                   sh_Col = tk_Col t\<rparr>, False))
        (\<lambda>(p, spec, sawFlag).
          end_of_entry ''unexpected token after shares entry'' p (tmpl\<lparr>tm_Shares := tm_Shares tmpl @ [spec]\<rparr>)))"

definition parseSharesBlock :: "parser \<Rightarrow> Template \<Rightarrow> Template parsed" where
  "parseSharesBlock p tmpl = paren_block ''expected share path or )'' share_entry p tmpl"

section \<open>MCP servers\<close>

definition MCPTransportHTTP :: gostring where "MCPTransportHTTP = ''http''"
definition MCPTransportSSE :: gostring where "MCPTransportSSE = ''sse''"
definition MCPTransportStdio :: gostring where "MCPTransportStdio = ''stdio''"

definition validateMCPName :: "gostring \<Rightarrow> bool" where
  "validateMCPName name \<longleftrightarrow> name \<noteq> [] \<and> list_all (\<lambda>r. isAlnum r \<or> r \<in> {CHR ''-'', CHR ''_'', CHR ''.''}) name"

definition validateMCPURL :: "stdlib \<Rightarrow> gostring \<Rightarrow> bool" where
  "validateMCPURL std raw =
     (case parseURL std raw of
        None \<Rightarrow> False
      | Some u \<Rightarrow>
          if url_Scheme u \<noteq> ''http'' \<and> url_Scheme u \<noteq> ''https'' then False
          else if url_Hostname u = [] then False
          else \<not> url_User u)"

definition validateMCPHeader :: "gostring \<Rightarrow> bool" where
  "validateMCPHeader h = (case cut_byte h (CHR '':'') of (name, _, found) \<Rightarrow> found \<and> trim_space name \<noteq> [])"

definition parseMCPURL :: "stdlib \<Rightarrow> parser \<Rightarrow> MCPSpec \<Rightarrow> MCPSpec parsed" where
  "parseMCPURL std p spec =
     (let t = peek p in
      if tk_Kind t \<noteq> TokIdent then errorAt t ''expected a URL''
      else if \<not> validateMCPURL std (tk_Val t) then errorAt t ''invalid mcp URL''
      else Inr (advance p, spec\<lparr>mc_URL := tk_Val t\<rparr>))"

definition parseMCPTarget :: "stdlib \<Rightarrow> parser \<Rightarrow> MCPSpec \<Rightarrow> MCPSpec parsed" where
  "parseMCPTarget std p spec =
     (let t = peek p in
      if tk_Kind t \<noteq> TokIdent then errorAt t ''expected a URL or a transport''
      else if tk_Val t = MCPTransportHTTP \<or> tk_Val t = MCPTransportSSE
      then parseMCPURL std (advance p) (spec\<lparr>mc_Transport := tk_Val t\<rparr>)
      else if tk_Val t = MCPTransportStdio
      then let cmd = peek (advance p) in
        if tk_Kind cmd \<noteq> TokString then errorAt cmd ''expected a quoted command after stdio''
        else if string_fields (tk_Val cmd) = [] then errorAt cmd ''empty stdio command''
        else Inr (advance (advance p),
               spec\<lparr>mc_Transport := MCPTransportStdio, mc_Command := string_fields (tk_Val cmd)\<rparr>)
      else parseMCPURL std p (spec\<lparr>mc_Transport := MCPTransportHTTP\<rparr>))"

fun parseMCPModifiers :: "nat \<Rightarrow> parser \<Rightarrow> MCPSpec \<Rightarrow> MCPSpec parsed" where
  "parseMCPModifiers 0 p spec = Inl Diverges"
| "parseMCPModifiers (Suc n) p spec =
     (let t = peek p; v = peek (advance p) in
      if tk_Kind t \<noteq> TokIdent then Inr (p, spec)
      else if tk_Val t = ''header''
      then if tk_Kind v \<noteq> TokString then errorAt v ''expected a quoted header''
           else if \<not> validateMCPHeader (tk_Val v) then errorAt v ''invalid header''
           else if mc_Transport spec = MCPTransportStdio then errorAt t ''header applies to http/sse servers''
           else parseMCPModifiers n (advance (advance p)) (spec\<lparr>mc_Headers := mc_Headers spec @ [tk_Val v]\<rparr>)
      else if tk_Val t = ''env''
      then if tk_Kind v \<noteq> TokIdent then errorAt v ''expected a variable name after env''
           else if ValidateName (tk_Val v) \<noteq> None then errorAt v ''invalid variable name''
           else if mc_Transport spec \<noteq> MCPTransportStdio then errorAt t ''env applies to stdio servers''
           else parseMCPModifiers n (advance (advance p)) (spec\<lparr>mc_Env := mc_Env spec @ [tk_Val v]\<rparr>)
      else Inr (p, spec))"

definition mcp_entry :: "stdlib \<Rightarrow> parser \<Rightarrow> Template \<Rightarrow> Template parsed" where
  "mcp_entry std p tmpl =
     (let t = peek p in
      if \<not> validateMCPName (tk_Val t) then errorAt t ''invalid mcp server name''
      else andThen (parseMCPTarget std (advance p)
                      \<lparr>mc_Name = tk_Val t, mc_Transport = [], mc_URL = [], mc_Command = [], mc_Headers = [],
                       mc_Env = [], mc_Line = tk_Line t, mc_Col = tk_Col t\<rparr>)
        (\<lambda>(p, spec). andThen (parseMCPModifiers (Suc (length p)) p spec)
          (\<lambda>(p, spec). end_of_entry ''unexpected token after mcp entry'' p (tmpl\<lparr>tm_MCP := tm_MCP tmpl @ [spec]\<rparr>))))"

definition parseMCPBlock :: "stdlib \<Rightarrow> parser \<Rightarrow> Template \<Rightarrow> Template parsed" where
  "parseMCPBlock std p tmpl = paren_block ''expected MCP server name or )'' (mcp_entry std) p tmpl"

section \<open>Agent documents and lifecycle hooks\<close>

definition agentDoc :: "Token \<Rightarrow> AgentDoc" where
  "agentDoc t = (if tk_Kind t = TokString then \<lparr>ad_Text = tk_Val t, ad_Path = []\<rparr> else \<lparr>ad_Text = [], ad_Path = tk_Val t\<rparr>)"

definition doc_entry :: "parser \<Rightarrow> AgentDoc list \<Rightarrow> AgentDoc list parsed" where
  "doc_entry p dst = Inr (advance p, dst @ [agentDoc (peek p)])"

definition parseAgentDocs :: "parser \<Rightarrow> AgentDoc list \<Rightarrow> AgentDoc list parsed" where
  "parseAgentDocs p dst =
     (let p = advance p in
      if is_value (tk_Kind (peek p)) then end_line (advance p) (dst @ [agentDoc (peek p)])
      else if tk_Kind (peek p) \<noteq> TokLParen then errorAt (peek p) ''expected (, a path, or a string''
      else run_block is_value ''expected a path, a string, or )'' doc_entry (advance p) dst)"

definition agent_entry :: "parser \<Rightarrow> Template \<Rightarrow> Template parsed" where
  "agent_entry p tmpl =
     (if tk_Val (peek p) = ''instructions''
      then andThen (parseAgentDocs p (tm_Instructions tmpl)) (\<lambda>(p, ds). Inr (p, tmpl\<lparr>tm_Instructions := ds\<rparr>))
      else if tk_Val (peek p) = ''memory''
      then andThen (parseAgentDocs p (tm_Memory tmpl)) (\<lambda>(p, ds). Inr (p, tmpl\<lparr>tm_Memory := ds\<rparr>))
      else errorAt (peek p) ''unknown agent directive'')"

definition parseAgentBlock :: "parser \<Rightarrow> Template \<Rightarrow> Template parsed" where
  "parseAgentBlock p tmpl = paren_block ''expected agent directive or )'' agent_entry p tmpl"

definition hook_entry :: "parser \<Rightarrow> gostring list \<Rightarrow> gostring list parsed" where
  "hook_entry p dst = Inr (advance p, dst @ [tk_Val (peek p)])"

definition hook_commands :: "parser \<Rightarrow> gostring list \<Rightarrow> gostring list parsed" where
  "hook_commands p dst =
     (if tk_Kind (peek p) = TokString then end_line (advance p) (dst @ [tk_Val (peek p)])
      else if tk_Kind (peek p) \<noteq> TokLParen then errorAt (peek p) ''expected ( or string after on''
      else run_block (\<lambda>k. k = TokString) ''expected string or )'' hook_entry (advance p) dst)"

definition parseOnDirective :: "parser \<Rightarrow> Template \<Rightarrow> Template parsed" where
  "parseOnDirective p tmpl =
     (let ev = peek (advance p); p = advance (advance p) in
      if tk_Kind ev \<noteq> TokIdent then errorAt ev ''expected event name after on''
      else if tk_Val ev = ''create''
      then andThen (hook_commands p (tm_OnCreate tmpl)) (\<lambda>(p, cs). Inr (p, tmpl\<lparr>tm_OnCreate := cs\<rparr>))
      else if tk_Val ev = ''up''
      then andThen (hook_commands p (tm_OnUp tmpl)) (\<lambda>(p, cs). Inr (p, tmpl\<lparr>tm_OnUp := cs\<rparr>))
      else if tk_Val ev = ''down''
      then andThen (hook_commands p (tm_OnDown tmpl)) (\<lambda>(p, cs). Inr (p, tmpl\<lparr>tm_OnDown := cs\<rparr>))
      else if tk_Val ev = ''enter''
      then andThen (hook_commands p (tm_OnEnter tmpl)) (\<lambda>(p, cs). Inr (p, tmpl\<lparr>tm_OnEnter := cs\<rparr>))
      else errorAt ev ''unknown on event'')"

section \<open>Blocks of a file\<close>

definition parseTemplateDirective :: "stdlib \<Rightarrow> parser \<Rightarrow> Template \<Rightarrow> Template parsed" where
  "parseTemplateDirective std p tmpl =
     (let v = tk_Val (peek p) in
      if v = ''includes''
      then andThen (parseIdentBlock p (tm_Includes tmpl)) (\<lambda>(p, xs). Inr (p, tmpl\<lparr>tm_Includes := xs\<rparr>))
      else if v = ''vm'' then parseVMBlock std p tmpl
      else if v = ''network'' then parseNetworkBlock p tmpl
      else if v = ''skills'' then parseSkillsBlock p tmpl
      else if v = ''on'' then parseOnDirective p tmpl
      else if v = ''forwards'' then parseForwardsBlock p tmpl
      else if v = ''files'' then parseFilesBlock p tmpl
      else if v = ''shares'' then parseSharesBlock p tmpl
      else if v = ''serial'' then parseSerialBlock p tmpl
      else if v = ''mcp'' then parseMCPBlock std p tmpl
      else if v = ''agent'' then parseAgentBlock p tmpl
      else if v = ''env''
      then andThen (parseEnvBlock p (tm_Env tmpl)) (\<lambda>(p, xs). Inr (p, tmpl\<lparr>tm_Env := xs\<rparr>))
      else if v = ''apps'' \<or> v = ''app'' then errorAt (peek p) ''no longer supported''
      else if v = ''repos'' then errorAt (peek p) ''repos was replaced by includes''
      else errorAt (peek p) ''unknown directive'')"

definition sandbox_entry :: "stdlib \<Rightarrow> parser \<Rightarrow> Template \<Rightarrow> Template parsed" where
  "sandbox_entry std p tmpl =
     (if tk_Val (peek p) = ''name'' then errorAt (peek p) ''name moved to the block header''
      else parseTemplateDirective std p tmpl)"

definition parseSandboxBlock :: "stdlib \<Rightarrow> parser \<Rightarrow> Template parsed" where
  "parseSandboxBlock std p =
     (let p = advance p; t = peek p; named = tk_Kind t = TokIdent in
      if named \<and> isKeyword (tk_Val t) then errorAt t ''sandbox name is a reserved keyword''
      else let tmpl = (if named then empty_template\<lparr>tm_SandboxName := tk_Val t\<rparr> else empty_template);
               p = (if named then advance p else p)
        in if tk_Kind (peek p) \<noteq> TokLParen then errorAt (peek p) ''expected ( after sandbox''
           else run_block is_ident ''expected directive or )'' (sandbox_entry std) (advance p) tmpl)"

definition parsePolicyEntry :: "bool \<Rightarrow> parser \<Rightarrow> PolicyDef \<Rightarrow> PolicyDef parsed" where
  "parsePolicyEntry deny p def =
     (let t = peek p in
      if tk_Kind t \<noteq> TokIdent then errorAt t ''expected domain or ip''
      else if tk_Val t = ''ip''
      then let ip = peek (advance p) in
        if tk_Kind ip \<noteq> TokIdent then errorAt ip ''expected IP or CIDR after ip''
        else Inr (advance (advance p),
               if deny then def\<lparr>pf_DenyIPs := pf_DenyIPs def @ [tk_Val ip]\<rparr>
               else def\<lparr>pf_AllowIPs := pf_AllowIPs def @ [tk_Val ip]\<rparr>)
      else if deny \<and> tk_Val t = ''source''
      then let u = peek (advance p) in
        if tk_Kind u \<noteq> TokString then errorAt u ''expected a quoted URL after deny source''
        else Inr (advance (advance p), def\<lparr>pf_Sources := pf_Sources def @ [tk_Val u]\<rparr>)
      else if isKeyword (tk_Val t) then errorAt t ''unexpected keyword in policy entry''
      else Inr (advance p,
             if deny then def\<lparr>pf_DenyDomains := pf_DenyDomains def @ [tk_Val t]\<rparr>
             else def\<lparr>pf_AllowDomains := pf_AllowDomains def @ [tk_Val t]\<rparr>))"

definition policy_entry :: "stdlib \<Rightarrow> parser \<Rightarrow> PolicyDef \<Rightarrow> PolicyDef parsed" where
  "policy_entry std p def =
     (let t = peek p; v = peek (advance p) in
      if tk_Val t = ''allow'' then parsePolicyEntry False (advance p) def
      else if tk_Val t = ''deny'' then parsePolicyEntry True (advance p) def
      else if tk_Val t = ''source''
      then if tk_Kind v \<noteq> TokString then errorAt v ''expected a quoted URL after source''
           else Inr (advance (advance p), def\<lparr>pf_Sources := pf_Sources def @ [tk_Val v]\<rparr>)
      else if tk_Val t = ''refresh''
      then if tk_Kind v \<noteq> TokIdent then errorAt v ''expected duration after refresh''
           else if pf_Refresh def \<noteq> 0 then errorAt v ''duplicate refresh directive''
           else (case parseDuration std (tk_Val v) of
             None \<Rightarrow> errorAt v ''invalid refresh''
           | Some d \<Rightarrow>
               if d \<le> 0 then errorAt v ''refresh must be positive''
               else Inr (advance (advance p), def\<lparr>pf_Refresh := d\<rparr>))
      else errorAt t ''unknown policy directive'')"

text \<open>The header of a block that must have a name.\<close>

definition named_header :: "gostring \<Rightarrow> parser \<Rightarrow> gostring parsed" where
  "named_header what p =
     (let p = advance p; t = peek p in
      if tk_Kind t = TokLParen then errorAt t (what @ '' requires a name'')
      else if tk_Kind t \<noteq> TokIdent then errorAt t (''expected '' @ what @ '' name'')
      else if isKeyword (tk_Val t) then errorAt t (what @ '' name is a reserved keyword'')
      else if tk_Kind (peek (advance p)) \<noteq> TokLParen then errorAt (peek (advance p)) (''expected ( after '' @ what)
      else Inr (advance (advance p), tk_Val t))"

definition parsePolicyBlock :: "stdlib \<Rightarrow> parser \<Rightarrow> PolicyDef parsed" where
  "parsePolicyBlock std p =
     andThen (named_header ''policy'' p) (\<lambda>(p', name).
       run_block is_ident ''expected policy entry or )'' (policy_entry std) p'
         \<lparr>pf_Name = name, pf_AllowDomains = [], pf_AllowIPs = [], pf_DenyDomains = [], pf_DenyIPs = [], pf_Sources = [],
          pf_Refresh = 0, pf_Line = tk_Line (peek p), pf_Col = tk_Col (peek p)\<rparr>)"

definition namespace_entry :: "stdlib \<Rightarrow> parser \<Rightarrow> Template \<Rightarrow> Template parsed" where
  "namespace_entry std p tmpl =
     (let v = tk_Val (peek p) in
      if v = ''network'' then parseNetworkBlock p tmpl
      else if v = ''files'' then parseFilesBlock p tmpl
      else if v = ''shares'' then parseSharesBlock p tmpl
      else if v = ''mcp'' then parseMCPBlock std p tmpl
      else if v = ''env''
      then andThen (parseEnvBlock p (tm_Env tmpl)) (\<lambda>(p, xs). Inr (p, tmpl\<lparr>tm_Env := xs\<rparr>))
      else if v = ''agent'' then parseAgentBlock p tmpl
      else if v = ''vm'' \<or> v = ''includes'' \<or> v = ''on'' then errorAt (peek p) ''sandbox-level directive''
      else errorAt (peek p) ''unknown namespace directive'')"

definition parseNamespaceBlock :: "stdlib \<Rightarrow> parser \<Rightarrow> NamespaceDef parsed" where
  "parseNamespaceBlock std p =
     andThen (named_header ''namespace'' p) (\<lambda>(p, name).
       andThen (run_block is_ident ''expected namespace directive or )'' (namespace_entry std) p empty_template)
         (\<lambda>(p, tmpl). Inr (p, \<lparr>nd_Name = name, nd_Template = tmpl\<rparr>)))"

definition FormatVersion :: int where "FormatVersion = 1"

definition isFlatDirective :: "gostring \<Rightarrow> bool" where
  "isFlatDirective s \<longleftrightarrow>
     s \<in> {''name'', ''vm'', ''network'', ''forwards'', ''files'', ''shares'', ''skills'', ''agent'', ''env'', ''on''}"

definition parseVersion :: "parser \<Rightarrow> File \<Rightarrow> File parsed" where
  "parseVersion p f =
     (let v = peek (advance p) in
      if mf_FormatVersion f \<noteq> 0 then errorAt (peek p) ''duplicate clawk version directive''
      else if tk_Kind v \<noteq> TokIdent then errorAt v ''expected format version''
      else case Atoi (tk_Val v) of
        None \<Rightarrow> errorAt v ''invalid clawk format version''
      | Some n \<Rightarrow>
          if n < 1 then errorAt v ''invalid clawk format version''
          else if FormatVersion < n then errorAt v ''upgrade clawk''
          else end_line (advance (advance p)) (f\<lparr>mf_FormatVersion := n\<rparr>))"

definition parseTopBlock :: "stdlib \<Rightarrow> parser \<Rightarrow> File \<Rightarrow> File parsed" where
  "parseTopBlock std p f =
     (let t = peek p; v = tk_Val t in
      if tk_Kind t \<noteq> TokIdent then errorAt t ''expected block kind''
      else if v = ''clawk'' then parseVersion p f
      else if v = ''sandbox''
      then if mf_Sandbox f \<noteq> None then errorAt t ''second sandbox block''
           else andThen (parseSandboxBlock std p) (\<lambda>(p, tmpl). Inr (p, f\<lparr>mf_Sandbox := Some tmpl\<rparr>))
      else if v = ''policy''
      then andThen (parsePolicyBlock std p) (\<lambda>(p, def). Inr (p, f\<lparr>mf_Policies := mf_Policies f @ [def]\<rparr>))
      else if v = ''namespace''
      then andThen (parseNamespaceBlock std p) (\<lambda>(p, def). Inr (p, f\<lparr>mf_Namespaces := mf_Namespaces f @ [def]\<rparr>))
      else if v = ''includes'' then errorAt t ''clawk.work is retired''
      else if isFlatDirective v then errorAt t ''top-level directive is retired''
      else errorAt t ''unknown block kind'')"

fun file_loop :: "nat \<Rightarrow> stdlib \<Rightarrow> parser \<Rightarrow> File \<Rightarrow> parse_error + File" where
  "file_loop 0 std p f = Inl Diverges"
| "file_loop (Suc n) std p f =
     (if tk_Kind (peek p) = TokEOF then Inr f
      else andThen (parseTopBlock std p f) (\<lambda>(p, f). file_loop n std (skipNewlines p) f))"

definition empty_file :: File where
  "empty_file = \<lparr>mf_Sandbox = None, mf_Policies = [], mf_Namespaces = [], mf_FormatVersion = 0\<rparr>"

definition ParseFileString :: "stdlib \<Rightarrow> gostring \<Rightarrow> parse_error + File" where
  "ParseFileString std src =
     (case Lex src of
        Inl err \<Rightarrow> Inl (LexError err)
      | Inr toks \<Rightarrow> file_loop (Suc (length toks)) std (skipNewlines toks) empty_file)"

definition ParseString :: "stdlib \<Rightarrow> gostring \<Rightarrow> parse_error + Template" where
  "ParseString std src =
     andThen (ParseFileString std src) (\<lambda>f. case mf_Sandbox f of None \<Rightarrow> Inl NoSandboxBlock | Some t \<Rightarrow> Inr t)"

end
