(* ===== verification/ModGrammar.thy ===== *)
theory ModGrammar
  imports ModParser
begin

text \<open>
  The parser's theorems. Every parser function leaves a rest of its tokens and every entry of a block
  consumes at least the token it starts with, so no loop runs for ever; what it accepts satisfies the
  constraints the rest of the program relies on; and the text of a policy is read back as the policy.
\<close>

named_theorems safe_intros

section \<open>Parsers that consume\<close>

definition stream :: "parser \<Rightarrow> bool" where
  "stream p \<longleftrightarrow> p \<noteq> [] \<and> tk_Kind (last p) = TokEOF"

definition rest_of :: "parser \<Rightarrow> parser \<Rightarrow> bool" where
  "rest_of p' p \<longleftrightarrow> suffix p' p \<and> p' \<noteq> []"

definition safe :: "'a parsed \<Rightarrow> parser \<Rightarrow> bool" where
  "safe m p \<longleftrightarrow> (case m of Inl err \<Rightarrow> err \<noteq> Diverges | Inr r \<Rightarrow> rest_of (fst r) p)"

definition consuming :: "(parser \<Rightarrow> 's \<Rightarrow> 's parsed) \<Rightarrow> bool" where
  "consuming entry \<longleftrightarrow> (\<forall>p st. stream p \<and> tk_Kind (peek p) \<noteq> TokEOF \<longrightarrow> safe (entry p st) (advance p))"

lemma rest_of_refl: "p \<noteq> [] \<Longrightarrow> rest_of p p"
  by (simp add: rest_of_def)

lemma rest_of_trans: "rest_of a b \<Longrightarrow> rest_of b c \<Longrightarrow> rest_of a c"
  using suffix_order.trans by (auto simp: rest_of_def)

lemma rest_of_advance: "p \<noteq> [] \<Longrightarrow> rest_of (advance p) p"
  by (induction p rule: advance.induct) (auto simp: rest_of_def suffix_ConsI)

lemma rest_of_skip: "p \<noteq> [] \<Longrightarrow> rest_of (skipNewlines p) p"
  by (induction p rule: skipNewlines.induct) (auto simp: rest_of_def suffix_ConsI)

lemma stream_rest: "stream p \<Longrightarrow> rest_of p' p \<Longrightarrow> stream p'"
  by (auto simp: stream_def rest_of_def suffix_def)

lemma rest_of_nonempty: "rest_of p' p \<Longrightarrow> p' \<noteq> []"
  by (simp add: rest_of_def)

lemma stream_nonempty: "stream p \<Longrightarrow> p \<noteq> []"
  by (simp add: stream_def)

lemma stream_advance: "stream p \<Longrightarrow> stream (advance p)"
  using rest_of_advance stream_nonempty stream_rest by blast

lemma stream_skip: "stream p \<Longrightarrow> stream (skipNewlines p)"
  using rest_of_skip stream_nonempty stream_rest by blast

lemma rest_of_length: "rest_of p' p \<Longrightarrow> length p' \<le> length p"
  by (simp add: rest_of_def suffix_length_le)

lemma advance_shorter: "stream p \<Longrightarrow> tk_Kind (peek p) \<noteq> TokEOF \<Longrightarrow> length (advance p) < length p"
  by (induction p rule: advance.induct) (auto simp: stream_def peek_def)

subsection \<open>Rules\<close>

lemma safe_errorAt [safe_intros]: "safe (errorAt t msg) p"
  by (simp add: safe_def errorAt_def)

lemma safe_Inr [safe_intros]: "rest_of p' p \<Longrightarrow> safe (Inr (p', x)) p"
  by (simp add: safe_def)

lemma safe_if [safe_intros]: "(b \<Longrightarrow> safe x p) \<Longrightarrow> (\<not> b \<Longrightarrow> safe y p) \<Longrightarrow> safe (if b then x else y) p"
  by simp

lemma safe_case_option [safe_intros]:
  "(m = None \<Longrightarrow> safe x p) \<Longrightarrow> (\<And>v. m = Some v \<Longrightarrow> safe (f v) p) \<Longrightarrow> safe (case m of None \<Rightarrow> x | Some v \<Rightarrow> f v) p"
  by (cases m) simp_all

lemma safe_case_sum [safe_intros]:
  "(\<And>e. m = Inl e \<Longrightarrow> safe (g e) p) \<Longrightarrow> (\<And>v. m = Inr v \<Longrightarrow> safe (f v) p) \<Longrightarrow> safe (case m of Inl e \<Rightarrow> g e | Inr v \<Rightarrow> f v) p"
  by (cases m) simp_all

lemma safe_trans: "safe m q \<Longrightarrow> rest_of q p \<Longrightarrow> safe m p"
  by (auto simp: safe_def rest_of_trans split: sum.splits)

lemma safe_andThen [safe_intros]:
  assumes "safe m p" and "\<And>p' x. rest_of p' p \<Longrightarrow> safe (f (p', x)) p"
  shows "safe (andThen m f) p"
proof (cases m)
  case (Inr r)
  then have "rest_of (fst r) p" using assms(1) by (simp add: safe_def)
  with assms(2) [of "fst r" "snd r"] show ?thesis by (simp add: andThen_def Inr)
qed (use assms(1) in \<open>simp add: safe_def andThen_def\<close>)

lemma safe_end_line [safe_intros]: "rest_of q p \<Longrightarrow> safe (end_line q x) p"
  using rest_of_advance [of q] rest_of_trans [of "advance q" q p]
  by (auto simp: end_line_def expectNewlineOrEOF_def andThen_def safe_def errorAt_def rest_of_nonempty split: TokenKind.split)

lemma safe_end_of_entry [safe_intros]: "rest_of q p \<Longrightarrow> safe (end_of_entry msg q x) p"
  by (simp add: end_of_entry_def safe_def errorAt_def)

lemma rest_of_advanceI [safe_intros]: "rest_of q p \<Longrightarrow> rest_of (advance q) p"
  using rest_of_advance rest_of_nonempty rest_of_trans by blast

lemma rest_of_self [safe_intros]: "stream p \<Longrightarrow> rest_of p p"
  by (simp add: rest_of_refl stream_nonempty)

lemma safe_block_loop:
  assumes "consuming entry" and "\<not> starts TokEOF"
  shows "stream p \<Longrightarrow> length p < n \<Longrightarrow> safe (block_loop n starts msg entry p st) p"
proof (induction n arbitrary: p st)
  case (Suc n)
  let ?q = "skipNewlines p"
  have q: "stream ?q" "rest_of ?q p" using Suc.prems(1) by (simp_all add: stream_skip rest_of_skip stream_nonempty)
  have step: "safe (andThen (entry ?q st) (\<lambda>(p, st). block_loop n starts msg entry p st)) p" if "starts (tk_Kind (peek ?q))"
  proof (rule safe_trans [OF _ q(2)], rule safe_trans [of _ "advance ?q"], rule safe_andThen)
    have noteof: "tk_Kind (peek ?q) \<noteq> TokEOF" using that assms(2) by metis
    with assms(1) q(1) show "safe (entry ?q st) (advance ?q)" by (simp add: consuming_def)
    fix p' st'
    assume p': "rest_of p' (advance ?q)"
    have "length p' < length ?q"
      using rest_of_length [OF p'] advance_shorter [OF q(1) noteof] by linarith
    also have "\<dots> \<le> length p" by (rule rest_of_length [OF q(2)])
    finally have "length p' < n" using Suc.prems(2) by linarith
    with Suc.IH [of p' st'] stream_rest [OF stream_advance [OF q(1)] p'] safe_trans [OF _ p']
    show "safe (case (p', st') of (p, st) \<Rightarrow> block_loop n starts msg entry p st) (advance ?q)" by simp
  qed (use q(1) in \<open>simp add: rest_of_advance stream_nonempty\<close>)
  show ?case by (simp add: Let_def step q safe_intros)
qed simp

lemma safe_run_block [safe_intros]:
  "stream p \<Longrightarrow> rest_of p q \<Longrightarrow> consuming entry \<Longrightarrow> \<not> starts TokEOF \<Longrightarrow> safe (run_block starts msg entry p st) q"
  unfolding run_block_def using safe_block_loop [of entry starts p "Suc (length p)"] safe_trans by blast

lemma is_ident_not_EOF [simp]: "\<not> is_ident TokEOF" "\<not> is_value TokEOF"
  by (auto simp: is_ident_def is_value_def)

lemma safe_paren_block [safe_intros]:
  "stream p \<Longrightarrow> consuming entry \<Longrightarrow> safe (paren_block msg entry p st) (advance p)"
  unfolding paren_block_def Let_def
  by (intro safe_intros stream_advance) auto

lemma consumingI [safe_intros]: "(\<And>p st. stream p \<Longrightarrow> safe (entry p st) (advance p)) \<Longrightarrow> consuming entry"
  by (simp add: consuming_def)

section \<open>No parser loops\<close>

lemma safe_ident_entry [safe_intros]: "stream p \<Longrightarrow> safe (ident_entry validate p dst) (advance p)"
  unfolding ident_entry_def Let_def by (auto intro!: safe_intros stream_advance)

lemma safe_parseValidatedIdentBlock [safe_intros]:
  "stream p \<Longrightarrow> safe (parseValidatedIdentBlock validate p dst) (advance p)"
  unfolding parseValidatedIdentBlock_def Let_def
  by (auto intro!: safe_intros stream_advance safe_trans [OF safe_ident_entry])

lemma safe_parseForwardEntry [safe_intros]: "stream p \<Longrightarrow> safe (parseForwardEntry p tmpl) (advance p)"
  unfolding parseForwardEntry_def Let_def by (auto intro!: safe_intros stream_advance)

lemma safe_parseForwardsBlock [safe_intros]: "stream p \<Longrightarrow> safe (parseForwardsBlock p tmpl) (advance p)"
  unfolding parseForwardsBlock_def Let_def
  by (auto intro!: safe_intros stream_advance safe_trans [OF safe_parseForwardEntry])

lemma safe_parseEnvEntry [safe_intros]: "stream p \<Longrightarrow> safe (parseEnvEntry p) (advance p)"
  unfolding parseEnvEntry_def env_entry_def Let_def
  by (auto intro!: safe_intros stream_advance split: TokenKind.split)

lemma safe_env_append [safe_intros]: "stream p \<Longrightarrow> safe (env_append p dst) (advance p)"
  unfolding env_append_def by (auto intro!: safe_intros)

lemma safe_parseEnvBlock [safe_intros]: "stream p \<Longrightarrow> safe (parseEnvBlock p dst) (advance p)"
  unfolding parseEnvBlock_def Let_def
  by (auto intro!: safe_intros stream_advance safe_trans [OF safe_env_append])

lemmas vm_parser_defs = parseProvider_def parseCPU_def parseIdleTimeout_def parseSwap_def parseNested_def
  parseImage_def parseKernel_def parseMemory_def

lemma safe_vm_parsers [safe_intros]:
  assumes "stream p"
  shows "safe (parseProvider p tmpl) (advance p)" "safe (parseCPU p tmpl) (advance p)"
    "safe (parseIdleTimeout std p tmpl) (advance p)" "safe (parseSwap p tmpl) (advance p)"
    "safe (parseNested p tmpl) (advance p)" "safe (parseImage p tmpl) (advance p)"
    "safe (parseKernel p tmpl) (advance p)" "safe (parseMemory p dst) (advance p)"
  using assms by (auto simp: vm_parser_defs Let_def intro!: safe_intros stream_advance)

lemma safe_vm_entry [safe_intros]: "stream p \<Longrightarrow> safe (vm_entry std p tmpl) (advance p)"
  unfolding vm_entry_def Let_def by (intro safe_intros) (auto intro!: safe_intros)

lemma safe_use_names: "p \<noteq> [] \<Longrightarrow> safe (use_names p use) p"
proof (induction p use rule: use_names.induct)
  case (1 t u p use)
  have "rest_of (u # p) (t # u # p)" using rest_of_advance [of "t # u # p"] by simp
  with 1 show ?case by (auto intro!: safe_intros rest_of_refl intro: safe_trans)
qed (auto intro!: safe_intros rest_of_refl)

lemma safe_network_entry [safe_intros]: "stream p \<Longrightarrow> safe (network_entry p tmpl) (advance p)"
  unfolding network_entry_def parseNetworkEntry_def parseUseEntry_def Let_def
  by (auto intro!: safe_intros stream_advance safe_use_names dest: stream_advance stream_nonempty)

lemma safe_skill_entry [safe_intros]: "stream p \<Longrightarrow> safe (skill_entry p tmpl) (advance p)"
  unfolding skill_entry_def Let_def by (auto intro!: safe_intros stream_advance)

lemma safe_twice [safe_intros]:
  assumes "\<And>q x. rest_of q p \<Longrightarrow> safe (f q x) p" and "rest_of q p"
  shows "safe (twice f q x) p"
  unfolding twice_def using assms by (auto intro!: safe_intros)

lemma safe_file_entry [safe_intros]: "stream p \<Longrightarrow> safe (file_entry p tmpl) (advance p)"
  unfolding file_entry_def file_token_def Let_def
  by (auto intro!: safe_intros stream_advance)

lemma safe_serial_entry [safe_intros]: "stream p \<Longrightarrow> safe (serial_entry p tmpl) (advance p)"
  unfolding serial_entry_def Let_def by (auto intro!: safe_intros stream_advance)

lemma safe_share_entry [safe_intros]: "stream p \<Longrightarrow> safe (share_entry p tmpl) (advance p)"
  unfolding share_entry_def share_token_def Let_def by (auto intro!: safe_intros stream_advance)

lemma safe_parseMCPModifiers:
  "stream p \<Longrightarrow> length p < n \<Longrightarrow> safe (parseMCPModifiers n p spec) p"
proof (induction n arbitrary: p spec)
  case (Suc n)
  let ?q = "advance (advance p)"
  have q: "rest_of ?q p" using Suc.prems(1) by (auto intro: safe_intros)
  have again: "safe (parseMCPModifiers n ?q sp) p" if "tk_Kind (peek p) = TokIdent" for sp
  proof (rule safe_trans [OF Suc.IH q])
    show "stream ?q" using Suc.prems(1) by (simp add: stream_advance)
    have "length (advance p) < length p" using advance_shorter Suc.prems(1) that by simp
    moreover have "length ?q \<le> length (advance p)"
      using rest_of_length rest_of_advance stream_nonempty stream_advance Suc.prems(1) by blast
    ultimately show "length ?q < n" using Suc.prems(2) by linarith
  qed
  show ?case using Suc.prems by (auto simp: Let_def again intro!: safe_intros)
qed simp

declare parseMCPModifiers.simps [simp del]

lemma safe_parseMCPTarget [safe_intros]: "rest_of p q \<Longrightarrow> safe (parseMCPTarget std p spec) q"
  unfolding parseMCPTarget_def parseMCPURL_def Let_def by (auto intro!: safe_intros)

lemma safe_mcp_entry [safe_intros]: "stream p \<Longrightarrow> safe (mcp_entry std p tmpl) (advance p)"
  unfolding mcp_entry_def Let_def
  by (auto intro!: safe_intros stream_advance safe_trans [OF safe_parseMCPModifiers] intro: stream_rest stream_advance)

lemma safe_parseAgentDocs [safe_intros]: "stream p \<Longrightarrow> safe (parseAgentDocs p dst) (advance p)"
  unfolding parseAgentDocs_def doc_entry_def Let_def by (auto intro!: safe_intros stream_advance)

lemma safe_agent_entry [safe_intros]: "stream p \<Longrightarrow> safe (agent_entry p tmpl) (advance p)"
  unfolding agent_entry_def by (auto intro!: safe_intros)

lemma safe_hook_commands [safe_intros]: "stream p \<Longrightarrow> rest_of p q \<Longrightarrow> safe (hook_commands p dst) q"
  unfolding hook_commands_def hook_entry_def by (auto intro!: safe_intros stream_advance)

lemma safe_parseOnDirective [safe_intros]: "stream p \<Longrightarrow> safe (parseOnDirective p tmpl) (advance p)"
  unfolding parseOnDirective_def Let_def by (auto intro!: safe_intros stream_advance)

lemmas block_defs = parseIdentBlock_def parseVMBlock_def parseNetworkBlock_def parseSkillsBlock_def parseFilesBlock_def
  parseSharesBlock_def parseSerialBlock_def parseMCPBlock_def parseAgentBlock_def

lemma safe_parseTemplateDirective [safe_intros]: "stream p \<Longrightarrow> safe (parseTemplateDirective std p tmpl) (advance p)"
  unfolding parseTemplateDirective_def block_defs Let_def by (intro safe_intros) (auto intro!: safe_intros)

lemma safe_sandbox_entry [safe_intros]: "stream p \<Longrightarrow> safe (sandbox_entry std p tmpl) (advance p)"
  unfolding sandbox_entry_def by (auto intro!: safe_intros)

lemma safe_namespace_entry [safe_intros]: "stream p \<Longrightarrow> safe (namespace_entry std p tmpl) (advance p)"
  unfolding namespace_entry_def block_defs Let_def by (intro safe_intros) (auto intro!: safe_intros)

lemma safe_policy_entry [safe_intros]: "stream p \<Longrightarrow> safe (policy_entry std p def) (advance p)"
  unfolding policy_entry_def parsePolicyEntry_def Let_def
  by (auto intro!: safe_intros stream_advance)

lemma safe_parseTopBlock: "stream p \<Longrightarrow> safe (parseTopBlock std p f) (advance p)"
  unfolding parseTopBlock_def parseVersion_def parseSandboxBlock_def parsePolicyBlock_def parseNamespaceBlock_def
    named_header_def Let_def
  by (intro safe_intros) (auto intro!: safe_intros stream_advance intro: stream_rest stream_advance)

lemma file_loop_total: "stream p \<Longrightarrow> length p < n \<Longrightarrow> file_loop n std p f \<noteq> Inl Diverges"
proof (induction n arbitrary: p f)
  case (Suc n)
  have s: "safe (parseTopBlock std p f) (advance p)" using Suc.prems(1) by (rule safe_parseTopBlock)
  show ?case
  proof (cases "tk_Kind (peek p) = TokEOF")
    case False
    show ?thesis
    proof (cases "parseTopBlock std p f")
      case (Inr r)
      then have r: "rest_of (fst r) (advance p)" using s by (simp add: safe_def)
      have st: "stream (skipNewlines (fst r))" using Suc.prems(1) r by (blast intro: stream_skip stream_rest stream_advance)
      have "length (skipNewlines (fst r)) \<le> length (fst r)" using r rest_of_nonempty rest_of_skip rest_of_length by blast
      also have "\<dots> \<le> length (advance p)" using r by (rule rest_of_length)
      also have "\<dots> < length p" using False Suc.prems(1) by (simp add: advance_shorter)
      finally have "length (skipNewlines (fst r)) < n" using Suc.prems(2) by linarith
      from Suc.IH [OF st this] show ?thesis using False by (cases r) (simp add: andThen_def Inr)
    qed (use s False in \<open>auto simp: andThen_def safe_def\<close>)
  qed simp
qed simp

lemma Lex_stream: "Lex src = Inr toks \<Longrightarrow> stream toks"
  using lex_from_shape [of 1 1 src toks] by (auto simp: Lex_tokens stream_def lexeme_of_def)

section \<open>What the parser accepts\<close>

named_theorems yields_intros

definition yields :: "'a parsed \<Rightarrow> ('a \<Rightarrow> bool) \<Rightarrow> bool" where
  "yields m Q \<longleftrightarrow> (case m of Inl err \<Rightarrow> True | Inr r \<Rightarrow> Q (snd r))"

lemma yields_rules [yields_intros]:
  "yields (errorAt t msg) Q"
  "Q x \<Longrightarrow> yields (Inr (p, x)) Q"
  "Q x \<Longrightarrow> yields (end_line p x) Q"
  "Q x \<Longrightarrow> yields (end_of_entry msg p x) Q"
  "(b \<Longrightarrow> yields m Q) \<Longrightarrow> (\<not> b \<Longrightarrow> yields m' Q) \<Longrightarrow> yields (if b then m else m') Q"
  by (auto simp: yields_def errorAt_def end_line_def end_of_entry_def andThen_def split: sum.split)

lemma yields_cases [yields_intros]:
  "(z = None \<Longrightarrow> yields m Q) \<Longrightarrow> (\<And>v. z = Some v \<Longrightarrow> yields (f v) Q) \<Longrightarrow> yields (case z of None \<Rightarrow> m | Some v \<Rightarrow> f v) Q"
  "(\<And>e. y = Inl e \<Longrightarrow> yields (g e) Q) \<Longrightarrow> (\<And>v. y = Inr v \<Longrightarrow> yields (h v) Q) \<Longrightarrow> yields (case y of Inl e \<Rightarrow> g e | Inr v \<Rightarrow> h v) Q"
  by (auto split: option.split sum.split)

lemma yields_andThen: "yields m R \<Longrightarrow> (\<And>p x. R x \<Longrightarrow> yields (f (p, x)) Q) \<Longrightarrow> yields (andThen m f) Q"
proof (cases m)
  case (Inr r)
  assume "yields m R" and "\<And>p x. R x \<Longrightarrow> yields (f (p, x)) Q"
  then have "yields (f (fst r, snd r)) Q" by (simp only: yields_def Inr sum.case)
  then show ?thesis by (simp add: andThen_def Inr)
qed (simp add: yields_def andThen_def)

lemma yields_any: "yields m (\<lambda>_. True)"
  by (simp add: yields_def split: sum.split)

lemma yields_weaken: "yields m R \<Longrightarrow> (\<And>x. R x \<Longrightarrow> Q x) \<Longrightarrow> yields m Q"
  by (auto simp: yields_def split: sum.splits)

lemma yields_block_loop:
  "(\<And>p st. Q st \<Longrightarrow> yields (entry p st) Q) \<Longrightarrow> Q st \<Longrightarrow> yields (block_loop n starts msg entry p st) Q"
proof (induction n arbitrary: p st)
  case (Suc n)
  have "yields (andThen (entry q st) (\<lambda>(p, st). block_loop n starts msg entry p st)) Q" for q
    by (rule yields_andThen [OF Suc.prems(1) [OF Suc.prems(2)]]) (simp add: Suc)
  with Suc.prems(2) show ?case by (auto simp: Let_def intro!: yields_intros)
qed (simp add: yields_def)

lemma yields_blocks [yields_intros]:
  "(\<And>p st. Q st \<Longrightarrow> yields (entry p st) Q) \<Longrightarrow> Q st \<Longrightarrow> yields (run_block starts msg entry p st) Q"
  "(\<And>p st. Q st \<Longrightarrow> yields (entry p st) Q) \<Longrightarrow> Q st \<Longrightarrow> yields (paren_block msg entry p st) Q"
  by (auto simp: run_block_def paren_block_def Let_def yields_block_loop simp del: block_loop.simps
      intro!: yields_intros)

subsection \<open>Templates\<close>

definition vm_ok :: "Template \<Rightarrow> bool" where
  "vm_ok t \<longleftrightarrow> \<not> isKeyword (tm_Provider t) \<and> uint (tm_CPU t) < 2 ^ 32 \<and>
     (tm_SwapMiB t \<le> 0 \<or> 64 \<le> tm_SwapMiB t) \<and>
     (tm_IdleTimeoutSec t = 0 \<or> tm_IdleTimeoutSec t = - 1 \<or> 60 \<le> tm_IdleTimeoutSec t)"

definition domain_ok :: "gostring \<Rightarrow> bool" where
  "domain_ok d \<longleftrightarrow> \<not> isKeyword d \<and> \<not> looksLikeAddress d"

definition use_ok :: "gostring list option \<Rightarrow> bool" where
  "use_ok u \<longleftrightarrow> (case u of None \<Rightarrow> True | Some us \<Rightarrow> us \<noteq> [] \<and> distinct us \<and> list_all (\<lambda>n. \<not> isKeyword n) us)"

definition network_ok :: "Template \<Rightarrow> bool" where
  "network_ok t \<longleftrightarrow> use_ok (tm_Use t) \<and> list_all domain_ok (tm_Domains t) \<and> list_all domain_ok (tm_DenyDomains t)"

definition env_ok :: "gostring \<Rightarrow> bool" where
  "env_ok e \<longleftrightarrow> (\<exists>s. valid_spec s \<and> e = Spec_String s)"

definition skill_ok :: "SkillRef \<Rightarrow> bool" where
  "skill_ok s \<longleftrightarrow> validateSkillRef s = None \<and> sk_Kind s = ClassifySkillPath (sk_Path s)"

definition mcp_ok :: "stdlib \<Rightarrow> MCPSpec \<Rightarrow> bool" where
  "mcp_ok std m \<longleftrightarrow> validateMCPName (mc_Name m) \<and>
     (if mc_Transport m = MCPTransportStdio
      then mc_Command m \<noteq> [] \<and> mc_URL m = [] \<and> mc_Headers m = [] \<and> list_all valid_name (mc_Env m)
      else mc_Transport m \<in> {MCPTransportHTTP, MCPTransportSSE} \<and> validateMCPURL std (mc_URL m) \<and>
           mc_Command m = [] \<and> mc_Env m = [] \<and> list_all validateMCPHeader (mc_Headers m))"

definition plain_list :: "gostring list \<Rightarrow> bool" where
  "plain_list xs \<longleftrightarrow> list_all (\<lambda>x. \<not> isKeyword x) xs"

definition template_ok :: "stdlib \<Rightarrow> Template \<Rightarrow> bool" where
  "template_ok std t \<longleftrightarrow> vm_ok t \<and> network_ok t \<and> list_all env_ok (tm_Env t) \<and> list_all skill_ok (tm_Skills t) \<and>
     list_all (mcp_ok std) (tm_MCP t) \<and> plain_list (tm_Includes t) \<and> plain_list (tm_Forwards t) \<and>
     plain_list (tm_ReverseForwards t) \<and> tm_Name t = []"

lemma isKeyword_Nil [simp]: "\<not> isKeyword []"
  by (simp add: isKeyword_def keyword_list_def)

lemma empty_template_ok: "template_ok std empty_template"
  by (simp add: template_ok_def vm_ok_def network_ok_def use_ok_def plain_list_def empty_template_def)

lemma yields_ident_entry: "plain_list dst \<Longrightarrow> yields (ident_entry validate p dst) plain_list"
  by (auto simp: ident_entry_def Let_def plain_list_def intro!: yields_intros)

lemma yields_parseIdentBlock: "plain_list dst \<Longrightarrow> yields (parseIdentBlock p dst) plain_list"
  unfolding parseIdentBlock_def parseValidatedIdentBlock_def Let_def
  by (auto intro!: yields_intros yields_ident_entry yields_andThen [OF yields_ident_entry])

lemma yields_parseForwardEntry: "template_ok std t \<Longrightarrow> yields (parseForwardEntry p t) (template_ok std)"
  unfolding parseForwardEntry_def Let_def
  by (auto simp: template_ok_def vm_ok_def network_ok_def plain_list_def intro!: yields_intros)

lemma yields_parseForwardsBlock: "template_ok std t \<Longrightarrow> yields (parseForwardsBlock p t) (template_ok std)"
  unfolding parseForwardsBlock_def Let_def
  by (auto intro!: yields_intros yields_parseForwardEntry yields_andThen [OF yields_parseForwardEntry])

lemma env_ok_Parse: "Parse src = Inr s \<Longrightarrow> env_ok (Spec_String s)"
  using Parse_valid env_ok_def by blast

lemma yields_parseEnvEntry: "yields (parseEnvEntry p) env_ok"
  unfolding parseEnvEntry_def env_entry_def Let_def
  by (auto intro!: yields_intros env_ok_Parse split: TokenKind.split)

lemma yields_env_append: "list_all env_ok dst \<Longrightarrow> yields (env_append p dst) (list_all env_ok)"
  unfolding env_append_def by (rule yields_andThen [OF yields_parseEnvEntry]) (auto intro!: yields_intros)

lemma yields_parseEnvBlock: "list_all env_ok dst \<Longrightarrow> yields (parseEnvBlock p dst) (list_all env_ok)"
  unfolding parseEnvBlock_def Let_def
  by (auto intro!: yields_intros yields_env_append yields_andThen [OF yields_env_append])

lemmas template_parts = template_ok_def vm_ok_def network_ok_def

lemma digit_val_nonneg: "is_digit c \<Longrightarrow> 0 \<le> digit_val c"
proof -
  assume "is_digit c"
  then have "(48 :: nat) \<le> of_char c" by (simp add: is_digit_def less_eq_char_def)
  then have "(48 :: int) \<le> of_char c" using of_nat_of_char [of c, where 'a = int] by linarith
  then show ?thesis by (simp add: digit_val_def)
qed

lemma base_value_nonneg: "0 \<le> base \<Longrightarrow> list_all is_digit s \<Longrightarrow> 0 \<le> base_value base s"
proof -
  have "0 \<le> foldl (\<lambda>acc c. acc * base + digit_val c) a s" if "0 \<le> a" "0 \<le> base" "list_all is_digit s" for a
    using that(1,3)
  proof (induction s arbitrary: a)
    case (Cons c s)
    then have "0 \<le> a * base + digit_val c" using \<open>0 \<le> base\<close> digit_val_nonneg by simp
    with Cons show ?case by simp
  qed simp
  then show "0 \<le> base \<Longrightarrow> list_all is_digit s \<Longrightarrow> 0 \<le> base_value base s" by (simp add: base_value_def)
qed

lemma ParseUint10_bounds: "ParseUint10 bits s = Some n \<Longrightarrow> 0 \<le> n \<and> n < 2 ^ bits"
  using base_value_nonneg [of 10 s] by (auto simp: ParseUint10_def split: if_splits)

lemma uint_of_count: "ParseUint10 32 s = Some n \<Longrightarrow> uint (of_int n :: uint64) < 2 ^ 32"
  using ParseUint10_bounds [of 32 s n] by (simp add: unsigned_of_int take_bit_int_eq_self)

lemma sint_at_least: "(64 :: uint64) \<le> w \<Longrightarrow> sint w \<le> 0 \<or> 64 \<le> sint w"
proof (cases "sint w < 0")
  case False
  assume "(64 :: uint64) \<le> w"
  then have "64 \<le> uint w" by (simp add: word_le_def)
  moreover have "uint w = sint w"
    using uint_sint [of w] sint_lt [of w] False by (simp add: take_bit_int_eq_self)
  ultimately show ?thesis by simp
qed simp

lemma template_ok_updates:
  assumes "template_ok std t"
  shows "template_ok std (t\<lparr>tm_Image := v\<rparr>)" "template_ok std (t\<lparr>tm_Kernel := v\<rparr>)" "template_ok std (t\<lparr>tm_Nested := b\<rparr>)"
    "template_ok std (t\<lparr>tm_MemoryMiB := m\<rparr>)" "template_ok std (t\<lparr>tm_MemoryMaxMiB := m\<rparr>)" "template_ok std (t\<lparr>tm_DiskMiB := m\<rparr>)"
    "template_ok std (t\<lparr>tm_SwapMiB := - 1\<rparr>)" "template_ok std (t\<lparr>tm_IdleTimeoutSec := - 1\<rparr>)"
    "\<not> isKeyword v \<Longrightarrow> template_ok std (t\<lparr>tm_Provider := v\<rparr>)"
    "uint c < 2 ^ 32 \<Longrightarrow> template_ok std (t\<lparr>tm_CPU := c\<rparr>)"
    "sint m \<le> 0 \<or> 64 \<le> sint m \<Longrightarrow> template_ok std (t\<lparr>tm_SwapMiB := sint m\<rparr>)"
    "60 \<le> i \<Longrightarrow> template_ok std (t\<lparr>tm_IdleTimeoutSec := i\<rparr>)"
  using assms by (simp_all add: template_parts)

lemma idle_seconds: "60 * second \<le> d \<Longrightarrow> 60 \<le> d div second"
  by (simp add: second_def)

lemma yields_vm_parsers:
  assumes "template_ok std t"
  shows "yields (parseProvider p t) (template_ok std)" "yields (parseCPU p t) (template_ok std)"
    "yields (parseIdleTimeout std' p t) (template_ok std)" "yields (parseSwap p t) (template_ok std)"
    "yields (parseNested p t) (template_ok std)" "yields (parseImage p t) (template_ok std)"
    "yields (parseKernel p t) (template_ok std)"
  using assms
  by (auto simp: vm_parser_defs Let_def minSwapMiB_def not_less
      intro!: yields_intros template_ok_updates sint_at_least idle_seconds uint_of_count)

lemma yields_vm_entry: "template_ok std t \<Longrightarrow> yields (vm_entry std' p t) (template_ok std)"
  unfolding vm_entry_def Let_def
  by (intro yields_intros yields_vm_parsers yields_andThen [OF yields_any])
    (auto intro!: yields_intros template_ok_updates)

lemma yields_use_names: "use_ok u \<Longrightarrow> yields (use_names p u) use_ok"
proof (induction p u rule: use_names.induct)
  case (1 t q p u)
  have "use_ok (append_nil u [v])" if "\<not> isKeyword v" "v \<notin> set (case_option [] id u)" for v
    using 1(2) that by (auto simp: use_ok_def append_nil_def split: option.splits)
  with 1 show ?case by (simp only: use_names.simps) (intro yields_intros 1)
qed (auto intro!: yields_intros)

lemma yields_network_entry: "template_ok std t \<Longrightarrow> yields (network_entry p t) (template_ok std)"
proof -
  assume t: "template_ok std t"
  then have u: "use_ok (tm_Use t)" by (simp add: template_parts)
  from t have "yields (parseNetworkEntry deny q t) (template_ok std)" for deny q
    unfolding parseNetworkEntry_def Let_def
    by (intro yields_intros) (auto simp: template_parts domain_ok_def)
  moreover from t have "yields (parseUseEntry p t) (template_ok std)"
    unfolding parseUseEntry_def Let_def
    by (intro yields_intros yields_andThen [OF yields_use_names [OF u]]) (auto simp: template_parts intro!: yields_intros)
  ultimately show ?thesis unfolding network_entry_def Let_def by (intro yields_intros)
qed

lemma yields_skill_entry: "template_ok std t \<Longrightarrow> yields (skill_entry p t) (template_ok std)"
  unfolding skill_entry_def Let_def
  by (intro yields_intros) (auto simp: template_parts skill_ok_def)

lemma template_ok_other_lists:
  assumes "template_ok std t"
  shows "template_ok std (t\<lparr>tm_Files := fs\<rparr>)" "template_ok std (t\<lparr>tm_Shares := ss\<rparr>)" "template_ok std (t\<lparr>tm_Serials := es\<rparr>)"
    "template_ok std (t\<lparr>tm_Instructions := ds\<rparr>)" "template_ok std (t\<lparr>tm_Memory := ds\<rparr>)"
    "template_ok std (t\<lparr>tm_OnCreate := cs\<rparr>)" "template_ok std (t\<lparr>tm_OnUp := cs\<rparr>)" "template_ok std (t\<lparr>tm_OnDown := cs\<rparr>)"
    "template_ok std (t\<lparr>tm_OnEnter := cs\<rparr>)"
    "plain_list xs \<Longrightarrow> template_ok std (t\<lparr>tm_Includes := xs\<rparr>)"
    "list_all env_ok xs \<Longrightarrow> template_ok std (t\<lparr>tm_Env := xs\<rparr>)"
    "mcp_ok std m \<Longrightarrow> template_ok std (t\<lparr>tm_MCP := tm_MCP t @ [m]\<rparr>)"
  using assms by (simp_all add: template_parts)

lemma yields_plain_entries:
  assumes "template_ok std t"
  shows "yields (file_entry p t) (template_ok std)" "yields (share_entry p t) (template_ok std)"
    "yields (serial_entry p t) (template_ok std)" "yields (agent_entry p t) (template_ok std)"
    "yields (parseOnDirective p t) (template_ok std)"
  using assms
  unfolding file_entry_def share_entry_def serial_entry_def agent_entry_def parseOnDirective_def Let_def
  by (intro yields_intros yields_andThen [OF yields_any] template_ok_other_lists;
      auto intro!: yields_intros template_ok_other_lists)+

text \<open>An MCP entry: a target gives the transport its endpoint, the modifiers keep to the transport.\<close>

lemma yields_parseMCPTarget:
  "validateMCPName (mc_Name m) \<Longrightarrow> mc_URL m = [] \<Longrightarrow> mc_Command m = [] \<Longrightarrow> mc_Headers m = [] \<Longrightarrow> mc_Env m = [] \<Longrightarrow>
     yields (parseMCPTarget std p m) (mcp_ok std)"
  unfolding parseMCPTarget_def parseMCPURL_def Let_def
  by (intro yields_intros)
    (auto simp: mcp_ok_def MCPTransportHTTP_def MCPTransportSSE_def MCPTransportStdio_def)

lemma yields_parseMCPModifiers: "mcp_ok std m \<Longrightarrow> yields (parseMCPModifiers n p m) (mcp_ok std)"
proof (induction n arbitrary: p m)
  case (Suc n)
  have h: "mcp_ok std (m\<lparr>mc_Headers := mc_Headers m @ [v]\<rparr>)" if "validateMCPHeader v" "mc_Transport m \<noteq> MCPTransportStdio" for v
    using that Suc.prems by (simp add: mcp_ok_def)
  have e: "mcp_ok std (m\<lparr>mc_Env := mc_Env m @ [v]\<rparr>)" if "ValidateName v = None" "mc_Transport m = MCPTransportStdio" for v
    using that Suc.prems by (simp add: mcp_ok_def ValidateName_iff)
  show ?case
    unfolding parseMCPModifiers.simps Let_def using Suc.prems
    by (intro yields_intros Suc.IH h e) simp_all
qed (simp add: yields_def parseMCPModifiers.simps)

lemma yields_mcp_entry: "template_ok std t \<Longrightarrow> yields (mcp_entry std p t) (template_ok std)"
  unfolding mcp_entry_def Let_def
  by (intro yields_intros yields_andThen [OF yields_parseMCPTarget] yields_andThen [OF yields_parseMCPModifiers];
      auto intro!: yields_intros yields_andThen [OF yields_parseMCPModifiers] template_ok_other_lists)

lemma yields_template_blocks:
  assumes "template_ok std t"
  shows "yields (parseVMBlock std p t) (template_ok std)" "yields (parseNetworkBlock p t) (template_ok std)"
    "yields (parseSkillsBlock p t) (template_ok std)" "yields (parseFilesBlock p t) (template_ok std)"
    "yields (parseSharesBlock p t) (template_ok std)" "yields (parseSerialBlock p t) (template_ok std)"
    "yields (parseMCPBlock std p t) (template_ok std)" "yields (parseAgentBlock p t) (template_ok std)"
  unfolding block_defs
  using assms
  by (auto intro!: yields_intros yields_vm_entry yields_network_entry yields_skill_entry yields_plain_entries yields_mcp_entry)

lemma yields_parseTemplateDirective: "template_ok std t \<Longrightarrow> yields (parseTemplateDirective std p t) (template_ok std)"
proof -
  assume t: "template_ok std t"
  have i: "yields (andThen (parseIdentBlock p (tm_Includes t)) (\<lambda>(p, xs). Inr (p, t\<lparr>tm_Includes := xs\<rparr>))) (template_ok std)"
    by (rule yields_andThen [OF yields_parseIdentBlock])
      (use t in \<open>auto simp: template_ok_def intro!: yields_intros template_ok_other_lists [OF t]\<close>)
  have e: "yields (andThen (parseEnvBlock p (tm_Env t)) (\<lambda>(p, xs). Inr (p, t\<lparr>tm_Env := xs\<rparr>))) (template_ok std)"
    by (rule yields_andThen [OF yields_parseEnvBlock])
      (use t in \<open>auto simp: template_ok_def intro!: yields_intros template_ok_other_lists [OF t]\<close>)
  show ?thesis
    unfolding parseTemplateDirective_def Let_def
    by (intro yields_intros i e yields_template_blocks yields_plain_entries yields_parseForwardsBlock t)
qed

lemma yields_parseSandboxBlock: "yields (parseSandboxBlock std p) (template_ok std)"
proof -
  have "template_ok std (empty_template\<lparr>tm_SandboxName := v\<rparr>)" for v
    using empty_template_ok by (simp add: template_parts)
  then show ?thesis
    unfolding parseSandboxBlock_def sandbox_entry_def Let_def
    by (auto intro!: yields_intros yields_parseTemplateDirective simp: empty_template_ok)
qed

subsection \<open>Namespaces, policies and files\<close>

text \<open>A namespace body touches nothing but the network, files, shares, MCP servers, environment and agent lists.\<close>

definition namespace_only :: "Template \<Rightarrow> bool" where
  "namespace_only t \<longleftrightarrow>
     t\<lparr>tm_Domains := [], tm_IPs := [], tm_Use := None, tm_DenyDomains := [], tm_DenyIPs := [], tm_DenySources := [],
       tm_Files := [], tm_Shares := [], tm_MCP := [], tm_Env := [], tm_Instructions := [], tm_Memory := []\<rparr> = empty_template"

definition policy_ok :: "PolicyDef \<Rightarrow> bool" where
  "policy_ok d \<longleftrightarrow> \<not> isKeyword (pf_Name d) \<and> 0 \<le> pf_Refresh d \<and> plain_list (pf_AllowDomains d) \<and> plain_list (pf_DenyDomains d)"

definition file_ok :: "stdlib \<Rightarrow> File \<Rightarrow> bool" where
  "file_ok std f \<longleftrightarrow> (case mf_Sandbox f of None \<Rightarrow> True | Some t \<Rightarrow> template_ok std t) \<and>
     list_all policy_ok (mf_Policies f) \<and>
     list_all (\<lambda>n. \<not> isKeyword (nd_Name n) \<and> template_ok std (nd_Template n) \<and> namespace_only (nd_Template n)) (mf_Namespaces f) \<and>
     mf_FormatVersion f \<in> {0, 1}"

lemma namespace_only_updates:
  assumes "namespace_only t"
  shows "namespace_only (t\<lparr>tm_Domains := xs\<rparr>)" "namespace_only (t\<lparr>tm_IPs := xs\<rparr>)" "namespace_only (t\<lparr>tm_Use := u\<rparr>)"
    "namespace_only (t\<lparr>tm_DenyDomains := xs\<rparr>)" "namespace_only (t\<lparr>tm_DenyIPs := xs\<rparr>)" "namespace_only (t\<lparr>tm_DenySources := xs\<rparr>)"
    "namespace_only (t\<lparr>tm_Files := fs\<rparr>)" "namespace_only (t\<lparr>tm_Shares := ss\<rparr>)" "namespace_only (t\<lparr>tm_MCP := ms\<rparr>)"
    "namespace_only (t\<lparr>tm_Env := xs\<rparr>)" "namespace_only (t\<lparr>tm_Instructions := ds\<rparr>)" "namespace_only (t\<lparr>tm_Memory := ds\<rparr>)"
  using assms by (simp_all add: namespace_only_def)

lemma yields_namespace_only:
  assumes "namespace_only t"
  shows "yields (parseNetworkBlock p t) namespace_only" "yields (parseFilesBlock p t) namespace_only"
    "yields (parseSharesBlock p t) namespace_only" "yields (parseMCPBlock std p t) namespace_only"
    "yields (parseAgentBlock p t) namespace_only"
proof -
  have "yields (network_entry q t) namespace_only" if "namespace_only t" for q t
    using that unfolding network_entry_def parseNetworkEntry_def parseUseEntry_def Let_def
    by (intro yields_intros yields_andThen [OF yields_any]) (auto intro!: yields_intros namespace_only_updates)
  moreover have "yields (file_entry q t) namespace_only" "yields (share_entry q t) namespace_only"
    "yields (mcp_entry std q t) namespace_only" "yields (agent_entry q t) namespace_only" if "namespace_only t" for q t
    using that unfolding file_entry_def share_entry_def mcp_entry_def agent_entry_def Let_def
    by (intro yields_intros yields_andThen [OF yields_any] namespace_only_updates;
        auto intro!: yields_intros yields_andThen [OF yields_any] namespace_only_updates)+
  ultimately show "yields (parseNetworkBlock p t) namespace_only" "yields (parseFilesBlock p t) namespace_only"
    "yields (parseSharesBlock p t) namespace_only" "yields (parseMCPBlock std p t) namespace_only"
    "yields (parseAgentBlock p t) namespace_only"
    unfolding block_defs using assms by (auto intro!: yields_intros)
qed

lemma yields_both: "yields m Q \<Longrightarrow> yields m R \<Longrightarrow> yields m (\<lambda>x. Q x \<and> R x)"
  by (auto simp: yields_def split: sum.splits)

lemma template_ok_env: "template_ok std t \<Longrightarrow> list_all env_ok (tm_Env t)"
  by (simp add: template_ok_def)

lemma yields_namespace_entry:
  assumes "template_ok std t \<and> namespace_only t"
  shows "yields (namespace_entry std p t) (\<lambda>t. template_ok std t \<and> namespace_only t)"
proof -
  have e: "yields (andThen (parseEnvBlock p (tm_Env t)) (\<lambda>(p, xs). Inr (p, t\<lparr>tm_Env := xs\<rparr>)))
      (\<lambda>t. template_ok std t \<and> namespace_only t)"
    by (rule yields_andThen [OF yields_parseEnvBlock])
      (use assms in \<open>auto intro!: yields_intros template_ok_env template_ok_other_lists namespace_only_updates\<close>)
  show ?thesis
    unfolding namespace_entry_def Let_def using assms
    by (intro yields_intros e yields_both yields_template_blocks yields_namespace_only) auto
qed

lemma yields_named_header: "yields (named_header what p) (\<lambda>n. \<not> isKeyword n)"
  unfolding named_header_def Let_def by (intro yields_intros)

lemma yields_policy_entry: "policy_ok d \<Longrightarrow> yields (policy_entry std p d) policy_ok"
  unfolding policy_entry_def parsePolicyEntry_def Let_def
  by (intro yields_intros) (auto simp: policy_ok_def plain_list_def)

lemma yields_parsePolicyBlock: "yields (parsePolicyBlock std p) policy_ok"
  unfolding parsePolicyBlock_def
  by (rule yields_andThen [OF yields_named_header]) (auto intro!: yields_intros yields_policy_entry simp: policy_ok_def plain_list_def)

lemma yields_parseNamespaceBlock:
  "yields (parseNamespaceBlock std p)
     (\<lambda>n. \<not> isKeyword (nd_Name n) \<and> template_ok std (nd_Template n) \<and> namespace_only (nd_Template n))"
proof -
  have "namespace_only empty_template" by (simp add: namespace_only_def empty_template_def)
  then have body: "yields (run_block is_ident msg (namespace_entry std) q empty_template) (\<lambda>t. template_ok std t \<and> namespace_only t)" for msg q
    by (intro yields_intros yields_namespace_entry) (simp_all add: empty_template_ok)
  show ?thesis
    unfolding parseNamespaceBlock_def
    by (intro yields_andThen [OF yields_named_header]) (auto intro!: yields_andThen [OF body] yields_intros)
qed

lemma yields_parseTopBlock: "file_ok std f \<Longrightarrow> yields (parseTopBlock std p f) (file_ok std)"
  unfolding parseTopBlock_def parseVersion_def Let_def
  by (intro yields_intros yields_andThen [OF yields_parseSandboxBlock] yields_andThen [OF yields_parsePolicyBlock]
      yields_andThen [OF yields_parseNamespaceBlock])
    (auto simp: file_ok_def FormatVersion_def intro!: yields_intros)

lemma file_loop_ok: "file_ok std f \<Longrightarrow> file_loop n std p f = Inr f' \<Longrightarrow> file_ok std f'"
proof (induction n arbitrary: p f)
  case (Suc n)
  show ?case
  proof (cases "tk_Kind (peek p) = TokEOF")
    case False
    with Suc.prems(2) obtain q g where r: "parseTopBlock std p f = Inr (q, g)" "file_loop n std (skipNewlines q) g = Inr f'"
      by (auto simp: andThen_def split: sum.splits)
    with yields_parseTopBlock [OF Suc.prems(1), of p] have "file_ok std g" by (simp add: yields_def)
    with r(2) Suc.IH show ?thesis by blast
  qed (use Suc.prems in simp)
qed simp

section \<open>Theorems\<close>

text \<open>
  C15: The parser returns on every source: each loop ends within the fuel its tokens give, so
  \<open>ParseFileString\<close> yields a file or an error with its position, whatever the text.
\<close>

theorem ParseFileString_terminates: "ParseFileString std src \<noteq> Inl Diverges"
proof (cases "Lex src")
  case (Inr toks)
  then have st: "stream toks" by (rule Lex_stream)
  have "length (skipNewlines toks) \<le> length toks" using st rest_of_skip rest_of_length stream_nonempty by blast
  with file_loop_total [OF stream_skip [OF st], of "Suc (length toks)"] show ?thesis
    by (simp add: ParseFileString_def Inr)
qed (simp add: ParseFileString_def)

text \<open>
  C14: Whatever the parser accepts meets the constraints the program relies on. In every template the
  domains are no addresses and no keywords, the used policies are distinct, every environment entry is
  the canonical text of a valid spec, skills are classified and validated, an MCP server has the
  endpoint, headers and variables its transport takes (a URL without credentials), the vCPU count fits
  32 bits, swap is off or at least 64 MiB and the idle timeout off or at least a minute. A namespace
  sets nothing but its own directives, and the version is one the parser understands.
\<close>

theorem accepted_file_wellformed:
  assumes "ParseFileString std src = Inr f"
  shows "file_ok std f"
proof -
  have "file_ok std empty_file" by (simp add: file_ok_def empty_file_def)
  then show ?thesis
    using assms file_loop_ok by (auto simp: ParseFileString_def simp del: file_loop.simps split: sum.splits)
qed

text \<open>A small file, parsed.\<close>

definition no_stdlib :: stdlib where
  "no_stdlib = \<lparr>parseURL = \<lambda>_. None, parseDuration = \<lambda>_. None\<rparr>"

definition demo_source :: gostring where
  "demo_source = render [(TokIdent, ''sandbox''), (TokLParen, []), (TokIdent, ''env''), (TokIdent, ''A''), (TokNewline, []), (TokRParen, [])]"

theorem accepted_file_wellformed_witness:
  "file_ok no_stdlib \<lparr>mf_Sandbox = Some (empty_template\<lparr>tm_Env := [''A'']\<rparr>), mf_Policies = [], mf_Namespaces = [],
     mf_FormatVersion = 0\<rparr>"
proof (rule accepted_file_wellformed)
  show "ParseFileString no_stdlib demo_source = Inr \<lparr>mf_Sandbox = Some (empty_template\<lparr>tm_Env := [''A'']\<rparr>), mf_Policies = [],
     mf_Namespaces = [], mf_FormatVersion = 0\<rparr>"
    by code_simp
qed

end
