(* ===== verification/Paths.thy ===== *)
theory Paths
  imports Prelude
begin

text \<open>
  Host paths: the part of Go's \<open>path/filepath\<close> that the loaders of project files use, on a Unix host.
  A path is a byte string; \<open>Clean\<close> works on its components with a stack, as a component \<open>..\<close> takes
  back the one before it.

  The lemmas show that a name joined to a directory stays the last component, that an absolute directory
  gives absolute paths, and that walking from a directory to its parent ends: the parent of a path that is not
  its own parent is shorter, the path \<open>.\<close> apart, which is its own parent.
\<close>

section \<open>Components\<close>

definition slash :: char where "slash = CHR 0x2F"

fun split_slash :: "gostring \<Rightarrow> gostring list" where
  "split_slash [] = [[]]"
| "split_slash (c # s) =
     (if c = slash then [] # split_slash s
      else (case split_slash s of [] \<Rightarrow> [[c]] | w # ws \<Rightarrow> (c # w) # ws))"

fun join_slash :: "gostring list \<Rightarrow> gostring" where
  "join_slash [] = []"
| "join_slash [w] = w"
| "join_slash (w # v # ws) = w @ slash # join_slash (v # ws)"

text \<open>The components kept so far are on the stack, the last one first.\<close>

fun clean_components :: "bool \<Rightarrow> gostring list \<Rightarrow> gostring list \<Rightarrow> gostring list" where
  "clean_components rooted stack [] = rev stack"
| "clean_components rooted stack (w # ws) =
     (if w = [] \<or> w = ''.'' then clean_components rooted stack ws
      else if w = ''..'' then
        (case stack of
           [] \<Rightarrow> clean_components rooted (if rooted then [] else [w]) ws
         | v # vs \<Rightarrow> if v = ''..'' then clean_components rooted (w # stack) ws
                    else clean_components rooted vs ws)
      else clean_components rooted (w # stack) ws)"

definition IsAbs :: "gostring \<Rightarrow> bool" where
  "IsAbs p \<longleftrightarrow> p \<noteq> [] \<and> hd p = slash"

definition Clean :: "gostring \<Rightarrow> gostring" where
  "Clean p =
     (let ws = join_slash (clean_components (IsAbs p) [] (split_slash p)) in
      if IsAbs p then slash # ws else if ws = [] then ''.'' else ws)"

text \<open>\<open>Dir\<close> is the text up to the last separator, cleaned; \<open>Base\<close> the last element.\<close>

definition up_to_slash :: "gostring \<Rightarrow> gostring" where
  "up_to_slash p = rev (dropWhile (\<lambda>c. c \<noteq> slash) (rev p))"

definition Dir :: "gostring \<Rightarrow> gostring" where
  "Dir p = Clean (up_to_slash p)"

definition Base :: "gostring \<Rightarrow> gostring" where
  "Base p =
     (if p = [] then ''.''
      else let q = rev (dropWhile (\<lambda>c. c = slash) (rev p)) in
        if q = [] then [slash] else rev (takeWhile (\<lambda>c. c \<noteq> slash) (rev q)))"

definition Join :: "gostring list \<Rightarrow> gostring" where
  "Join es = (let es = dropWhile (\<lambda>e. e = []) es in if es = [] then [] else Clean (join_slash es))"

section \<open>Parents\<close>

definition weight :: "gostring list \<Rightarrow> nat" where
  "weight ws = (\<Sum>w\<leftarrow>ws. Suc (length w))"

lemma weight_simps [simp]:
  "weight [] = 0" "weight (w # ws) = Suc (length w) + weight ws"
  "weight (xs @ ys) = weight xs + weight ys" "weight (rev xs) = weight xs"
  by (simp_all add: weight_def flip: rev_map)

lemma split_slash_nonempty [simp]: "split_slash p \<noteq> []"
  by (cases p rule: split_slash.cases) (simp_all split: list.split)

lemma weight_split: "weight (split_slash p) = Suc (length p)"
  by (induction p) (auto split: list.splits)

lemma length_join: "ws \<noteq> [] \<Longrightarrow> Suc (length (join_slash ws)) = weight ws"
  by (induction ws rule: join_slash.induct) auto

lemma weight_clean: "weight (clean_components r st ws) \<le> weight st + weight (filter (\<lambda>w. w \<noteq> []) ws)"
proof (induction ws arbitrary: st)
  case (Cons w ws)
  note IH = Cons.IH [of st] Cons.IH [of "w # st"] Cons.IH [of "tl st"] Cons.IH [of "[]"] Cons.IH [of "[w]"]
  from IH show ?case by (cases st; cases "w = ''..''"; cases "w = []") auto
qed simp

lemma weight_nonempty: "weight (filter (\<lambda>w. w \<noteq> []) ws) + length (filter (\<lambda>w. w = []) ws) = weight ws"
  by (induction ws) auto

lemma split_slash_snoc: "split_slash (p @ [slash]) = split_slash p @ [[]]"
  by (induction p) (auto split: list.splits)

lemma hd_split: "IsAbs p \<Longrightarrow> hd (split_slash p) = [] \<and> p \<noteq> []"
  by (cases p) (auto simp: IsAbs_def)

text \<open>A path that ends in a separator gets shorter by cleaning, the root and the empty result apart.\<close>

lemma Clean_shorter:
  assumes "q \<noteq> []" "last q = slash" "q \<noteq> [slash]" "Clean q \<noteq> ''.''"
  shows "length (Clean q) < length q"
proof -
  obtain p where q: "q = p @ [slash]" using assms(1,2) by (metis append_butlast_last_id)
  with assms(3) have p: "p \<noteq> []" by auto
  define ws where "ws = clean_components (IsAbs q) [] (split_slash q)"
  have abs: "IsAbs q \<longleftrightarrow> IsAbs p" using q p by (simp add: IsAbs_def)
  have "weight ws \<le> weight (filter (\<lambda>w. w \<noteq> []) (split_slash p))"
    using weight_clean [of "IsAbs q" "[]" "split_slash q"] q by (simp add: ws_def split_slash_snoc)
  moreover have "weight (filter (\<lambda>w. w \<noteq> []) (split_slash p)) + (if IsAbs p then 1 else 0) \<le> Suc (length p)"
    using weight_nonempty [of "split_slash p"] weight_split [of p] hd_split [of p]
    by (cases "split_slash p") (auto split: if_splits)
  ultimately have ws: "weight ws + (if IsAbs q then 1 else 0) \<le> length q"
    using q abs by simp
  have "2 \<le> length q" using q p by (cases p) auto
  with ws length_join [of ws] assms(4) show ?thesis
    by (cases "ws = []") (auto simp: Clean_def ws_def [symmetric] Let_def split: if_splits)
qed

lemma up_to_slash_prefix: "\<exists>r. p = up_to_slash p @ r"
  unfolding up_to_slash_def by (metis rev_append rev_rev_ident takeWhile_dropWhile_id)

lemma last_up_to_slash: "up_to_slash p \<noteq> [] \<Longrightarrow> last (up_to_slash p) = slash"
  using hd_dropWhile [of "\<lambda>c. c \<noteq> slash" "rev p"] by (auto simp: up_to_slash_def last_rev)

text \<open>The measure of the walks up the directory tree.\<close>

definition depth_measure :: "gostring \<Rightarrow> nat" where
  "depth_measure p = (if p = ''.'' then 0 else Suc (Suc (length p)))"

lemma Dir_shorter: "Dir p \<noteq> p \<Longrightarrow> depth_measure (Dir p) < depth_measure p"
proof -
  assume ne: "Dir p \<noteq> p"
  have dot: "Dir ''.'' = ''.''" by code_simp
  obtain r where r: "p = up_to_slash p @ r" using up_to_slash_prefix by blast
  consider "Dir p = ''.''" | "Dir p \<noteq> ''.''" "up_to_slash p = [slash]" | "Dir p \<noteq> ''.''" "up_to_slash p \<noteq> [slash]" by blast
  then show ?thesis
  proof cases
    case 1
    with ne dot show ?thesis by (auto simp: depth_measure_def)
  next
    case 2
    have "Clean [slash] = [slash]" by code_simp
    with 2 ne r have "Dir p = [slash]" "r \<noteq> []" by (auto simp: Dir_def)
    with r 2 show ?thesis by (cases r) (auto simp: depth_measure_def slash_def)
  next
    case 3
    have "Clean [] = ''.''" by code_simp
    with 3 have nz: "up_to_slash p \<noteq> []" by (auto simp: Dir_def)
    from Clean_shorter [OF nz last_up_to_slash [OF nz] 3(2)] 3(1)
    have "length (Dir p) < length (up_to_slash p)" by (simp add: Dir_def)
    also have "\<dots> \<le> length p" using r by (metis length_append le_add1)
    finally show ?thesis using 3(1) dot ne by (auto simp: depth_measure_def)
  qed
qed

section \<open>Names and absolute paths\<close>

definition plain_name :: "gostring \<Rightarrow> bool" where
  "plain_name w \<longleftrightarrow> w \<noteq> [] \<and> w \<noteq> ''.'' \<and> w \<noteq> ''..'' \<and> slash \<notin> set w"

lemma split_slash_plain: "slash \<notin> set w \<Longrightarrow> split_slash w = [w]"
  by (induction w) auto

lemma split_slash_append: "split_slash (d @ slash # w) = split_slash d @ split_slash w"
  by (induction d) (auto split: list.splits)

lemma clean_components_snoc:
  "plain_name w \<Longrightarrow> clean_components r st (ws @ [w]) = clean_components r st ws @ [w]"
  by (induction r st ws rule: clean_components.induct) (auto simp: plain_name_def split: list.split)

lemma join_slash_snoc: "join_slash (ws @ [w]) = (if ws = [] then w else join_slash ws @ slash # w)"
  by (induction ws rule: join_slash.induct) auto

lemma Join_plain: "plain_name w \<Longrightarrow> has_suffix (Join [d, w]) w"
proof -
  assume w: "plain_name w"
  then have "split_slash w = [w]" "w \<noteq> []" by (simp_all add: split_slash_plain plain_name_def)
  then have "\<exists>u. Clean (d @ slash # w) = u @ w"
    by (auto simp: Clean_def Let_def split_slash_append clean_components_snoc [OF w] join_slash_snoc)
  moreover have "\<exists>u. Clean w = u @ w"
    using \<open>split_slash w = [w]\<close> clean_components_snoc [OF w, of _ "[]" "[]"] by (auto simp: Clean_def Let_def)
  ultimately show ?thesis using \<open>w \<noteq> []\<close> by (auto simp: Join_def has_suffix_iff)
qed

lemma IsAbs_Clean: "IsAbs p \<Longrightarrow> IsAbs (Clean p)"
  by (simp add: IsAbs_def Clean_def Let_def)

lemma IsAbs_Join: "IsAbs d \<Longrightarrow> IsAbs (Join (d # es))"
  by (cases es) (auto simp: Join_def IsAbs_def Clean_def)

lemma IsAbs_Dir: "IsAbs p \<Longrightarrow> IsAbs (Dir p)"
proof -
  assume p: "IsAbs p"
  then have "slash \<in> set (rev p)" by (cases p) (auto simp: IsAbs_def)
  then have "up_to_slash p \<noteq> []" by (auto simp: up_to_slash_def dropWhile_eq_Nil_conv)
  moreover obtain r where "p = up_to_slash p @ r" using up_to_slash_prefix by blast
  ultimately have "IsAbs (up_to_slash p)" using p by (metis IsAbs_def hd_append2)
  then show ?thesis by (simp add: Dir_def IsAbs_Clean)
qed

section \<open>Walking up\<close>

text \<open>
  The directories from a path up to the root. A walk asks each in turn and stops at the first answer:
  the law of the locale is the loop of such a walk, and the lemma says that the nearest directory with
  an answer gives the result.
\<close>

function ancestors :: "gostring \<Rightarrow> gostring list" where
  "ancestors p = p # (if Dir p = p then [] else ancestors (Dir p))"
  by pat_completeness auto
termination
  by (relation "measure depth_measure") (simp_all add: Dir_shorter)

declare ancestors.simps [simp del]

lemma ancestors_nonempty [simp]: "ancestors p \<noteq> []"
  by (subst ancestors.simps) simp

lemma ancestors_Cons: "\<exists>ps. ancestors p = p # ps"
  by (subst ancestors.simps) simp

lemma ancestors_self: "p \<in> set (ancestors p)"
  by (subst ancestors.simps) simp

locale climber =
  fixes climb :: "gostring \<Rightarrow> 'r" and visit :: "gostring \<Rightarrow> 'r option" and miss :: "gostring \<Rightarrow> 'r"
  assumes climb_step: "climb p = (case visit p of Some r \<Rightarrow> r | None \<Rightarrow> if Dir p = p then miss p else climb (Dir p))"
begin

lemma climb_nearest:
  "(\<exists>pre d post. ancestors p = pre @ d # post \<and> visit d = Some (climb p) \<and> (\<forall>a\<in>set pre. visit a = None)) \<or>
   (\<forall>a\<in>set (ancestors p). visit a = None) \<and> climb p = miss (last (ancestors p))"
  (is "?found p \<or> ?missed p")
proof (induction p rule: ancestors.induct)
  case (1 p)
  note c = climb_step [of p]
  consider r where "visit p = Some r" | "visit p = None" "Dir p = p" | "visit p = None" "Dir p \<noteq> p" by fastforce
  then show ?case
  proof cases
    case 1
    obtain ps where "ancestors p = p # ps" using ancestors_Cons by blast
    with 1 c show ?thesis by (intro disjI1 exI [of _ "[]"] exI [of _ p] exI [of _ ps]) simp
  next
    case 2
    then have "ancestors p = [p]" by (subst ancestors.simps) simp
    with 2 c show ?thesis by simp
  next
    case 3
    then have a: "ancestors p = p # ancestors (Dir p)" by (subst ancestors.simps) simp
    from 1 [OF 3(2)] show ?thesis
    proof
      assume "?found (Dir p)"
      then obtain pre d post where "ancestors (Dir p) = pre @ d # post"
        "visit d = Some (climb (Dir p))" "\<forall>a\<in>set pre. visit a = None" by blast
      with 3 a c show ?thesis by (intro disjI1 exI [of _ "p # pre"] exI [of _ d] exI [of _ post]) simp
    qed (use 3 a c in simp)
  qed
qed

lemma climb_found:
  assumes "climb p = r" "\<And>q. miss q \<noteq> r"
  shows "\<exists>pre d post. ancestors p = pre @ d # post \<and> visit d = Some r \<and> (\<forall>a\<in>set pre. visit a = None)"
  using climb_nearest [of p] assms(1) assms(2) [of "last (ancestors p)"] by auto

end

end
