(* ===== verification/Workspace.thy ===== *)
theory Workspace
  imports Paths ModParser
begin

text \<open>
  The loaders of project files: \<open>src/internal/template/workspace.go\<close>, \<open>global.go\<close> and \<open>ExpandPath\<close> of
  \<open>template.go\<close>. They find the workspace root above a directory, load it with the repositories it
  includes and the overlay of a profile, and put the host-wide defaults file below everything else.

  The host is a record of what the loaders ask it: the status and the content of a path, the working
  directory, the home directory and the environment; \<open>ho_GlobalDisabled\<close> is the package variable of the
  same name. The errors keep the path or the names their text shows. Where the code reports one entry
  of a Go map, whose order is not specified, the model reports the first in declaration order.
\<close>

section \<open>Host\<close>

datatype stat = StatAbsent | StatFailed | StatFile | StatDir

datatype read_result = ReadAbsent | ReadFailed | ReadOk gostring

record host =
  ho_Stat :: "gostring \<Rightarrow> stat"
  ho_ReadFile :: "gostring \<Rightarrow> read_result"
  ho_Getwd :: "gostring option"
  ho_HomeDir :: "gostring option"
  ho_Getenv :: "gostring \<Rightarrow> gostring"
  ho_GlobalDisabled :: bool

datatype load_error =
    GetwdFailed
  | HomeDirFailed
  | FileAbsent gostring
  | FileUnreadable gostring
  | StatError gostring
  | BadFile gostring parse_error
  | RetiredWorkspaceFileError gostring
  | ErrNoWorkspace
  | LifecycleAtWorkspace gostring gostring
  | ProfileUnmatched gostring
  | IncludeMissing gostring
  | IncludeNotDir gostring
  | NoGitAncestor gostring
  | NestedIncludes gostring
  | OverlayIncludes gostring
  | NameCollision gostring "gostring list"
  | UnknownRepos "gostring list" "gostring list"
  | ErrNoGlobalMod
  | ErrGlobalMod load_error
  | GlobalOverrideMissing gostring
  | TwoGlobalFiles gostring gostring
  | GlobalScope gostring gostring

definition fileExists :: "host \<Rightarrow> gostring \<Rightarrow> bool" where
  "fileExists h p \<longleftrightarrow> ho_Stat h p = StatFile \<or> ho_Stat h p = StatDir"

definition Abs :: "host \<Rightarrow> gostring \<Rightarrow> load_error + gostring" where
  "Abs h p = (if IsAbs p then Inr (Clean p)
     else case ho_Getwd h of None \<Rightarrow> Inl GetwdFailed | Some wd \<Rightarrow> Inr (Join [wd, p]))"

definition UserHomeDir :: "host \<Rightarrow> load_error + gostring" where
  "UserHomeDir h = (case ho_HomeDir h of None \<Rightarrow> Inl HomeDirFailed | Some d \<Rightarrow> Inr d)"

definition ExpandPath :: "host \<Rightarrow> gostring \<Rightarrow> load_error + gostring" where
  "ExpandPath h p =
     (if has_prefix p ''~/'' \<or> p = ''~'' then
        andThen (UserHomeDir h) (\<lambda>home. Inr (if p = ''~'' then home else Join [home, drop 2 p]))
      else if has_prefix p ''$HOME/'' \<or> p = ''$HOME'' then
        andThen (UserHomeDir h) (\<lambda>home. Inr (if p = ''$HOME'' then home else Join [home, drop 6 p]))
      else Inr p)"

section \<open>Files\<close>

record Repo =
  rp_Name :: gostring
  rp_Path :: gostring
  rp_RepoPath :: gostring
  rp_Clawkfile :: "Template option"

record Workspace =
  ws_Root :: gostring
  ws_File :: Template
  ws_Repos :: "Repo list"
  ws_Policies :: "PolicyDef list"
  ws_GlobalPath :: gostring
  ws_GlobalProfileMatched :: bool

definition RepoFileName :: gostring where "RepoFileName = ''clawk.mod''"
definition RetiredWorkspaceFileName :: gostring where "RetiredWorkspaceFileName = ''clawk.work''"

definition loadFile :: "stdlib \<Rightarrow> host \<Rightarrow> gostring \<Rightarrow> load_error + File" where
  "loadFile std h absPath =
     (case ho_ReadFile h absPath of
        ReadAbsent \<Rightarrow> Inl (FileAbsent absPath)
      | ReadFailed \<Rightarrow> Inl (FileUnreadable absPath)
      | ReadOk data \<Rightarrow>
          (case ParseFileString std data of
             Inl err \<Rightarrow> Inl (BadFile absPath err)
           | Inr f \<Rightarrow> Inr (f\<lparr>mf_Sandbox := map_option (\<lambda>t. if tm_SandboxName t \<noteq> [] then t\<lparr>tm_Name := tm_SandboxName t\<rparr> else t) (mf_Sandbox f)\<rparr>)))"

definition maybeParseOverlay :: "stdlib \<Rightarrow> host \<Rightarrow> gostring \<Rightarrow> load_error + File option" where
  "maybeParseOverlay std h path =
     (case ho_Stat h path of
        StatAbsent \<Rightarrow> Inr None
      | StatFailed \<Rightarrow> Inl (StatError path)
      | _ \<Rightarrow> andThen (loadFile std h path) (\<lambda>f. Inr (Some f)))"

function FindGitRepo :: "host \<Rightarrow> gostring \<Rightarrow> load_error + gostring" where
  "FindGitRepo h cur =
     (if fileExists h (Join [cur, ''.git'']) then Inr cur
      else if Dir cur = cur then Inl (NoGitAncestor cur)
      else FindGitRepo h (Dir cur))"
  by pat_completeness auto
termination
  by (relation "measure (\<lambda>(h, p). depth_measure p)") (simp_all add: Dir_shorter)

declare FindGitRepo.simps [simp del]

section \<open>Host-wide defaults\<close>

record Global =
  gl_Path :: gostring
  gl_Template :: Template
  gl_Policies :: "PolicyDef list"
  gl_ProfileMatched :: bool

definition GlobalModEnvVar :: gostring where "GlobalModEnvVar = ''CLAWK_GLOBAL_MOD''"

definition GlobalModPath :: "host \<Rightarrow> load_error + gostring" where
  "GlobalModPath h =
     (let p = ho_Getenv h GlobalModEnvVar in
      if p \<noteq> [] then
        andThen (ExpandPath h p) (\<lambda>expanded.
        andThen (Abs h expanded) (\<lambda>absPath.
          if \<not> fileExists h absPath then Inl (GlobalOverrideMissing p) else Inr absPath))
      else
        andThen
          (if ho_Getenv h ''XDG_CONFIG_HOME'' = [] then
             (case ho_HomeDir h of None \<Rightarrow> Inl ErrNoGlobalMod | Some home \<Rightarrow> Inr (Join [home, ''.config'']))
           else Inr (ho_Getenv h ''XDG_CONFIG_HOME''))
          (\<lambda>xdg.
            let primary = Join [xdg, ''clawk'', RepoFileName];
                legacy = (case ho_HomeDir h of None \<Rightarrow> [] | Some home \<Rightarrow> Join [home, ''.clawk'', RepoFileName]) in
            if fileExists h primary \<and> legacy \<noteq> [] \<and> fileExists h legacy then Inl (TwoGlobalFiles primary legacy)
            else if fileExists h primary then Inr primary
            else if legacy \<noteq> [] \<and> fileExists h legacy then Inr legacy
            else Inl ErrNoGlobalMod))"

definition validateGlobalFile :: "gostring \<Rightarrow> File \<Rightarrow> load_error option" where
  "validateGlobalFile path f =
     (if mf_Namespaces f \<noteq> [] then Some (GlobalScope path ''namespace'')
      else case mf_Sandbox f of
        None \<Rightarrow> None
      | Some t \<Rightarrow>
          if tm_Name t \<noteq> [] then Some (GlobalScope path ''name'')
          else if tm_Includes t \<noteq> [] then Some (GlobalScope path ''includes'')
          else if tm_OnDown t \<noteq> [] then Some (GlobalScope path ''on down'')
          else if tm_OnEnter t \<noteq> [] then Some (GlobalScope path ''on enter'')
          else None)"

definition absHostPath :: "gostring \<Rightarrow> gostring \<Rightarrow> gostring" where
  "absHostPath dir p =
     (if p = [] \<or> IsAbs p then p
      else if has_prefix p ''~'' \<or> has_prefix p ''$HOME'' then p
      else Join [dir, p])"

definition isURL :: "stdlib \<Rightarrow> gostring \<Rightarrow> bool" where
  "isURL std s \<longleftrightarrow> (case parseURL std s of None \<Rightarrow> False
     | Some u \<Rightarrow> url_Scheme u = ''http'' \<or> url_Scheme u = ''https'')"

definition absolutiseHostPaths :: "stdlib \<Rightarrow> Template \<Rightarrow> gostring \<Rightarrow> Template" where
  "absolutiseHostPaths std t dir =
     t\<lparr>tm_Files := map (\<lambda>f. f\<lparr>fl_HostPath := absHostPath dir (fl_HostPath f)\<rparr>) (tm_Files t),
       tm_Shares := map (\<lambda>s. s\<lparr>sh_HostPath := absHostPath dir (sh_HostPath s)\<rparr>) (tm_Shares t),
       tm_Serials := map (\<lambda>s. s\<lparr>se_HostPath := absHostPath dir (se_HostPath s)\<rparr>) (tm_Serials t),
       tm_Instructions := map (\<lambda>d. d\<lparr>ad_Path := absHostPath dir (ad_Path d)\<rparr>) (tm_Instructions t),
       tm_Memory := map (\<lambda>d. d\<lparr>ad_Path := absHostPath dir (ad_Path d)\<rparr>) (tm_Memory t),
       tm_Kernel := (if isURL std (tm_Kernel t) then tm_Kernel t else absHostPath dir (tm_Kernel t))\<rparr>"

definition global_overlay :: "stdlib \<Rightarrow> host \<Rightarrow> gostring \<Rightarrow> Global \<Rightarrow> load_error + Global" where
  "global_overlay std h profile g =
     (if profile = [] then Inr g
      else let overlayPath = gl_Path g @ ''.'' @ profile in
        andThen (maybeParseOverlay std h overlayPath) (\<lambda>over.
          case over of
            None \<Rightarrow> Inr g
          | Some f \<Rightarrow>
              (case validateGlobalFile overlayPath f of
                 Some err \<Rightarrow> Inl err
               | None \<Rightarrow> Inr (g\<lparr>gl_ProfileMatched := True,
                             gl_Template := Merge (gl_Template g) (mf_Sandbox f),
                             gl_Policies := gl_Policies g @ mf_Policies f\<rparr>))))"

definition loadGlobal :: "stdlib \<Rightarrow> host \<Rightarrow> gostring \<Rightarrow> load_error + Global" where
  "loadGlobal std h profile =
     (if ho_GlobalDisabled h then Inl ErrNoGlobalMod
      else
        andThen (GlobalModPath h) (\<lambda>path.
        andThen (loadFile std h path) (\<lambda>f.
          case validateGlobalFile path f of
            Some err \<Rightarrow> Inl err
          | None \<Rightarrow>
              andThen (global_overlay std h profile
                 \<lparr>gl_Path = path,
                  gl_Template = (case mf_Sandbox f of None \<Rightarrow> empty_template | Some t \<Rightarrow> t),
                  gl_Policies = mf_Policies f, gl_ProfileMatched = False\<rparr>)
               (\<lambda>g. Inr (g\<lparr>gl_Template := absolutiseHostPaths std (gl_Template g) (Dir path)\<rparr>)))))"

definition LoadGlobalWithProfile :: "stdlib \<Rightarrow> host \<Rightarrow> gostring \<Rightarrow> load_error + Global" where
  "LoadGlobalWithProfile std h profile =
     (case loadGlobal std h profile of
        Inl err \<Rightarrow> Inl (if err = ErrNoGlobalMod then err else ErrGlobalMod err)
      | Inr g \<Rightarrow> Inr g)"

definition LoadGlobal :: "stdlib \<Rightarrow> host \<Rightarrow> load_error + Global" where
  "LoadGlobal std h = LoadGlobalWithProfile std h []"

definition foldGlobalUnderOnlyRepo :: "Workspace \<Rightarrow> Global \<Rightarrow> Workspace" where
  "foldGlobalUnderOnlyRepo ws g =
     (case ws_Repos ws of
        [r] \<Rightarrow> ws\<lparr>ws_Repos := [r\<lparr>rp_Clawkfile := Some (Merge (Clone (Some (gl_Template g))) (rp_Clawkfile r))\<rparr>]\<rparr>
      | _ \<Rightarrow> ws)"

definition anyRepo :: "Workspace \<Rightarrow> (Template \<Rightarrow> bool) \<Rightarrow> bool" where
  "anyRepo ws pred \<longleftrightarrow> list_ex (\<lambda>r. case rp_Clawkfile r of None \<Rightarrow> False | Some t \<Rightarrow> pred t) (ws_Repos ws)"

definition foldGlobalIntoWorkspace :: "Workspace \<Rightarrow> Global \<Rightarrow> Workspace" where
  "foldGlobalIntoWorkspace ws g =
     (let own = ws_File ws;
          base = Merge (Clone (Some (gl_Template g))) (Some own) in
      ws\<lparr>ws_File := base
        \<lparr>tm_Provider := (if tm_Provider own = [] \<and> anyRepo ws (\<lambda>t. tm_Provider t \<noteq> []) then [] else tm_Provider base),
         tm_Image := (if tm_Image own = [] \<and> anyRepo ws (\<lambda>t. tm_Image t \<noteq> []) then [] else tm_Image base),
         tm_Kernel := (if tm_Kernel own = [] \<and> anyRepo ws (\<lambda>t. tm_Kernel t \<noteq> []) then [] else tm_Kernel base),
         tm_CPU := (if tm_CPU own = 0 \<and> anyRepo ws (\<lambda>t. tm_CPU t \<noteq> 0) then 0 else tm_CPU base),
         tm_MemoryMiB := (if tm_MemoryMiB own = 0 \<and> anyRepo ws (\<lambda>t. tm_MemoryMiB t \<noteq> 0) then 0 else tm_MemoryMiB base),
         tm_MemoryMaxMiB := (if tm_MemoryMaxMiB own = 0 \<and> anyRepo ws (\<lambda>t. tm_MemoryMaxMiB t \<noteq> 0) then 0 else tm_MemoryMaxMiB base),
         tm_DiskMiB := (if tm_DiskMiB own = 0 \<and> anyRepo ws (\<lambda>t. tm_DiskMiB t \<noteq> 0) then 0 else tm_DiskMiB base),
         tm_SwapMiB := (if tm_SwapMiB own = 0 \<and> anyRepo ws (\<lambda>t. tm_SwapMiB t \<noteq> 0) then 0 else tm_SwapMiB base),
         tm_IdleTimeoutSec := (if tm_IdleTimeoutSec own = 0 \<and> anyRepo ws (\<lambda>t. tm_IdleTimeoutSec t \<noteq> 0) then 0 else tm_IdleTimeoutSec base)\<rparr>\<rparr>)"

definition attachGlobal ::
  "stdlib \<Rightarrow> host \<Rightarrow> Workspace \<Rightarrow> gostring \<Rightarrow> (Workspace \<Rightarrow> Global \<Rightarrow> Workspace) \<Rightarrow> load_error + Workspace" where
  "attachGlobal std h ws profile fold_into =
     (case LoadGlobalWithProfile std h profile of
        Inl err \<Rightarrow> if err = ErrNoGlobalMod then Inr ws else Inl err
      | Inr g \<Rightarrow> Inr ((fold_into ws g)
          \<lparr>ws_GlobalPath := gl_Path g, ws_GlobalProfileMatched := gl_ProfileMatched g,
           ws_Policies := gl_Policies g @ ws_Policies (fold_into ws g)\<rparr>))"

section \<open>Repositories\<close>

definition checked_include :: "host \<Rightarrow> gostring \<Rightarrow> gostring \<Rightarrow> load_error + gostring" where
  "checked_include h workspaceRoot raw =
     andThen (ExpandPath h raw) (\<lambda>expanded.
     andThen (Abs h (if IsAbs expanded then expanded else Join [workspaceRoot, expanded])) (\<lambda>absInclude.
       case ho_Stat h absInclude of
         StatDir \<Rightarrow> Inr absInclude
       | StatFile \<Rightarrow> Inl (IncludeNotDir absInclude)
       | _ \<Rightarrow> Inl (IncludeMissing absInclude)))"

definition resolveRepoBase :: "stdlib \<Rightarrow> host \<Rightarrow> gostring \<Rightarrow> gostring \<Rightarrow> load_error + Repo \<times> PolicyDef list" where
  "resolveRepoBase std h workspaceRoot raw =
     andThen (checked_include h workspaceRoot raw) (\<lambda>absInclude.
     andThen (FindGitRepo h absInclude) (\<lambda>repoRoot.
       let repo = \<lparr>rp_Name = Base repoRoot, rp_Path = absInclude, rp_RepoPath = repoRoot, rp_Clawkfile = None\<rparr>;
           clawkfilePath = Join [repoRoot, RepoFileName] in
       case loadFile std h clawkfilePath of
         Inl (FileAbsent _) \<Rightarrow> Inr (repo, [])
       | Inl err \<Rightarrow> Inl err
       | Inr f \<Rightarrow>
           (case mf_Sandbox f of
              None \<Rightarrow> Inr (repo, mf_Policies f)
            | Some t \<Rightarrow>
                if tm_Includes t \<noteq> [] then Inl (NestedIncludes clawkfilePath)
                else Inr (repo\<lparr>rp_Name := (if tm_Name t \<noteq> [] then tm_Name t else rp_Name repo),
                               rp_Clawkfile := Some t\<rparr>, mf_Policies f))))"

definition overlay_repo :: "gostring \<Rightarrow> Repo \<Rightarrow> Template \<Rightarrow> load_error + Repo" where
  "overlay_repo overlayPath repo over =
     (if tm_Includes over \<noteq> [] then Inl (OverlayIncludes overlayPath)
      else Inr (repo
        \<lparr>rp_Clawkfile := (case rp_Clawkfile repo of None \<Rightarrow> Some over | Some t \<Rightarrow> Some (Merge t (Some over))),
         rp_Name := (if tm_Name over \<noteq> [] then tm_Name over else rp_Name repo)\<rparr>))"

definition resolveRepoWithProfile ::
  "stdlib \<Rightarrow> host \<Rightarrow> gostring \<Rightarrow> gostring \<Rightarrow> gostring \<Rightarrow> load_error + Repo \<times> PolicyDef list \<times> bool" where
  "resolveRepoWithProfile std h workspaceRoot raw profile =
     andThen (resolveRepoBase std h workspaceRoot raw) (\<lambda>(repo, policies).
       if profile = [] then Inr (repo, policies, False)
       else let overlayPath = Join [rp_RepoPath repo, RepoFileName @ ''.'' @ profile] in
         andThen (maybeParseOverlay std h overlayPath) (\<lambda>overFile.
           case overFile of
             None \<Rightarrow> Inr (repo, policies, False)
           | Some f \<Rightarrow>
               (case mf_Sandbox f of
                  None \<Rightarrow> Inr (repo, policies @ mf_Policies f, True)
                | Some over \<Rightarrow> andThen (overlay_repo overlayPath repo over)
                    (\<lambda>repo. Inr (repo, policies @ mf_Policies f, True)))))"

definition checkNameCollisions :: "Repo list \<Rightarrow> load_error option" where
  "checkNameCollisions repos =
     (let paths = (\<lambda>n. map rp_Path (filter (\<lambda>r. rp_Name r = n) repos)) in
      map_option (\<lambda>n. NameCollision n (paths n)) (find (\<lambda>n. 1 < length (paths n)) (map rp_Name repos)))"

section \<open>Workspaces\<close>

definition rejectLifecycleAtWorkspace :: "gostring \<Rightarrow> Template \<Rightarrow> load_error option" where
  "rejectLifecycleAtWorkspace path t =
     (if tm_OnDown t \<noteq> [] then Some (LifecycleAtWorkspace path ''on down'')
      else if tm_OnEnter t \<noteq> [] then Some (LifecycleAtWorkspace path ''on enter'')
      else None)"

definition workspace_overlay ::
  "stdlib \<Rightarrow> host \<Rightarrow> gostring \<Rightarrow> gostring \<Rightarrow> Template \<Rightarrow> PolicyDef list \<Rightarrow> load_error + Template \<times> PolicyDef list \<times> bool" where
  "workspace_overlay std h absPath profile t policies =
     (if profile = [] then Inr (t, policies, False)
      else let overlayPath = absPath @ ''.'' @ profile in
        andThen (maybeParseOverlay std h overlayPath) (\<lambda>overFile.
          case overFile of
            None \<Rightarrow> Inr (t, policies, False)
          | Some f \<Rightarrow>
              (case mf_Sandbox f of
                 None \<Rightarrow> Inr (t, policies @ mf_Policies f, True)
               | Some over \<Rightarrow>
                   (case rejectLifecycleAtWorkspace overlayPath over of
                      Some err \<Rightarrow> Inl err
                    | None \<Rightarrow> Inr (Merge t (Some over), policies @ mf_Policies f, True)))))"

fun load_includes ::
  "stdlib \<Rightarrow> host \<Rightarrow> gostring \<Rightarrow> gostring list \<Rightarrow> Workspace \<Rightarrow> bool \<Rightarrow> load_error + Workspace \<times> bool" where
  "load_includes std h profile [] ws matched = Inr (ws, matched)"
| "load_includes std h profile (raw # rest) ws matched =
     andThen (resolveRepoWithProfile std h (ws_Root ws) raw profile) (\<lambda>(repo, policies, m).
       load_includes std h profile rest
         (ws\<lparr>ws_Repos := ws_Repos ws @ [repo], ws_Policies := ws_Policies ws @ policies\<rparr>) (matched \<or> m))"

definition loadWorkspaceParsed :: "stdlib \<Rightarrow> host \<Rightarrow> gostring \<Rightarrow> File \<Rightarrow> gostring \<Rightarrow> load_error + Workspace" where
  "loadWorkspaceParsed std h absPath f profile =
     (let t = (case mf_Sandbox f of None \<Rightarrow> empty_template | Some t \<Rightarrow> t) in
      case rejectLifecycleAtWorkspace absPath t of
        Some err \<Rightarrow> Inl err
      | None \<Rightarrow>
          andThen (workspace_overlay std h absPath profile t (mf_Policies f)) (\<lambda>(t, policies, matched).
          andThen (load_includes std h profile (tm_Includes t)
             \<lparr>ws_Root = Dir absPath, ws_File = t, ws_Repos = [], ws_Policies = policies,
              ws_GlobalPath = [], ws_GlobalProfileMatched = False\<rparr> matched) (\<lambda>(ws, matched).
            case checkNameCollisions (ws_Repos ws) of
              Some err \<Rightarrow> Inl err
            | None \<Rightarrow>
                andThen (attachGlobal std h ws profile foldGlobalIntoWorkspace) (\<lambda>ws.
                  if profile \<noteq> [] \<and> \<not> (matched \<or> ws_GlobalProfileMatched ws) then Inl (ProfileUnmatched profile)
                  else Inr ws))))"

definition LoadWorkspaceWithProfile :: "stdlib \<Rightarrow> host \<Rightarrow> gostring \<Rightarrow> gostring \<Rightarrow> load_error + Workspace" where
  "LoadWorkspaceWithProfile std h path profile =
     andThen (Abs h path) (\<lambda>absPath.
       if Base absPath = RetiredWorkspaceFileName then Inl (RetiredWorkspaceFileError absPath)
       else andThen (loadFile std h absPath) (\<lambda>f. loadWorkspaceParsed std h absPath f profile))"

definition LoadWorkspace :: "stdlib \<Rightarrow> host \<Rightarrow> gostring \<Rightarrow> load_error + Workspace" where
  "LoadWorkspace std h path = LoadWorkspaceWithProfile std h path []"

definition is_workspace_root :: "File \<Rightarrow> bool" where
  "is_workspace_root f \<longleftrightarrow> (case mf_Sandbox f of None \<Rightarrow> False | Some t \<Rightarrow> tm_Includes t \<noteq> [])"

text \<open>What the walk does at one directory: an error, the workspace, or on to the parent.\<close>

definition workspace_at :: "stdlib \<Rightarrow> host \<Rightarrow> gostring \<Rightarrow> gostring \<Rightarrow> (load_error + Workspace) option" where
  "workspace_at std h profile absPath =
     (let legacy = Join [absPath, RetiredWorkspaceFileName]; p = Join [absPath, RepoFileName] in
      if fileExists h legacy then Some (Inl (RetiredWorkspaceFileError legacy))
      else if fileExists h p then
        (case loadFile std h p of
           Inl err \<Rightarrow> Some (Inl err)
         | Inr f \<Rightarrow> if is_workspace_root f then Some (loadWorkspaceParsed std h p f profile) else None)
      else None)"

function find_workspace :: "stdlib \<Rightarrow> host \<Rightarrow> gostring \<Rightarrow> gostring \<Rightarrow> load_error + Workspace" where
  "find_workspace std h profile absPath =
     (case workspace_at std h profile absPath of
        Some r \<Rightarrow> r
      | None \<Rightarrow> if Dir absPath = absPath then Inl ErrNoWorkspace else find_workspace std h profile (Dir absPath))"
  by pat_completeness auto
termination
  by (relation "measure (\<lambda>(std, h, profile, p). depth_measure p)") (simp_all add: Dir_shorter)

declare find_workspace.simps [simp del]

definition FindWorkspaceWithProfile :: "stdlib \<Rightarrow> host \<Rightarrow> gostring \<Rightarrow> gostring \<Rightarrow> load_error + Workspace" where
  "FindWorkspaceWithProfile std h dir profile = andThen (Abs h dir) (find_workspace std h profile)"

definition FindWorkspace :: "stdlib \<Rightarrow> host \<Rightarrow> gostring \<Rightarrow> load_error + Workspace" where
  "FindWorkspace std h dir = FindWorkspaceWithProfile std h dir []"

definition single_repo :: "Repo \<Rightarrow> PolicyDef list \<Rightarrow> Workspace" where
  "single_repo repo policies =
     \<lparr>ws_Root = rp_RepoPath repo, ws_File = empty_template, ws_Repos = [repo], ws_Policies = policies,
      ws_GlobalPath = [], ws_GlobalProfileMatched = False\<rparr>"

definition LoadStandaloneClawkfileWithProfile :: "stdlib \<Rightarrow> host \<Rightarrow> gostring \<Rightarrow> gostring \<Rightarrow> load_error + Workspace" where
  "LoadStandaloneClawkfileWithProfile std h dir profile =
     andThen (Abs h dir) (\<lambda>absPath.
       let clawkfilePath = Join [absPath, RepoFileName] in
       case ho_Stat h clawkfilePath of
         StatAbsent \<Rightarrow> Inl (FileAbsent clawkfilePath)
       | StatFailed \<Rightarrow> Inl (StatError clawkfilePath)
       | _ \<Rightarrow>
           andThen (resolveRepoWithProfile std h absPath absPath profile) (\<lambda>(repo, policies, matched).
           andThen (attachGlobal std h (single_repo repo policies) profile foldGlobalUnderOnlyRepo) (\<lambda>ws.
             if profile \<noteq> [] \<and> \<not> matched \<and> \<not> ws_GlobalProfileMatched ws then Inl (ProfileUnmatched profile)
             else Inr ws)))"

definition LoadStandaloneClawkfile :: "stdlib \<Rightarrow> host \<Rightarrow> gostring \<Rightarrow> load_error + Workspace" where
  "LoadStandaloneClawkfile std h dir = LoadStandaloneClawkfileWithProfile std h dir []"

definition LoadClawkfilePathWithProfile :: "stdlib \<Rightarrow> host \<Rightarrow> gostring \<Rightarrow> gostring \<Rightarrow> load_error + Workspace" where
  "LoadClawkfilePathWithProfile std h path profile =
     andThen (Abs h path) (\<lambda>absPath.
     andThen (loadFile std h absPath) (\<lambda>f.
       if is_workspace_root f then loadWorkspaceParsed std h absPath f profile
       else LoadStandaloneClawkfileWithProfile std h (Dir absPath) profile))"

definition WorkspaceFromGitRepo :: "stdlib \<Rightarrow> host \<Rightarrow> gostring \<Rightarrow> load_error + Workspace" where
  "WorkspaceFromGitRepo std h dir =
     andThen (Abs h dir) (\<lambda>absPath.
     andThen (FindGitRepo h absPath) (\<lambda>repoRoot.
       attachGlobal std h
         (single_repo \<lparr>rp_Name = Base repoRoot, rp_Path = repoRoot, rp_RepoPath = repoRoot, rp_Clawkfile = None\<rparr> [])
         [] foldGlobalUnderOnlyRepo))"

fun keep_wanted :: "gostring list \<Rightarrow> Repo list \<Rightarrow> Repo list \<times> gostring list" where
  "keep_wanted wanted [] = ([], wanted)"
| "keep_wanted wanted (r # rs) =
     (if rp_Name r \<in> set wanted then
        (let (kept, missing) = keep_wanted (removeAll (rp_Name r) wanted) rs in (r # kept, missing))
      else keep_wanted wanted rs)"

definition FilterRepos :: "Workspace \<Rightarrow> gostring list \<Rightarrow> load_error + Workspace" where
  "FilterRepos w only =
     (if only = [] then Inr w
      else let (kept, missing) = keep_wanted (remdups (map trim_space only)) (ws_Repos w) in
        if missing \<noteq> [] then Inl (UnknownRepos missing (map rp_Name (ws_Repos w)))
        else Inr (w\<lparr>ws_Repos := kept\<rparr>))"

section \<open>Searches\<close>

definition git_at :: "host \<Rightarrow> gostring \<Rightarrow> (load_error + gostring) option" where
  "git_at h d = (if fileExists h (Join [d, ''.git'']) then Some (Inr d) else None)"

interpretation git: climber "FindGitRepo h" "git_at h" "\<lambda>p. Inl (NoGitAncestor p)"
  by unfold_locales (subst FindGitRepo.simps, simp add: git_at_def)

interpretation wsp: climber "find_workspace std h profile" "workspace_at std h profile" "\<lambda>p. Inl ErrNoWorkspace"
  by unfold_locales (subst find_workspace.simps, rule refl)

lemma andThen_Inr: "andThen m f = Inr y \<longleftrightarrow> (\<exists>x. m = Inr x \<and> f x = Inr y)"
  by (cases m) (auto simp: andThen_def)

lemma andThen_Inl: "andThen m f = Inl e \<longleftrightarrow> m = Inl e \<or> (\<exists>x. m = Inr x \<and> f x = Inl e)"
  by (cases m) (auto simp: andThen_def)

lemma FindGitRepo_found:
  "FindGitRepo h p = Inr d \<Longrightarrow> d \<in> set (ancestors p) \<and> fileExists h (Join [d, ''.git''])"
  using git.climb_found [of h p "Inr d"] by (auto simp: git_at_def split: if_splits)

lemma workspace_at_None:
  "workspace_at std h profile d = None \<longleftrightarrow>
     \<not> fileExists h (Join [d, RetiredWorkspaceFileName]) \<and>
     (fileExists h (Join [d, RepoFileName]) \<longrightarrow>
       (\<exists>f. loadFile std h (Join [d, RepoFileName]) = Inr f \<and> \<not> is_workspace_root f))"
  by (auto simp: workspace_at_def Let_def split: sum.split)

lemma workspace_at_found:
  "workspace_at std h profile d = Some (Inr ws) \<longleftrightarrow>
     (\<exists>f. \<not> fileExists h (Join [d, RetiredWorkspaceFileName]) \<and> fileExists h (Join [d, RepoFileName]) \<and>
       loadFile std h (Join [d, RepoFileName]) = Inr f \<and> is_workspace_root f \<and>
       loadWorkspaceParsed std h (Join [d, RepoFileName]) f profile = Inr ws)"
  by (auto simp: workspace_at_def Let_def split: sum.split)

lemma FindWorkspace_loads:
  assumes "FindWorkspaceWithProfile std h dir profile = Inr ws"
  shows "\<exists>p f. loadWorkspaceParsed std h p f profile = Inr ws"
proof -
  from assms obtain p where "find_workspace std h profile p = Inr ws"
    by (auto simp: FindWorkspaceWithProfile_def andThen_Inr)
  from wsp.climb_found [OF this] show ?thesis by (auto simp: workspace_at_found)
qed

section \<open>Merging and the host-wide layer\<close>

lemma Merge_None [simp]: "Merge t None = t"
  by (simp add: Merge_def)

lemma Merge_sel [simp]:
  "tm_Name (Merge t (Some v)) = (if tm_Name v \<noteq> [] then tm_Name v else tm_Name t)"
  "tm_Includes (Merge t (Some v)) = tm_Includes t @ tm_Includes v"
  "tm_OnDown (Merge t (Some v)) = tm_OnDown t @ tm_OnDown v"
  "tm_OnEnter (Merge t (Some v)) = tm_OnEnter t @ tm_OnEnter v"
  "tm_Image (Merge t (Some v)) = tm_Image t"
  "tm_DenySources (Merge t (Some v)) = tm_DenySources t"
  by (simp_all add: Merge_def)

lemma Clone_Some [simp]: "Clone (Some t) = t"
  by (simp add: Clone_def)

definition global_scope :: "Template \<Rightarrow> bool" where
  "global_scope t \<longleftrightarrow> tm_Name t = [] \<and> tm_Includes t = [] \<and> tm_OnDown t = [] \<and> tm_OnEnter t = []"

lemma validateGlobalFile_None:
  "validateGlobalFile path f = None \<longleftrightarrow>
     mf_Namespaces f = [] \<and> (\<forall>t. mf_Sandbox f = Some t \<longrightarrow> global_scope t)"
  by (cases "mf_Sandbox f") (auto simp: validateGlobalFile_def global_scope_def)

lemma global_scope_Merge: "global_scope t \<Longrightarrow> (\<forall>o'. over = Some o' \<longrightarrow> global_scope o') \<Longrightarrow> global_scope (Merge t over)"
  by (cases over) (auto simp: global_scope_def)

lemma global_scope_empty [simp]: "global_scope empty_template"
  by (simp add: global_scope_def empty_template_def)

lemma global_overlay_scope:
  "global_overlay std h profile g = Inr g' \<Longrightarrow> global_scope (gl_Template g) \<Longrightarrow>
     global_scope (gl_Template g') \<and> gl_Path g' = gl_Path g"
  by (auto simp: global_overlay_def Let_def andThen_Inr validateGlobalFile_None intro!: global_scope_Merge
      split: if_splits option.splits)

lemma LoadGlobal_Inr: "LoadGlobalWithProfile std h profile = Inr g \<longleftrightarrow> loadGlobal std h profile = Inr g"
  by (simp add: LoadGlobalWithProfile_def split: sum.split)

lemma absolutise_sel [simp]:
  "tm_Name (absolutiseHostPaths std t d) = tm_Name t"
  "tm_Includes (absolutiseHostPaths std t d) = tm_Includes t"
  "tm_OnDown (absolutiseHostPaths std t d) = tm_OnDown t"
  "tm_OnEnter (absolutiseHostPaths std t d) = tm_OnEnter t"
  by (simp_all add: absolutiseHostPaths_def)

lemma LoadGlobal_parts:
  assumes "LoadGlobalWithProfile std h profile = Inr g"
  obtains path f g' where "GlobalModPath h = Inr path" "loadFile std h path = Inr f" "validateGlobalFile path f = None"
    "global_overlay std h profile \<lparr>gl_Path = path,
        gl_Template = (case mf_Sandbox f of None \<Rightarrow> empty_template | Some t \<Rightarrow> t),
        gl_Policies = mf_Policies f, gl_ProfileMatched = False\<rparr> = Inr g'"
    "g = g'\<lparr>gl_Template := absolutiseHostPaths std (gl_Template g') (Dir path)\<rparr>"
  using assms by (auto simp: LoadGlobal_Inr loadGlobal_def andThen_Inr split: if_splits option.splits)

lemma loaded_global_scope:
  assumes "LoadGlobalWithProfile std h profile = Inr g"
  shows "global_scope (gl_Template g)"
  using assms
proof (cases rule: LoadGlobal_parts)
  case (1 path f g')
  have "global_scope (gl_Template g')"
    using global_overlay_scope [OF 1(4)] 1(3) by (auto simp: validateGlobalFile_None split: option.splits)
  then show ?thesis using 1(5) by (simp add: global_scope_def)
qed

lemma attachGlobal_cases:
  assumes "attachGlobal std h ws profile fold_into = Inr ws'"
  obtains "LoadGlobalWithProfile std h profile = Inl ErrNoGlobalMod" "ws' = ws"
  | g where "LoadGlobalWithProfile std h profile = Inr g" "ws' = (fold_into ws g)
          \<lparr>ws_GlobalPath := gl_Path g, ws_GlobalProfileMatched := gl_ProfileMatched g,
           ws_Policies := gl_Policies g @ ws_Policies (fold_into ws g)\<rparr>"
  using assms by (auto simp: attachGlobal_def split: sum.splits if_splits)

section \<open>What a loaded workspace is\<close>

definition repo_ok :: "host \<Rightarrow> Repo \<Rightarrow> bool" where
  "repo_ok h r \<longleftrightarrow> rp_RepoPath r \<in> set (ancestors (rp_Path r)) \<and>
     fileExists h (Join [rp_RepoPath r, ''.git'']) \<and>
     (\<forall>t. rp_Clawkfile r = Some t \<longrightarrow> tm_Includes t = [])"

lemma resolveRepoBase_ok:
  assumes "resolveRepoBase std h root raw = Inr (r, ps)"
  shows "repo_ok h r \<and> checked_include h root raw = Inr (rp_Path r)"
proof -
  from assms obtain p d where p: "checked_include h root raw = Inr p" "FindGitRepo h p = Inr d"
    by (auto simp: resolveRepoBase_def andThen_Inr)
  have "rp_Path r = p \<and> rp_RepoPath r = d \<and> (\<forall>t. rp_Clawkfile r = Some t \<longrightarrow> tm_Includes t = [])"
  proof (cases "loadFile std h (Join [d, RepoFileName])")
    case (Inl e)
    with assms p show ?thesis by (cases e) (auto simp: resolveRepoBase_def andThen_def Let_def)
  next
    case (Inr f)
    with assms p show ?thesis by (auto simp: resolveRepoBase_def andThen_def Let_def split: option.splits if_splits)
  qed
  then show ?thesis using p(1) FindGitRepo_found [OF p(2)] by (simp add: repo_ok_def)
qed

lemma overlay_repo_ok:
  "overlay_repo path r over = Inr r' \<Longrightarrow> repo_ok h r \<Longrightarrow> repo_ok h r' \<and> rp_Path r' = rp_Path r"
  by (auto simp: overlay_repo_def repo_ok_def split: if_splits option.splits)

lemma resolveRepoWithProfile_ok:
  assumes "resolveRepoWithProfile std h root raw profile = Inr (r, ps, m)"
  shows "repo_ok h r \<and> checked_include h root raw = Inr (rp_Path r)"
proof -
  from assms obtain r0 ps0 where r0: "resolveRepoBase std h root raw = Inr (r0, ps0)"
    by (auto simp: resolveRepoWithProfile_def andThen_Inr)
  with assms have "r = r0 \<or> (\<exists>path over. overlay_repo path r0 over = Inr r)"
    by (auto simp: resolveRepoWithProfile_def andThen_Inr Let_def split: if_splits option.splits)
  with resolveRepoBase_ok [OF r0] overlay_repo_ok show ?thesis by metis
qed

lemma load_includes_ok:
  "load_includes std h profile raws ws m = Inr (ws', m') \<Longrightarrow>
   \<exists>rs. ws_Repos ws' = ws_Repos ws @ rs \<and> ws_File ws' = ws_File ws \<and> ws_Root ws' = ws_Root ws \<and>
     list_all (repo_ok h) rs \<and> list_all2 (\<lambda>raw r. checked_include h (ws_Root ws) raw = Inr (rp_Path r)) raws rs"
proof (induction raws arbitrary: ws m)
  case (Cons raw raws)
  from Cons.prems obtain r ps m1 where r: "resolveRepoWithProfile std h (ws_Root ws) raw profile = Inr (r, ps, m1)"
    and rest: "load_includes std h profile raws
        (ws\<lparr>ws_Repos := ws_Repos ws @ [r], ws_Policies := ws_Policies ws @ ps\<rparr>) (m \<or> m1) = Inr (ws', m')"
    by (auto simp: andThen_Inr)
  from Cons.IH [OF rest] resolveRepoWithProfile_ok [OF r] show ?case by fastforce
qed simp

lemma checkNameCollisions_None: "checkNameCollisions repos = None \<longleftrightarrow> distinct (map rp_Name repos)"
proof -
  have "(\<forall>r\<in>set repos. length (filter (\<lambda>q. rp_Name q = rp_Name r) repos) \<le> 1) \<longleftrightarrow> distinct (map rp_Name repos)"
    by (induction repos) (auto simp: filter_empty_conv image_iff)
  then show ?thesis by (simp add: checkNameCollisions_def Let_def find_None_iff linorder_not_less)
qed

definition workspace_ok :: "host \<Rightarrow> Workspace \<Rightarrow> bool" where
  "workspace_ok h ws \<longleftrightarrow>
     distinct (map rp_Name (ws_Repos ws)) \<and> list_all (repo_ok h) (ws_Repos ws) \<and>
     tm_OnDown (ws_File ws) = [] \<and> tm_OnEnter (ws_File ws) = [] \<and>
     (list_all2 (\<lambda>raw r. checked_include h (ws_Root ws) raw = Inr (rp_Path r)) (tm_Includes (ws_File ws)) (ws_Repos ws) \<or>
      ws_File ws = empty_template \<and> (\<exists>r. ws_Repos ws = [r] \<and> ws_Root ws = rp_RepoPath r))"

lemma foldInto_sel [simp]:
  "ws_Repos (foldGlobalIntoWorkspace ws g) = ws_Repos ws" "ws_Root (foldGlobalIntoWorkspace ws g) = ws_Root ws"
  "tm_Includes (ws_File (foldGlobalIntoWorkspace ws g)) = tm_Includes (gl_Template g) @ tm_Includes (ws_File ws)"
  "tm_OnDown (ws_File (foldGlobalIntoWorkspace ws g)) = tm_OnDown (gl_Template g) @ tm_OnDown (ws_File ws)"
  "tm_OnEnter (ws_File (foldGlobalIntoWorkspace ws g)) = tm_OnEnter (gl_Template g) @ tm_OnEnter (ws_File ws)"
  "tm_DenySources (ws_File (foldGlobalIntoWorkspace ws g)) = tm_DenySources (gl_Template g)"
  by (simp_all add: foldGlobalIntoWorkspace_def Let_def)

lemma attach_under_ok:
  assumes "attachGlobal std h (single_repo r ps) profile foldGlobalUnderOnlyRepo = Inr ws'" "repo_ok h r"
  shows "workspace_ok h ws'"
  using assms(1)
proof (cases rule: attachGlobal_cases)
  case (2 g)
  from loaded_global_scope [OF 2(1)] assms(2)
  have "\<forall>t. Merge (gl_Template g) (rp_Clawkfile r) = t \<longrightarrow> tm_Includes t = []"
    by (cases "rp_Clawkfile r") (simp_all add: global_scope_def repo_ok_def)
  with 2 assms(2) show ?thesis
    by (simp add: workspace_ok_def repo_ok_def single_repo_def foldGlobalUnderOnlyRepo_def) (simp add: empty_template_def)
qed (use assms(2) in \<open>simp add: workspace_ok_def single_repo_def empty_template_def\<close>)

lemma workspace_overlay_hooks:
  "workspace_overlay std h p profile t ps = Inr (t', ps', m) \<Longrightarrow> rejectLifecycleAtWorkspace p t = None \<Longrightarrow>
     tm_OnDown t' = [] \<and> tm_OnEnter t' = []"
  by (auto simp: workspace_overlay_def rejectLifecycleAtWorkspace_def Let_def andThen_Inr split: if_splits option.splits)

lemma loadWorkspaceParsed_ok:
  assumes "loadWorkspaceParsed std h p f profile = Inr ws"
  shows "workspace_ok h ws"
proof -
  let ?t = "case mf_Sandbox f of None \<Rightarrow> empty_template | Some t \<Rightarrow> t"
  from assms obtain t ps m ws1 m1 where
    life: "rejectLifecycleAtWorkspace p ?t = None" and
    over: "workspace_overlay std h p profile ?t (mf_Policies f) = Inr (t, ps, m)" and
    incl: "load_includes std h profile (tm_Includes t) \<lparr>ws_Root = Dir p, ws_File = t, ws_Repos = [], ws_Policies = ps,
              ws_GlobalPath = [], ws_GlobalProfileMatched = False\<rparr> m = Inr (ws1, m1)" and
    names: "checkNameCollisions (ws_Repos ws1) = None" and
    att: "attachGlobal std h ws1 profile foldGlobalIntoWorkspace = Inr ws"
    by (auto simp: loadWorkspaceParsed_def Let_def andThen_Inr split: option.splits if_splits)
  from load_includes_ok [OF incl] workspace_overlay_hooks [OF over life] names
  have "workspace_ok h ws1" by (auto simp: workspace_ok_def checkNameCollisions_None)
  from att show ?thesis
  proof (cases rule: attachGlobal_cases)
    case (2 g)
    with loaded_global_scope [OF 2(1)] load_includes_ok [OF incl] workspace_overlay_hooks [OF over life] names
    show ?thesis by (auto simp: workspace_ok_def checkNameCollisions_None global_scope_def)
  qed (use \<open>workspace_ok h ws1\<close> in simp)
qed

lemma LoadStandalone_parts:
  assumes "LoadStandaloneClawkfileWithProfile std h dir profile = Inr ws"
  obtains p r ps m where "Abs h dir = Inr p" "resolveRepoWithProfile std h p p profile = Inr (r, ps, m)"
    "attachGlobal std h (single_repo r ps) profile foldGlobalUnderOnlyRepo = Inr ws"
    "profile = [] \<or> m \<or> ws_GlobalProfileMatched ws"
proof -
  from assms obtain p where p: "Abs h dir = Inr p"
    by (auto simp: LoadStandaloneClawkfileWithProfile_def andThen_Inr)
  with assms that show ?thesis
    by (cases "ho_Stat h (Join [p, RepoFileName])")
      (auto simp: LoadStandaloneClawkfileWithProfile_def Let_def andThen_Inr split: if_splits)
qed

section \<open>Profiles, filters, paths\<close>

definition no_overlay :: "host \<Rightarrow> gostring \<Rightarrow> bool" where
  "no_overlay h profile \<longleftrightarrow> slash \<notin> set profile \<and> (\<forall>p. has_suffix p (''.'' @ profile) \<longrightarrow> ho_Stat h p = StatAbsent)"

lemma no_overlay_parse:
  assumes "no_overlay h profile"
  shows "maybeParseOverlay std h (p @ CHR ''.'' # profile) = Inr None"
    "maybeParseOverlay std h (Join [d, RepoFileName @ CHR ''.'' # profile]) = Inr None"
proof -
  have "plain_name (RepoFileName @ CHR ''.'' # profile)"
    using assms by (simp add: no_overlay_def plain_name_def RepoFileName_def slash_def)
  from Join_plain [OF this, of d] have "has_suffix (Join [d, RepoFileName @ CHR ''.'' # profile]) (''.'' @ profile)"
    by (auto simp: has_suffix_iff RepoFileName_def intro: exI [of _ "_ @ RepoFileName"])
  moreover have "has_suffix (p @ CHR ''.'' # profile) (''.'' @ profile)" by (auto simp: has_suffix_iff)
  ultimately show "maybeParseOverlay std h (p @ CHR ''.'' # profile) = Inr None"
    "maybeParseOverlay std h (Join [d, RepoFileName @ CHR ''.'' # profile]) = Inr None"
    using assms by (simp_all add: no_overlay_def maybeParseOverlay_def)
qed

lemma no_overlay_global:
  assumes "no_overlay h profile" "LoadGlobalWithProfile std h profile = Inr g"
  shows "\<not> gl_ProfileMatched g"
  using assms by (auto simp: LoadGlobal_Inr loadGlobal_def andThen_Inr global_overlay_def Let_def no_overlay_parse
      split: if_splits option.splits)

lemma no_overlay_attach:
  assumes "no_overlay h profile" "attachGlobal std h ws profile fold_into = Inr ws'"
    "\<not> ws_GlobalProfileMatched ws"
  shows "\<not> ws_GlobalProfileMatched ws'"
  using assms(2)
  by (cases rule: attachGlobal_cases) (use assms(1,3) no_overlay_global in auto)

lemma no_overlay_repo:
  "no_overlay h profile \<Longrightarrow> resolveRepoWithProfile std h root raw profile = Inr (r, ps, m) \<Longrightarrow> \<not> m"
  by (auto simp: resolveRepoWithProfile_def andThen_Inr Let_def no_overlay_parse split: if_splits)

lemma no_overlay_includes:
  "no_overlay h profile \<Longrightarrow> load_includes std h profile raws ws m = Inr (ws', m') \<Longrightarrow>
     m' = m \<and> ws_GlobalProfileMatched ws' = ws_GlobalProfileMatched ws"
proof (induction raws arbitrary: ws m)
  case (Cons raw raws)
  then obtain r ps k where r: "resolveRepoWithProfile std h (ws_Root ws) raw profile = Inr (r, ps, k)"
    and rest: "load_includes std h profile raws
        (ws\<lparr>ws_Repos := ws_Repos ws @ [r], ws_Policies := ws_Policies ws @ ps\<rparr>) (m \<or> k) = Inr (ws', m')"
    by (auto simp: andThen_Inr)
  from Cons.IH [OF Cons.prems(1) rest] no_overlay_repo [OF Cons.prems(1) r] show ?case by simp
qed simp

lemma no_overlay_workspace:
  assumes "no_overlay h profile" "profile \<noteq> []"
  shows "loadWorkspaceParsed std h p f profile \<noteq> Inr ws"
proof
  assume "loadWorkspaceParsed std h p f profile = Inr ws"
  then obtain t ps m ws1 m1 where
    over: "workspace_overlay std h p profile t ps = Inr (t, ps, m)" and
    incl: "load_includes std h profile (tm_Includes t) \<lparr>ws_Root = Dir p, ws_File = t, ws_Repos = [], ws_Policies = ps,
              ws_GlobalPath = [], ws_GlobalProfileMatched = False\<rparr> m = Inr (ws1, m1)" and
    att: "attachGlobal std h ws1 profile foldGlobalIntoWorkspace = Inr ws" and
    hit: "m1 \<or> ws_GlobalProfileMatched ws"
    using assms by (auto simp: loadWorkspaceParsed_def workspace_overlay_def Let_def andThen_Inr no_overlay_parse
        split: option.splits if_splits)
  have "\<not> m" using over assms by (auto simp: workspace_overlay_def Let_def no_overlay_parse andThen_def)
  with no_overlay_includes [OF assms(1) incl] no_overlay_attach [OF assms(1) att] hit show False by simp
qed

lemma keep_wanted_spec:
  "distinct (map rp_Name rs) \<Longrightarrow> keep_wanted wanted rs =
     (filter (\<lambda>r. rp_Name r \<in> set wanted) rs, filter (\<lambda>n. n \<notin> rp_Name ` set rs) wanted)"
proof (induction rs arbitrary: wanted)
  case (Cons r rs)
  from Cons.prems have "r' \<in> set rs \<Longrightarrow> rp_Name r' \<noteq> rp_Name r" for r' by (auto simp: image_iff)
  with Cons show ?case by (auto simp: removeAll_filter_not_eq intro!: filter_cong)
qed simp

definition host_absolute :: "host \<Rightarrow> bool" where
  "host_absolute h \<longleftrightarrow> (\<forall>d. ho_Getwd h = Some d \<longrightarrow> IsAbs d) \<and> (\<forall>d. ho_HomeDir h = Some d \<longrightarrow> IsAbs d) \<and>
     (ho_Getenv h ''XDG_CONFIG_HOME'' = [] \<or> IsAbs (ho_Getenv h ''XDG_CONFIG_HOME''))"

lemma GlobalModPath_absolute:
  assumes "host_absolute h" "GlobalModPath h = Inr p"
  shows "IsAbs p"
  using assms by (auto simp: host_absolute_def GlobalModPath_def Let_def andThen_Inr Abs_def IsAbs_Clean IsAbs_Join
      split: if_splits option.splits)

definition settled_path :: "gostring \<Rightarrow> bool" where
  "settled_path p \<longleftrightarrow> p = [] \<or> IsAbs p \<or> has_prefix p ''~'' \<or> has_prefix p ''$HOME''"

lemma absHostPath_settled: "IsAbs d \<Longrightarrow> settled_path (absHostPath d p)"
  by (simp add: absHostPath_def settled_path_def IsAbs_Join)

definition settled_template :: "stdlib \<Rightarrow> Template \<Rightarrow> bool" where
  "settled_template std t \<longleftrightarrow> list_all (settled_path \<circ> fl_HostPath) (tm_Files t) \<and>
     list_all (settled_path \<circ> sh_HostPath) (tm_Shares t) \<and> list_all (settled_path \<circ> se_HostPath) (tm_Serials t) \<and>
     list_all (settled_path \<circ> ad_Path) (tm_Instructions t) \<and> list_all (settled_path \<circ> ad_Path) (tm_Memory t) \<and>
     (isURL std (tm_Kernel t) \<or> settled_path (tm_Kernel t))"

section \<open>A host\<close>

definition demo_std :: stdlib where
  "demo_std = \<lparr>parseURL = (\<lambda>_. None), parseDuration = (\<lambda>_. None)\<rparr>"

definition demo_lines :: "gostring list \<Rightarrow> gostring" where
  "demo_lines ls = concat (map (\<lambda>l. l @ [CHR 10]) ls)"

definition demo_files :: "(gostring \<times> gostring) list" where
  "demo_files =
     [(''/r/clawk.mod'', demo_lines [''sandbox ('', ''vm ('', ''image golang:1.25'', '')'', '')'']),
      (''/h/.config/clawk/clawk.mod'', demo_lines [''sandbox ('', ''vm ('', ''cpu 4'', '')'', '')'']),
      (''/w/clawk.mod'', demo_lines [''sandbox shop ('', ''includes ('', ''./a'', ''~/b'', '')'', '')'']),
      (''/h/b/clawk.mod'', demo_lines [''sandbox api ('', '')''])]"

definition demo_dirs :: "gostring list" where
  "demo_dirs = [''/r'', ''/r/.git'', ''/w/a'', ''/w/a/.git'', ''/h/b'', ''/h/b/.git'']"

definition demo_host :: host where
  "demo_host = \<lparr>ho_Stat = (\<lambda>p. if p \<in> set demo_dirs then StatDir
       else if map_of demo_files p = None then StatAbsent else StatFile),
     ho_ReadFile = (\<lambda>p. case map_of demo_files p of None \<Rightarrow> ReadAbsent | Some s \<Rightarrow> ReadOk s),
     ho_Getwd = Some ''/w/a'', ho_HomeDir = Some ''/h'', ho_Getenv = (\<lambda>_. []), ho_GlobalDisabled = False\<rparr>"

definition outcome :: "('a \<Rightarrow> 'b) \<Rightarrow> load_error + 'a \<Rightarrow> 'b option" where
  "outcome f r = (case r of Inl _ \<Rightarrow> None | Inr x \<Rightarrow> Some (f x))"

lemma outcome_Some: "outcome f r = Some y \<longleftrightarrow> (\<exists>x. r = Inr x \<and> f x = y)"
  by (auto simp: outcome_def split: sum.split)

lemma demo_workspace:
  "outcome (map rp_Name \<circ> ws_Repos) (FindWorkspaceWithProfile demo_std demo_host ''.'' []) = Some [''a'', ''api'']"
  by code_simp

lemma demo_repo:
  "outcome (\<lambda>ws. length (ws_Repos ws)) (LoadStandaloneClawkfileWithProfile demo_std demo_host ''/r'' []) = Some 1"
  by code_simp

lemma demo_global: "outcome (tm_Image \<circ> gl_Template) (LoadGlobalWithProfile demo_std demo_host []) = Some []"
  by code_simp

section \<open>Properties\<close>

text \<open>
  The search for a workspace takes the nearest directory, from the start up to the root, whose project
  file includes repositories. A project file without includes on the way is passed over, and a directory
  below with a retired workspace file or a project file that does not load is never passed over: the
  search then ends with an error instead of a workspace.
\<close>

theorem FindWorkspace_nearest:
  assumes "FindWorkspaceWithProfile std h dir profile = Inr ws"
  shows "\<exists>p pre d post f. Abs h dir = Inr p \<and> ancestors p = pre @ d # post \<and>
    (\<forall>a\<in>set pre. \<not> fileExists h (Join [a, RetiredWorkspaceFileName]) \<and>
       (fileExists h (Join [a, RepoFileName]) \<longrightarrow>
         (\<exists>g. loadFile std h (Join [a, RepoFileName]) = Inr g \<and> \<not> is_workspace_root g))) \<and>
    loadFile std h (Join [d, RepoFileName]) = Inr f \<and> is_workspace_root f \<and>
    loadWorkspaceParsed std h (Join [d, RepoFileName]) f profile = Inr ws"
proof -
  from assms obtain p where p: "Abs h dir = Inr p" "find_workspace std h profile p = Inr ws"
    by (auto simp: FindWorkspaceWithProfile_def andThen_Inr)
  from wsp.climb_found [OF p(2)] obtain pre d post where "ancestors p = pre @ d # post"
    "workspace_at std h profile d = Some (Inr ws)" "\<forall>a\<in>set pre. workspace_at std h profile a = None"
    by blast
  with p(1) show ?thesis unfolding workspace_at_None workspace_at_found by blast
qed

theorem FindWorkspace_nearest_witness:
  "\<exists>ws pre d post. ancestors ''/w/a'' = pre @ d # post \<and>
     FindWorkspaceWithProfile demo_std demo_host ''.'' [] = Inr ws \<and>
     (\<forall>a\<in>set pre. \<not> fileExists demo_host (Join [a, RetiredWorkspaceFileName]))"
proof -
  have p: "Abs demo_host ''.'' = Inr ''/w/a''" by code_simp
  from demo_workspace obtain ws where ws: "FindWorkspaceWithProfile demo_std demo_host ''.'' [] = Inr ws"
    by (auto simp: outcome_Some)
  from FindWorkspace_nearest [OF ws] p ws show ?thesis by auto
qed

text \<open>
  C16: Whatever loader produced it, a workspace has repositories of pairwise different names, each below a
  directory with a git repository and without includes of its own, no reserved hook at the workspace
  level, and its repositories are those of its includes in their order, or it is one repository alone.
\<close>

theorem loaded_workspace_wellformed:
  assumes "load \<in> {LoadWorkspaceWithProfile std h path profile, FindWorkspaceWithProfile std h path profile,
      LoadStandaloneClawkfileWithProfile std h path profile, LoadClawkfilePathWithProfile std h path profile,
      WorkspaceFromGitRepo std h path}" and "load = Inr ws"
  shows "workspace_ok h ws"
proof -
  have single: "LoadStandaloneClawkfileWithProfile std h d profile = Inr ws \<Longrightarrow> workspace_ok h ws" for d
    by (elim LoadStandalone_parts) (blast dest: resolveRepoWithProfile_ok attach_under_ok)
  have "LoadWorkspaceWithProfile std h path profile = Inr ws \<Longrightarrow> workspace_ok h ws"
    by (auto simp: LoadWorkspaceWithProfile_def andThen_Inr split: if_splits intro: loadWorkspaceParsed_ok)
  moreover have "FindWorkspaceWithProfile std h path profile = Inr ws \<Longrightarrow> workspace_ok h ws"
    by (blast dest: FindWorkspace_loads intro: loadWorkspaceParsed_ok)
  moreover have "LoadClawkfilePathWithProfile std h path profile = Inr ws \<Longrightarrow> workspace_ok h ws"
    by (auto simp: LoadClawkfilePathWithProfile_def andThen_Inr split: if_splits intro: loadWorkspaceParsed_ok single)
  moreover have "WorkspaceFromGitRepo std h path = Inr ws \<Longrightarrow> workspace_ok h ws"
    by (auto simp: WorkspaceFromGitRepo_def andThen_Inr repo_ok_def ancestors_self
        dest: FindGitRepo_found elim!: attach_under_ok)
  ultimately show ?thesis using assms single by auto
qed

theorem loaded_workspace_wellformed_witness:
  "\<exists>ws. FindWorkspaceWithProfile demo_std demo_host ''.'' [] = Inr ws \<and> workspace_ok demo_host ws \<and>
     map rp_Name (ws_Repos ws) = [''a'', ''api'']"
proof -
  from demo_workspace obtain ws where ws: "FindWorkspaceWithProfile demo_std demo_host ''.'' [] = Inr ws"
      "map rp_Name (ws_Repos ws) = [''a'', ''api'']" by (auto simp: outcome_Some)
  have "workspace_ok demo_host ws"
    by (rule loaded_workspace_wellformed [of _ demo_std demo_host "''.''" "[]", OF _ ws(1)]) (simp only: insert_iff simp_thms)
  with ws show ?thesis by (intro exI [of _ ws] conjI)
qed

text \<open>
  A profile that no overlay file matches never loads: when no path ends in the profile name, every
  loader that takes a profile returns an error.
\<close>

theorem unmatched_profile_refused:
  assumes "no_overlay h profile" "profile \<noteq> []"
    "load \<in> {LoadWorkspaceWithProfile std h path profile, FindWorkspaceWithProfile std h path profile,
      LoadStandaloneClawkfileWithProfile std h path profile, LoadClawkfilePathWithProfile std h path profile}"
  shows "\<exists>err. load = Inl err"
proof -
  have ws: "loadWorkspaceParsed std h p f profile \<noteq> Inr ws" for p f ws by (rule no_overlay_workspace [OF assms(1,2)])
  have single: "LoadStandaloneClawkfileWithProfile std h d profile \<noteq> Inr ws" for d ws
  proof
    assume "LoadStandaloneClawkfileWithProfile std h d profile = Inr ws"
    then obtain r ps m p where "resolveRepoWithProfile std h p p profile = Inr (r, ps, m)"
      "attachGlobal std h (single_repo r ps) profile foldGlobalUnderOnlyRepo = Inr ws" "m \<or> ws_GlobalProfileMatched ws"
      using assms(2) by (auto elim!: LoadStandalone_parts)
    with no_overlay_repo [OF assms(1)] no_overlay_attach [OF assms(1)] show False by (fastforce simp: single_repo_def)
  qed
  have a: "LoadWorkspaceWithProfile std h path profile \<noteq> Inr ws" for ws
    using ws by (auto simp: LoadWorkspaceWithProfile_def andThen_Inr split: if_splits)
  have b: "FindWorkspaceWithProfile std h path profile \<noteq> Inr ws" for ws
    using ws FindWorkspace_loads by blast
  have c: "LoadClawkfilePathWithProfile std h path profile \<noteq> Inr ws" for ws
    using ws single by (auto simp: LoadClawkfilePathWithProfile_def andThen_Inr split: if_splits)
  have "load \<noteq> Inr ws" for ws
    using assms(3) a [of ws] b [of ws] c [of ws] single [of path ws] by (elim insertE emptyE) simp_all
  then show ?thesis by (cases load) auto
qed

theorem unmatched_profile_refused_witness:
  "\<exists>err. FindWorkspaceWithProfile demo_std demo_host ''.'' ''ci'' = Inl err"
proof -
  have "list_all (\<lambda>p. \<not> has_suffix p ''.ci'') (demo_dirs @ map fst demo_files)" by code_simp
  then have "has_suffix p ''.ci'' \<Longrightarrow> p \<notin> set demo_dirs \<and> map_of demo_files p = None" for p
    by (auto simp: list_all_iff map_of_eq_None_iff)
  then have "no_overlay demo_host ''ci''" by (simp add: no_overlay_def demo_host_def slash_def)
  from unmatched_profile_refused [OF this, of _ demo_std "''.''"] show ?thesis by simp
qed

text \<open>
  Any host-wide defaults file takes away the image and the external blocklists of the project file. For
  one repository the loaded image is that of the host-wide file, none when it has none, whatever the
  project file says; for a workspace the image of the workspace file is never used. The deny sources are
  those of the host-wide file in both cases. Only lists and scalars other than these two are merged.
\<close>

theorem host_file_replaces_image:
  assumes "LoadGlobalWithProfile std h profile = Inr g"
  shows "(\<forall>ws. LoadStandaloneClawkfileWithProfile std h dir profile = Inr ws \<longrightarrow>
      (\<exists>r t. ws_Repos ws = [r] \<and> rp_Clawkfile r = Some t \<and>
        tm_Image t = tm_Image (gl_Template g) \<and> tm_DenySources t = tm_DenySources (gl_Template g))) \<and>
    (\<forall>ws. LoadWorkspaceWithProfile std h path profile = Inr ws \<longrightarrow>
      tm_Image (ws_File ws) \<in> {[], tm_Image (gl_Template g)} \<and>
      tm_DenySources (ws_File ws) = tm_DenySources (gl_Template g))"
proof (intro conjI allI impI)
  fix ws assume "LoadStandaloneClawkfileWithProfile std h dir profile = Inr ws"
  then obtain r0 ps where "attachGlobal std h (single_repo r0 ps) profile foldGlobalUnderOnlyRepo = Inr ws"
    by (auto elim: LoadStandalone_parts)
  then show "\<exists>r t. ws_Repos ws = [r] \<and> rp_Clawkfile r = Some t \<and>
      tm_Image t = tm_Image (gl_Template g) \<and> tm_DenySources t = tm_DenySources (gl_Template g)"
  proof (cases rule: attachGlobal_cases)
    case (2 g')
    with assms show ?thesis
      by (cases "rp_Clawkfile r0") (auto simp: foldGlobalUnderOnlyRepo_def single_repo_def)
  qed (use assms in simp)
next
  fix ws assume "LoadWorkspaceWithProfile std h path profile = Inr ws"
  then obtain p f where "loadWorkspaceParsed std h p f profile = Inr ws"
    by (auto simp: LoadWorkspaceWithProfile_def andThen_Inr split: if_splits)
  then obtain ws1 where "attachGlobal std h ws1 profile foldGlobalIntoWorkspace = Inr ws"
    by (auto simp: loadWorkspaceParsed_def Let_def andThen_Inr split: option.splits if_splits)
  then have "tm_Image (ws_File ws) \<in> {[], tm_Image (gl_Template g)} \<and> tm_DenySources (ws_File ws) = tm_DenySources (gl_Template g)"
  proof (cases rule: attachGlobal_cases)
    case (2 g')
    with assms show ?thesis by (auto simp: foldGlobalIntoWorkspace_def Let_def)
  qed (use assms in simp)
  then show "tm_Image (ws_File ws) \<in> {[], tm_Image (gl_Template g)}"
    "tm_DenySources (ws_File ws) = tm_DenySources (gl_Template g)" by simp_all
qed

theorem host_file_replaces_image_witness:
  "\<exists>ws r t. LoadStandaloneClawkfileWithProfile demo_std demo_host ''/r'' [] = Inr ws \<and>
     ws_Repos ws = [r] \<and> rp_Clawkfile r = Some t \<and> tm_Image t = [] \<and>
     outcome (\<lambda>f. map_option tm_Image (mf_Sandbox f)) (loadFile demo_std demo_host ''/r/clawk.mod'') = Some (Some ''golang:1.25'')"
proof -
  from demo_global obtain g where g: "LoadGlobalWithProfile demo_std demo_host [] = Inr g" "tm_Image (gl_Template g) = []"
    by (auto simp: outcome_Some)
  from demo_repo obtain ws where ws: "LoadStandaloneClawkfileWithProfile demo_std demo_host ''/r'' [] = Inr ws"
    by (auto simp: outcome_Some)
  have "outcome (\<lambda>f. map_option tm_Image (mf_Sandbox f)) (loadFile demo_std demo_host ''/r/clawk.mod'') = Some (Some ''golang:1.25'')"
    by code_simp
  with host_file_replaces_image [OF g(1), of "''/r''" "''/w''"] g(2) ws show ?thesis by auto
qed

text \<open>
  Restricting a workspace to named repositories: the names are trimmed, every one has to be a repository
  of the workspace, and the result keeps exactly the repositories named, in their order.
\<close>

theorem FilterRepos_exact:
  assumes "distinct (map rp_Name (ws_Repos w))"
  shows "FilterRepos w only =
    (if only = [] then Inr w
     else if trim_space ` set only \<subseteq> rp_Name ` set (ws_Repos w)
       then Inr (w\<lparr>ws_Repos := filter (\<lambda>r. rp_Name r \<in> trim_space ` set only) (ws_Repos w)\<rparr>)
     else Inl (UnknownRepos (filter (\<lambda>n. n \<notin> rp_Name ` set (ws_Repos w)) (remdups (map trim_space only)))
            (map rp_Name (ws_Repos w))))"
  using keep_wanted_spec [OF assms, of "remdups (map trim_space only)"]
  by (auto simp: FilterRepos_def filter_empty_conv)

theorem FilterRepos_exact_witness:
  "outcome (\<lambda>ws. outcome (map rp_Name \<circ> ws_Repos) (FilterRepos ws ['' api'']))
     (FindWorkspaceWithProfile demo_std demo_host ''.'' []) = Some (Some [''api''])"
proof -
  from demo_workspace obtain ws where ws: "FindWorkspaceWithProfile demo_std demo_host ''.'' [] = Inr ws"
      "map rp_Name (ws_Repos ws) = [''a'', ''api'']" by (auto simp: outcome_Some)
  then obtain a b where r: "ws_Repos ws = [a, b]" "rp_Name a = ''a''" "rp_Name b = ''api''" by auto
  have t: "trim_space '' api'' = ''api''" by code_simp
  from FilterRepos_exact [of ws "['' api'']"] r t show ?thesis by (simp add: ws outcome_def)
qed

text \<open>
  The paths of the host-wide file do not depend on the repository it is merged under: on a host with
  absolute home, working and configuration directories each is empty, absolute or relative to the home
  directory, or the kernel is a URL.
\<close>

theorem global_paths_settled:
  assumes "LoadGlobalWithProfile std h profile = Inr g" "host_absolute h"
  shows "IsAbs (gl_Path g) \<and> settled_template std (gl_Template g)"
  using assms(1)
proof (cases rule: LoadGlobal_parts)
  case (1 path f g')
  have "IsAbs path" by (rule GlobalModPath_absolute [OF assms(2) 1(1)])
  moreover have "gl_Path g' = path"
    using 1(4) by (auto simp: global_overlay_def Let_def andThen_Inr split: if_splits option.splits)
  ultimately show ?thesis using 1(5)
    by (auto simp: settled_template_def absolutiseHostPaths_def list_all_iff absHostPath_settled [OF IsAbs_Dir])
qed

theorem global_paths_settled_witness:
  "\<exists>g. LoadGlobalWithProfile demo_std demo_host [] = Inr g \<and> IsAbs (gl_Path g) \<and> settled_template demo_std (gl_Template g)"
proof -
  from demo_global obtain g where g: "LoadGlobalWithProfile demo_std demo_host [] = Inr g" by (auto simp: outcome_Some)
  have "host_absolute demo_host" by (simp add: host_absolute_def demo_host_def IsAbs_def slash_def)
  from global_paths_settled [OF g this] g show ?thesis by blast
qed

end
