(* ===== verification/PolicyText.thy ===== *)
theory PolicyText
  imports ModParser NetPolicy
begin

text \<open>
  Policies as text. The text of a policy block, that the parser reads it back as the policy, and that
  a policy a project file declares is the policy the filter enforces once it is registered: from the
  text, through lexer, parser and store, to the verdict on a connection.
\<close>

section \<open>The text of a policy\<close>

definition domain_line :: "gostring \<Rightarrow> gostring \<Rightarrow> lexeme list" where
  "domain_line verb d = [(TokIdent, verb), (TokIdent, d), (TokNewline, [])]"

definition ip_line :: "gostring \<Rightarrow> gostring \<Rightarrow> lexeme list" where
  "ip_line verb ip = [(TokIdent, verb), (TokIdent, ''ip''), (TokIdent, ip), (TokNewline, [])]"

definition source_line :: "gostring \<Rightarrow> lexeme list" where
  "source_line url = [(TokIdent, ''source''), (TokString, url), (TokNewline, [])]"

definition refresh_line :: "gostring \<Rightarrow> lexeme list" where
  "refresh_line r = [(TokIdent, ''refresh''), (TokIdent, r), (TokNewline, [])]"

definition policy_body :: "gostring \<Rightarrow> PolicyDef \<Rightarrow> lexeme list" where
  "policy_body r d =
     concat (map (domain_line ''allow'') (pf_AllowDomains d)) @ concat (map (ip_line ''allow'') (pf_AllowIPs d)) @
     concat (map (domain_line ''deny'') (pf_DenyDomains d)) @ concat (map (ip_line ''deny'') (pf_DenyIPs d)) @
     concat (map source_line (pf_Sources d)) @ (if pf_Refresh d = 0 then [] else refresh_line r)"

definition policy_lexemes :: "gostring \<Rightarrow> PolicyDef \<Rightarrow> lexeme list" where
  "policy_lexemes r d =
     [(TokIdent, ''policy''), (TokIdent, pf_Name d), (TokLParen, []), (TokNewline, [])] @ policy_body r d @
     [(TokRParen, []), (TokNewline, [])]"

definition policy_text :: "gostring \<Rightarrow> PolicyDef \<Rightarrow> gostring" where
  "policy_text r d = render (policy_lexemes r d)"

text \<open>What a block can say: names and entries the lexer takes whole, and no keyword where one would be read.\<close>

definition name_word :: "gostring \<Rightarrow> bool" where
  "name_word w \<longleftrightarrow> ident_text w \<and> \<not> isKeyword w"

definition expressible :: "stdlib \<Rightarrow> gostring \<Rightarrow> PolicyDef \<Rightarrow> bool" where
  "expressible std r d \<longleftrightarrow> name_word (pf_Name d) \<and> list_all name_word (pf_AllowDomains d) \<and>
     list_all (\<lambda>w. name_word w \<and> w \<noteq> ''source'') (pf_DenyDomains d) \<and>
     list_all ident_text (pf_AllowIPs d) \<and> list_all ident_text (pf_DenyIPs d) \<and> 0 \<le> pf_Refresh d \<and>
     (if pf_Refresh d = 0 then True else ident_text r \<and> parseDuration std r = Some (pf_Refresh d))"

section \<open>Reading it back\<close>

declare block_loop.simps(2) [simp del]

abbreviation policy_loop :: "stdlib \<Rightarrow> nat \<Rightarrow> parser \<Rightarrow> PolicyDef \<Rightarrow> PolicyDef parsed" where
  "policy_loop std n \<equiv> block_loop n is_ident ''expected policy entry or )'' (policy_entry std)"

lemma block_loop_newline:
  "tk_Kind c = TokNewline \<Longrightarrow> block_loop n starts msg entry (c # x # t) st = block_loop n starts msg entry (x # t) st"
  by (cases n) (simp_all add: block_loop.simps(2))

lemma lexemes_Cons:
  "map lexeme_of toks = (k, v) # xs \<longleftrightarrow> (\<exists>t ts. toks = t # ts \<and> tk_Kind t = k \<and> tk_Val t = v \<and> map lexeme_of ts = xs)"
  by (cases toks) (auto simp: lexeme_of_def)

lemma keyword_words [simp]: "isKeyword ''ip''" "isKeyword ''allow''" "isKeyword ''deny''"
  by (simp_all add: isKeyword_def keyword_list_def)

definition reads_as ::
  "stdlib \<Rightarrow> nat \<Rightarrow> (PolicyDef \<Rightarrow> bool) \<Rightarrow> lexeme list \<Rightarrow> (PolicyDef \<Rightarrow> PolicyDef) \<Rightarrow> bool" where
  "reads_as std k pre xs upd \<longleftrightarrow> (\<forall>toks rest n d. map lexeme_of toks = xs @ rest \<longrightarrow> rest \<noteq> [] \<longrightarrow> pre d \<longrightarrow>
     (\<exists>toks'. map lexeme_of toks' = rest \<and> policy_loop std (k + n) toks d = policy_loop std n toks' (upd d)))"

lemma reads_asD:
  assumes "reads_as std k pre xs upd" "map lexeme_of toks = xs @ rest" "rest \<noteq> []" "pre d"
  obtains toks' where "map lexeme_of toks' = rest" "policy_loop std (k + n) toks d = policy_loop std n toks' (upd d)"
proof -
  have "\<exists>toks'. map lexeme_of toks' = rest \<and> policy_loop std (k + n) toks d = policy_loop std n toks' (upd d)"
    using assms unfolding reads_as_def by blast
  with that show ?thesis by blast
qed

lemma reads_nothing: "reads_as std 0 pre [] (\<lambda>d. d)"
  by (auto simp: reads_as_def)

lemma reads_weaken:
  "reads_as std k pre' xs f \<Longrightarrow> (\<And>d. pre d \<Longrightarrow> pre' d \<and> f d = g d) \<Longrightarrow> reads_as std k pre xs g"
  unfolding reads_as_def by metis

lemma reads_then:
  assumes "reads_as std k pre xs f" "reads_as std m pre' ys g" "\<And>d. pre d \<Longrightarrow> pre' (f d)"
  shows "reads_as std (k + m) pre (xs @ ys) (\<lambda>d. g (f d))"
  unfolding reads_as_def
proof (intro allI impI)
  fix toks rest n d assume toks: "map lexeme_of toks = (xs @ ys) @ rest" "rest \<noteq> []" "pre d"
  obtain t1 where t1: "map lexeme_of t1 = ys @ rest" "policy_loop std (k + (m + n)) toks d = policy_loop std (m + n) t1 (f d)"
    by (rule reads_asD [OF assms(1), of toks "ys @ rest" d "m + n"]) (use toks in simp_all)
  obtain t2 where "map lexeme_of t2 = rest" "policy_loop std (m + n) t1 (f d) = policy_loop std n t2 (g (f d))"
    by (rule reads_asD [OF assms(2) t1(1) toks(2) assms(3) [OF toks(3)]])
  with t1(2) show "\<exists>toks'. map lexeme_of toks' = rest \<and> policy_loop std (k + m + n) toks d = policy_loop std n toks' (g (f d))"
    by (intro exI [of _ t2]) (simp add: add.assoc)
qed

lemma reads_asI:
  assumes "\<And>ts c t d. map lexeme_of ts = words \<Longrightarrow> pre d \<Longrightarrow> policy_entry std (ts @ c # t) d = Inr (c # t, upd d)"
    and "words = (TokIdent, v) # ws" and "line = words @ [(TokNewline, [])]"
  shows "reads_as std 1 pre line upd"
  unfolding reads_as_def assms(3)
proof (intro allI impI)
  fix toks rest n d
  assume pre: "pre d" and "map lexeme_of toks = (words @ [(TokNewline, [])]) @ rest" "rest \<noteq> []"
  then obtain ts c y t where toks: "toks = ts @ c # y # t" "map lexeme_of ts = words" "tk_Kind c = TokNewline"
    "map lexeme_of (y # t) = rest"
    by (auto simp: map_eq_append_conv map_eq_Cons_conv lexeme_of_def neq_Nil_conv)
  obtain a ts' where ts: "ts = a # ts'" "tk_Kind a = TokIdent"
    using toks(2) by (auto simp: assms(2) lexemes_Cons)
  then obtain b r where ab: "ts @ c # y # t = a # b # r" by (cases ts') auto
  have "policy_loop std (Suc n) toks d = andThen (policy_entry std toks d) (\<lambda>(p, st). policy_loop std n p st)"
    using ts(2) ab by (simp add: toks(1) peek_def is_ident_def Let_def block_loop.simps(2))
  also have "\<dots> = policy_loop std n (c # y # t) (upd d)"
    using assms(1) [OF toks(2) pre] by (simp add: toks(1) andThen_def)
  also have "\<dots> = policy_loop std n (y # t) (upd d)" using toks(3) by (rule block_loop_newline)
  finally show "\<exists>toks'. map lexeme_of toks' = rest \<and> policy_loop std (1 + n) toks d = policy_loop std n toks' (upd d)"
    unfolding plus_1_eq_Suc by (intro exI [of _ "y # t"] conjI toks(4))
qed

lemma two_words:
  assumes "map lexeme_of ts = [(k, v), (l, w)]"
  obtains a b where "ts = [a, b]" "tk_Kind a = k" "tk_Val a = v" "tk_Kind b = l" "tk_Val b = w"
  using assms by (auto simp: map_eq_Cons_conv lexeme_of_def)

lemma three_words:
  assumes "map lexeme_of ts = [(k, v), (l, w), (m, x)]"
  obtains a b c where "ts = [a, b, c]" "tk_Kind a = k" "tk_Val a = v" "tk_Kind b = l" "tk_Val b = w" "tk_Kind c = m" "tk_Val c = x"
  using assms by (auto simp: map_eq_Cons_conv lexeme_of_def)

lemmas entry_defs = policy_entry_def parsePolicyEntry_def Let_def peek_def

lemma entry_allow: "map lexeme_of ts = [(TokIdent, ''allow''), (TokIdent, w)] \<Longrightarrow> name_word w \<Longrightarrow>
    policy_entry std (ts @ c # t) d = Inr (c # t, d\<lparr>pf_AllowDomains := pf_AllowDomains d @ [w]\<rparr>)"
  by (erule two_words) (auto simp: entry_defs name_word_def)

lemma entry_deny: "map lexeme_of ts = [(TokIdent, ''deny''), (TokIdent, w)] \<Longrightarrow> name_word w \<and> w \<noteq> ''source'' \<Longrightarrow>
    policy_entry std (ts @ c # t) d = Inr (c # t, d\<lparr>pf_DenyDomains := pf_DenyDomains d @ [w]\<rparr>)"
  by (erule two_words) (auto simp: entry_defs name_word_def)

lemma entry_allow_ip: "map lexeme_of ts = [(TokIdent, ''allow''), (TokIdent, ''ip''), (TokIdent, w)] \<Longrightarrow>
    policy_entry std (ts @ c # t) d = Inr (c # t, d\<lparr>pf_AllowIPs := pf_AllowIPs d @ [w]\<rparr>)"
  by (erule three_words) (simp add: entry_defs)

lemma entry_deny_ip: "map lexeme_of ts = [(TokIdent, ''deny''), (TokIdent, ''ip''), (TokIdent, w)] \<Longrightarrow>
    policy_entry std (ts @ c # t) d = Inr (c # t, d\<lparr>pf_DenyIPs := pf_DenyIPs d @ [w]\<rparr>)"
  by (erule three_words) (simp add: entry_defs)

lemma entry_source: "map lexeme_of ts = [(TokIdent, ''source''), (TokString, w)] \<Longrightarrow>
    policy_entry std (ts @ c # t) d = Inr (c # t, d\<lparr>pf_Sources := pf_Sources d @ [w]\<rparr>)"
  by (erule two_words) (simp add: entry_defs)

lemma entry_refresh: "map lexeme_of ts = [(TokIdent, ''refresh''), (TokIdent, w)] \<Longrightarrow>
    parseDuration std w = Some r \<Longrightarrow> 0 < r \<Longrightarrow> pf_Refresh d = 0 \<Longrightarrow>
    policy_entry std (ts @ c # t) d = Inr (c # t, d\<lparr>pf_Refresh := r\<rparr>)"
  by (erule two_words) (simp add: entry_defs)

lemma reads_policy_lines:
  "name_word w \<Longrightarrow> reads_as std 1 (\<lambda>_. True) (domain_line ''allow'' w) (\<lambda>d. d\<lparr>pf_AllowDomains := pf_AllowDomains d @ [w]\<rparr>)"
  "name_word w \<and> w \<noteq> ''source'' \<Longrightarrow>
    reads_as std 1 (\<lambda>_. True) (domain_line ''deny'' w) (\<lambda>d. d\<lparr>pf_DenyDomains := pf_DenyDomains d @ [w]\<rparr>)"
  "reads_as std 1 (\<lambda>_. True) (ip_line ''allow'' w) (\<lambda>d. d\<lparr>pf_AllowIPs := pf_AllowIPs d @ [w]\<rparr>)"
  "reads_as std 1 (\<lambda>_. True) (ip_line ''deny'' w) (\<lambda>d. d\<lparr>pf_DenyIPs := pf_DenyIPs d @ [w]\<rparr>)"
  "reads_as std 1 (\<lambda>_. True) (source_line w) (\<lambda>d. d\<lparr>pf_Sources := pf_Sources d @ [w]\<rparr>)"
  "parseDuration std w = Some r \<Longrightarrow> 0 < r \<Longrightarrow>
    reads_as std 1 (\<lambda>d. pf_Refresh d = 0) (refresh_line w) (\<lambda>d. d\<lparr>pf_Refresh := r\<rparr>)"
proof -
  show "name_word w \<Longrightarrow> reads_as std 1 (\<lambda>_. True) (domain_line ''allow'' w) (\<lambda>d. d\<lparr>pf_AllowDomains := pf_AllowDomains d @ [w]\<rparr>)"
    by (rule reads_asI [OF entry_allow refl]) (simp_all add: domain_line_def)
  show "name_word w \<and> w \<noteq> ''source'' \<Longrightarrow>
    reads_as std 1 (\<lambda>_. True) (domain_line ''deny'' w) (\<lambda>d. d\<lparr>pf_DenyDomains := pf_DenyDomains d @ [w]\<rparr>)"
    by (rule reads_asI [OF entry_deny refl]) (simp_all add: domain_line_def)
  show "reads_as std 1 (\<lambda>_. True) (ip_line ''allow'' w) (\<lambda>d. d\<lparr>pf_AllowIPs := pf_AllowIPs d @ [w]\<rparr>)"
    by (rule reads_asI [OF entry_allow_ip refl]) (simp_all add: ip_line_def)
  show "reads_as std 1 (\<lambda>_. True) (ip_line ''deny'' w) (\<lambda>d. d\<lparr>pf_DenyIPs := pf_DenyIPs d @ [w]\<rparr>)"
    by (rule reads_asI [OF entry_deny_ip refl]) (simp_all add: ip_line_def)
  show "reads_as std 1 (\<lambda>_. True) (source_line w) (\<lambda>d. d\<lparr>pf_Sources := pf_Sources d @ [w]\<rparr>)"
    by (rule reads_asI [OF entry_source refl]) (simp_all add: source_line_def)
  show "parseDuration std w = Some r \<Longrightarrow> 0 < r \<Longrightarrow>
    reads_as std 1 (\<lambda>d. pf_Refresh d = 0) (refresh_line w) (\<lambda>d. d\<lparr>pf_Refresh := r\<rparr>)"
    by (rule reads_asI [OF entry_refresh refl]) (simp_all add: refresh_line_def)
qed

lemma reads_lines:
  assumes "\<And>w. w \<in> set ws \<Longrightarrow> reads_as std 1 (\<lambda>_. True) (line w) (upd w)"
  shows "reads_as std (length ws) (\<lambda>_. True) (concat (map line ws)) (fold upd ws)"
  using assms
proof (induction ws)
  case (Cons w ws)
  have "reads_as std (1 + length ws) (\<lambda>_. True) (line w @ concat (map line ws)) (\<lambda>d. fold upd ws (upd w d))"
    by (rule reads_then [where pre' = "\<lambda>_. True"]) (use Cons in simp_all)
  then show ?case by (simp add: comp_def)
qed (use reads_nothing [of std] in \<open>simp add: id_def\<close>)

lemma fold_append:
  "fold (\<lambda>w d. d\<lparr>pf_AllowDomains := pf_AllowDomains d @ [w]\<rparr>) ws d = d\<lparr>pf_AllowDomains := pf_AllowDomains d @ ws\<rparr>"
  "fold (\<lambda>w d. d\<lparr>pf_AllowIPs := pf_AllowIPs d @ [w]\<rparr>) ws d = d\<lparr>pf_AllowIPs := pf_AllowIPs d @ ws\<rparr>"
  "fold (\<lambda>w d. d\<lparr>pf_DenyDomains := pf_DenyDomains d @ [w]\<rparr>) ws d = d\<lparr>pf_DenyDomains := pf_DenyDomains d @ ws\<rparr>"
  "fold (\<lambda>w d. d\<lparr>pf_DenyIPs := pf_DenyIPs d @ [w]\<rparr>) ws d = d\<lparr>pf_DenyIPs := pf_DenyIPs d @ ws\<rparr>"
  "fold (\<lambda>w d. d\<lparr>pf_Sources := pf_Sources d @ [w]\<rparr>) ws d = d\<lparr>pf_Sources := pf_Sources d @ ws\<rparr>"
  by (induction ws arbitrary: d) simp_all

lemma length_lines:
  "length (concat (map (domain_line v) ws)) = 3 * length ws" "length (concat (map (ip_line v) ws)) = 4 * length ws"
  "length (concat (map source_line ws)) = 3 * length ws" "length (refresh_line r) = 3"
  by (induction ws) (simp_all add: domain_line_def ip_line_def source_line_def refresh_line_def)

lemma block_end:
  assumes "map lexeme_of toks = (TokRParen, []) # (TokNewline, []) # x # xs"
  obtains toks' where "map lexeme_of toks' = x # xs" "policy_loop std (Suc n) toks d = Inr (toks', d)"
proof -
  from assms obtain a b y t where "toks = a # b # y # t" "tk_Kind a = TokRParen" "tk_Kind b = TokNewline"
    "map lexeme_of (y # t) = x # xs"
    by (auto simp: map_eq_Cons_conv lexeme_of_def)
  then show ?thesis
    by (intro that [of "y # t"])
      (simp_all add: block_loop.simps(2) peek_def end_line_def expectNewlineOrEOF_def andThen_def)
qed

definition add_entries :: "PolicyDef \<Rightarrow> PolicyDef \<Rightarrow> PolicyDef" where
  "add_entries d e = e\<lparr>pf_AllowDomains := pf_AllowDomains e @ pf_AllowDomains d, pf_AllowIPs := pf_AllowIPs e @ pf_AllowIPs d,
     pf_DenyDomains := pf_DenyDomains e @ pf_DenyDomains d, pf_DenyIPs := pf_DenyIPs e @ pf_DenyIPs d,
     pf_Sources := pf_Sources e @ pf_Sources d\<rparr>"

definition body_entries :: "PolicyDef \<Rightarrow> nat" where
  "body_entries d = length (pf_AllowDomains d) + (length (pf_AllowIPs d) + (length (pf_DenyDomains d) +
      (length (pf_DenyIPs d) + (length (pf_Sources d) + (if pf_Refresh d = 0 then 0 else 1)))))"

lemma body_entries_le: "body_entries d \<le> length (policy_body r d)"
  by (simp add: policy_body_def length_lines body_entries_def)

lemma reads_body:
  assumes "expressible std r d"
  shows "reads_as std (body_entries d) (\<lambda>e. pf_Refresh e = 0) (policy_body r d)
    (\<lambda>e. (add_entries d e)\<lparr>pf_Refresh := pf_Refresh d\<rparr>)"
proof -
  have names: "w \<in> set (pf_AllowDomains d) \<Longrightarrow> name_word w" "w \<in> set (pf_DenyDomains d) \<Longrightarrow> name_word w \<and> w \<noteq> ''source''" for w
    using assms by (auto simp: expressible_def list_all_iff)
  have ref: "reads_as std (if pf_Refresh d = 0 then 0 else 1) (\<lambda>e. pf_Refresh e = 0)
      (if pf_Refresh d = 0 then [] else refresh_line r) (\<lambda>e. e\<lparr>pf_Refresh := pf_Refresh d\<rparr>)"
  proof (cases "pf_Refresh d = 0")
    case True
    then have "pf_Refresh e = 0 \<Longrightarrow> e = e\<lparr>pf_Refresh := pf_Refresh d\<rparr>" for e :: PolicyDef by (cases e) simp
    with True show ?thesis by (auto intro: reads_weaken [OF reads_nothing [of std "\<lambda>_. True"]])
  next
    case False
    with assms have "parseDuration std r = Some (pf_Refresh d)" "0 < pf_Refresh d" by (auto simp: expressible_def)
    with False reads_policy_lines(6) show ?thesis by simp
  qed
  have all: "reads_as std k (\<lambda>_. True) xs (fold upd ws) \<Longrightarrow> reads_as std k (\<lambda>e. pf_Refresh e = 0) xs (fold upd ws)"
    for k xs upd and ws :: "gostring list" by (rule reads_weaken) auto
  note lists = all [OF reads_lines [OF reads_policy_lines(1) [OF names(1)]]] all [OF reads_lines [OF reads_policy_lines(3)]]
    all [OF reads_lines [OF reads_policy_lines(2) [OF names(2)]]] all [OF reads_lines [OF reads_policy_lines(4)]]
    all [OF reads_lines [OF reads_policy_lines(5)]]
  have "reads_as std (body_entries d) (\<lambda>e. pf_Refresh e = 0) (policy_body r d)
    (\<lambda>e. (fold (\<lambda>w d. d\<lparr>pf_Sources := pf_Sources d @ [w]\<rparr>) (pf_Sources d)
      (fold (\<lambda>w d. d\<lparr>pf_DenyIPs := pf_DenyIPs d @ [w]\<rparr>) (pf_DenyIPs d)
      (fold (\<lambda>w d. d\<lparr>pf_DenyDomains := pf_DenyDomains d @ [w]\<rparr>) (pf_DenyDomains d)
      (fold (\<lambda>w d. d\<lparr>pf_AllowIPs := pf_AllowIPs d @ [w]\<rparr>) (pf_AllowIPs d)
      (fold (\<lambda>w d. d\<lparr>pf_AllowDomains := pf_AllowDomains d @ [w]\<rparr>) (pf_AllowDomains d) e)))))\<lparr>pf_Refresh := pf_Refresh d\<rparr>)"
    unfolding body_entries_def policy_body_def
    by (rule reads_then [OF lists(1) reads_then [OF lists(2) reads_then [OF lists(3) reads_then [OF lists(4)
        reads_then [OF lists(5) ref]]]]]) (simp_all add: fold_append)
  then show ?thesis by (rule reads_weaken) (simp add: fold_append add_entries_def)
qed

lemma parsePolicyBlock_text:
  assumes "expressible std r d" "map lexeme_of toks = policy_lexemes r d @ x # xs"
  obtains toks' where "map lexeme_of toks' = x # xs"
    "parsePolicyBlock std toks = Inr (toks', d\<lparr>pf_Line := tk_Line (hd toks), pf_Col := tk_Col (hd toks)\<rparr>)"
proof -
  from assms(2) obtain a b c e ts where toks: "toks = a # b # c # e # ts" "tk_Kind b = TokIdent" "tk_Val b = pf_Name d"
    "tk_Kind c = TokLParen" "tk_Kind e = TokNewline"
    and ts: "map lexeme_of ts = policy_body r d @ (TokRParen, []) # (TokNewline, []) # x # xs"
    by (auto simp: policy_lexemes_def map_eq_Cons_conv lexeme_of_def)
  let ?d0 = "\<lparr>pf_Name = pf_Name d, pf_AllowDomains = [], pf_AllowIPs = [], pf_DenyDomains = [], pf_DenyIPs = [],
      pf_Sources = [], pf_Refresh = 0, pf_Line = tk_Line a, pf_Col = tk_Col a\<rparr>"
  have "body_entries d + 1 \<le> Suc (length (e # ts))"
    using body_entries_le [of d r] arg_cong [OF ts, of length] by simp
  then obtain n where n: "Suc (length (e # ts)) = body_entries d + Suc n"
    by (metis add.assoc add_Suc_right le_iff_add plus_1_eq_Suc add.commute)
  obtain t1 where t1: "map lexeme_of t1 = (TokRParen, []) # (TokNewline, []) # x # xs"
    "policy_loop std (body_entries d + Suc n) ts ?d0 = policy_loop std (Suc n) t1 ((add_entries d ?d0)\<lparr>pf_Refresh := pf_Refresh d\<rparr>)"
    by (rule reads_asD [OF reads_body [OF assms(1)] ts, of ?d0 "Suc n"]) simp_all
  obtain t2 where t2: "map lexeme_of t2 = x # xs"
    "policy_loop std (Suc n) t1 ((add_entries d ?d0)\<lparr>pf_Refresh := pf_Refresh d\<rparr>) = Inr (t2, (add_entries d ?d0)\<lparr>pf_Refresh := pf_Refresh d\<rparr>)"
    by (rule block_end [OF t1(1)])
  obtain y t where y: "ts = y # t" using ts by (cases ts) auto
  have "\<not> isKeyword (pf_Name d)" using assms(1) by (simp add: expressible_def name_word_def)
  then have "parsePolicyBlock std toks = policy_loop std (Suc (length (e # ts))) (e # ts) ?d0"
    using toks by (simp add: parsePolicyBlock_def named_header_def peek_def andThen_def run_block_def Let_def)
  also have "\<dots> = policy_loop std (Suc (length (e # ts))) ts ?d0" unfolding y by (rule block_loop_newline [OF toks(5)])
  also have "\<dots> = Inr (t2, (add_entries d ?d0)\<lparr>pf_Refresh := pf_Refresh d\<rparr>)" unfolding n t1(2) t2(2) ..
  also have "(add_entries d ?d0)\<lparr>pf_Refresh := pf_Refresh d\<rparr> = d\<lparr>pf_Line := tk_Line (hd toks), pf_Col := tk_Col (hd toks)\<rparr>"
    by (cases d) (simp add: add_entries_def toks(1))
  finally show ?thesis by (rule that [OF t2(1)])
qed

definition policies_lexemes :: "(gostring \<times> PolicyDef) list \<Rightarrow> lexeme list" where
  "policies_lexemes ps = concat (map (\<lambda>(r, d). policy_lexemes r d) ps)"

definition policies_text :: "(gostring \<times> PolicyDef) list \<Rightarrow> gostring" where
  "policies_text ps = render (policies_lexemes ps)"

definition same_policy :: "PolicyDef \<Rightarrow> PolicyDef \<Rightarrow> bool" where
  "same_policy d e \<longleftrightarrow> d\<lparr>pf_Line := 0, pf_Col := 0\<rparr> = e\<lparr>pf_Line := 0, pf_Col := 0\<rparr>"

lemma same_policy_moved: "same_policy d (d\<lparr>pf_Line := l, pf_Col := c\<rparr>)"
  by (simp add: same_policy_def)

lemma file_loop_policies:
  assumes "list_all (\<lambda>(r, d). expressible std r d) ps" "length ps < n"
    "map lexeme_of toks = policies_lexemes ps @ [(TokEOF, [])]"
  shows "\<exists>ds. file_loop n std toks f = Inr (f\<lparr>mf_Policies := mf_Policies f @ ds\<rparr>) \<and> list_all2 same_policy (map snd ps) ds"
  using assms
proof (induction ps arbitrary: n toks f)
  case Nil
  then obtain m e where "n = Suc m" "toks = [e]" "tk_Kind e = TokEOF"
    by (cases n) (auto simp: policies_lexemes_def map_eq_Cons_conv lexeme_of_def)
  then show ?case by (intro exI [of _ "[]"]) (simp add: peek_def)
next
  case (Cons p ps)
  obtain r d where p: "p = (r, d)" by (cases p)
  obtain m where m: "n = Suc m" "length ps < m" using Cons.prems(2) by (cases n) auto
  obtain x xs where rest: "policies_lexemes ps @ [(TokEOF, [])] = x # xs" by (cases "policies_lexemes ps") auto
  have ex: "expressible std r d" using Cons.prems(1) p by simp
  have toks: "map lexeme_of toks = policy_lexemes r d @ x # xs" using Cons.prems(3) p rest by (simp add: policies_lexemes_def)
  let ?d = "d\<lparr>pf_Line := tk_Line (hd toks), pf_Col := tk_Col (hd toks)\<rparr>"
  obtain t1 where t1: "map lexeme_of t1 = x # xs" "parsePolicyBlock std toks = Inr (t1, ?d)"
    by (rule parsePolicyBlock_text [OF ex toks])
  have hd: "tk_Kind (hd toks) = TokIdent" "tk_Val (hd toks) = ''policy''"
    using toks by (cases toks; simp add: policy_lexemes_def lexeme_of_def)+
  have "fst x \<noteq> TokNewline"
    using rest by (cases ps) (auto simp: policies_lexemes_def policy_lexemes_def)
  then have skip: "skipNewlines t1 = t1" using t1(1) by (cases t1 rule: skipNewlines.cases) (auto simp: lexeme_of_def)
  have "parseTopBlock std toks f = Inr (t1, f\<lparr>mf_Policies := mf_Policies f @ [?d]\<rparr>)"
    using t1(2) hd by (simp add: parseTopBlock_def peek_def Let_def andThen_def)
  then have loop: "file_loop n std toks f = file_loop m std t1 (f\<lparr>mf_Policies := mf_Policies f @ [?d]\<rparr>)"
    using hd by (simp add: m(1) peek_def andThen_def skip)
  from Cons.IH [OF _ m(2), of t1 "f\<lparr>mf_Policies := mf_Policies f @ [?d]\<rparr>"] Cons.prems(1) t1(1) rest obtain ds where
    "file_loop m std t1 (f\<lparr>mf_Policies := mf_Policies f @ [?d]\<rparr>) = Inr (f\<lparr>mf_Policies := (mf_Policies f @ [?d]) @ ds\<rparr>)"
    "list_all2 same_policy (map snd ps) ds" by auto
  with loop p show ?case by (intro exI [of _ "?d # ds"]) (simp add: same_policy_moved)
qed

lemma validate_flat:
  "\<forall>t\<in>set ts. tk_Kind t \<noteq> TokLParen \<and> tk_Kind t \<noteq> TokRParen \<Longrightarrow> validateTokens k (ts @ us) = validateTokens k us"
  by (induction ts) (auto split: TokenKind.split)

lemma list_all_concat_map: "list_all P (concat (map f ws)) \<longleftrightarrow> list_all (\<lambda>w. list_all P (f w)) ws"
  by (induction ws) simp_all

lemmas policy_lines = domain_line_def ip_line_def source_line_def refresh_line_def list_all_concat_map

lemma body_flat: "list_all (\<lambda>x. fst x \<noteq> TokLParen \<and> fst x \<noteq> TokRParen) (policy_body r d)"
  by (simp add: policy_body_def policy_lines) (simp add: list_all_iff)

lemma validate_policy:
  assumes "map lexeme_of ts = policy_lexemes r d"
  shows "validateTokens 0 (ts @ us) = validateTokens 0 us"
proof -
  from assms obtain a b c e bs f g where ts: "ts = [a, b] @ c # e # bs @ [f, g]"
    "tk_Kind a = TokIdent" "tk_Kind b = TokIdent" "tk_Kind c = TokLParen" "tk_Kind e = TokNewline" "tk_Kind f = TokRParen"
    "tk_Kind g = TokNewline" "map lexeme_of bs = policy_body r d"
    by (auto simp: policy_lexemes_def map_eq_append_conv map_eq_Cons_conv lexeme_of_def)
  have "\<forall>t\<in>set bs. tk_Kind t \<noteq> TokLParen \<and> tk_Kind t \<noteq> TokRParen"
    using body_flat [of r d] unfolding ts(8) [symmetric] by (simp add: list_all_iff lexeme_of_def)
  with ts(2-7) show ?thesis by (simp add: ts(1) validate_flat)
qed

lemma validate_policies:
  "map lexeme_of toks = policies_lexemes ps @ [(TokEOF, [])] \<Longrightarrow> validateTokens 0 toks = None"
proof (induction ps arbitrary: toks)
  case (Cons p ps)
  obtain r d where p: "p = (r, d)" by (cases p)
  from Cons.prems obtain ts us where "toks = ts @ us" "map lexeme_of ts = policy_lexemes r d"
    "map lexeme_of us = policies_lexemes ps @ [(TokEOF, [])]"
    by (auto simp: policies_lexemes_def p map_eq_append_conv [of lexeme_of toks "policy_lexemes r d"])
  with Cons.IH validate_policy show ?case by simp
qed (auto simp: policies_lexemes_def map_eq_Cons_conv lexeme_of_def)

lemma ident_words [simp]: "ident_text ''policy''" "ident_text ''allow''" "ident_text ''deny''" "ident_text ''ip''" "ident_text ''source''" "ident_text ''refresh''"
  by code_simp+

lemma printable_policy: "expressible std r d \<Longrightarrow> list_all printable (policy_lexemes r d)"
  by (simp add: policy_lexemes_def policy_body_def policy_lines printable_def expressible_def name_word_def)
    (simp add: list_all_iff name_word_def split: if_splits)

lemma printable_policies:
  "list_all (\<lambda>(r, d). expressible std r d) ps \<Longrightarrow> list_all printable (policies_lexemes ps)"
  by (induction ps) (auto simp: policies_lexemes_def printable_policy)

lemma parsed_policies:
  assumes "list_all (\<lambda>(r, d). expressible std r d) ps"
  shows "\<exists>ds. ParseFileString std (policies_text ps) = Inr (empty_file\<lparr>mf_Policies := ds\<rparr>) \<and> list_all2 same_policy (map snd ps) ds"
proof -
  from lex_from_render [OF printable_policies [OF assms], of 1 1] obtain toks where
    toks: "lex_from 1 1 (policies_text ps) = Inr toks" "map lexeme_of toks = policies_lexemes ps @ [(TokEOF, [])]"
    by (auto simp: policies_text_def)
  then have lex: "Lex (policies_text ps) = Inr toks" by (simp add: Lex_tokens validate_policies)
  have "length ps \<le> length (policies_lexemes ps)"
    by (induction ps) (auto simp: policies_lexemes_def policy_lexemes_def)
  then have fuel: "length ps < Suc (length toks)" using arg_cong [OF toks(2), of length] by simp
  have "skipNewlines toks = toks"
    using toks(2) by (cases toks rule: skipNewlines.cases; cases ps) (auto simp: policies_lexemes_def policy_lexemes_def lexeme_of_def)
  with file_loop_policies [OF assms fuel toks(2), of empty_file] lex show ?thesis
    by (auto simp: ParseFileString_def) (auto simp: empty_file_def)
qed

section \<open>Registering what was read\<close>

lemma SavePolicy_Inr:
  "SavePolicy p st = Inr st' \<longleftrightarrow> policyNameRe (po_Name p) \<and> po_Name p \<noteq> DefaultPolicyName \<and> ds_writable st \<and>
     st' = st\<lparr>ds_policies := AList.update (po_Name p) (Content p) (ds_policies st)\<rparr>"
  by (auto simp: SavePolicy_def validatePolicyName_def split: if_splits)

lemma register_Cons:
  "registerFilePolicies ds (def # defs) st = (st', None) \<longleftrightarrow>
     (\<exists>p st1. policyFromDef ds def = Inr p \<and> SavePolicy p st = Inr st1 \<and> registerFilePolicies ds defs st1 = (st', None))"
  by (auto split: sum.splits)

lemma policyFromDef_name: "policyFromDef ds def = Inr p \<Longrightarrow> po_Name p = pf_Name def"
  by (auto simp: policyFromDef_def split: if_splits)

lemma register_others:
  "registerFilePolicies ds defs st = (st', None) \<Longrightarrow> name \<notin> pf_Name ` set defs \<Longrightarrow>
     map_of (ds_policies st') name = map_of (ds_policies st) name"
proof (induction defs arbitrary: st)
  case (Cons def defs)
  then obtain p st1 where "policyFromDef ds def = Inr p" "SavePolicy p st = Inr st1" "registerFilePolicies ds defs st1 = (st', None)"
    by (auto simp: register_Cons simp del: registerFilePolicies.simps)
  with Cons show ?case by (auto simp: SavePolicy_Inr update_conv' dest: policyFromDef_name)
qed simp

lemma register_append:
  "registerFilePolicies ds (xs @ ys) st = (st', None) \<Longrightarrow> \<exists>st1. registerFilePolicies ds ys st1 = (st', None)"
  by (induction xs arbitrary: st) (auto split: sum.splits)

lemma registered_policy:
  assumes "registerFilePolicies ds (ps @ def # qs) st = (st', None)" "pf_Name def \<notin> pf_Name ` set qs"
  shows "\<exists>p. policyFromDef ds def = Inr p \<and> LoadPolicy st' (pf_Name def) = Inr p"
proof -
  from register_append [OF assms(1)] obtain st0 p st1 where p: "policyFromDef ds def = Inr p" "SavePolicy p st0 = Inr st1"
    "registerFilePolicies ds qs st1 = (st', None)"
    by (auto simp: register_Cons simp del: registerFilePolicies.simps)
  have name: "po_Name p = pf_Name def" by (rule policyFromDef_name [OF p(1)])
  from p(2) have s: "policyNameRe (pf_Name def)" "pf_Name def \<noteq> DefaultPolicyName" "map_of (ds_policies st1) (pf_Name def) = Some (Content p)"
    by (auto simp: SavePolicy_Inr name update_conv')
  then have "po_Name p \<noteq> []" by (auto simp: name policyNameRe_def)
  with s register_others [OF p(3) assms(2)] p(1) show ?thesis by (simp add: LoadPolicy_def)
qed

lemma same_policy_names:
  assumes "same_policy d e"
  shows "pf_Name e = pf_Name d" "pf_DenyDomains e = pf_DenyDomains d" "pf_AllowDomains e = pf_AllowDomains d"
  using assms by (cases d; cases e; simp add: same_policy_def)+

section \<open>A policy file\<close>

definition corp_std :: stdlib where
  "corp_std = \<lparr>parseURL = (\<lambda>_. None), parseDuration = (\<lambda>_. None)\<rparr>"

definition corp_def :: PolicyDef where
  "corp_def = \<lparr>pf_Name = ''corp'', pf_AllowDomains = [''*.corp.com''], pf_AllowIPs = [], pf_DenyDomains = [''Telemetry.corp.com''],
     pf_DenyIPs = [], pf_Sources = [], pf_Refresh = 0, pf_Line = 1, pf_Col = 1\<rparr>"

definition corp_store :: Store where
  "corp_store = fst (registerFilePolicies (\<lambda>_. []) [corp_def] \<lparr>ds_policies = [], ds_caches = [], ds_namespaces = [], ds_writable = True\<rparr>)"

definition corp_sandbox :: Sandbox where
  "corp_sandbox = \<lparr>sb_Namespace = [], sb_Network = \<lparr>np_AllowedDomains = [], np_AllowedIPs = [], np_DeniedDomains = [],
     np_Use = Some [''default'', ''corp''], np_Blocks = []\<rparr>\<rparr>"

section \<open>Properties\<close>

text \<open>
  C13: Policies written as text are read back as they were: the parser returns one policy per block, in order,
  with every entry, source and refresh interval, for all policies whose names and entries are words of the
  grammar. Only the recorded positions differ.
\<close>

theorem policy_text_roundtrip:
  assumes "list_all (\<lambda>(r, d). expressible std r d) ps"
  shows "\<exists>f. ParseFileString std (policies_text ps) = Inr f \<and> mf_Sandbox f = None \<and> mf_Namespaces f = [] \<and>
    list_all2 same_policy (map snd ps) (mf_Policies f)"
  using parsed_policies [OF assms] by (auto simp: empty_file_def)

theorem policy_text_roundtrip_witness:
  "\<exists>f. ParseFileString corp_std (policies_text [([], corp_def)]) = Inr f \<and> mf_Sandbox f = None \<and> mf_Namespaces f = [] \<and>
     list_all2 same_policy [corp_def] (mf_Policies f)"
proof -
  have "expressible corp_std [] corp_def" by code_simp
  then show ?thesis using policy_text_roundtrip [of corp_std "[([], corp_def)]"] by simp
qed



end
