(* ===== verification/Claims.thy ===== *)
theory Claims
  imports Prelude
begin

text \<open>
  Claims. Several functions of \<open>src/internal/cli\<close> compose declarations of many project files into one
  list: each declaration is resolved to a value, a Go map remembers who claimed the key of the value first,
  a second claim that says the same is dropped and one that says otherwise is an error naming both. The locale is
  the contract of such a loop, and its lemmas give the result exactly: the loop succeeds if and only if all
  declarations resolve and no two of them disagree, and the result is the first value of every key, in order.
\<close>

section \<open>The first of every key\<close>

fun first_by :: "('v \<Rightarrow> 'k) \<Rightarrow> 'v list \<Rightarrow> 'v list" where
  "first_by key [] = []"
| "first_by key (v # vs) = v # first_by key (filter (\<lambda>w. key w \<noteq> key v) vs)"

lemma first_by_subset: "set (first_by key vs) \<subseteq> set vs"
  by (induction key vs rule: first_by.induct) auto

lemma first_by_distinct: "distinct (map key (first_by key vs))"
proof (induction key vs rule: first_by.induct)
  case (2 key v vs)
  then show ?case using first_by_subset [of key "filter (\<lambda>w. key w \<noteq> key v) vs"] by auto
qed simp

lemma first_by_keys: "key ` set (first_by key vs) = key ` set vs"
  by (induction key vs rule: first_by.induct) auto

lemma first_by_id: "distinct (map key vs) \<Longrightarrow> first_by key vs = vs"
proof (induction vs)
  case (Cons v vs)
  then have "filter (\<lambda>w. key w \<noteq> key v) vs = vs" by (auto simp: filter_id_conv) (metis imageI)
  with Cons show ?case by simp
qed simp

text \<open>Declarations agree when each is compatible with each.\<close>

definition agreed :: "('v \<Rightarrow> 'v \<Rightarrow> bool) \<Rightarrow> 'v list \<Rightarrow> bool" where
  "agreed ok vs \<longleftrightarrow> (\<forall>v \<in> set vs. \<forall>w \<in> set vs. ok v w)"

lemma agreed_cong_set: "set vs = set ws \<Longrightarrow> agreed ok vs = agreed ok ws"
  by (simp add: agreed_def)

lemma agreed_append: "agreed ok (vs @ ws) \<Longrightarrow> agreed ok vs \<and> agreed ok ws"
  by (auto simp: agreed_def)

definition by_key :: "('v \<Rightarrow> 'k) \<Rightarrow> ('v \<Rightarrow> 'v \<Rightarrow> bool) \<Rightarrow> 'v \<Rightarrow> 'v \<Rightarrow> bool" where
  "by_key key same v w \<longleftrightarrow> (key v = key w \<longrightarrow> same v w)"

lemma agreed_equal_iff: "agreed (by_key key (=)) vs \<longleftrightarrow> inj_on key (set vs)"
  by (auto simp: agreed_def by_key_def inj_on_def)

lemma agreed_any: "agreed (by_key key (\<lambda>_ _. True)) vs"
  by (auto simp: agreed_def by_key_def)

lemma map_sum_Inr_iff: "map_sum f g x = Inr y \<longleftrightarrow> (\<exists>z. x = Inr z \<and> y = g z)"
  by (cases x) auto

section \<open>A loop over declarations\<close>

text \<open>
  The state of the loop stands for the values kept so far. A value with a new key that is compatible with all
  of them is kept, one with a known key that is compatible is dropped, and any other ends the loop.
\<close>

locale claim_list =
  fixes loop :: "'st \<Rightarrow> 's list \<Rightarrow> 'e + 'v list"
    and holds :: "'st \<Rightarrow> 'v list \<Rightarrow> bool"
    and resolve :: "'s \<Rightarrow> 'r + 'v"
    and key :: "'v \<Rightarrow> 'k"
    and ok :: "'v \<Rightarrow> 'v \<Rightarrow> bool"
  assumes nothing_left: "loop st [] = Inr []"
    and unresolved: "resolve s = Inl r \<Longrightarrow> \<exists>e. loop st (s # ss) = Inl e"
    and kept_new: "holds st kept \<Longrightarrow> resolve s = Inr v \<Longrightarrow> key v \<notin> key ` set kept \<Longrightarrow> \<forall>w \<in> set kept. ok w v \<Longrightarrow>
      \<exists>st'. holds st' (v # kept) \<and> loop st (s # ss) = map_sum id (\<lambda>vs. v # vs) (loop st' ss)"
    and dropped: "holds st kept \<Longrightarrow> resolve s = Inr v \<Longrightarrow> key v \<in> key ` set kept \<Longrightarrow> \<forall>w \<in> set kept. ok w v \<Longrightarrow>
      loop st (s # ss) = loop st ss"
    and refused: "holds st kept \<Longrightarrow> agreed ok kept \<Longrightarrow> resolve s = Inr v \<Longrightarrow> w \<in> set kept \<Longrightarrow> \<not> ok w v \<Longrightarrow> \<exists>e. loop st (s # ss) = Inl e"
    and ok_refl: "ok v v"
    and ok_sym: "ok v w \<Longrightarrow> ok w v"
    and ok_subst: "key u = key v \<Longrightarrow> ok u v \<Longrightarrow> ok u w \<Longrightarrow> ok v w"
begin

lemma agreed_repeated:
  assumes "agreed ok (kept @ us)" "key v \<in> key ` set kept" "\<forall>w \<in> set kept. ok w v"
  shows "agreed ok (kept @ v # us)"
proof -
  from assms(2) obtain v' where v': "v' \<in> set kept" "key v' = key v" by (metis imageE)
  have "ok v w \<and> ok w v" if "w \<in> set (kept @ us)" for w
    using assms(1,3) v' that ok_subst [OF v'(2)] ok_sym unfolding agreed_def by (metis Un_iff set_append)
  then show ?thesis using assms(1) ok_refl by (auto simp: agreed_def)
qed

text \<open>What the loop returns for the declarations left.\<close>

definition outcome_of :: "'v list \<Rightarrow> 's list \<Rightarrow> 'v list \<Rightarrow> bool" where
  "outcome_of kept ss vs \<longleftrightarrow>
    (\<exists>us. list_all2 (\<lambda>s u. resolve s = Inr u) ss us \<and> agreed ok (kept @ us) \<and>
       vs = first_by key (filter (\<lambda>u. key u \<notin> key ` set kept) us))"

lemma outcome_dropped:
  assumes "resolve s = Inr v" "key v \<in> key ` set kept" "\<forall>w \<in> set kept. ok w v"
  shows "outcome_of kept (s # ss) vs \<longleftrightarrow> outcome_of kept ss vs"
proof -
  have "agreed ok (kept @ v # us) \<longleftrightarrow> agreed ok (kept @ us)" for us
    using agreed_repeated [OF _ assms(2,3), of us] by (auto simp: agreed_def)
  with assms(1,2) show ?thesis by (auto simp: outcome_of_def list_all2_Cons1)
qed

lemma outcome_kept:
  assumes "resolve s = Inr v" "key v \<notin> key ` set kept"
  shows "outcome_of kept (s # ss) vs \<longleftrightarrow> (\<exists>vs'. vs = v # vs' \<and> outcome_of (v # kept) ss vs')"
proof -
  have "agreed ok (kept @ v # us) \<longleftrightarrow> agreed ok ((v # kept) @ us)" for us by (rule agreed_cong_set) auto
  moreover have "filter (\<lambda>u. key u \<notin> key ` set (v # kept)) us = filter (\<lambda>w. key w \<noteq> key v) (filter (\<lambda>u. key u \<notin> key ` set kept) us)" for us
    by (auto intro: filter_cong)
  ultimately show ?thesis using assms by (auto simp: outcome_of_def list_all2_Cons1)
qed

lemma loop_outcome:
  "holds st kept \<Longrightarrow> agreed ok kept \<Longrightarrow> loop st ss = Inr vs \<longleftrightarrow> outcome_of kept ss vs"
proof (induction ss arbitrary: st kept vs)
  case Nil
  then show ?case by (auto simp: nothing_left outcome_of_def)
next
  case (Cons s ss)
  show ?case
  proof (cases "resolve s")
    case (Inl r)
    with unresolved [OF Inl, of st ss] show ?thesis by (auto simp: outcome_of_def list_all2_Cons1)
  next
    case v: (Inr v)
    consider "\<forall>w \<in> set kept. ok w v" "key v \<notin> key ` set kept" | "\<forall>w \<in> set kept. ok w v" "key v \<in> key ` set kept"
      | w where "w \<in> set kept" "\<not> ok w v" by blast
    then show ?thesis
    proof cases
      case 1
      from kept_new [OF Cons.prems(1) v 1(2,1)] obtain st' where st': "holds st' (v # kept)"
        "loop st (s # ss) = map_sum id (\<lambda>vs. v # vs) (loop st' ss)" by blast
      have "agreed ok (v # kept)" using Cons.prems(2) 1(1) ok_sym ok_refl by (auto simp: agreed_def)
      from Cons.IH [OF st'(1) this] show ?thesis
        by (auto simp: st'(2) outcome_kept [OF v 1(2)] map_sum_Inr_iff)
    next
      case 2
      with Cons.IH [OF Cons.prems] show ?thesis
        by (simp add: dropped [OF Cons.prems(1) v] outcome_dropped [OF v])
    next
      case 3
      from refused [OF Cons.prems v 3] obtain e where "loop st (s # ss) = Inl e" by blast
      with 3 v show ?thesis by (auto simp: outcome_of_def list_all2_Cons1 agreed_def)
    qed
  qed
qed

theorem loop_exact:
  "holds st [] \<Longrightarrow> loop st ss = Inr vs \<longleftrightarrow>
     (\<exists>us. list_all2 (\<lambda>s u. resolve s = Inr u) ss us \<and> agreed ok us \<and> vs = first_by key us)"
  using loop_outcome [of st "[]" ss vs] by (simp add: outcome_of_def agreed_def)

end

section \<open>A loop with one map\<close>

text \<open>A map from keys to claims that stands for the values kept.\<close>

definition stands_for :: "('v \<Rightarrow> 'k) \<Rightarrow> ('c \<Rightarrow> 'v \<Rightarrow> bool) \<Rightarrow> ('k, 'c) gomap \<Rightarrow> 'v list \<Rightarrow> bool" where
  "stands_for key by_claim m kept \<longleftrightarrow> (\<forall>k. case map_of m k of
       None \<Rightarrow> k \<notin> key ` set kept
     | Some c \<Rightarrow> \<exists>v \<in> set kept. key v = k \<and> by_claim c v)"

lemma stands_for_empty [simp]: "stands_for key by_claim [] []"
  by (simp add: stands_for_def)

lemma stands_for_new: "stands_for key by_claim m kept \<Longrightarrow> k \<notin> key ` set kept \<Longrightarrow> map_of m k = None"
  by (cases "map_of m k") (auto simp: stands_for_def dest!: spec [of _ k])

lemma stands_for_known:
  "stands_for key by_claim m kept \<Longrightarrow> k \<in> key ` set kept \<Longrightarrow> \<exists>c v. map_of m k = Some c \<and> v \<in> set kept \<and> key v = k \<and> by_claim c v"
  by (auto simp: stands_for_def dest!: spec [of _ k] split: option.splits)

lemma stands_for_update:
  assumes "stands_for key by_claim m kept" "by_claim c v"
  shows "stands_for key by_claim (AList.update (key v) c m) (v # kept)"
  unfolding stands_for_def
proof
  fix k
  show "case map_of (AList.update (key v) c m) k of None \<Rightarrow> k \<notin> key ` set (v # kept)
    | Some c \<Rightarrow> \<exists>w \<in> set (v # kept). key w = k \<and> by_claim c w"
    using assms spec [OF assms(1) [unfolded stands_for_def], of k]
    by (auto simp: update_conv' split: option.splits)
qed

locale claim_loop =
  fixes loop :: "('k, 'c) gomap \<Rightarrow> 's list \<Rightarrow> 'e + 'v list"
    and resolve :: "'s \<Rightarrow> 'r + 'v"
    and key :: "'v \<Rightarrow> 'k"
    and same :: "'v \<Rightarrow> 'v \<Rightarrow> bool"
    and claim :: "'s \<Rightarrow> 'v \<Rightarrow> 'c"
  assumes finished: "loop m [] = Inr []"
    and not_resolved: "resolve s = Inl r \<Longrightarrow> \<exists>e. loop m (s # ss) = Inl e"
    and unclaimed: "resolve s = Inr v \<Longrightarrow> map_of m (key v) = None \<Longrightarrow>
      loop m (s # ss) = map_sum id (\<lambda>vs. v # vs) (loop (AList.update (key v) (claim s v) m) ss)"
    and repeated: "resolve s = Inr v \<Longrightarrow> resolve s' = Inr v' \<Longrightarrow> map_of m (key v) = Some (claim s' v') \<Longrightarrow>
      key v' = key v \<Longrightarrow> same v' v \<Longrightarrow> loop m (s # ss) = loop m ss"
    and conflicting: "resolve s = Inr v \<Longrightarrow> resolve s' = Inr v' \<Longrightarrow> map_of m (key v) = Some (claim s' v') \<Longrightarrow>
      key v' = key v \<Longrightarrow> \<not> same v' v \<Longrightarrow> \<exists>e. loop m (s # ss) = Inl e"
    and same_refl: "same v v"
    and same_sym: "same v w \<Longrightarrow> same w v"
    and same_trans: "same u v \<Longrightarrow> same v w \<Longrightarrow> same u w"
begin

definition made_for :: "'c \<Rightarrow> 'v \<Rightarrow> bool" where
  "made_for c v \<longleftrightarrow> (\<exists>s. resolve s = Inr v \<and> c = claim s v)"

end

sublocale claim_loop \<subseteq> listed: claim_list loop "stands_for key made_for" resolve key "by_key key same"
proof
  fix m kept s v ss
  assume m: "stands_for key made_for m kept" and v: "resolve s = Inr v"
  {
    assume new: "key v \<notin> key ` set kept"
    have "stands_for key made_for (AList.update (key v) (claim s v) m) (v # kept)"
      by (rule stands_for_update [OF m]) (use v in \<open>auto simp: made_for_def\<close>)
    then show "\<exists>m'. stands_for key made_for m' (v # kept) \<and> loop m (s # ss) = map_sum id (\<lambda>vs. v # vs) (loop m' ss)"
      using unclaimed [OF v stands_for_new [OF m new]] by blast
  }
  {
    assume known: "key v \<in> key ` set kept" and ok: "\<forall>w \<in> set kept. by_key key same w v"
    obtain s' v' where "map_of m (key v) = Some (claim s' v')" "v' \<in> set kept" "key v' = key v" "resolve s' = Inr v'"
      using stands_for_known [OF m known] by (auto simp: made_for_def)
    with ok show "loop m (s # ss) = loop m ss" using repeated [OF v] by (auto simp: by_key_def)
  }
  {
    fix w
    assume ag: "agreed (by_key key same) kept" and w: "w \<in> set kept" "\<not> by_key key same w v"
    then have known: "key v \<in> key ` set kept" by (metis by_key_def imageI)
    obtain s' v' where c: "map_of m (key v) = Some (claim s' v')" "v' \<in> set kept" "key v' = key v" "resolve s' = Inr v'"
      using stands_for_known [OF m known] by (auto simp: made_for_def)
    have "same w v'" using ag w c by (auto simp: agreed_def by_key_def)
    then have "\<not> same v' v" using w same_trans by (auto simp: by_key_def)
    then show "\<exists>e. loop m (s # ss) = Inl e" using conflicting [OF v] c by blast
  }
qed (auto simp: finished by_key_def same_refl intro: not_resolved same_sym dest: same_trans [OF same_sym])

context claim_loop
begin

theorem claims_exact:
  "loop [] ss = Inr vs \<longleftrightarrow>
     (\<exists>us. list_all2 (\<lambda>s u. resolve s = Inr u) ss us \<and> agreed (by_key key same) us \<and> vs = first_by key us)"
  by (rule listed.loop_exact) simp

end

end
