(* ===== verification/Forwards.thy ===== *)
theory Forwards
  imports Workspace ModGrammar Frames Claims
begin

text \<open>
  Ports and serial devices: the specs and records of \<open>src/internal/config/types.go\<close>, the composition of
  forwards in \<open>src/internal/cli/run.go\<close> and \<open>here.go\<close>, the commands of \<open>forward.go\<close> and \<open>serial.go\<close>, and
  \<open>compose_serial.go\<close>.

  Composition succeeds exactly when all specs parse and none claims the bound port of a different one. The
  ports stay in range over every sequence of commands, as do the names and paths of serial devices, and the end
  that is bound is claimed once for reverse forwards and serial devices; for forwards the command that adds
  one does not keep that.
\<close>

section \<open>Port specs\<close>

fun split_byte :: "char \<Rightarrow> gostring \<Rightarrow> gostring list" where
  "split_byte c [] = [[]]"
| "split_byte c (x # s) =
     (if x = c then [] # split_byte c s
      else (case split_byte c s of [] \<Rightarrow> [[x]] | w # ws \<Rightarrow> (x # w) # ws))"

record PortForward =
  pw_HostPort :: int
  pw_GuestPort :: int

definition Itoa :: "int \<Rightarrow> gostring" where
  "Itoa n = (if n < 0 then CHR ''-'' # dec_digits (nat (- n)) else dec_digits (nat n))"

definition PortForward_String :: "PortForward \<Rightarrow> gostring" where
  "PortForward_String p =
     (if pw_HostPort p = pw_GuestPort p then Itoa (pw_HostPort p)
      else Itoa (pw_HostPort p) @ '':'' @ Itoa (pw_GuestPort p))"

datatype forward_error =
    NotANumber
  | PortOutOfRange
  | BadPort gostring forward_error
  | BadHostPort gostring forward_error
  | BadGuestPort gostring forward_error
  | InvalidPortSpec gostring
  | BadForward gostring gostring gostring forward_error
  | PortClaimedTwice gostring int "gostring \<times> gostring" "gostring \<times> gostring"
  | ReparsePanic gostring
  | GuestPortTaken int int

definition parsePort :: "gostring \<Rightarrow> forward_error + int" where
  "parsePort s =
     (case Atoi s of
        None \<Rightarrow> Inl NotANumber
      | Some n \<Rightarrow> if n < 1 \<or> 65535 < n then Inl PortOutOfRange else Inr n)"

definition parsePortSpec :: "gostring \<Rightarrow> forward_error + PortForward" where
  "parsePortSpec spec =
     (case split_byte (CHR '':'') spec of
        [p] \<Rightarrow> (case parsePort p of
                 Inl err \<Rightarrow> Inl (BadPort spec err)
               | Inr n \<Rightarrow> Inr \<lparr>pw_HostPort = n, pw_GuestPort = n\<rparr>)
      | [h, g] \<Rightarrow> (case parsePort h of
                    Inl err \<Rightarrow> Inl (BadHostPort h err)
                  | Inr host \<Rightarrow> (case parsePort g of
                                  Inl err \<Rightarrow> Inl (BadGuestPort g err)
                                | Inr guest \<Rightarrow> Inr \<lparr>pw_HostPort = host, pw_GuestPort = guest\<rparr>))
      | _ \<Rightarrow> Inl (InvalidPortSpec spec))"

section \<open>Composition of forwards\<close>

record forwardSource =
  fs_Origin :: gostring
  fs_Spec :: gostring

definition collectForwardSpecs :: "Workspace \<Rightarrow> (Template \<Rightarrow> gostring list) \<Rightarrow> forwardSource list" where
  "collectForwardSpecs ws pick =
     map (\<lambda>s. \<lparr>fs_Origin = ''workspace'', fs_Spec = s\<rparr>) (pick (ws_File ws)) @
     concat (map (\<lambda>r. case rp_Clawkfile r of
         None \<Rightarrow> []
       | Some t \<Rightarrow> map (\<lambda>s. \<lparr>fs_Origin = rp_Name r, fs_Spec = s\<rparr>) (pick t)) (ws_Repos ws))"

definition mustParseSpec :: "gostring \<Rightarrow> forward_error + PortForward" where
  "mustParseSpec spec = (case parsePortSpec spec of Inl _ \<Rightarrow> Inl (ReparsePanic spec) | Inr fwd \<Rightarrow> Inr fwd)"

fun merge_forwards_loop ::
  "gostring \<Rightarrow> gostring \<Rightarrow> (PortForward \<Rightarrow> int) \<Rightarrow> (int, forwardSource) gomap \<Rightarrow> forwardSource list \<Rightarrow>
    forward_error + PortForward list" where
  "merge_forwards_loop kind portName bound byPort [] = Inr []"
| "merge_forwards_loop kind portName bound byPort (s # sources) =
     (case parsePortSpec (fs_Spec s) of
        Inl err \<Rightarrow> Inl (BadForward (fs_Origin s) kind (fs_Spec s) err)
      | Inr fwd \<Rightarrow>
          (case map_of byPort (bound fwd) of
             Some prev \<Rightarrow>
               (case mustParseSpec (fs_Spec prev) of
                  Inl panic \<Rightarrow> Inl panic
                | Inr old \<Rightarrow>
                    if fwd = old then merge_forwards_loop kind portName bound byPort sources
                    else Inl (PortClaimedTwice portName (bound fwd) (fs_Origin prev, fs_Spec prev) (fs_Origin s, fs_Spec s)))
           | None \<Rightarrow> map_sum id (\<lambda>out. fwd # out)
               (merge_forwards_loop kind portName bound (AList.update (bound fwd) s byPort) sources)))"

definition mergeForwardSources ::
  "forwardSource list \<Rightarrow> gostring \<Rightarrow> gostring \<Rightarrow> (PortForward \<Rightarrow> int) \<Rightarrow> forward_error + PortForward list" where
  "mergeForwardSources sources kind portName bound = merge_forwards_loop kind portName bound [] sources"

definition mergeForwards :: "Workspace \<Rightarrow> forward_error + PortForward list" where
  "mergeForwards ws = mergeForwardSources (collectForwardSpecs ws tm_Forwards) ''forward'' ''host port'' pw_HostPort"

definition mergeReverseForwards :: "Workspace \<Rightarrow> forward_error + PortForward list" where
  "mergeReverseForwards ws =
     mergeForwardSources (collectForwardSpecs ws tm_ReverseForwards) ''reverse forward'' ''guest port'' pw_GuestPort"

fun directed_loop ::
  "gostring \<Rightarrow> gostring \<Rightarrow> (PortForward \<Rightarrow> int) \<Rightarrow> (int, bool) gomap \<Rightarrow> gostring list \<Rightarrow> forward_error + PortForward list" where
  "directed_loop ctxt kind bound seen [] = Inr []"
| "directed_loop ctxt kind bound seen (s # specs) =
     (case parsePortSpec s of
        Inl err \<Rightarrow> Inl (BadForward ctxt kind s err)
      | Inr fwd \<Rightarrow>
          if map_of seen (bound fwd) = Some True then directed_loop ctxt kind bound seen specs
          else map_sum id (\<lambda>out. fwd # out) (directed_loop ctxt kind bound (AList.update (bound fwd) True seen) specs))"

definition parseDirectedForwardSpecs ::
  "gostring list \<Rightarrow> gostring \<Rightarrow> gostring \<Rightarrow> (PortForward \<Rightarrow> int) \<Rightarrow> forward_error + PortForward list" where
  "parseDirectedForwardSpecs specs ctxt kind bound =
     (if specs = [] then Inr [] else directed_loop ctxt kind bound [] specs)"

definition parseForwardSpecs :: "gostring list \<Rightarrow> gostring \<Rightarrow> forward_error + PortForward list" where
  "parseForwardSpecs specs ctxt = parseDirectedForwardSpecs specs ctxt ''forward'' pw_HostPort"

definition parseReverseForwardSpecs :: "gostring list \<Rightarrow> gostring \<Rightarrow> forward_error + PortForward list" where
  "parseReverseForwardSpecs specs ctxt = parseDirectedForwardSpecs specs ctxt ''reverse forward'' pw_GuestPort"

section \<open>Commands on forwards\<close>

definition forwardExists :: "PortForward list \<Rightarrow> PortForward \<Rightarrow> bool" where
  "forwardExists fs f \<longleftrightarrow> list_ex (\<lambda>e. e = f) fs"

fun forwardAdd :: "gostring list \<Rightarrow> PortForward list \<Rightarrow> forward_error + PortForward list" where
  "forwardAdd [] fs = Inr fs"
| "forwardAdd (spec # specs) fs =
     (case parsePortSpec spec of
        Inl err \<Rightarrow> Inl err
      | Inr fwd \<Rightarrow> forwardAdd specs (if forwardExists fs fwd then fs else fs @ [fwd]))"

fun parse_specs :: "gostring list \<Rightarrow> forward_error + PortForward list" where
  "parse_specs [] = Inr []"
| "parse_specs (spec # specs) =
     (case parsePortSpec spec of Inl err \<Rightarrow> Inl err | Inr fwd \<Rightarrow> map_sum id (\<lambda>fs. fwd # fs) (parse_specs specs))"

definition forwardRemove :: "gostring list \<Rightarrow> PortForward list \<Rightarrow> forward_error + PortForward list" where
  "forwardRemove specs fs = map_sum id (\<lambda>drops. filter (\<lambda>f. f \<notin> set drops) fs) (parse_specs specs)"

definition reverseByGuestPort :: "PortForward list \<Rightarrow> int \<Rightarrow> PortForward option" where
  "reverseByGuestPort fs guestPort = find (\<lambda>f. pw_GuestPort f = guestPort) fs"

text \<open>The result of the command with the flag that a running daemon is told.\<close>

fun forwardAddReverse :: "gostring list \<Rightarrow> PortForward list \<Rightarrow> bool \<Rightarrow> forward_error + PortForward list \<times> bool" where
  "forwardAddReverse [] fs changed = Inr (fs, changed)"
| "forwardAddReverse (spec # specs) fs changed =
     (case parsePortSpec spec of
        Inl err \<Rightarrow> Inl err
      | Inr fwd \<Rightarrow>
          if forwardExists fs fwd then forwardAddReverse specs fs changed
          else case reverseByGuestPort fs (pw_GuestPort fwd) of
            Some prev \<Rightarrow> Inl (GuestPortTaken (pw_GuestPort fwd) (pw_HostPort prev))
          | None \<Rightarrow> forwardAddReverse specs (fs @ [fwd]) True)"

definition forwardRemoveReverse :: "gostring list \<Rightarrow> PortForward list \<Rightarrow> forward_error + PortForward list \<times> bool" where
  "forwardRemoveReverse specs fs = map_sum id (\<lambda>kept. (kept, length kept \<noteq> length fs)) (forwardRemove specs fs)"

section \<open>Serial devices\<close>

record SerialDevice =
  sd_HostPath :: gostring
  sd_GuestName :: gostring

definition is_glob :: "gostring \<Rightarrow> bool" where
  "is_glob p \<longleftrightarrow> list_ex (\<lambda>c. c \<in> set ''*?['') p"

definition SerialDevice_IsGlob :: "SerialDevice \<Rightarrow> bool" where
  "SerialDevice_IsGlob s = is_glob (sd_HostPath s)"

definition DefaultSerialGuestName :: "gostring \<Rightarrow> gostring" where
  "DefaultSerialGuestName hostPath = (if is_glob hostPath then [] else Base hostPath)"

definition SerialDevice_String :: "SerialDevice \<Rightarrow> gostring" where
  "SerialDevice_String s =
     (if sd_GuestName s = DefaultSerialGuestName (sd_HostPath s) then sd_HostPath s
      else sd_HostPath s @ '':'' @ sd_GuestName s)"

datatype serial_error =
    ExpandFailed load_error
  | NoHostPath gostring
  | NotAbsolute gostring
  | PatternNeedsName gostring
  | BadDeviceName name_error
  | BadSerial gostring gostring serial_error
  | NameClaimedTwice gostring "gostring \<times> gostring" "gostring \<times> gostring"
  | PortForwardedTwice gostring "gostring \<times> gostring" "gostring \<times> gostring"
  | DeviceNameTaken gostring gostring
  | DevicePathTaken gostring gostring

text \<open>The text before and after the last colon; without one the whole text and nothing.\<close>

definition split_last_colon :: "gostring \<Rightarrow> gostring \<times> gostring" where
  "split_last_colon spec =
     (if CHR '':'' \<in> set spec
      then (rev (tl (dropWhile (\<lambda>c. c \<noteq> CHR '':'') (rev spec))), rev (takeWhile (\<lambda>c. c \<noteq> CHR '':'') (rev spec)))
      else (spec, []))"

text \<open>The default for a missing name and the checks, which the two parsers share.\<close>

definition named_device :: "gostring \<Rightarrow> gostring \<Rightarrow> serial_error + SerialDevice" where
  "named_device hostPath guestName =
     (let guest = (if guestName = [] then DefaultSerialGuestName hostPath else guestName) in
      if guest = [] then Inl (PatternNeedsName hostPath)
      else case ValidDeviceName guest of
        Some err \<Rightarrow> Inl (BadDeviceName err)
      | None \<Rightarrow> Inr \<lparr>sd_HostPath = hostPath, sd_GuestName = guest\<rparr>)"

definition parseSerialSpec :: "host \<Rightarrow> gostring \<Rightarrow> serial_error + SerialDevice" where
  "parseSerialSpec h spec =
     (case split_last_colon spec of (hostPath, guestName) \<Rightarrow>
        (case ExpandPath h hostPath of
           Inl err \<Rightarrow> Inl (ExpandFailed err)
         | Inr hostPath \<Rightarrow>
             if hostPath = [] then Inl (NoHostPath spec)
             else if \<not> IsAbs hostPath then Inl (NotAbsolute hostPath)
             else named_device hostPath guestName))"

definition isAbsSerialPath :: "gostring \<Rightarrow> bool" where
  "isAbsSerialPath p \<longleftrightarrow> 0 < length p \<and> hd p = CHR ''/''"

definition resolveSerialSpec :: "host \<Rightarrow> SerialSpec \<Rightarrow> serial_error + SerialDevice" where
  "resolveSerialSpec h spec =
     (case ExpandPath h (se_HostPath spec) of
        Inl err \<Rightarrow> Inl (ExpandFailed err)
      | Inr hostPath \<Rightarrow>
          if \<not> isAbsSerialPath hostPath then Inl (NotAbsolute hostPath)
          else named_device hostPath (se_GuestName spec))"

record serialSource =
  ss_Origin :: gostring
  ss_Spec :: SerialSpec

fun compose_serials_loop ::
  "host \<Rightarrow> (gostring, gostring \<times> SerialDevice) gomap \<Rightarrow> (gostring, gostring \<times> SerialDevice) gomap \<Rightarrow>
    serialSource list \<Rightarrow> serial_error + SerialDevice list" where
  "compose_serials_loop h byName byHost [] = Inr []"
| "compose_serials_loop h byName byHost (s # sources) =
     (case resolveSerialSpec h (ss_Spec s) of
        Inl err \<Rightarrow> Inl (BadSerial (ss_Origin s) (se_HostPath (ss_Spec s)) err)
      | Inr dev \<Rightarrow>
          (case map_of byName (sd_GuestName dev) of
             Some (orig, prev) \<Rightarrow>
               if prev = dev then compose_serials_loop h byName byHost sources
               else Inl (NameClaimedTwice (sd_GuestName dev) (orig, sd_HostPath prev) (ss_Origin s, sd_HostPath dev))
           | None \<Rightarrow>
               (case map_of byHost (sd_HostPath dev) of
                  Some (orig, prev) \<Rightarrow>
                    Inl (PortForwardedTwice (sd_HostPath dev) (sd_GuestName prev, orig) (sd_GuestName dev, ss_Origin s))
                | None \<Rightarrow> map_sum id (\<lambda>out. dev # out)
                    (compose_serials_loop h (AList.update (sd_GuestName dev) (ss_Origin s, dev) byName)
                       (AList.update (sd_HostPath dev) (ss_Origin s, dev) byHost) sources))))"

definition composeSerials :: "host \<Rightarrow> serialSource list \<Rightarrow> serial_error + SerialDevice list" where
  "composeSerials h sources = compose_serials_loop h [] [] sources"

definition mergeSerials :: "host \<Rightarrow> Workspace \<Rightarrow> serial_error + SerialDevice list" where
  "mergeSerials h ws = composeSerials h
     (map (\<lambda>s. \<lparr>ss_Origin = ''workspace'', ss_Spec = s\<rparr>) (tm_Serials (ws_File ws)) @
      concat (map (\<lambda>r. case rp_Clawkfile r of
          None \<Rightarrow> []
        | Some t \<Rightarrow> map (\<lambda>s. \<lparr>ss_Origin = rp_Name r, ss_Spec = s\<rparr>) (tm_Serials t)) (ws_Repos ws)))"

section \<open>Commands on serial devices\<close>

definition serialByGuestName :: "SerialDevice list \<Rightarrow> gostring \<Rightarrow> SerialDevice option" where
  "serialByGuestName devs name = find (\<lambda>d. sd_GuestName d = name) devs"

definition serialByHostPath :: "SerialDevice list \<Rightarrow> gostring \<Rightarrow> SerialDevice option" where
  "serialByHostPath devs p = find (\<lambda>d. sd_HostPath d = p) devs"

text \<open>The devices of the sandbox and those added; the record is written only when there is one.\<close>

fun serialAdd ::
  "host \<Rightarrow> gostring list \<Rightarrow> SerialDevice list \<Rightarrow> SerialDevice list \<Rightarrow> serial_error + SerialDevice list \<times> SerialDevice list" where
  "serialAdd h [] devs added = Inr (devs, added)"
| "serialAdd h (spec # specs) devs added =
     (case parseSerialSpec h spec of
        Inl err \<Rightarrow> Inl err
      | Inr dev \<Rightarrow>
          (case serialByGuestName devs (sd_GuestName dev) of
             Some prev \<Rightarrow>
               if sd_HostPath prev = sd_HostPath dev then serialAdd h specs devs added
               else Inl (DeviceNameTaken (sd_GuestName dev) (sd_HostPath prev))
           | None \<Rightarrow>
               (case serialByHostPath devs (sd_HostPath dev) of
                  Some prev \<Rightarrow> Inl (DevicePathTaken (sd_HostPath dev) (sd_GuestName prev))
                | None \<Rightarrow> serialAdd h specs (devs @ [dev]) (added @ [dev]))))"

definition serialMatchesAny :: "host \<Rightarrow> SerialDevice \<Rightarrow> gostring list \<Rightarrow> bool" where
  "serialMatchesAny h d identifiers \<longleftrightarrow>
     list_ex (\<lambda>i. i = SerialDevice_String d \<or> i = sd_HostPath d \<or> i = sd_GuestName d \<or>
       (trim_prefix i ''/dev/'' = sd_GuestName d \<and> has_prefix i ''/dev/'') \<or> parseSerialSpec h i = Inr d) identifiers"

definition serialRemove :: "host \<Rightarrow> gostring list \<Rightarrow> SerialDevice list \<Rightarrow> SerialDevice list" where
  "serialRemove h identifiers devs = filter (\<lambda>d. \<not> serialMatchesAny h d identifiers) devs"

section \<open>States of the record\<close>

text \<open>
  The three lists of a sandbox record and what creates or edits them: composition from a workspace, from a
  single file, and the six commands. A command that fails leaves the record as it was.
\<close>

record wiring =
  wi_Forwards :: "PortForward list"
  wi_Reverse :: "PortForward list"
  wi_Serials :: "SerialDevice list"

definition serial_sources :: "gostring \<Rightarrow> SerialSpec list \<Rightarrow> serialSource list" where
  "serial_sources orig specs = map (\<lambda>s. \<lparr>ss_Origin = orig, ss_Spec = s\<rparr>) specs"

inductive wiring_init :: "host \<Rightarrow> wiring \<Rightarrow> bool" for h where
  from_workspace:
    "mergeForwards ws = Inr fs \<Longrightarrow> mergeReverseForwards ws = Inr rs \<Longrightarrow> mergeSerials h ws = Inr ds \<Longrightarrow>
     wiring_init h \<lparr>wi_Forwards = fs, wi_Reverse = rs, wi_Serials = ds\<rparr>"
| from_file:
    "parseForwardSpecs (tm_Forwards (t :: Template)) cwd = Inr fs \<Longrightarrow> parseReverseForwardSpecs (tm_ReverseForwards t) cwd = Inr rs \<Longrightarrow>
     composeSerials h (serial_sources ''clawk.mod'' (tm_Serials t)) = Inr ds \<Longrightarrow>
     wiring_init h \<lparr>wi_Forwards = fs, wi_Reverse = rs, wi_Serials = ds\<rparr>"

inductive wiring_step :: "host \<Rightarrow> wiring \<Rightarrow> wiring \<Rightarrow> bool" for h where
  add: "forwardAdd specs (wi_Forwards w) = Inr fs \<Longrightarrow> wiring_step h w (w\<lparr>wi_Forwards := fs\<rparr>)"
| remove: "forwardRemove specs (wi_Forwards w) = Inr fs \<Longrightarrow> wiring_step h w (w\<lparr>wi_Forwards := fs\<rparr>)"
| add_reverse: "forwardAddReverse specs (wi_Reverse w) False = Inr (rs, told) \<Longrightarrow> wiring_step h w (w\<lparr>wi_Reverse := rs\<rparr>)"
| remove_reverse: "forwardRemoveReverse specs (wi_Reverse w) = Inr (rs, told) \<Longrightarrow> wiring_step h w (w\<lparr>wi_Reverse := rs\<rparr>)"
| add_serial: "serialAdd h specs (wi_Serials w) [] = Inr (ds, added) \<Longrightarrow> wiring_step h w (w\<lparr>wi_Serials := ds\<rparr>)"
| remove_serial: "wiring_step h w (w\<lparr>wi_Serials := serialRemove h specs (wi_Serials w)\<rparr>)"

definition port_ok :: "PortForward \<Rightarrow> bool" where
  "port_ok f \<longleftrightarrow> 1 \<le> pw_HostPort f \<and> pw_HostPort f \<le> 65535 \<and> 1 \<le> pw_GuestPort f \<and> pw_GuestPort f \<le> 65535"

definition device_ok :: "SerialDevice \<Rightarrow> bool" where
  "device_ok d \<longleftrightarrow> IsAbs (sd_HostPath d) \<and> ValidDeviceName (sd_GuestName d) = None"

definition wiring_inv :: "wiring \<Rightarrow> bool" where
  "wiring_inv w \<longleftrightarrow>
     list_all port_ok (wi_Forwards w) \<and> distinct (wi_Forwards w) \<and>
     list_all port_ok (wi_Reverse w) \<and> distinct (map pw_GuestPort (wi_Reverse w)) \<and>
     list_all device_ok (wi_Serials w) \<and> distinct (map sd_GuestName (wi_Serials w)) \<and>
     distinct (map sd_HostPath (wi_Serials w))"

section \<open>Specs are read back\<close>

lemma split_byte_absent: "c \<notin> set s \<Longrightarrow> split_byte c s = [s]"
  by (induction s) auto

lemma split_byte_append: "c \<notin> set s \<Longrightarrow> split_byte c (s @ c # t) = s # split_byte c t"
  by (induction s) auto

lemma digits_plain: "is_digit c \<Longrightarrow> c \<noteq> CHR '':'' \<and> c \<noteq> CHR ''-'' \<and> c \<noteq> CHR ''+''"
  by (auto simp: is_digit_def less_eq_char_def)

lemma base_value_digits: "base_value 10 (dec_digits n) = int n"
proof -
  have "list_all is_digit (dec_digits n)" by (simp add: list_all_iff dec_digits_char)
  then have "0 \<le> base_value 10 (dec_digits n)" by (simp add: base_value_nonneg)
  moreover have "nat (base_value 10 (dec_digits n)) = n"
    using dec_value_digits [of n] by (simp add: dec_value_def base_value_def)
  ultimately show ?thesis by simp
qed

lemma Atoi_digits: "int n < 2 ^ 63 \<Longrightarrow> Atoi (dec_digits n) = Some (int n)"
proof -
  assume n: "int n < 2 ^ 63"
  obtain c cs where d: "dec_digits n = c # cs" by (cases "dec_digits n") auto
  have "is_digit c" using dec_digits_char [of c n] d by simp
  then have "\<not> has_prefix (dec_digits n) ''-''" "\<not> has_prefix (dec_digits n) ''+''"
    by (auto simp: has_prefix_def d dest: digits_plain)
  moreover have "list_all is_digit (dec_digits n)" by (simp add: list_all_iff dec_digits_char)
  moreover have "- (2 ^ 63) \<le> int n" by (rule order_trans [of _ 0]) simp_all
  ultimately show ?thesis using n by (simp add: Atoi_def base_value_digits Let_def)
qed

lemma parsePort_bounds: "parsePort s = Inr n \<Longrightarrow> 1 \<le> n \<and> n \<le> 65535"
  by (auto simp: parsePort_def split: option.splits if_splits)

lemma parsePort_Itoa: "1 \<le> n \<Longrightarrow> n \<le> 65535 \<Longrightarrow> parsePort (Itoa n) = Inr n"
proof -
  assume n: "1 \<le> n" "n \<le> 65535"
  have "int (nat n) < 2 ^ 63" using n by simp
  from Atoi_digits [OF this] n show ?thesis by (simp add: parsePort_def Itoa_def)
qed

lemma Itoa_plain: "0 \<le> n \<Longrightarrow> CHR '':'' \<notin> set (Itoa n)"
  using digits_plain dec_digits_char by (fastforce simp: Itoa_def)

lemma parsePortSpec_ok: "parsePortSpec spec = Inr f \<Longrightarrow> port_ok f"
  by (auto simp: parsePortSpec_def port_ok_def dest!: parsePort_bounds split: list.splits sum.splits)

lemma parse_printed_port: "port_ok f \<Longrightarrow> parsePortSpec (PortForward_String f) = Inr f"
  by (cases f) (simp add: parsePortSpec_def PortForward_String_def split_byte_absent split_byte_append Itoa_plain
    parsePort_Itoa port_ok_def)

interpretation port_codec: codec PortForward_String parsePortSpec port_ok
  by unfold_locales (rule parse_printed_port)

section \<open>Composition\<close>

interpretation forward_claims: claim_loop "merge_forwards_loop kind portName bound" "\<lambda>s. parsePortSpec (fs_Spec s)" bound "(=)" "\<lambda>s v. s"
  for kind portName bound
  by unfold_locales (auto simp: mustParseSpec_def)

interpretation here_claims: claim_loop "directed_loop ctxt kind bound" parsePortSpec bound "\<lambda>_ _. True" "\<lambda>_ _. True"
  for ctxt kind bound
  by unfold_locales auto

lemma directed_exact:
  "parseDirectedForwardSpecs specs ctxt kind bound = Inr fs \<longleftrightarrow>
     (\<exists>us. list_all2 (\<lambda>s u. parsePortSpec s = Inr u) specs us \<and> fs = first_by bound us)"
  using here_claims.claims_exact [of ctxt kind bound specs fs]
  by (auto simp: parseDirectedForwardSpecs_def agreed_any)

lemma list_all2_ports: "list_all2 (\<lambda>s u. parsePortSpec (f s) = Inr u) ss us \<Longrightarrow> list_all port_ok us"
  by (induction rule: list_all2_induct) (auto dest: parsePortSpec_ok)

lemma first_by_all: "list_all P us \<Longrightarrow> list_all P (first_by key us)"
  using first_by_subset [of key us] by (auto simp: list_all_iff)

lemma merged_ports:
  assumes "mergeForwardSources sources kind portName bound = Inr fs"
  shows "list_all port_ok fs \<and> distinct (map bound fs)"
proof -
  from assms obtain us where us: "list_all2 (\<lambda>s u. parsePortSpec (fs_Spec s) = Inr u) sources us" "fs = first_by bound us"
    by (auto simp: mergeForwardSources_def forward_claims.claims_exact)
  then show ?thesis using list_all2_ports [of fs_Spec sources us] by (simp add: first_by_all first_by_distinct)
qed

lemma directed_ports:
  assumes "parseDirectedForwardSpecs specs ctxt kind bound = Inr fs"
  shows "list_all port_ok fs \<and> distinct (map bound fs)"
proof -
  from assms obtain us where us: "list_all2 (\<lambda>s u. parsePortSpec s = Inr u) specs us" "fs = first_by bound us"
    by (auto simp: directed_exact)
  then show ?thesis using list_all2_ports [of "\<lambda>s. s" specs us] by (simp add: first_by_all first_by_distinct)
qed

lemma named_device_Inr:
  "named_device p g = Inr d \<longleftrightarrow>
     ValidDeviceName (if g = [] then DefaultSerialGuestName p else g) = None \<and>
     d = \<lparr>sd_HostPath = p, sd_GuestName = (if g = [] then DefaultSerialGuestName p else g)\<rparr>"
  by (auto simp: named_device_def ValidDeviceName_def Let_def split: option.splits)

lemma parseSerialSpec_ok: "parseSerialSpec h spec = Inr d \<Longrightarrow> device_ok d"
  by (auto simp: parseSerialSpec_def device_ok_def named_device_Inr split: prod.splits sum.splits if_splits)

lemma resolveSerialSpec_ok: "resolveSerialSpec h spec = Inr d \<Longrightarrow> device_ok d"
  by (auto simp: resolveSerialSpec_def device_ok_def named_device_Inr isAbsSerialPath_def IsAbs_def slash_def
      split: sum.splits if_splits)

text \<open>Devices that do not clash: no two of them share a guest name or a host path.\<close>

definition no_clash :: "SerialDevice \<Rightarrow> SerialDevice \<Rightarrow> bool" where
  "no_clash d e \<longleftrightarrow> (sd_GuestName d = sd_GuestName e \<or> sd_HostPath d = sd_HostPath e \<longrightarrow> d = e)"

abbreviation claim_holds :: "(SerialDevice \<Rightarrow> gostring) \<Rightarrow> (gostring, gostring \<times> SerialDevice) gomap \<Rightarrow> SerialDevice list \<Rightarrow> bool" where
  "claim_holds key \<equiv> stands_for key (\<lambda>c d. snd c = d)"

lemma claim_holds_known:
  "claim_holds key m kept \<Longrightarrow> k \<in> key ` set kept \<Longrightarrow> \<exists>orig d. map_of m k = Some (orig, d) \<and> d \<in> set kept \<and> key d = k"
  using stands_for_known [of key "\<lambda>c d. snd c = d" m kept k] by (metis prod.collapse)

interpretation serial_claims: claim_list "\<lambda>(byName, byHost). compose_serials_loop h byName byHost"
  "\<lambda>(byName, byHost) kept. claim_holds sd_GuestName byName kept \<and> claim_holds sd_HostPath byHost kept"
  "\<lambda>s. resolveSerialSpec h (ss_Spec s)" sd_GuestName no_clash for h
proof (unfold_locales, goal_cases)
  case (3 st kept s d ss)
  obtain byName byHost where st: "st = (byName, byHost)" by (cases st)
  from 3 st have m: "claim_holds sd_GuestName byName kept" "claim_holds sd_HostPath byHost kept" by auto
  from 3(3,4) have "sd_HostPath d \<notin> sd_HostPath ` set kept" by (auto simp: no_clash_def image_iff)
  then have free: "map_of byName (sd_GuestName d) = None" "map_of byHost (sd_HostPath d) = None"
    using stands_for_new [OF m(1) 3(3)] stands_for_new [OF m(2)] by simp_all
  let ?st = "(AList.update (sd_GuestName d) (ss_Origin s, d) byName, AList.update (sd_HostPath d) (ss_Origin s, d) byHost)"
  have "claim_holds sd_GuestName (fst ?st) (d # kept)" "claim_holds sd_HostPath (snd ?st) (d # kept)"
    using m by (simp_all add: stands_for_update)
  then show ?case using 3(2) free by (intro exI [of _ ?st]) (simp add: st)
next
  case (4 st kept s d ss)
  obtain byName byHost where st: "st = (byName, byHost)" by (cases st)
  with 4(1) have "claim_holds sd_GuestName byName kept" by simp
  from claim_holds_known [OF this 4(3)] obtain orig e where
    e: "map_of byName (sd_GuestName d) = Some (orig, e)" "e \<in> set kept" "sd_GuestName e = sd_GuestName d" by blast
  with 4(4) have "e = d" by (auto simp: no_clash_def)
  with 4(2) e show ?case by (simp add: st)
next
  case (5 st kept s d e ss)
  obtain byName byHost where st: "st = (byName, byHost)" by (cases st)
  with 5(1) have m: "claim_holds sd_GuestName byName kept" "claim_holds sd_HostPath byHost kept" by auto
  show ?case
  proof (cases "sd_GuestName d \<in> sd_GuestName ` set kept")
    case True
    from claim_holds_known [OF m(1) True] obtain orig f where
      f: "map_of byName (sd_GuestName d) = Some (orig, f)" "f \<in> set kept" by blast
    have "f \<noteq> d" using 5(2,4,5) f(2) by (auto simp: agreed_def)
    with 5(3) f show ?thesis by (simp add: st)
  next
    case False
    then have "sd_HostPath d \<in> sd_HostPath ` set kept" using 5(4,5) by (metis imageI no_clash_def)
    from claim_holds_known [OF m(2) this] stands_for_new [OF m(1) False] 5(3) show ?thesis by (auto simp: st)
  qed
qed (auto simp: no_clash_def)

lemma composeSerials_exact:
  "composeSerials h sources = Inr ds \<longleftrightarrow>
     (\<exists>us. list_all2 (\<lambda>s u. resolveSerialSpec h (ss_Spec s) = Inr u) sources us \<and> agreed no_clash us \<and>
        ds = first_by sd_GuestName us)"
  using serial_claims.loop_exact [of "([], [])" h sources ds] by (simp add: composeSerials_def)

lemma clash_free_distinct: "agreed no_clash ds \<Longrightarrow> distinct (map sd_GuestName ds) \<Longrightarrow> distinct (map sd_HostPath ds)"
  by (auto simp: distinct_map inj_on_def agreed_def no_clash_def)

lemma composed_serials:
  assumes "composeSerials h sources = Inr ds"
  shows "list_all device_ok ds \<and> distinct (map sd_GuestName ds) \<and> distinct (map sd_HostPath ds)"
proof -
  from assms obtain us where us: "list_all2 (\<lambda>s u. resolveSerialSpec h (ss_Spec s) = Inr u) sources us" "agreed no_clash us"
    "ds = first_by sd_GuestName us" by (auto simp: composeSerials_exact)
  from us(1) have "list_all device_ok us" by (induction rule: list_all2_induct) (auto dest: resolveSerialSpec_ok)
  moreover have "agreed no_clash ds" using us(2,3) first_by_subset [of sd_GuestName us] by (auto simp: agreed_def)
  ultimately show ?thesis using us(3) clash_free_distinct by (auto simp: first_by_all first_by_distinct)
qed

section \<open>Commands keep the invariant\<close>

lemma find_key_None: "find (\<lambda>x. f x = k) xs = None \<longleftrightarrow> k \<notin> f ` set xs"
  by (auto simp: find_None_iff)

lemma forwardAdd_keeps:
  "forwardAdd specs fs = Inr fs' \<Longrightarrow> list_all port_ok fs \<Longrightarrow> distinct fs \<Longrightarrow> list_all port_ok fs' \<and> distinct fs'"
  by (induction specs fs rule: forwardAdd.induct)
    (auto simp: forwardExists_def list_ex_iff dest: parsePortSpec_ok split: sum.splits if_splits)

lemma forwardRemove_filters: "forwardRemove specs fs = Inr fs' \<Longrightarrow> \<exists>P. fs' = filter P fs"
  by (auto simp: forwardRemove_def map_sum_Inr_iff)

lemma forwardAddReverse_keeps:
  "forwardAddReverse specs fs told = Inr (fs', told') \<Longrightarrow> list_all port_ok fs \<Longrightarrow> distinct (map pw_GuestPort fs) \<Longrightarrow>
     list_all port_ok fs' \<and> distinct (map pw_GuestPort fs')"
  by (induction specs fs told rule: forwardAddReverse.induct)
    (auto simp: reverseByGuestPort_def find_key_None dest: parsePortSpec_ok split: sum.splits if_splits option.splits)

lemma serialAdd_keeps:
  "serialAdd h specs ds added = Inr (ds', added') \<Longrightarrow>
     list_all device_ok ds \<Longrightarrow> distinct (map sd_GuestName ds) \<Longrightarrow> distinct (map sd_HostPath ds) \<Longrightarrow>
     list_all device_ok ds' \<and> distinct (map sd_GuestName ds') \<and> distinct (map sd_HostPath ds')"
  by (induction h specs ds added rule: serialAdd.induct)
    (auto simp: serialByGuestName_def serialByHostPath_def find_key_None dest: parseSerialSpec_ok
      split: sum.splits if_splits option.splits)

lemma distinct_of_map: "distinct (map f xs) \<Longrightarrow> distinct xs"
  by (simp add: distinct_map)

lemma wiring_init_inv: "wiring_init h w \<Longrightarrow> wiring_inv w"
  by (induction rule: wiring_init.induct)
    (auto simp: wiring_inv_def mergeForwards_def mergeReverseForwards_def mergeSerials_def
      parseForwardSpecs_def parseReverseForwardSpecs_def
      dest!: merged_ports directed_ports composed_serials dest: distinct_of_map)

lemma keeps_filter:
  "list_all P xs \<Longrightarrow> list_all P (filter Q xs)" "distinct (map f xs) \<Longrightarrow> distinct (map f (filter Q xs))"
  by (auto simp: list_all_iff distinct_map inj_on_def)

lemma wiring_step_inv: "wiring_inv w \<Longrightarrow> wiring_step h w w' \<Longrightarrow> wiring_inv w'"
  by (erule wiring_step.cases)
    (auto simp: wiring_inv_def forwardRemoveReverse_def serialRemove_def keeps_filter map_sum_Inr_iff
      dest!: forwardRemove_filters dest: forwardAdd_keeps forwardAddReverse_keeps serialAdd_keeps)

interpretation wiring: inv_system "wiring_init h" "wiring_step h" wiring_inv for h
  by unfold_locales (auto intro: wiring_init_inv wiring_step_inv)

section \<open>Serial specs are read back\<close>

lemma split_last_colon_append: "CHR '':'' \<notin> set g \<Longrightarrow> split_last_colon (p @ CHR '':'' # g) = (p, g)"
  by (auto simp: split_last_colon_def takeWhile_append dropWhile_append dropWhile_eq_Nil_conv)

lemma split_last_colon_absent: "CHR '':'' \<notin> set p \<Longrightarrow> split_last_colon p = (p, [])"
  by (simp add: split_last_colon_def)

lemma ExpandPath_absolute: "IsAbs p \<Longrightarrow> ExpandPath h p = Inr p"
  by (cases p) (auto simp: IsAbs_def slash_def ExpandPath_def has_prefix_def)

definition readable_spec :: "SerialDevice \<Rightarrow> bool" where
  "readable_spec d \<longleftrightarrow> device_ok d \<and>
     (CHR '':'' \<in> set (sd_HostPath d) \<longrightarrow> sd_GuestName d \<noteq> DefaultSerialGuestName (sd_HostPath d))"

lemma valid_name_parts: "ValidDeviceName g = None \<Longrightarrow> g \<noteq> [] \<and> CHR '':'' \<notin> set g"
proof
  assume "ValidDeviceName g = None"
  then have "list_all device_char g" by (auto simp: ValidDeviceName_def split: if_splits)
  then show "CHR '':'' \<notin> set g" by (auto simp: list_all_iff device_char_def is_lower_def is_upper_def is_digit_def less_eq_char_def)
qed (auto simp: ValidDeviceName_def)

lemma parse_printed_device: "readable_spec d \<Longrightarrow> parseSerialSpec h (SerialDevice_String d) = Inr d"
proof -
  assume "readable_spec d"
  then have d: "IsAbs (sd_HostPath d)" "ValidDeviceName (sd_GuestName d) = None"
    "CHR '':'' \<in> set (sd_HostPath d) \<longrightarrow> sd_GuestName d \<noteq> DefaultSerialGuestName (sd_HostPath d)"
    by (simp_all add: readable_spec_def device_ok_def)
  then have "sd_HostPath d \<noteq> []" by (auto simp: IsAbs_def)
  with d valid_name_parts [OF d(2)] show ?thesis
    by (cases "sd_GuestName d = DefaultSerialGuestName (sd_HostPath d)")
      (auto simp: parseSerialSpec_def SerialDevice_String_def split_last_colon_append split_last_colon_absent
        ExpandPath_absolute named_device_Inr)
qed

interpretation serial_codec: codec SerialDevice_String "parseSerialSpec h" readable_spec for h
  by unfold_locales (rule parse_printed_device)

section \<open>Properties\<close>

definition bare_host :: host where
  "bare_host = \<lparr>ho_Stat = (\<lambda>_. StatAbsent), ho_ReadFile = (\<lambda>_. ReadAbsent), ho_Getwd = None, ho_HomeDir = None,
     ho_Getenv = (\<lambda>_. []), ho_GlobalDisabled = True\<rparr>"

text \<open>
  The result of composing forwards, in both directions and from one file or many, and of composing serial
  devices. The many-source composition succeeds if and only if every spec parses and no two of them claim one
  bound port for different pairs of ports, in particular the parse that must not fail never does; the
  single-file one drops later claims of a port silently. Serial devices compose if and only if all resolve
  and no two share a guest name or a host path. The result is the first value of every key, in order.
\<close>

theorem composition_exact:
  "(mergeForwardSources sources kind portName bound = Inr fs \<longleftrightarrow>
     (\<exists>us. list_all2 (\<lambda>s u. parsePortSpec (fs_Spec s) = Inr u) sources us \<and> inj_on bound (set us) \<and> fs = first_by bound us)) \<and>
   (parseDirectedForwardSpecs specs ctxt kind bound = Inr fs \<longleftrightarrow>
     (\<exists>us. list_all2 (\<lambda>s u. parsePortSpec s = Inr u) specs us \<and> fs = first_by bound us)) \<and>
   (composeSerials h serials = Inr ds \<longleftrightarrow>
     (\<exists>us. list_all2 (\<lambda>s u. resolveSerialSpec h (ss_Spec s) = Inr u) serials us \<and> agreed no_clash us \<and>
        ds = first_by sd_GuestName us))"
  by (simp add: mergeForwardSources_def forward_claims.claims_exact agreed_equal_iff directed_exact composeSerials_exact)

text \<open>
  C28: Whatever sequence of commands follows the creation of a sandbox, its forwards and reverse forwards have
  ports from 1 to 65535, no guest port is bound by two reverse forwards, and its serial devices have
  absolute host paths, device names without a directory part, and no name or path in common.
\<close>

theorem wiring_reachable_ok:
  assumes "reach (wiring_init h) (wiring_step h) w"
  shows "list_all port_ok (wi_Forwards w) \<and> distinct (wi_Forwards w) \<and>
    list_all port_ok (wi_Reverse w) \<and> distinct (map pw_GuestPort (wi_Reverse w)) \<and>
    list_all device_ok (wi_Serials w) \<and> distinct (map sd_GuestName (wi_Serials w)) \<and>
    distinct (map sd_HostPath (wi_Serials w))"
  using wiring.reach_inv [OF assms] by (simp add: wiring_inv_def)

definition demo_wiring :: wiring where
  "demo_wiring = \<lparr>wi_Forwards = [\<lparr>pw_HostPort = 8080, pw_GuestPort = 80\<rparr>, \<lparr>pw_HostPort = 8080, pw_GuestPort = 90\<rparr>],
     wi_Reverse = [], wi_Serials = []\<rparr>"

lemma demo_wiring_reachable: "reach (wiring_init bare_host) (wiring_step bare_host) demo_wiring"
proof (rule reach_step [where s = "\<lparr>wi_Forwards = [\<lparr>pw_HostPort = 8080, pw_GuestPort = 80\<rparr>], wi_Reverse = [], wi_Serials = []\<rparr>"])
  show "reach (wiring_init bare_host) (wiring_step bare_host)
      \<lparr>wi_Forwards = [\<lparr>pw_HostPort = 8080, pw_GuestPort = 80\<rparr>], wi_Reverse = [], wi_Serials = []\<rparr>"
    by (rule reach_init, rule from_file [where t = "empty_template\<lparr>tm_Forwards := [''8080:80'']\<rparr>" and cwd = "''/w''"]) code_simp+
  have "forwardAdd [''8080:90''] [\<lparr>pw_HostPort = 8080, pw_GuestPort = 80\<rparr>] = Inr (wi_Forwards demo_wiring)" by code_simp
  then show "wiring_step bare_host \<lparr>wi_Forwards = [\<lparr>pw_HostPort = 8080, pw_GuestPort = 80\<rparr>], wi_Reverse = [], wi_Serials = []\<rparr> demo_wiring"
    using wiring_step.add [of "[''8080:90'']" "\<lparr>wi_Forwards = [\<lparr>pw_HostPort = 8080, pw_GuestPort = 80\<rparr>], wi_Reverse = [], wi_Serials = []\<rparr>"
      "wi_Forwards demo_wiring" bare_host] by (simp add: demo_wiring_def)
qed

theorem wiring_reachable_ok_witness: "list_all port_ok (wi_Forwards demo_wiring) \<and> distinct (wi_Forwards demo_wiring)"
  using wiring_reachable_ok [OF demo_wiring_reachable] by simp

text \<open>
  The bound port of a forward is the one on the host, and composition refuses two claims of it; the command
  that adds a forward does not, so a sandbox can hold two forwards of one host port.
\<close>

theorem forward_add_double_binds:
  "\<exists>w. reach (wiring_init bare_host) (wiring_step bare_host) w \<and> \<not> distinct (map pw_HostPort (wi_Forwards w))"
  using demo_wiring_reachable by (auto simp: demo_wiring_def intro!: exI [of _ demo_wiring])

text \<open>
  A printed forward, and a printed serial device whose host path has no colon or whose name is not the
  default one, is read back as it was; what a port spec is read as can always be printed and read again.
\<close>

theorem specs_roundtrip:
  "(parsePortSpec spec = Inr f \<longrightarrow> port_ok f \<and> parsePortSpec (PortForward_String f) = Inr f) \<and>
   (readable_spec d \<longrightarrow> parseSerialSpec h (SerialDevice_String d) = Inr d)"
  using parsePortSpec_ok parse_printed_port parse_printed_device by blast

theorem specs_roundtrip_witness:
  "parsePortSpec (PortForward_String \<lparr>pw_HostPort = 8080, pw_GuestPort = 80\<rparr>) = Inr \<lparr>pw_HostPort = 8080, pw_GuestPort = 80\<rparr> \<and>
   parseSerialSpec bare_host (SerialDevice_String \<lparr>sd_HostPath = ''/dev/cu.usb'', sd_GuestName = ''ttyACM0''\<rparr>) =
     Inr \<lparr>sd_HostPath = ''/dev/cu.usb'', sd_GuestName = ''ttyACM0''\<rparr>"
proof -
  have "parsePortSpec ''8080:80'' = Inr \<lparr>pw_HostPort = 8080, pw_GuestPort = 80\<rparr>" by code_simp
  moreover have "readable_spec \<lparr>sd_HostPath = ''/dev/cu.usb'', sd_GuestName = ''ttyACM0''\<rparr>" by code_simp
  ultimately show ?thesis
    using specs_roundtrip [of "''8080:80''" "\<lparr>pw_HostPort = 8080, pw_GuestPort = 80\<rparr>"
      "\<lparr>sd_HostPath = ''/dev/cu.usb'', sd_GuestName = ''ttyACM0''\<rparr>" bare_host] by blast
qed

text \<open>
  A host path with a colon, as the persistent names of serial ports on Linux have, is cut at its last colon
  when no guest name is given: the device that is forwarded is another one than the spec names.
\<close>

theorem by_path_spec_misread:
  "parseSerialSpec h ''/dev/serial/by-path/pci-0000:00:14.0-usb-0:1:1.0'' =
     Inr \<lparr>sd_HostPath = ''/dev/serial/by-path/pci-0000:00:14.0-usb-0:1'', sd_GuestName = ''1.0''\<rparr>"
proof -
  have "split_last_colon ''/dev/serial/by-path/pci-0000:00:14.0-usb-0:1:1.0'' = (''/dev/serial/by-path/pci-0000:00:14.0-usb-0:1'', ''1.0'')"
    "IsAbs ''/dev/serial/by-path/pci-0000:00:14.0-usb-0:1''" "ValidDeviceName ''1.0'' = None" by code_simp+
  then show ?thesis by (simp add: parseSerialSpec_def ExpandPath_absolute named_device_Inr)
qed

end
