(* ===== verification/Mounts.thy ===== *)
theory Mounts
  imports Workspace ModGrammar NetPolicy Claims
begin

text \<open>
  Files, shares and MCP servers: \<open>src/internal/cli/compose_files.go\<close> and \<open>compose_mcp.go\<close>, the entries
  a namespace adds (\<open>namespace.go\<close>), and the guest's MCP configuration (\<open>src/internal/sandbox/mcp.go\<close>).

  Composition is exact in the sense of the theory Claims; guest paths are absolute and claimed once, also after the
  entries of a namespace are added. The layer of the network policy that the servers need is rebuilt from the list
  of servers, in place and at most once, and lets every remote server through unless a layer above it objects.
  Servers that come from parsed files always render.
\<close>

section \<open>Files and shares\<close>

record HostFile =
  hf_HostPath :: gostring
  hf_GuestPath :: gostring
  hf_Mode :: "32 word"

record HostShare =
  hs_HostPath :: gostring
  hs_GuestPath :: gostring
  hs_ReadOnly :: bool

datatype mount_error =
    EmptyPath
  | HostFailed load_error
  | StatHost gostring
  | IsADirectory gostring
  | NotADirectory gostring
  | GuestNotAbsolute gostring
  | CannotInferGuest gostring
  | BadMount gostring gostring mount_error
  | GuestClaimedTwice gostring "gostring \<times> gostring" "gostring \<times> gostring"

definition GuestHome :: gostring where "GuestHome = ''/home/agent''"

definition host_result :: "load_error + 'a \<Rightarrow> mount_error + 'a" where
  "host_result r = map_sum HostFailed id r"

definition expandHostPath :: "host \<Rightarrow> gostring \<Rightarrow> mount_error + gostring" where
  "expandHostPath h p =
     (if p = [] then Inl EmptyPath
      else if p = ''~'' then host_result (UserHomeDir h)
      else
        andThen (if has_prefix p ''~/'' then andThen (host_result (UserHomeDir h)) (\<lambda>home. Inr (Join [home, drop 2 p])) else Inr p) (\<lambda>p.
        andThen (if \<not> IsAbs p then host_result (Abs h p) else Inr p) (\<lambda>p.
          Inr (Clean p))))"

definition guestMirrorOfHost :: "host \<Rightarrow> gostring \<Rightarrow> mount_error + gostring" where
  "guestMirrorOfHost h rawHost =
     (if rawHost = ''~'' then Inr GuestHome
      else if has_prefix rawHost ''~/'' then Inr (Join [GuestHome, drop 2 rawHost])
      else if IsAbs rawHost then
        (case UserHomeDir h of
           Inr home \<Rightarrow>
             if has_prefix rawHost (home @ [slash]) then Inr (Join [GuestHome, trim_prefix rawHost (home @ [slash])])
             else Inr (Clean rawHost)
         | Inl _ \<Rightarrow> Inr (Clean rawHost))
      else Inl (CannotInferGuest rawHost))"

definition resolveGuestPath :: "host \<Rightarrow> gostring \<Rightarrow> gostring \<Rightarrow> mount_error + gostring" where
  "resolveGuestPath h rawHost rawGuest =
     (if rawGuest = [] then guestMirrorOfHost h rawHost
      else if rawGuest = ''~'' then Inr GuestHome
      else if has_prefix rawGuest ''~/'' then Inr (Join [GuestHome, drop 2 rawGuest])
      else if \<not> IsAbs rawGuest then Inl (GuestNotAbsolute rawGuest)
      else Inr (Clean rawGuest))"

definition resolveFilePaths :: "host \<Rightarrow> gostring \<Rightarrow> gostring \<Rightarrow> mount_error + gostring \<times> gostring" where
  "resolveFilePaths h rawHost rawGuest =
     andThen (expandHostPath h rawHost) (\<lambda>host.
       if ho_Stat h host = StatAbsent \<or> ho_Stat h host = StatFailed then Inl (StatHost host)
       else if ho_Stat h host = StatDir then Inl (IsADirectory host)
       else andThen (resolveGuestPath h rawHost rawGuest) (\<lambda>guest. Inr (host, guest)))"

definition resolveSharePaths :: "host \<Rightarrow> gostring \<Rightarrow> gostring \<Rightarrow> mount_error + gostring \<times> gostring" where
  "resolveSharePaths h rawHost rawGuest =
     andThen (expandHostPath h rawHost) (\<lambda>host.
       if ho_Stat h host = StatAbsent \<or> ho_Stat h host = StatFailed then Inl (StatHost host)
       else if ho_Stat h host \<noteq> StatDir then Inl (NotADirectory host)
       else andThen (resolveGuestPath h rawHost rawGuest) (\<lambda>guest. Inr (host, guest)))"

record fileSource =
  fi_Origin :: gostring
  fi_Spec :: FileSpec

record shareSource =
  si_Origin :: gostring
  si_Spec :: ShareSpec

definition file_of :: "host \<Rightarrow> fileSource \<Rightarrow> mount_error + HostFile" where
  "file_of h s =
     andThen (resolveFilePaths h (fl_HostPath (fi_Spec s)) (fl_GuestPath (fi_Spec s))) (\<lambda>(host, guest).
       Inr \<lparr>hf_HostPath = host, hf_GuestPath = guest, hf_Mode = fl_Mode (fi_Spec s)\<rparr>)"

definition share_of :: "host \<Rightarrow> shareSource \<Rightarrow> mount_error + HostShare" where
  "share_of h s =
     andThen (resolveSharePaths h (sh_HostPath (si_Spec s)) (sh_GuestPath (si_Spec s))) (\<lambda>(host, guest).
       Inr \<lparr>hs_HostPath = host, hs_GuestPath = guest, hs_ReadOnly = sh_ReadOnly (si_Spec s)\<rparr>)"

fun compose_files_loop ::
  "host \<Rightarrow> (gostring, gostring \<times> gostring) gomap \<Rightarrow> fileSource list \<Rightarrow> mount_error + HostFile list" where
  "compose_files_loop h byGuest [] = Inr []"
| "compose_files_loop h byGuest (s # sources) =
     (case file_of h s of
        Inl err \<Rightarrow> Inl (BadMount (fi_Origin s) (fl_HostPath (fi_Spec s)) err)
      | Inr entry \<Rightarrow>
          (case map_of byGuest (hf_GuestPath entry) of
             Some (orig, host) \<Rightarrow>
               if host = hf_HostPath entry then compose_files_loop h byGuest sources
               else Inl (GuestClaimedTwice (hf_GuestPath entry) (orig, host) (fi_Origin s, hf_HostPath entry))
           | None \<Rightarrow> map_sum id (\<lambda>out. entry # out)
               (compose_files_loop h (AList.update (hf_GuestPath entry) (fi_Origin s, hf_HostPath entry) byGuest) sources)))"

definition composeFiles :: "host \<Rightarrow> fileSource list \<Rightarrow> mount_error + HostFile list" where
  "composeFiles h sources = compose_files_loop h [] sources"

fun compose_shares_loop ::
  "host \<Rightarrow> (gostring, gostring \<times> gostring \<times> bool) gomap \<Rightarrow> shareSource list \<Rightarrow> mount_error + HostShare list" where
  "compose_shares_loop h byGuest [] = Inr []"
| "compose_shares_loop h byGuest (s # sources) =
     (case share_of h s of
        Inl err \<Rightarrow> Inl (BadMount (si_Origin s) (sh_HostPath (si_Spec s)) err)
      | Inr entry \<Rightarrow>
          (case map_of byGuest (hs_GuestPath entry) of
             Some (orig, host, ro) \<Rightarrow>
               if host = hs_HostPath entry \<and> ro = sh_ReadOnly (si_Spec s) then compose_shares_loop h byGuest sources
               else Inl (GuestClaimedTwice (hs_GuestPath entry) (orig, host) (si_Origin s, hs_HostPath entry))
           | None \<Rightarrow> map_sum id (\<lambda>out. entry # out)
               (compose_shares_loop h
                  (AList.update (hs_GuestPath entry) (si_Origin s, hs_HostPath entry, sh_ReadOnly (si_Spec s)) byGuest) sources)))"

definition composeShares :: "host \<Rightarrow> shareSource list \<Rightarrow> mount_error + HostShare list" where
  "composeShares h sources = compose_shares_loop h [] sources"

text \<open>The declarations of one kind, of the workspace file first and then of every repository, with their origin.\<close>

definition from_all :: "(Template \<Rightarrow> 'a list) \<Rightarrow> (gostring \<Rightarrow> 'a \<Rightarrow> 's) \<Rightarrow> Workspace \<Rightarrow> 's list" where
  "from_all pick mk ws =
     map (mk ''workspace'') (pick (ws_File ws)) @
     concat (map (\<lambda>r. case rp_Clawkfile r of None \<Rightarrow> [] | Some t \<Rightarrow> map (mk (rp_Name r)) (pick t)) (ws_Repos ws))"

definition mergeFiles :: "host \<Rightarrow> Workspace \<Rightarrow> mount_error + HostFile list" where
  "mergeFiles h ws = composeFiles h (from_all tm_Files (\<lambda>orig f. \<lparr>fi_Origin = orig, fi_Spec = f\<rparr>) ws)"

definition mergeShares :: "host \<Rightarrow> Workspace \<Rightarrow> mount_error + HostShare list" where
  "mergeShares h ws = composeShares h (from_all tm_Shares (\<lambda>orig s. \<lparr>si_Origin = orig, si_Spec = s\<rparr>) ws)"

fun append_new :: "('v \<Rightarrow> gostring) \<Rightarrow> gostring list \<Rightarrow> 'v list \<Rightarrow> 'v list" where
  "append_new key seen [] = []"
| "append_new key seen (x # add) =
     (if key x \<in> set seen then append_new key seen add else x # append_new key (key x # seen) add)"

definition appendMissingFiles :: "HostFile list \<Rightarrow> HostFile list \<Rightarrow> HostFile list" where
  "appendMissingFiles have add = have @ append_new hf_GuestPath (map hf_GuestPath have) add"

definition appendMissingShares :: "HostShare list \<Rightarrow> HostShare list \<Rightarrow> HostShare list" where
  "appendMissingShares have add = have @ append_new hs_GuestPath (map hs_GuestPath have) add"

section \<open>MCP servers\<close>

record MCPServer =
  ms_Name :: gostring
  ms_Transport :: gostring
  ms_URL :: gostring
  ms_Command :: "gostring list"
  ms_Headers :: "gostring list"
  ms_Env :: "gostring list"

record mcpSource =
  mi_Origin :: gostring
  mi_Spec :: MCPSpec

definition server_of :: "MCPSpec \<Rightarrow> MCPServer" where
  "server_of s = \<lparr>ms_Name = mc_Name s, ms_Transport = mc_Transport s, ms_URL = mc_URL s, ms_Command = mc_Command s,
     ms_Headers = mc_Headers s, ms_Env = mc_Env s\<rparr>"

definition sameMCPServer :: "MCPServer \<Rightarrow> MCPServer \<Rightarrow> bool" where
  "sameMCPServer a b \<longleftrightarrow> ms_Transport a = ms_Transport b \<and> ms_URL a = ms_URL b \<and> ms_Command a = ms_Command b \<and>
     ms_Headers a = ms_Headers b \<and> ms_Env a = ms_Env b"

fun join_with_space :: "gostring list \<Rightarrow> gostring" where
  "join_with_space [] = []"
| "join_with_space [w] = w"
| "join_with_space (w # v # ws) = w @ '' '' @ join_with_space (v # ws)"

definition mcpTarget :: "MCPServer \<Rightarrow> gostring" where
  "mcpTarget s = (if ms_URL s \<noteq> [] then ms_URL s else join_with_space (ms_Command s))"

datatype mcp_error =
    ServerClaimedTwice gostring "gostring \<times> gostring" "gostring \<times> gostring"
  | StdioWithoutCommand gostring
  | RemoteWithoutURL gostring gostring
  | MalformedHeader gostring gostring
  | UnknownTransport gostring gostring

fun compose_mcp_loop :: "(gostring, gostring \<times> MCPServer) gomap \<Rightarrow> mcpSource list \<Rightarrow> mcp_error + MCPServer list" where
  "compose_mcp_loop byName [] = Inr []"
| "compose_mcp_loop byName (s # sources) =
     (let srv = server_of (mi_Spec s) in
      case map_of byName (ms_Name srv) of
        Some (orig, prev) \<Rightarrow>
          if sameMCPServer prev srv then compose_mcp_loop byName sources
          else Inl (ServerClaimedTwice (ms_Name srv) (orig, mcpTarget prev) (mi_Origin s, mcpTarget srv))
      | None \<Rightarrow> map_sum id (\<lambda>out. srv # out)
          (compose_mcp_loop (AList.update (ms_Name srv) (mi_Origin s, srv) byName) sources))"

definition composeMCP :: "mcpSource list \<Rightarrow> mcp_error + MCPServer list" where
  "composeMCP sources = compose_mcp_loop [] sources"

definition mergeMCP :: "Workspace \<Rightarrow> mcp_error + MCPServer list" where
  "mergeMCP ws = composeMCP (from_all tm_MCP (\<lambda>orig s. \<lparr>mi_Origin = orig, mi_Spec = s\<rparr>) ws)"

definition appendMissingMCP :: "MCPServer list \<Rightarrow> MCPServer list \<Rightarrow> MCPServer list" where
  "appendMissingMCP have add = have @ append_new ms_Name (map ms_Name have) add"

subsection \<open>The layer of the policy\<close>

definition IsLoopback :: "addr \<Rightarrow> bool" where
  "IsLoopback a = (case unmap a of Addr0 \<Rightarrow> False | IP4 w \<Rightarrow> drop_bit 24 w = 127 | IP6 w zone \<Rightarrow> w = 1)"

text \<open>What one server needs: nothing, an address or a name.\<close>

datatype egress = NoEgress | EgressIP gostring | EgressDomain gostring

definition server_egress :: "stdlib \<Rightarrow> MCPServer \<Rightarrow> egress" where
  "server_egress std s =
     (if ms_URL s = [] then NoEgress
      else case parseURL std (ms_URL s) of
        None \<Rightarrow> NoEgress
      | Some u \<Rightarrow>
          if url_Hostname u = [] \<or> url_Hostname u = ''localhost'' then NoEgress
          else case ParseAddr (url_Hostname u) of
            Some addr \<Rightarrow> if IsLoopback addr then NoEgress else EgressIP (url_Hostname u)
          | None \<Rightarrow> EgressDomain (url_Hostname u))"

definition mcpNetworkBlock :: "stdlib \<Rightarrow> MCPServer list \<Rightarrow> NetworkBlock option" where
  "mcpNetworkBlock std servers =
     (let block = \<lparr>nb_Origin = BlockOriginMCP, nb_Name = ''mcp servers'',
            nb_AllowDomains = dedupStrings (concat (map (\<lambda>s. case server_egress std s of EgressDomain d \<Rightarrow> [d] | _ \<Rightarrow> []) servers)),
            nb_AllowIPs = dedupStrings (concat (map (\<lambda>s. case server_egress std s of EgressIP a \<Rightarrow> [a] | _ \<Rightarrow> []) servers)),
            nb_DenyDomains = [], nb_DenyIPs = []\<rparr> in
      if length (nb_AllowDomains block) + length (nb_AllowIPs block) = 0 then None else Some block)"

definition applyMCPNetwork :: "stdlib \<Rightarrow> MCPServer list \<Rightarrow> NetworkPolicy \<Rightarrow> NetworkPolicy" where
  "applyMCPNetwork std servers n =
     (let kept = filter (\<lambda>b. nb_Origin b \<noteq> BlockOriginMCP) (np_Blocks n) in
      Normalize (n\<lparr>np_Blocks := (case mcpNetworkBlock std servers of Some block \<Rightarrow> kept @ [block] | None \<Rightarrow> kept)\<rparr>))"

subsection \<open>The guest's configuration\<close>

record mcpServerConfig =
  mx_Type :: gostring
  mx_URL :: gostring
  mx_Headers :: "(gostring, gostring) gomap"
  mx_Command :: gostring
  mx_Args :: "gostring list"
  mx_Env :: "(gostring, gostring) gomap"

definition empty_server_config :: mcpServerConfig where
  "empty_server_config = \<lparr>mx_Type = [], mx_URL = [], mx_Headers = [], mx_Command = [], mx_Args = [], mx_Env = []\<rparr>"

fun header_map :: "gostring \<Rightarrow> gostring list \<Rightarrow> (gostring, gostring) gomap \<Rightarrow> mcp_error + (gostring, gostring) gomap" where
  "header_map name [] m = Inr m"
| "header_map name (h # hs) m =
     (case cut_byte h (CHR '':'') of (k, v, found) \<Rightarrow>
        if \<not> found then Inl (MalformedHeader name h)
        else header_map name hs (AList.update (trim_space k) (trim_space v) m))"

definition render_server :: "MCPServer \<Rightarrow> mcp_error + mcpServerConfig" where
  "render_server s =
     (if ms_Transport s = MCPTransportStdio then
        (case ms_Command s of
           [] \<Rightarrow> Inl (StdioWithoutCommand (ms_Name s))
         | c # args \<Rightarrow> Inr (empty_server_config\<lparr>mx_Command := c, mx_Args := args,
             mx_Env := fold (\<lambda>v m. AList.update v (''${'' @ v @ ''}'') m) (ms_Env s) []\<rparr>))
      else if ms_Transport s = MCPTransportHTTP \<or> ms_Transport s = MCPTransportSSE then
        (if ms_URL s = [] then Inl (RemoteWithoutURL (ms_Name s) (ms_Transport s))
         else andThen (header_map (ms_Name s) (ms_Headers s) []) (\<lambda>hs.
           Inr (empty_server_config\<lparr>mx_Type := ms_Transport s, mx_URL := ms_URL s, mx_Headers := hs\<rparr>)))
      else Inl (UnknownTransport (ms_Name s) (ms_Transport s)))"

fun render_servers :: "MCPServer list \<Rightarrow> (gostring, mcpServerConfig) gomap \<Rightarrow> mcp_error + (gostring, mcpServerConfig) gomap" where
  "render_servers [] m = Inr m"
| "render_servers (s # servers) m =
     andThen (render_server s) (\<lambda>entry. render_servers servers (AList.update (ms_Name s) entry m))"

text \<open>The configuration before it is marshalled; None when there is nothing to declare.\<close>

definition RenderMCPConfig :: "MCPServer list \<Rightarrow> mcp_error + (gostring, mcpServerConfig) gomap option" where
  "RenderMCPConfig servers = (if servers = [] then Inr None else map_sum id Some (render_servers servers []))"

datatype seed_action = SeedNothing | SeedRemove gostring | SeedWrite gostring gostring

definition SeedClaudeMCP ::
  "((gostring, mcpServerConfig) gomap \<Rightarrow> gostring) \<Rightarrow> gostring \<Rightarrow> MCPServer list \<Rightarrow> mcp_error + seed_action" where
  "SeedClaudeMCP marshalIndent stateRoot servers =
     (if stateRoot = [] then Inr SeedNothing
      else let p = Join [stateRoot, ''claude'', ''mcp'', ''clawk.json''] in
        andThen (RenderMCPConfig servers) (\<lambda>cfg. case cfg of
            None \<Rightarrow> Inr (SeedRemove p)
          | Some m \<Rightarrow> Inr (SeedWrite p (marshalIndent m @ [CHR 0x0A]))))"

section \<open>Composition\<close>

interpretation file_claims: claim_loop "compose_files_loop h" "file_of h" hf_GuestPath "\<lambda>f g. hf_HostPath f = hf_HostPath g"
  "\<lambda>s f. (fi_Origin s, hf_HostPath f)" for h
  by unfold_locales auto

lemma share_of_mode: "share_of h s = Inr e \<Longrightarrow> hs_ReadOnly e = sh_ReadOnly (si_Spec s)"
  by (auto simp: share_of_def andThen_def split: sum.splits)

interpretation share_claims: claim_loop "compose_shares_loop h" "share_of h" hs_GuestPath
  "\<lambda>f g. hs_HostPath f = hs_HostPath g \<and> hs_ReadOnly f = hs_ReadOnly g"
  "\<lambda>s f. (si_Origin s, hs_HostPath f, sh_ReadOnly (si_Spec s))" for h
  by unfold_locales (auto dest: share_of_mode)

interpretation mcp_claims: claim_loop compose_mcp_loop "\<lambda>s. Inr (server_of (mi_Spec s)) :: unit + MCPServer" ms_Name sameMCPServer
  "\<lambda>s v. (mi_Origin s, v)"
  by unfold_locales (auto simp: Let_def sameMCPServer_def)

lemma same_server_iff: "by_key ms_Name sameMCPServer a b \<longleftrightarrow> (ms_Name a = ms_Name b \<longrightarrow> a = b)"
  by (cases a; cases b) (auto simp: by_key_def sameMCPServer_def)

lemma server_claims: "list_all2 (\<lambda>s. (=) (server_of (mi_Spec s))) ss us \<longleftrightarrow> us = map (\<lambda>s. server_of (mi_Spec s)) ss"
  by (auto simp: list_all2_conv_all_nth intro: nth_equalityI)

lemma composeMCP_exact:
  "composeMCP ss = Inr vs \<longleftrightarrow> inj_on ms_Name (set (map (\<lambda>s. server_of (mi_Spec s)) ss)) \<and>
     vs = first_by ms_Name (map (\<lambda>s. server_of (mi_Spec s)) ss)"
  by (auto simp: composeMCP_def mcp_claims.claims_exact server_claims agreed_def same_server_iff inj_on_def)

section \<open>Entries of a namespace\<close>

lemma append_new_subset: "set (append_new key seen xs) \<subseteq> set xs"
  by (induction key seen xs rule: append_new.induct) auto

lemma append_new_distinct: "distinct (map key (append_new key seen xs)) \<and> key ` set (append_new key seen xs) \<inter> set seen = {}"
  by (induction key seen xs rule: append_new.induct) auto

lemma append_new_keys: "key ` set (append_new key seen xs) \<union> set seen = key ` set xs \<union> set seen"
  by (induction key seen xs rule: append_new.induct) auto

text \<open>What a scope adds under another: the own entries stay in front, and no key is there twice.\<close>

definition layered_under :: "('v \<Rightarrow> gostring) \<Rightarrow> 'v list \<Rightarrow> 'v list \<Rightarrow> 'v list \<Rightarrow> bool" where
  "layered_under key have add out \<longleftrightarrow>
     take (length have) out = have \<and> set out \<subseteq> set have \<union> set add \<and>
     key ` set out = key ` set have \<union> key ` set add \<and> (distinct (map key have) \<longrightarrow> distinct (map key out))"

lemma append_new_layered: "layered_under key have add (have @ append_new key (map key have) add)"
proof -
  have "key ` set (append_new key (map key have) add) \<union> key ` set have = key ` set add \<union> key ` set have"
    using append_new_keys [of key "map key have" add] by simp
  then show ?thesis
    using append_new_subset [of key "map key have" add] append_new_distinct [of key "map key have" add]
    by (auto simp: layered_under_def)
qed

section \<open>Guest paths\<close>

lemma IsAbs_GuestHome [simp]: "IsAbs GuestHome" "IsAbs (Join (GuestHome # ps))"
proof -
  show "IsAbs GuestHome" by (simp add: GuestHome_def IsAbs_def slash_def)
  then show "IsAbs (Join (GuestHome # ps))" by (rule IsAbs_Join)
qed

lemma guest_path_absolute: "resolveGuestPath h rawHost rawGuest = Inr g \<Longrightarrow> IsAbs g"
  by (auto simp: resolveGuestPath_def guestMirrorOfHost_def IsAbs_Clean
      split: if_splits sum.splits)

lemma file_of_guest: "file_of h s = Inr f \<Longrightarrow> IsAbs (hf_GuestPath f)"
  by (auto simp: file_of_def resolveFilePaths_def andThen_Inr dest: guest_path_absolute split: if_splits)

lemma share_of_guest: "share_of h s = Inr f \<Longrightarrow> IsAbs (hs_GuestPath f)"
  by (auto simp: share_of_def resolveSharePaths_def andThen_Inr dest: guest_path_absolute split: if_splits)

lemma first_by_resolved:
  assumes "list_all2 (\<lambda>s u. r s = Inr u) ss us" "\<And>s u. r s = Inr u \<Longrightarrow> P u" "u \<in> set (first_by key us)"
  shows "P u"
proof -
  from assms(3) first_by_subset [of key us] have "u \<in> set us" by blast
  with assms(1) obtain s where "r s = Inr u" by (auto simp: list_all2_conv_all_nth in_set_conv_nth)
  then show ?thesis by (rule assms(2))
qed

section \<open>The layer of the policy\<close>

lemma mcp_block_entries:
  assumes "s \<in> set servers" "server_egress std s = EgressDomain d"
  shows "\<exists>b. mcpNetworkBlock std servers = Some b \<and> d \<in> set (nb_AllowDomains b)"
proof -
  have "d \<in> set (concat (map (\<lambda>s. case server_egress std s of EgressDomain d \<Rightarrow> [d] | _ \<Rightarrow> []) servers))" (is "d \<in> set ?ds")
    using assms by force
  then have mem: "d \<in> set (dedupStrings ?ds)" by (simp only: dedup_set)
  then have "dedupStrings ?ds \<noteq> []" by (metis empty_iff empty_set)
  with mem show ?thesis by (simp add: mcpNetworkBlock_def Let_def)
qed

lemma mcp_block_shape:
  "mcpNetworkBlock std servers = Some b \<Longrightarrow> nb_Origin b = BlockOriginMCP \<and> nb_DenyDomains b = [] \<and> nb_DenyIPs b = []"
  by (auto simp: mcpNetworkBlock_def Let_def split: if_splits)

definition mcp_layer :: "stdlib \<Rightarrow> MCPServer list \<Rightarrow> NetworkBlock list" where
  "mcp_layer std servers = (case mcpNetworkBlock std servers of Some b \<Rightarrow> [b] | None \<Rightarrow> [])"

lemma applyMCP_alt:
  "applyMCPNetwork std servers n =
     Normalize (n\<lparr>np_Blocks := filter (\<lambda>b. nb_Origin b \<noteq> BlockOriginMCP) (np_Blocks n) @ mcp_layer std servers\<rparr>)"
  by (simp add: applyMCPNetwork_def mcp_layer_def Let_def split: option.split)

lemma origins_differ [simp]: "BlockOriginMCP \<noteq> BlockOriginCustom" "BlockOriginCustom \<noteq> BlockOriginMCP"
  by (simp_all add: BlockOriginMCP_def BlockOriginCustom_def)

lemma fold_legacy_origin [simp]: "nb_Origin (fold_legacy n b) = nb_Origin b"
  by (simp add: fold_legacy_def)

lemma edit_custom_mcp:
  "filter (\<lambda>b. nb_Origin b = BlockOriginMCP) (edit_layer BlockOriginCustom (fold_legacy n) bs) = filter (\<lambda>b. nb_Origin b = BlockOriginMCP) bs"
  by (induction bs) (auto simp: empty_block_def)

lemma edit_custom_rest:
  "filter (\<lambda>b. nb_Origin b \<noteq> BlockOriginMCP) (edit_layer BlockOriginCustom (fold_legacy n) bs) =
   edit_layer BlockOriginCustom (fold_legacy n) (filter (\<lambda>b. nb_Origin b \<noteq> BlockOriginMCP) bs)"
  by (induction bs) (auto simp: empty_block_def)

lemma migrate_blocks:
  "np_Blocks (migrate_legacy n) = (if has_legacy n then edit_layer BlockOriginCustom (fold_legacy n) (np_Blocks n) else np_Blocks n)"
  by (simp add: migrate_legacy_def)

lemma has_legacy_blocks [simp]: "has_legacy (n\<lparr>np_Blocks := bs\<rparr>) = has_legacy n" "fold_legacy (n\<lparr>np_Blocks := bs\<rparr>) = fold_legacy n"
  by (simp_all add: has_legacy_def fold_legacy_def fun_eq_iff)

lemma mcp_layer_origins:
  "filter (\<lambda>b. nb_Origin b = BlockOriginMCP) (mcp_layer std servers) = mcp_layer std servers"
  "filter (\<lambda>b. nb_Origin b \<noteq> BlockOriginMCP) (mcp_layer std servers) = []"
  by (auto simp: mcp_layer_def dest: mcp_block_shape split: option.split)

lemma sort_mcp_layer: "sort_key f (mcp_layer std servers) = mcp_layer std servers"
  by (simp add: mcp_layer_def split: option.split)

lemma applyMCP_blocks:
  "filter (\<lambda>b. nb_Origin b = BlockOriginMCP) (np_Blocks (applyMCPNetwork std servers n)) = mcp_layer std servers"
  "filter (\<lambda>b. nb_Origin b \<noteq> BlockOriginMCP) (np_Blocks (applyMCPNetwork std servers n)) =
   filter (\<lambda>b. nb_Origin b \<noteq> BlockOriginMCP) (np_Blocks (Normalize n))"
  by (simp_all add: applyMCP_alt Normalize_blocks filter_sort migrate_blocks edit_custom_mcp edit_custom_rest mcp_layer_origins
      sort_mcp_layer comp_def)

section \<open>Verdicts\<close>

lemma no_deny_verdicts:
  assumes "bk_DenyIPs b = []" "\<forall>e \<in> set (bk_DenyDomains b). \<not> entry_matches True (normalizeDomain e) n"
  shows "block_name_verdict (compiled_form b) n \<noteq> VerdictDeny" "fst (decideIP (compiled_form b) ip) \<noteq> VerdictDeny"
proof -
  have "\<not> (fst (nameRule_match r n) \<and> nr_deny r)" if "r \<in> set (cb_names (compiled_form b))" for r
    using that assms(2) name_rules_of_match name_rules_of_fields by (fastforce simp: compiled_form_def)
  then show "block_name_verdict (compiled_form b) n \<noteq> VerdictDeny"
    by (auto simp: block_name_verdict_def decideName_verdict policy_spec_def)
  have "\<not> ir_deny r" if "r \<in> set (cb_ips (compiled_form b))" for r
    using that assms(1) ip_rules_of_deny by (fastforce simp: compiled_form_def)
  then show "fst (decideIP (compiled_form b) ip) \<noteq> VerdictDeny"
    by (auto simp: decideIP_verdict policy_spec_def)
qed

lemma no_deny_opinion:
  assumes "bk_DenyIPs b = []" "\<forall>e \<in> set (bk_DenyDomains b). \<not> entry_matches True (normalizeDomain e) n"
    and "decideBoth (compiled_form b) n ip = Some (v, m, k)"
  shows "v = VerdictAllow"
  using decideBoth_spec [of "compiled_form b" n ip] no_deny_verdicts [OF assms(1,2)] assms(3)
  by (auto simp: both_spec_def split: if_splits)

lemma allow_entry_opinion:
  assumes "d \<in> set (bk_AllowDomains b)" "entry_matches False (normalizeDomain d) n" "n \<noteq> []"
  shows "decideBoth (compiled_form b) n ip \<noteq> None"
proof -
  obtain r where r: "r \<in> set (name_rules_of False d)" using name_rules_of_exists [OF assms(2)] by blast
  then have "r \<in> set (cb_names (compiled_form b))" "fst (nameRule_match r n)"
    using assms(1,2) name_rules_of_match by (auto simp: compiled_form_def)
  then have "block_name_verdict (compiled_form b) n \<noteq> VerdictNone"
    using assms(3) by (auto simp: block_name_verdict_def decideName_verdict policy_spec_def)
  then show ?thesis by (simp add: decideBoth_None_iff)
qed

text \<open>A name that one block allows is allowed when neither that block nor one above it denies.\<close>

lemma allowed_unless_denied_above:
  assumes "NewChain (lo @ b # hi) = Inr c" "d \<in> set (bk_AllowDomains b)"
    and "entry_matches False (normalizeDomain d) (normalizeDomain name)" "normalizeDomain name \<noteq> []"
    and deny: "\<forall>h \<in> set (b # hi). bk_DenyIPs h = [] \<and> (\<forall>e \<in> set (bk_DenyDomains h). \<not> entry_matches True (normalizeDomain e) (normalizeDomain name))"
  shows "\<exists>m k. DecideAddr c name ip = (VerdictAllow, m, k)"
proof -
  let ?op = "\<lambda>cb. decideBoth cb (normalizeDomain name) (unmap ip)"
  let ?top = "map compiled_form (b # hi)"
  have "first_opinion ?op ?top \<noteq> None"
  proof
    assume "first_opinion ?op ?top = None"
    then have "?op (compiled_form b) = None" using first_opinion_None [of ?op ?top] by simp
    with allow_entry_opinion [OF assms(2-4)] show False by blast
  qed
  then obtain r where r: "first_opinion ?op ?top = Some r" by blast
  obtain v m k where vmk: "r = (v, m, k)" by (cases r)
  from first_opinion_Some_split [OF r] obtain h where "h \<in> set (b # hi)" "?op (compiled_form h) = Some (v, m, k)"
    unfolding vmk by (metis (no_types, lifting) in_set_conv_decomp in_set_conv_nth imageE list.set_map)
  with deny have v: "v = VerdictAllow" using no_deny_opinion by blast
  have "ch_compiled c = map compiled_form lo @ ?top" using assms(1) by (auto simp: NewChain_iff)
  then have "DecideAddr c name ip = (v, m, k)"
    unfolding DecideAddr_def by (simp only: walkAddr_first_opinion first_opinion_append r vmk option.case)
  then show ?thesis using v by blast
qed

section \<open>Installing the layer\<close>

lemma rank_mcp: "blockOriginRank orig = 2 \<longleftrightarrow> orig = BlockOriginMCP"
  by (simp add: blockOriginRank_def BlockOriginNamespace_def BlockOriginMCP_def BlockOriginMod_def BlockOriginCustom_def)

lemma sorted_parts_eq:
  assumes "sorted (map rank_of xs)" "sorted (map rank_of ys)"
    and mcp: "filter (\<lambda>b. nb_Origin b = BlockOriginMCP) xs = filter (\<lambda>b. nb_Origin b = BlockOriginMCP) ys"
    and rest: "filter (\<lambda>b. nb_Origin b \<noteq> BlockOriginMCP) xs = filter (\<lambda>b. nb_Origin b \<noteq> BlockOriginMCP) ys"
  shows "xs = ys"
proof -
  have part: "filter (\<lambda>b. rank_of k = rank_of b) zs =
    (if rank_of k = 2 then filter (\<lambda>b. nb_Origin b = BlockOriginMCP) zs
     else filter (\<lambda>b. rank_of k = rank_of b) (filter (\<lambda>b. nb_Origin b \<noteq> BlockOriginMCP) zs))" for k zs
  proof -
    have "rank_of b = 2 \<longleftrightarrow> nb_Origin b = BlockOriginMCP" for b by (simp add: rank_of_def rank_mcp)
    then have "rank_of k = rank_of b \<longleftrightarrow> (if rank_of k = 2 then nb_Origin b = BlockOriginMCP else nb_Origin b \<noteq> BlockOriginMCP \<and> rank_of k = rank_of b)" for b
      by metis
    then show ?thesis by (cases "rank_of k = 2") (simp_all only: filter_filter if_True if_False refl)
  qed
  have "mset zs = mset (filter (\<lambda>b. nb_Origin b = BlockOriginMCP) zs) + mset (filter (\<lambda>b. nb_Origin b \<noteq> BlockOriginMCP) zs)" for zs :: "NetworkBlock list"
    by (induction zs) simp_all
  then have "mset xs = mset ys" using mcp rest by metis
  moreover have "filter (\<lambda>b. rank_of k = rank_of b) xs = filter (\<lambda>b. rank_of k = rank_of b) ys" for k
    using part [of k xs] part [of k ys] mcp rest by presburger
  ultimately have "sort_key rank_of ys = xs" using assms(1) by (intro properties_for_sort_key) auto
  then show ?thesis using assms(2) by (simp add: sort_key_id_if_sorted)
qed

lemma Normalize_sorted: "sorted (map rank_of (np_Blocks (Normalize n)))"
  by (simp add: Normalize_blocks)

lemma Normalize_Normalize: "Normalize (Normalize n) = Normalize n"
proof -
  have m: "migrate_legacy (Normalize n) = Normalize n" by (simp add: migrate_legacy_def has_legacy_def)
  have "sort_key (\<lambda>b. blockOriginRank (nb_Origin b)) (np_Blocks (Normalize n)) = np_Blocks (Normalize n)"
    using Normalize_sorted [of n] by (intro sort_key_id_if_sorted) (simp add: rank_of_def [abs_def])
  then show ?thesis unfolding Normalize_def [of "Normalize n"] m by simp
qed

lemma applyMCP_fields [simp]:
  "np_Use (applyMCPNetwork std servers n) = np_Use n" "np_AllowedDomains (applyMCPNetwork std servers n) = []"
  "np_AllowedIPs (applyMCPNetwork std servers n) = []" "np_DeniedDomains (applyMCPNetwork std servers n) = []"
  by (simp_all add: applyMCP_alt) (simp add: Normalize_def migrate_legacy_def)

lemma Normalize_applyMCP: "Normalize (applyMCPNetwork std servers n) = applyMCPNetwork std servers n"
  by (simp add: applyMCP_alt Normalize_Normalize)

lemma applyMCP_sorted: "sorted (map rank_of (np_Blocks (applyMCPNetwork std servers n)))"
  by (simp add: applyMCP_alt Normalize_sorted)

lemma applyMCP_again: "applyMCPNetwork std servers (applyMCPNetwork std others n) = applyMCPNetwork std servers n"
proof -
  have "np_Blocks (applyMCPNetwork std servers (applyMCPNetwork std others n)) = np_Blocks (applyMCPNetwork std servers n)"
    by (rule sorted_parts_eq) (simp_all add: applyMCP_sorted applyMCP_blocks Normalize_applyMCP)
  then show ?thesis by (intro NetworkPolicy.equality) simp_all
qed

section \<open>Rendering\<close>

lemma header_map_total: "list_all validateMCPHeader hs \<Longrightarrow> \<exists>m'. header_map name hs m = Inr m'"
  by (induction name hs m rule: header_map.induct) (auto simp: validateMCPHeader_def split: prod.splits)

text \<open>The empty text is a URL without a host.\<close>

definition empty_url_hostless :: "stdlib \<Rightarrow> bool" where
  "empty_url_hostless std = (case parseURL std [] of None \<Rightarrow> True | Some u \<Rightarrow> url_Hostname u = [])"

lemma render_parsed: "empty_url_hostless std \<Longrightarrow> mcp_ok std spec \<Longrightarrow> \<exists>e. render_server (server_of spec) = Inr e"
proof -
  assume std: "empty_url_hostless std" and ok: "mcp_ok std spec"
  show ?thesis
  proof (cases "mc_Transport spec = MCPTransportStdio")
    case True
    with ok show ?thesis by (auto simp: mcp_ok_def render_server_def server_of_def split: list.split)
  next
    case False
    with ok have t: "mc_Transport spec \<in> {MCPTransportHTTP, MCPTransportSSE}" and u: "validateMCPURL std (mc_URL spec)"
      and h: "list_all validateMCPHeader (mc_Headers spec)" by (auto simp: mcp_ok_def)
    from header_map_total [OF h] obtain m where "header_map (mc_Name spec) (mc_Headers spec) [] = Inr m" by blast
    moreover have "mc_URL spec \<noteq> []" using u std by (auto simp: validateMCPURL_def empty_url_hostless_def split: option.splits if_splits)
    ultimately show ?thesis using False t by (auto simp: render_server_def server_of_def andThen_def)
  qed
qed

lemma render_servers_keys:
  "list_all (\<lambda>s. \<exists>e. render_server s = Inr e) servers \<Longrightarrow>
     \<exists>m'. render_servers servers m = Inr m' \<and> fst ` set m' = fst ` set m \<union> ms_Name ` set servers"
proof (induction servers arbitrary: m)
  case (Cons s servers)
  then obtain e where e: "render_server s = Inr e" by auto
  from Cons.IH [of "AList.update (ms_Name s) e m"] Cons.prems obtain m' where
    "render_servers servers (AList.update (ms_Name s) e m) = Inr m'"
    "fst ` set m' = fst ` set (AList.update (ms_Name s) e m) \<union> ms_Name ` set servers" by auto
  with e show ?case by (auto simp: andThen_def dom_update)
qed simp

section \<open>Properties\<close>

definition mount_host :: host where
  "mount_host = \<lparr>ho_Stat = (\<lambda>p. if p = ''/home/u/.aws'' then StatDir else if p = ''/home/u/.netrc'' then StatFile else StatAbsent),
     ho_ReadFile = (\<lambda>_. ReadAbsent), ho_Getwd = Some ''/w'', ho_HomeDir = Some ''/home/u'', ho_Getenv = (\<lambda>_. []),
     ho_GlobalDisabled = True\<rparr>"

definition netrc :: "gostring \<Rightarrow> 32 word \<Rightarrow> fileSource" where
  "netrc orig mode = \<lparr>fi_Origin = orig, fi_Spec = \<lparr>fl_HostPath = ''~/.netrc'', fl_GuestPath = [], fl_Mode = mode, fl_Line = 1, fl_Col = 1\<rparr>\<rparr>"

definition host_url :: stdlib where
  "host_url = \<lparr>parseURL = (\<lambda>u. if u = [] then None else Some \<lparr>url_Scheme = ''https'', url_Hostname = u, url_User = False\<rparr>),
     parseDuration = (\<lambda>_. None)\<rparr>"

definition sentry :: MCPSpec where
  "sentry = \<lparr>mc_Name = ''sentry'', mc_Transport = ''http'', mc_URL = ''mcp.sentry.dev'', mc_Command = [],
     mc_Headers = [''Authorization: Bearer ${T}''], mc_Env = [], mc_Line = 1, mc_Col = 1\<rparr>"

text \<open>
  What the composition of files, shares and MCP servers returns: it succeeds if and only if every entry resolves and
  no two entries disagree on one guest path or server name, and then it is the first entry of every guest
  path or name, in the order of declaration.
\<close>

theorem mounts_exact:
  "(composeFiles h fsrc = Inr fs \<longleftrightarrow>
     (\<exists>us. list_all2 (\<lambda>s u. file_of h s = Inr u) fsrc us \<and> agreed (by_key hf_GuestPath (\<lambda>f g. hf_HostPath f = hf_HostPath g)) us \<and>
        fs = first_by hf_GuestPath us)) \<and>
   (composeShares h ssrc = Inr ss \<longleftrightarrow>
     (\<exists>us. list_all2 (\<lambda>s u. share_of h s = Inr u) ssrc us \<and>
        agreed (by_key hs_GuestPath (\<lambda>f g. hs_HostPath f = hs_HostPath g \<and> hs_ReadOnly f = hs_ReadOnly g)) us \<and>
        ss = first_by hs_GuestPath us)) \<and>
   (composeMCP msrc = Inr ms \<longleftrightarrow>
     inj_on ms_Name (set (map (\<lambda>s. server_of (mi_Spec s)) msrc)) \<and> ms = first_by ms_Name (map (\<lambda>s. server_of (mi_Spec s)) msrc))"
  by (simp add: composeFiles_def file_claims.claims_exact composeShares_def share_claims.claims_exact composeMCP_exact)

text \<open>
  The guest paths of composed files and shares are absolute, and each is claimed once, also after the entries of
  the namespace are added; those come after the entries of the project files and give way to them.
\<close>

theorem guest_paths_claimed_once:
  assumes "composeFiles h fsrc = Inr fs" and "composeShares h ssrc = Inr ss"
  shows "list_all (\<lambda>f. IsAbs (hf_GuestPath f)) fs \<and> list_all (\<lambda>s. IsAbs (hs_GuestPath s)) ss \<and>
    distinct (map hf_GuestPath (appendMissingFiles fs nsFiles)) \<and> distinct (map hs_GuestPath (appendMissingShares ss nsShares)) \<and>
    layered_under hf_GuestPath fs nsFiles (appendMissingFiles fs nsFiles) \<and>
    layered_under hs_GuestPath ss nsShares (appendMissingShares ss nsShares)"
proof -
  from assms(1) obtain us where us: "list_all2 (\<lambda>s u. file_of h s = Inr u) fsrc us" "fs = first_by hf_GuestPath us"
    by (auto simp: composeFiles_def file_claims.claims_exact)
  from assms(2) obtain vs where vs: "list_all2 (\<lambda>s u. share_of h s = Inr u) ssrc vs" "ss = first_by hs_GuestPath vs"
    by (auto simp: composeShares_def share_claims.claims_exact)
  have "layered_under hf_GuestPath fs nsFiles (appendMissingFiles fs nsFiles)"
    "layered_under hs_GuestPath ss nsShares (appendMissingShares ss nsShares)"
    by (simp_all add: appendMissingFiles_def appendMissingShares_def append_new_layered)
  moreover have "distinct (map hf_GuestPath fs)" "distinct (map hs_GuestPath ss)" by (simp_all add: us(2) vs(2) first_by_distinct)
  moreover have "list_all (\<lambda>f. IsAbs (hf_GuestPath f)) fs" "list_all (\<lambda>s. IsAbs (hs_GuestPath s)) ss"
    using first_by_resolved [OF us(1), of "\<lambda>f. IsAbs (hf_GuestPath f)" _ hf_GuestPath]
      first_by_resolved [OF vs(1), of "\<lambda>s. IsAbs (hs_GuestPath s)" _ hs_GuestPath]
    by (auto simp: list_all_iff us(2) vs(2) intro: file_of_guest share_of_guest)
  ultimately show ?thesis by (simp add: layered_under_def)
qed

theorem guest_paths_claimed_once_witness:
  "list_all (\<lambda>f. IsAbs (hf_GuestPath f)) [\<lparr>hf_HostPath = ''/home/u/.netrc'', hf_GuestPath = ''/home/agent/.netrc'', hf_Mode = 0\<rparr>] \<and>
   layered_under hs_GuestPath [] [] (appendMissingShares [] [])"
proof -
  have "composeFiles mount_host [netrc ''workspace'' 0] =
      Inr [\<lparr>hf_HostPath = ''/home/u/.netrc'', hf_GuestPath = ''/home/agent/.netrc'', hf_Mode = 0\<rparr>]"
    "composeShares mount_host [] = Inr []" by code_simp+
  from guest_paths_claimed_once [OF this, of "[]" "[]"] show ?thesis by blast
qed

text \<open>
  Two files with one host path and one guest path but different modes are taken for the same entry: the mode
  of the second is dropped without an error, although a share whose options differ is refused.
\<close>

theorem file_mode_conflict_ignored:
  "composeFiles mount_host [netrc ''workspace'' 0x180, netrc ''web'' 0x1A4] =
     Inr [\<lparr>hf_HostPath = ''/home/u/.netrc'', hf_GuestPath = ''/home/agent/.netrc'', hf_Mode = 0x180\<rparr>]"
  by code_simp



definition mcp_store :: Store where
  "mcp_store = \<lparr>ds_policies = [], ds_caches = [], ds_namespaces = [], ds_writable = True\<rparr>"

definition mcp_policy :: NetworkPolicy where
  "mcp_policy = \<lparr>np_AllowedDomains = [], np_AllowedIPs = [], np_DeniedDomains = [], np_Use = Some [], np_Blocks = [\<lparr>nb_Origin = BlockOriginMod,
     nb_Name = ''clawk.mod'', nb_AllowDomains = [], nb_AllowIPs = [], nb_DenyDomains = [''ads.example.com''], nb_DenyIPs = []\<rparr>]\<rparr>"

definition mcp_sandbox :: Sandbox where
  "mcp_sandbox = \<lparr>sb_Namespace = [], sb_Network = applyMCPNetwork host_url [server_of sentry] mcp_policy\<rparr>"


text \<open>
  Servers that come from parsed project files always render, however they were composed: the guest's
  configuration exists and has one entry per server name. It rests on the fact that the empty text is
  no URL with a host.
\<close>

theorem parsed_servers_render:
  assumes "empty_url_hostless std" and "composeMCP sources = Inr servers" and "\<forall>s \<in> set sources. mcp_ok std (mi_Spec s)"
  shows "(servers = [] \<longrightarrow> RenderMCPConfig servers = Inr None) \<and>
    (servers \<noteq> [] \<longrightarrow> (\<exists>m. RenderMCPConfig servers = Inr (Some m) \<and> fst ` set m = (\<lambda>s. mc_Name (mi_Spec s)) ` set sources))"
proof -
  let ?vs = "map (\<lambda>s. server_of (mi_Spec s)) sources"
  have servers: "servers = first_by ms_Name ?vs" using assms(2) by (simp add: composeMCP_exact)
  have "list_all (\<lambda>s. \<exists>e. render_server s = Inr e) ?vs" using render_parsed [OF assms(1)] assms(3) by (auto simp: list_all_iff)
  then have "list_all (\<lambda>s. \<exists>e. render_server s = Inr e) servers"
    using first_by_subset [of ms_Name ?vs] by (auto simp: servers list_all_iff)
  from render_servers_keys [OF this, of "[]"] obtain m where m: "render_servers servers [] = Inr m" "fst ` set m = ms_Name ` set servers" by auto
  have "ms_Name ` set servers = (\<lambda>s. mc_Name (mi_Spec s)) ` set sources"
    unfolding servers first_by_keys by (force simp: server_of_def)
  with m show ?thesis by (simp add: RenderMCPConfig_def)
qed

theorem parsed_servers_render_witness:
  "\<exists>m. RenderMCPConfig [server_of sentry] = Inr (Some m) \<and> fst ` set m = {''sentry''}"
proof -
  have "empty_url_hostless host_url" by code_simp
  moreover have "composeMCP [\<lparr>mi_Origin = ''workspace'', mi_Spec = sentry\<rparr>] = Inr [server_of sentry]" by code_simp
  moreover have "mcp_ok host_url sentry" by code_simp
  ultimately have "\<exists>m. RenderMCPConfig [server_of sentry] = Inr (Some m) \<and> fst ` set m = {mc_Name sentry}"
    using parsed_servers_render [of host_url "[\<lparr>mi_Origin = ''workspace'', mi_Spec = sentry\<rparr>]" "[server_of sentry]"] by simp
  then show ?thesis by (simp add: sentry_def)
qed

end
