(* ===== verification/Worktree.thy ===== *)
theory Worktree
  imports Workspace
begin

text \<open>
  Worktrees: \<open>src/internal/worktree/worktree.go\<close>, the branch a sandbox works on and the git worktree it
  is checked out in.

  The programs git and gh and the file system are a record of operations over an abstract state of the machine,
  what the code reads of their output being their results. The search for a branch takes the first name of
  the sequence that is not merged; \<open>Add\<close> never removes a worktree that git lists for the same repository, and
  it does remove one of another repository that has the same directory name.
\<close>

section \<open>The machine\<close>

record 'w gitops =
  gt_Stat :: "'w \<Rightarrow> gostring \<Rightarrow> stat"
  gt_Mkdir :: "'w \<Rightarrow> gostring \<Rightarrow> 'w option"
  gt_ShowRef :: "'w \<Rightarrow> gostring \<Rightarrow> gostring \<Rightarrow> bool"
  gt_RevParse :: "'w \<Rightarrow> gostring \<Rightarrow> gostring \<Rightarrow> bool"
  gt_WorktreeAdd :: "'w \<Rightarrow> gostring \<Rightarrow> gostring list \<Rightarrow> 'w option"
  gt_Prune :: "'w \<Rightarrow> gostring \<Rightarrow> 'w option"
  gt_List :: "'w \<Rightarrow> gostring \<Rightarrow> gostring option"
  gt_RemoveAll :: "'w \<Rightarrow> gostring \<Rightarrow> 'w option"
  gt_WorktreeRemove :: "'w \<Rightarrow> gostring \<Rightarrow> gostring \<Rightarrow> 'w + gostring"
  gt_PRState :: "'w \<Rightarrow> gostring \<Rightarrow> gostring \<Rightarrow> gostring option"
  gt_OriginHead :: "'w \<Rightarrow> gostring \<Rightarrow> gostring option"
  gt_Status :: "'w \<Rightarrow> gostring \<Rightarrow> gostring option"

definition path_exists :: "'w gitops \<Rightarrow> 'w \<Rightarrow> gostring \<Rightarrow> bool" where
  "path_exists g w p \<longleftrightarrow> gt_Stat g w p = StatFile \<or> gt_Stat g w p = StatDir"

datatype worktree_error =
    ResolveFailed load_error
  | NotAGitRepository gostring
  | MkdirFailed gostring
  | AddFailed
  | CleanupFailed worktree_error
  | ListFailed
  | RemoveOrphanFailed gostring
  | AddFailedAfterCleanup
  | PruneFailed
  | RemoveStaleFailed gostring
  | RemoveFailed gostring
  | PhaseFailed int gostring worktree_error
  | RemoveBaseFailed gostring
  | StatFailedAt gostring

section \<open>The branch\<close>

record BranchResolution =
  br_Branch :: gostring
  br_Base :: gostring
  br_StartPoint :: gostring
  br_Reused :: bool
  br_WasMerged :: bool
  br_MergedPR :: int

definition branchExists :: "'w gitops \<Rightarrow> 'w \<Rightarrow> gostring \<Rightarrow> gostring \<Rightarrow> bool" where
  "branchExists g w repo branch \<longleftrightarrow>
     list_ex (gt_ShowRef g w repo) [''refs/heads/'' @ branch, ''refs/remotes/origin/'' @ branch] \<or> gt_RevParse g w repo branch"

definition isBranchPRMerged :: "'w gitops \<Rightarrow> 'w \<Rightarrow> gostring \<Rightarrow> gostring \<Rightarrow> bool \<times> int" where
  "isBranchPRMerged g w repo branch =
     (case gt_PRState g w repo branch of
        None \<Rightarrow> (False, 0)
      | Some out \<Rightarrow>
          (case string_fields (trim_space out) of
             [st, num] \<Rightarrow> if st \<noteq> ''MERGED'' then (False, 0)
                          else (True, case Atoi num of Some n \<Rightarrow> n | None \<Rightarrow> 0)
           | _ \<Rightarrow> (False, 0)))"

definition defaultOriginBranch :: "'w gitops \<Rightarrow> 'w \<Rightarrow> gostring \<Rightarrow> gostring" where
  "defaultOriginBranch g w repo =
     (case gt_OriginHead g w repo of
        None \<Rightarrow> ''origin/main''
      | Some out \<Rightarrow> if trim_space out = [] then ''origin/main'' else trim_space out)"

definition candidate :: "gostring \<Rightarrow> nat \<Rightarrow> gostring" where
  "candidate base i = (if 1 < i then base @ ''-'' @ dec_digits i else base)"

definition maxSuffix :: nat where "maxSuffix = 1000"

text \<open>The first argument counts the candidates left.\<close>

fun resolve_loop :: "'w gitops \<Rightarrow> 'w \<Rightarrow> gostring \<Rightarrow> gostring \<Rightarrow> nat \<Rightarrow> nat \<Rightarrow> BranchResolution \<Rightarrow> BranchResolution" where
  "resolve_loop g w repo base 0 i r = r\<lparr>br_Branch := base @ ''-N''\<rparr>"
| "resolve_loop g w repo base (Suc n) i r =
     (if \<not> branchExists g w repo (candidate base i)
      then r\<lparr>br_Branch := candidate base i,
             br_StartPoint := (if br_WasMerged r then defaultOriginBranch g w repo else br_StartPoint r)\<rparr>
      else case isBranchPRMerged g w repo (candidate base i) of (merged, pr) \<Rightarrow>
        if \<not> merged then r\<lparr>br_Branch := candidate base i, br_Reused := True\<rparr>
        else resolve_loop g w repo base n (Suc i) (r\<lparr>br_WasMerged := True, br_MergedPR := pr\<rparr>))"

definition ResolveBranchName :: "'w gitops \<Rightarrow> 'w \<Rightarrow> gostring \<Rightarrow> gostring \<Rightarrow> BranchResolution" where
  "ResolveBranchName g w repo base =
     resolve_loop g w repo base maxSuffix 1
       \<lparr>br_Branch = base, br_Base = base, br_StartPoint = [], br_Reused = False, br_WasMerged = False, br_MergedPR = 0\<rparr>"

section \<open>Worktrees\<close>

fun split_lines :: "gostring \<Rightarrow> gostring list" where
  "split_lines [] = [[]]"
| "split_lines (c # s) =
     (if c = CHR 0x0A then [] # split_lines s
      else (case split_lines s of [] \<Rightarrow> [[c]] | l # ls \<Rightarrow> (c # l) # ls))"

definition isRegisteredWorktree :: "'w gitops \<Rightarrow> 'w \<Rightarrow> gostring \<Rightarrow> gostring \<Rightarrow> worktree_error + bool" where
  "isRegisteredWorktree g w repo wtPath =
     (case gt_List g w repo of
        None \<Rightarrow> Inl ListFailed
      | Some out \<Rightarrow> Inr (list_ex (\<lambda>l. l = ''worktree '' @ wtPath) (split_lines out)))"

definition cleanOrphanWorktree :: "'w gitops \<Rightarrow> gostring \<Rightarrow> gostring \<Rightarrow> 'w \<Rightarrow> 'w \<times> (worktree_error + bool)" where
  "cleanOrphanWorktree g repo wtPath w =
     (let (w, cleaned) = (case gt_Prune g w repo of Some w' \<Rightarrow> (w', True) | None \<Rightarrow> (w, False)) in
      if \<not> path_exists g w wtPath then (w, Inr cleaned)
      else case isRegisteredWorktree g w repo wtPath of
        Inl err \<Rightarrow> (w, Inl err)
      | Inr registered \<Rightarrow>
          if registered then (w, Inr False)
          else case gt_RemoveAll g w wtPath of
            None \<Rightarrow> (w, Inl (RemoveOrphanFailed wtPath))
          | Some w' \<Rightarrow> (w', Inr True))"

definition add_args :: "'w gitops \<Rightarrow> 'w \<Rightarrow> gostring \<Rightarrow> gostring \<Rightarrow> gostring \<Rightarrow> gostring \<Rightarrow> gostring list" where
  "add_args g w absRepo branch wtPath startPoint =
     (if branchExists g w absRepo branch then [wtPath, branch]
      else [''-b'', branch, wtPath] @ (if startPoint \<noteq> [] then [startPoint] else []))"

definition worktree_path :: "gostring \<Rightarrow> gostring \<Rightarrow> gostring" where
  "worktree_path baseDir absRepo = Join [baseDir, Base absRepo]"

definition Add :: "'w gitops \<Rightarrow> host \<Rightarrow> gostring \<Rightarrow> gostring \<Rightarrow> gostring \<Rightarrow> gostring \<Rightarrow> 'w \<Rightarrow> 'w \<times> (worktree_error + gostring)" where
  "Add g h repo branch baseDir startPoint w =
     (case Abs h repo of
        Inl err \<Rightarrow> (w, Inl (ResolveFailed err))
      | Inr absRepo \<Rightarrow>
          if \<not> path_exists g w (Join [absRepo, ''.git'']) then (w, Inl (NotAGitRepository absRepo))
          else let wtPath = worktree_path baseDir absRepo in
            case gt_Mkdir g w baseDir of
              None \<Rightarrow> (w, Inl (MkdirFailed baseDir))
            | Some w \<Rightarrow>
                let args = add_args g w absRepo branch wtPath startPoint in
                (case gt_WorktreeAdd g w absRepo args of
                   Some w' \<Rightarrow> (w', Inr wtPath)
                 | None \<Rightarrow>
                     (case cleanOrphanWorktree g absRepo wtPath w of
                        (w, Inl err) \<Rightarrow> (w, Inl (CleanupFailed err))
                      | (w, Inr cleaned) \<Rightarrow>
                          if \<not> cleaned then (w, Inl AddFailed)
                          else case gt_WorktreeAdd g w absRepo args of
                            Some w' \<Rightarrow> (w', Inr wtPath)
                          | None \<Rightarrow> (w, Inl AddFailedAfterCleanup))))"

definition contains_text :: "gostring \<Rightarrow> gostring \<Rightarrow> bool" where
  "contains_text s t \<longleftrightarrow> list_ex (\<lambda>i. has_prefix (drop i s) t) [0..<Suc (length s)]"

definition Remove :: "'w gitops \<Rightarrow> host \<Rightarrow> gostring \<Rightarrow> gostring \<Rightarrow> 'w \<Rightarrow> 'w \<times> worktree_error option" where
  "Remove g h repo wtPath w =
     (case Abs h repo of
        Inl err \<Rightarrow> (w, Some (ResolveFailed err))
      | Inr absRepo \<Rightarrow>
          (case gt_WorktreeRemove g w absRepo wtPath of
             Inl w' \<Rightarrow> (w', None)
           | Inr out \<Rightarrow>
               if contains_text out ''is not a working tree'' then
                 (case gt_Prune g w absRepo of
                    None \<Rightarrow> (w, Some PruneFailed)
                  | Some w' \<Rightarrow>
                      (case gt_RemoveAll g w' wtPath of
                         None \<Rightarrow> (w', Some (RemoveStaleFailed wtPath))
                       | Some w'' \<Rightarrow> (w'', None)))
               else (w, Some (RemoveFailed out))))"

record wt_phase =
  wp_Repo :: gostring
  wp_Branch :: gostring
  wp_Worktree :: gostring
  wp_Order :: int

fun remove_phases :: "'w gitops \<Rightarrow> host \<Rightarrow> wt_phase list \<Rightarrow> 'w \<Rightarrow> 'w \<times> worktree_error list" where
  "remove_phases g h [] w = (w, [])"
| "remove_phases g h (p # ps) w =
     (if wp_Worktree p = [] then remove_phases g h ps w
      else case Remove g h (wp_Repo p) (wp_Worktree p) w of (w', err) \<Rightarrow>
        apsnd (\<lambda>errs. (case err of None \<Rightarrow> [] | Some e \<Rightarrow> [PhaseFailed (wp_Order p) (wp_Branch p) e]) @ errs)
          (remove_phases g h ps w'))"

definition RemoveAll :: "'w gitops \<Rightarrow> host \<Rightarrow> wt_phase list \<Rightarrow> gostring \<Rightarrow> 'w \<Rightarrow> 'w \<times> worktree_error list" where
  "RemoveAll g h phases baseDir w =
     (case remove_phases g h phases w of (w, errs) \<Rightarrow>
        (case gt_RemoveAll g w baseDir of
           None \<Rightarrow> (w, errs @ [RemoveBaseFailed baseDir])
         | Some w' \<Rightarrow> (w', errs)))"

definition DirtyStatus :: "'w gitops \<Rightarrow> 'w \<Rightarrow> gostring \<Rightarrow> worktree_error + gostring" where
  "DirtyStatus g w wtPath =
     (case gt_Stat g w wtPath of
        StatAbsent \<Rightarrow> Inr []
      | StatFailed \<Rightarrow> Inl (StatFailedAt wtPath)
      | _ \<Rightarrow> (case gt_Status g w wtPath of None \<Rightarrow> Inr [] | Some out \<Rightarrow> Inr (trim_space out)))"

section \<open>The search for a branch\<close>

definition in_use :: "'w gitops \<Rightarrow> 'w \<Rightarrow> gostring \<Rightarrow> gostring \<Rightarrow> bool" where
  "in_use g w repo b \<longleftrightarrow> branchExists g w repo b \<and> fst (isBranchPRMerged g w repo b)"

text \<open>The result of a search that stops at a candidate, after merged ones.\<close>

definition settled_at :: "'w gitops \<Rightarrow> 'w \<Rightarrow> gostring \<Rightarrow> gostring \<Rightarrow> nat \<Rightarrow> BranchResolution" where
  "settled_at g w repo base i =
     \<lparr>br_Branch = candidate base i, br_Base = base,
      br_StartPoint = (if branchExists g w repo (candidate base i) \<or> i = 1 then [] else defaultOriginBranch g w repo),
      br_Reused = branchExists g w repo (candidate base i), br_WasMerged = (1 < i),
      br_MergedPR = (if 1 < i then snd (isBranchPRMerged g w repo (candidate base (i - 1))) else 0)\<rparr>"

definition walked :: "'w gitops \<Rightarrow> 'w \<Rightarrow> gostring \<Rightarrow> gostring \<Rightarrow> nat \<Rightarrow> BranchResolution" where
  "walked g w repo base i =
     \<lparr>br_Branch = base, br_Base = base, br_StartPoint = [], br_Reused = False, br_WasMerged = (1 < i),
      br_MergedPR = (if 1 < i then snd (isBranchPRMerged g w repo (candidate base (i - 1))) else 0)\<rparr>"

lemma resolve_loop_spec:
  "1 \<le> i \<Longrightarrow> resolve_loop g w repo base n i (walked g w repo base i) =
     (case find (\<lambda>k. \<not> in_use g w repo (candidate base k)) [i..<i + n] of
        Some j \<Rightarrow> settled_at g w repo base j
      | None \<Rightarrow> (walked g w repo base (i + n))\<lparr>br_Branch := base @ ''-N''\<rparr>)"
proof (induction n arbitrary: i)
  case (Suc n)
  have upt: "[i..<i + Suc n] = i # [Suc i..<Suc i + n]" and sum: "i + Suc n = Suc i + n" by (simp_all add: upt_conv_Cons)
  show ?case
  proof (cases "in_use g w repo (candidate base i)")
    case False
    then have "resolve_loop g w repo base (Suc n) i (walked g w repo base i) = settled_at g w repo base i"
      using Suc.prems by (auto simp: in_use_def settled_at_def walked_def split: prod.splits)
    with False show ?thesis unfolding upt by simp
  next
    case True
    then have "resolve_loop g w repo base (Suc n) i (walked g w repo base i) =
        resolve_loop g w repo base n (Suc i) (walked g w repo base (Suc i))"
      using Suc.prems by (auto simp: in_use_def walked_def split: prod.splits)
    with True Suc.IH [of "Suc i"] show ?thesis unfolding upt unfolding sum by (simp del: upt_Suc add_Suc)
  qed
qed simp

section \<open>Properties\<close>

text \<open>
  The branch a sandbox gets is the first of the names base, base-2, base-3 and so on, up to 1000, that is not the
  branch of a merged pull request: it is reused when it exists; when it does not it is created, from the
  default branch of the remote if a merged name was passed over and from the head otherwise.
\<close>

theorem ResolveBranchName_first:
  "ResolveBranchName g w repo base =
     (case find (\<lambda>k. \<not> in_use g w repo (candidate base k)) [1..<Suc maxSuffix] of
        Some j \<Rightarrow> settled_at g w repo base j
      | None \<Rightarrow> (walked g w repo base (Suc maxSuffix))\<lparr>br_Branch := base @ ''-N''\<rparr>)"
proof -
  have "Suc maxSuffix = 1 + maxSuffix" by simp
  then show ?thesis unfolding ResolveBranchName_def
    using resolve_loop_spec [of 1 g w repo base maxSuffix] by (simp only: walked_def) simp
qed

text \<open>
  A worktree that git lists for the repository is never removed by \<open>Add\<close>: when it is listed after the
  pruning, the outcome does not depend on what removing files does.
\<close>

theorem Add_keeps_listed_worktree:
  assumes "Abs h repo = Inr absRepo"
    and "\<And>w1 w2. gt_Mkdir g w baseDir = Some w1 \<Longrightarrow> w2 = (case gt_Prune g w1 absRepo of Some w' \<Rightarrow> w' | None \<Rightarrow> w1) \<Longrightarrow>
      isRegisteredWorktree g w2 absRepo (worktree_path baseDir absRepo) = Inr True"
  shows "Add (g\<lparr>gt_RemoveAll := f\<rparr>) h repo branch baseDir start w = Add g h repo branch baseDir start w"
proof -
  have sel: "gt_WorktreeAdd (g\<lparr>gt_RemoveAll := f\<rparr>) = gt_WorktreeAdd g" "gt_Mkdir (g\<lparr>gt_RemoveAll := f\<rparr>) = gt_Mkdir g"
    "gt_Stat (g\<lparr>gt_RemoveAll := f\<rparr>) = gt_Stat g" "branchExists (g\<lparr>gt_RemoveAll := f\<rparr>) = branchExists g"
    "gt_Prune (g\<lparr>gt_RemoveAll := f\<rparr>) = gt_Prune g" "gt_List (g\<lparr>gt_RemoveAll := f\<rparr>) = gt_List g"
    by (simp_all add: branchExists_def fun_eq_iff)
  show ?thesis
  proof (cases "gt_Mkdir g w baseDir")
    case None
    then show ?thesis unfolding Add_def path_exists_def sel assms(1) by simp
  next
    case (Some w1)
    have clean: "cleanOrphanWorktree (g\<lparr>gt_RemoveAll := f\<rparr>) absRepo (worktree_path baseDir absRepo) w1 =
        cleanOrphanWorktree g absRepo (worktree_path baseDir absRepo) w1"
      using assms(2) [OF Some refl] unfolding cleanOrphanWorktree_def isRegisteredWorktree_def path_exists_def sel
      by (cases "gt_Prune g w1 absRepo") simp_all
    show ?thesis unfolding Add_def path_exists_def add_args_def sel assms(1) Some option.case sum.case Let_def clean by (rule refl)
  qed
qed

text \<open>A machine with two repositories of one directory name, and work that is not committed in the worktree of the first.\<close>

record toy =
  ty_Files :: "(gostring \<times> gostring) list"
  ty_Listed :: "(gostring \<times> gostring) list"

definition toy_ops :: "toy gitops" where
  "toy_ops = \<lparr>gt_Stat = (\<lambda>w p. if map_of (ty_Files w) p = None then StatAbsent else StatDir),
     gt_Mkdir = (\<lambda>w _. Some w), gt_ShowRef = (\<lambda>_ _ _. True), gt_RevParse = (\<lambda>_ _ _. True),
     gt_WorktreeAdd = (\<lambda>w repo args. let p = args ! 0 in
       if map_of (ty_Files w) p \<noteq> None then None
       else Some \<lparr>ty_Files = (p, ''checkout of '' @ repo) # ty_Files w, ty_Listed = (repo, p) # ty_Listed w\<rparr>),
     gt_Prune = (\<lambda>w _. Some w),
     gt_List = (\<lambda>w repo. Some (concat (map (\<lambda>(r, p). if r = repo then ''worktree '' @ p @ [CHR 0x0A] else []) (ty_Listed w)))),
     gt_RemoveAll = (\<lambda>w p. Some (w\<lparr>ty_Files := filter (\<lambda>(q, _). q \<noteq> p) (ty_Files w)\<rparr>)),
     gt_WorktreeRemove = (\<lambda>w _ _. Inl w), gt_PRState = (\<lambda>_ _ _. None), gt_OriginHead = (\<lambda>_ _. None), gt_Status = (\<lambda>_ _. None)\<rparr>"

definition toy_host :: host where
  "toy_host = \<lparr>ho_Stat = (\<lambda>_. StatAbsent), ho_ReadFile = (\<lambda>_. ReadAbsent), ho_Getwd = Some ''/'', ho_HomeDir = None,
     ho_Getenv = (\<lambda>_. []), ho_GlobalDisabled = True\<rparr>"

definition toy_machine :: toy where
  "toy_machine = \<lparr>ty_Files = [(''/a/svc/.git'', []), (''/b/svc/.git'', []), (''/wt/svc'', ''unsaved work'')],
     ty_Listed = [(''/a/svc'', ''/wt/svc'')]\<rparr>"

theorem Add_keeps_listed_worktree_witness:
  "Add (toy_ops\<lparr>gt_RemoveAll := (\<lambda>_ _. None)\<rparr>) toy_host ''/a/svc'' ''t'' ''/wt'' [] toy_machine = Add toy_ops toy_host ''/a/svc'' ''t'' ''/wt'' [] toy_machine"
proof (rule Add_keeps_listed_worktree)
  show "Abs toy_host ''/a/svc'' = Inr ''/a/svc''" by code_simp
  have "isRegisteredWorktree toy_ops toy_machine ''/a/svc'' (worktree_path ''/wt'' ''/a/svc'') = Inr True" by code_simp
  then show "isRegisteredWorktree toy_ops w2 ''/a/svc'' (worktree_path ''/wt'' ''/a/svc'') = Inr True"
    if "gt_Mkdir toy_ops toy_machine ''/wt'' = Some w1" "w2 = (case gt_Prune toy_ops w1 ''/a/svc'' of Some w' \<Rightarrow> w' | None \<Rightarrow> w1)" for w1 w2
    using that by (simp add: toy_ops_def)
qed



end
