(* ===== verification/Compose.thy ===== *)
theory Compose
  imports Idle Resources Records Forwards Mounts Worktree
begin

text \<open>
  Sandboxes from project files: \<open>src/internal/cli/run.go\<close>, \<open>here.go\<close>, \<open>create.go\<close>, \<open>agent_docs.go\<close> and the
  defaults of \<open>namespace.go\<close>.

  A sandbox record extends the record of the network policy by what composition writes. The store is the store of
  policies with the namespaces and the sandbox records under their names, as loading returns them; how a
  name becomes a path on disk, and what loading restores in a record, are the subject of the theory Records. Flags of the command line and the platform are the record
  \<open>invocation\<close>. A time that is not set is \<open>None\<close>. Output to the terminal is left out, as are the
  fields that only the backends, the session history and the refresh of pull requests use.
\<close>

section \<open>Records\<close>

record NamespaceConfig = Namespace +
  nx_Files :: "HostFile list"
  nx_Shares :: "HostShare list"
  nx_Env :: "gostring list"
  nx_MCP :: "MCPServer list"
  nx_Instructions :: "gostring list"
  nx_Memory :: gostring

record sandbox_phase =
  xp_Repo :: gostring
  xp_Branch :: gostring
  xp_Status :: gostring
  xp_Order :: nat
  xp_Worktree :: gostring
  xp_InPlace :: bool
  xp_Setup :: "gostring list"
  xp_OnCreate :: "gostring list"
  xp_OnCreateAt :: "instant option"

record SandboxConfig = Sandbox +
  sx_Name :: gostring
  sx_Provider :: gostring
  sx_Profile :: gostring
  sx_Anchor :: gostring
  sx_GuestABI :: int
  sx_VMState :: gostring
  sx_DesiredState :: gostring
  sx_StopReason :: gostring
  sx_Phases :: "sandbox_phase list"
  sx_Forwards :: "PortForward list"
  sx_ReverseForwards :: "PortForward list"
  sx_Serials :: "SerialDevice list"
  sx_Files :: "HostFile list"
  sx_Shares :: "HostShare list"
  sx_MCP :: "MCPServer list"
  sx_RequiredEnv :: "gostring list"
  sx_Instructions :: "gostring list"
  sx_Memory :: gostring
  sx_Nested :: bool
  sx_CPU :: uint64
  sx_MemoryMiB :: uint64
  sx_MemoryMaxMiB :: uint64
  sx_DiskMiB :: uint64
  sx_SwapMiB :: int
  sx_IdleTimeoutSec :: int
  sx_Image :: gostring
  sx_Kernel :: gostring
  sx_Setup :: "gostring list"
  sx_OnCreate :: "gostring list"
  sx_OnCreateAt :: "instant option"
  sx_CreatePending :: bool
  sx_CreatePendingReason :: gostring
  sx_CreatedAt :: instant

datatype platform = Darwin | Linux

record invocation =
  iv_platform :: platform
  iv_providerFlag :: gostring
  iv_imageFlag :: gostring
  iv_kernelFlag :: gostring
  iv_namespaceFlag :: gostring
  iv_runProfile :: gostring
  iv_now :: instant

record cstore =
  cs_net :: Store
  cs_namespaces :: "(gostring, NamespaceConfig file_state) gomap"
  cs_records :: "(gostring, SandboxConfig file_state) gomap"
  cs_writable :: bool

datatype compose_error =
    Conflict gostring "gostring \<times> gostring" "gostring \<times> gostring"
  | RegisterErr register_error
  | NetworkErr store_error
  | ForwardErr forward_error
  | SerialErr serial_error
  | MountErr mount_error
  | MCPErr mcp_error
  | ResourceErr resource_error
  | DocErr gostring gostring
  | NamespaceErr gostring
  | RecordErr gostring
  | SaveErr gostring
  | WorktreeErr gostring worktree_error
  | LoadErr load_error
  | NoProjectFile gostring
  | ProfileNeedsFile gostring gostring
  | NotAProjectFile gostring
  | InvalidName gostring
  | NameTooLong nat
  | ReservedName gostring

definition ProviderFirecracker :: gostring where "ProviderFirecracker = ''firecracker''"
definition CurrentGuestABI :: int where "CurrentGuestABI = 1"
definition PhaseStatusPending :: gostring where "PhaseStatusPending = ''pending''"
definition PhaseStatusActive :: gostring where "PhaseStatusActive = ''active''"

definition defaultProvider :: "platform \<Rightarrow> gostring" where
  "defaultProvider p = (case p of Darwin \<Rightarrow> ProviderVZ | Linux \<Rightarrow> ProviderFirecracker)"

section \<open>Values the files must agree on\<close>

text \<open>The loop over the repositories, with the value picked so far and the repository it came from.\<close>

fun pick_agreed :: "gostring \<Rightarrow> (Template \<Rightarrow> gostring) \<Rightarrow> gostring \<Rightarrow> gostring \<Rightarrow> Repo list \<Rightarrow> compose_error + gostring" where
  "pick_agreed kind f picked pickedRepo [] = Inr picked"
| "pick_agreed kind f picked pickedRepo (r # repos) =
     (let v = (case rp_Clawkfile r of None \<Rightarrow> [] | Some t \<Rightarrow> f t) in
      if v = [] then pick_agreed kind f picked pickedRepo repos
      else if picked = [] then pick_agreed kind f v (rp_Name r) repos
      else if v \<noteq> picked then Inl (Conflict kind (pickedRepo, picked) (rp_Name r, v))
      else pick_agreed kind f picked pickedRepo repos)"

definition resolveProvider :: "invocation \<Rightarrow> Workspace \<Rightarrow> compose_error + gostring" where
  "resolveProvider iv ws =
     (if tm_Provider (ws_File ws) \<noteq> [] then Inr (Provider_Normalize (tm_Provider (ws_File ws)))
      else if iv_providerFlag iv \<noteq> [] then Inr (Provider_Normalize (iv_providerFlag iv))
      else andThen (pick_agreed ''provider'' tm_Provider [] [] (ws_Repos ws)) (\<lambda>picked.
        Inr (if picked \<noteq> [] then Provider_Normalize picked else defaultProvider (iv_platform iv))))"

definition defaultImage :: gostring where "defaultImage = ''ghcr.io/clawkwork/clawk-dev:v0''"

definition expand_home :: "host \<Rightarrow> gostring \<Rightarrow> gostring" where
  "expand_home h ref = (if has_prefix ref ''~/'' then (case ExpandPath h ref of Inr p \<Rightarrow> p | Inl _ \<Rightarrow> ref) else ref)"

definition finalizeImageRef :: "invocation \<Rightarrow> host \<Rightarrow> gostring \<Rightarrow> gostring" where
  "finalizeImageRef iv h ref =
     (let ref = (if iv_imageFlag iv \<noteq> [] then iv_imageFlag iv else ref) in
      expand_home h (if ref = [] then defaultImage else ref))"

definition resolveImage :: "invocation \<Rightarrow> host \<Rightarrow> Workspace \<Rightarrow> compose_error + gostring" where
  "resolveImage iv h ws =
     (if tm_Image (ws_File ws) \<noteq> [] then Inr (finalizeImageRef iv h (tm_Image (ws_File ws)))
      else andThen (pick_agreed ''image'' tm_Image [] [] (ws_Repos ws)) (\<lambda>picked. Inr (finalizeImageRef iv h picked)))"

definition finalizeKernelRef :: "invocation \<Rightarrow> host \<Rightarrow> gostring \<Rightarrow> gostring" where
  "finalizeKernelRef iv h ref = expand_home h (if iv_kernelFlag iv \<noteq> [] then iv_kernelFlag iv else ref)"

definition resolveKernel :: "invocation \<Rightarrow> host \<Rightarrow> Workspace \<Rightarrow> compose_error + gostring" where
  "resolveKernel iv h ws =
     (if tm_Kernel (ws_File ws) \<noteq> [] then Inr (finalizeKernelRef iv h (tm_Kernel (ws_File ws)))
      else andThen (pick_agreed ''kernel'' tm_Kernel [] [] (ws_Repos ws)) (\<lambda>picked. Inr (finalizeKernelRef iv h picked)))"

section \<open>Environment and agent documents\<close>

definition unionStrings :: "gostring list \<Rightarrow> gostring list \<Rightarrow> gostring list" where
  "unionStrings a b = a @ dedup_from a b"

fun resolveAgentDocs :: "host \<Rightarrow> gostring \<Rightarrow> AgentDoc list \<Rightarrow> compose_error + gostring list" where
  "resolveAgentDocs h baseDir [] = Inr []"
| "resolveAgentDocs h baseDir (d # docs) =
     (if ad_Path d = [] then map_sum id (\<lambda>out. ad_Text d # out) (resolveAgentDocs h baseDir docs)
      else let p = (if IsAbs (ad_Path d) then ad_Path d else Join [baseDir, ad_Path d]) in
        case ho_ReadFile h p of
          ReadOk data \<Rightarrow> map_sum id (\<lambda>out. data # out) (resolveAgentDocs h baseDir docs)
        | _ \<Rightarrow> Inl (DocErr baseDir (ad_Path d)))"

fun join_blank :: "gostring list \<Rightarrow> gostring" where
  "join_blank [] = []"
| "join_blank [w] = w"
| "join_blank (w # v # ws) = w @ [CHR 0x0A, CHR 0x0A] @ join_blank (v # ws)"

definition joinMemory :: "gostring list \<Rightarrow> gostring" where
  "joinMemory parts = join_blank (filter (\<lambda>p. trim_space p \<noteq> []) parts)"

section \<open>Namespaces\<close>

definition createNamespace :: "invocation \<Rightarrow> gostring" where
  "createNamespace iv = (if iv_namespaceFlag iv \<noteq> [] then iv_namespaceFlag iv else DefaultNamespace)"

definition validateNamespaceName :: "gostring \<Rightarrow> bool" where
  "validateNamespaceName name \<longleftrightarrow> name \<noteq> [] \<and> \<not> list_ex (\<lambda>c. c \<in> {CHR ''/'', CHR 92, CHR '' '', CHR 9}) name"

definition empty_namespace_config :: "gostring \<Rightarrow> NamespaceConfig" where
  "empty_namespace_config name = \<lparr>ns_Name = name, ns_AllowedDomains = [], ns_AllowedIPs = [], ns_DeniedDomains = [],
     ns_DeniedIPs = [], ns_Use = None, nx_Files = [], nx_Shares = [], nx_Env = [], nx_MCP = [], nx_Instructions = [],
     nx_Memory = []\<rparr>"

definition LoadNamespaceConfig :: "cstore \<Rightarrow> gostring \<Rightarrow> compose_error + NamespaceConfig" where
  "LoadNamespaceConfig st name =
     (case map_of (cs_namespaces st) name of
        None \<Rightarrow> Inr (empty_namespace_config name)
      | Some Unreadable \<Rightarrow> Inl (NamespaceErr name)
      | Some (Content ns) \<Rightarrow> Inr (if ns_Name ns = [] then ns\<lparr>ns_Name := name\<rparr> else ns))"

definition config_namespace :: "SandboxConfig \<Rightarrow> gostring" where
  "config_namespace sb = (if sb_Namespace sb = [] then DefaultNamespace else sb_Namespace sb)"

definition applyNamespaceDefaults :: "cstore \<Rightarrow> SandboxConfig \<Rightarrow> compose_error + SandboxConfig" where
  "applyNamespaceDefaults st sb =
     andThen (LoadNamespaceConfig st (config_namespace sb)) (\<lambda>ns.
       Inr (sb\<lparr>sx_RequiredEnv := dedupStrings (sx_RequiredEnv sb @ nx_Env ns),
               sx_Files := appendMissingFiles (sx_Files sb) (nx_Files ns),
               sx_Shares := appendMissingShares (sx_Shares sb) (nx_Shares ns),
               sx_MCP := appendMissingMCP (sx_MCP sb) (nx_MCP ns),
               sx_Instructions := nx_Instructions ns @ sx_Instructions sb,
               sx_Memory := joinMemory [nx_Memory ns, sx_Memory sb]\<rparr>))"

definition applyWorkspaceLevelDefaults :: "host \<Rightarrow> Workspace \<Rightarrow> SandboxConfig \<Rightarrow> compose_error + SandboxConfig" where
  "applyWorkspaceLevelDefaults h ws sb =
     (let sb = (if tm_Env (ws_File ws) \<noteq> [] then sb\<lparr>sx_RequiredEnv := unionStrings (tm_Env (ws_File ws)) (sx_RequiredEnv sb)\<rparr> else sb) in
      andThen (resolveAgentDocs h (ws_Root ws) (tm_Instructions (ws_File ws))) (\<lambda>instr.
      let sb = sb\<lparr>sx_Instructions := instr @ sx_Instructions sb\<rparr> in
      andThen (resolveAgentDocs h (ws_Root ws) (tm_Memory (ws_File ws))) (\<lambda>mem.
        Inr (sb\<lparr>sx_Memory := joinMemory [joinMemory mem, sx_Memory sb]\<rparr>))))"

section \<open>A sandbox from a workspace\<close>

definition resource_view :: "Workspace \<Rightarrow> Resources.workspace" where
  "resource_view ws = \<lparr>workspace.ws_File = ws_File ws, workspace.ws_Repos = map rp_Clawkfile (ws_Repos ws)\<rparr>"

definition wrap :: "('e \<Rightarrow> compose_error) \<Rightarrow> 'e + 'a \<Rightarrow> compose_error + 'a" where
  "wrap f r = map_sum f id r"

definition check :: "('e \<Rightarrow> compose_error) \<Rightarrow> 'e option \<Rightarrow> compose_error + unit" where
  "check f r = (case r of None \<Rightarrow> Inr () | Some e \<Rightarrow> Inl (f e))"

definition nested_anywhere :: "Workspace \<Rightarrow> bool" where
  "nested_anywhere ws \<longleftrightarrow> tm_Nested (ws_File ws) \<or> anyRepo ws tm_Nested"

text \<open>The record after the network policy is composed: all other values, in the order of the code.\<close>

definition compose_record ::
  "host \<Rightarrow> invocation \<Rightarrow> gostring \<Rightarrow> gostring \<Rightarrow> Workspace \<Rightarrow> NetworkPolicy \<Rightarrow> compose_error + SandboxConfig" where
  "compose_record h iv name provider ws network =
     andThen (wrap ForwardErr (mergeForwards ws)) (\<lambda>forwards.
     andThen (wrap ForwardErr (mergeReverseForwards ws)) (\<lambda>reverse.
     andThen (wrap MountErr (mergeFiles h ws)) (\<lambda>files.
     andThen (wrap MountErr (mergeShares h ws)) (\<lambda>shares.
     andThen (wrap SerialErr (mergeSerials h ws)) (\<lambda>serials.
     andThen (wrap MCPErr (mergeMCP ws)) (\<lambda>mcp.
     case resolveResources (resource_view ws) of (cpu, mem, memMax) \<Rightarrow>
     andThen (check ResourceErr (validateResources mem memMax)) (\<lambda>_.
     andThen (check ResourceErr (validateDisk (resolveDisk (resource_view ws)))) (\<lambda>_.
     andThen (resolveImage iv h ws) (\<lambda>image.
     andThen (resolveKernel iv h ws) (\<lambda>kernel.
       Inr \<lparr>sb_Namespace = createNamespace iv, sb_Network = network, sx_Name = name, sx_Provider = provider,
         sx_Profile = iv_runProfile iv, sx_Anchor = [], sx_GuestABI = CurrentGuestABI, sx_VMState = VMStateStopped,
         sx_DesiredState = [], sx_StopReason = [], sx_Phases = [],
         sx_Forwards = forwards, sx_ReverseForwards = reverse, sx_Serials = serials, sx_Files = files, sx_Shares = shares,
         sx_MCP = mcp, sx_RequiredEnv = [], sx_Instructions = [], sx_Memory = [], sx_Nested = nested_anywhere ws, sx_CPU = cpu,
         sx_MemoryMiB = fst (normalizeMemory mem memMax), sx_MemoryMaxMiB = snd (normalizeMemory mem memMax),
         sx_DiskMiB = resolveDisk (resource_view ws), sx_SwapMiB = resolveSwap (resource_view ws),
         sx_IdleTimeoutSec = resolveIdleTimeout (resource_view ws), sx_Image = image, sx_Kernel = kernel,
         sx_Setup = tm_OnUp (ws_File ws), sx_OnCreate = tm_OnCreate (ws_File ws),
         sx_OnCreateAt = None, sx_CreatePending = False, sx_CreatePendingReason = [], sx_CreatedAt = iv_now iv\<rparr>))))))))))"

definition SaveConfig :: "SandboxConfig \<Rightarrow> cstore \<Rightarrow> compose_error + cstore" where
  "SaveConfig sb st =
     (if cs_writable st then Inr (st\<lparr>cs_records := AList.update (sx_Name sb) (Content sb) (cs_records st)\<rparr>) else Inl (SaveErr (sx_Name sb)))"

definition ExistsConfig :: "cstore \<Rightarrow> gostring \<Rightarrow> bool" where
  "ExistsConfig st name \<longleftrightarrow> map_of (cs_records st) name \<noteq> None"

definition LoadConfig :: "cstore \<Rightarrow> gostring \<Rightarrow> compose_error + SandboxConfig" where
  "LoadConfig st name =
     (case map_of (cs_records st) name of Some (Content sb) \<Rightarrow> Inr sb | _ \<Rightarrow> Inl (RecordErr name))"

text \<open>What code outside the repository does for the composition.\<close>

record outside =
  ou_std :: stdlib
  ou_digest8 :: "gostring \<Rightarrow> gostring"
  ou_durationString :: "duration \<Rightarrow> gostring"

definition finish_create :: "outside \<Rightarrow> SandboxConfig \<Rightarrow> cstore \<Rightarrow> cstore \<times> (compose_error + SandboxConfig)" where
  "finish_create ou sb st =
     (let sb = sb\<lparr>sb_Network := applyMCPNetwork (ou_std ou) (sx_MCP sb) (sb_Network sb)\<rparr> in
      case SaveConfig sb st of Inl err \<Rightarrow> (st, Inl err) | Inr st' \<Rightarrow> (st', Inr sb))"

definition loadOrCreateSandboxFromWorkspace ::
  "outside \<Rightarrow> host \<Rightarrow> invocation \<Rightarrow> gostring \<Rightarrow> Workspace \<Rightarrow> cstore \<Rightarrow> cstore \<times> (compose_error + SandboxConfig)" where
  "loadOrCreateSandboxFromWorkspace ou h iv name ws st =
     (if ExistsConfig st name then (st, LoadConfig st name)
      else case resolveProvider iv ws of
        Inl err \<Rightarrow> (st, Inl err)
      | Inr provider \<Rightarrow>
          (case registerFilePolicies (ou_durationString ou) (ws_Policies ws) (cs_net st) of
             (net, Some err) \<Rightarrow> (st\<lparr>cs_net := net\<rparr>, Inl (RegisterErr err))
           | (net, None) \<Rightarrow>
               (case composeNetworkPolicy (ou_digest8 ou) (Some (ws_File ws) # map rp_Clawkfile (ws_Repos ws)) net of
                  (net, Inl err) \<Rightarrow> (st\<lparr>cs_net := net\<rparr>, Inl (NetworkErr err))
                | (net, Inr network) \<Rightarrow>
                    let st = st\<lparr>cs_net := net\<rparr> in
                    (case andThen (compose_record h iv name provider ws network) (\<lambda>sb.
                            andThen (applyNamespaceDefaults st sb) (applyWorkspaceLevelDefaults h ws)) of
                       Inl err \<Rightarrow> (st, Inl err)
                     | Inr sb \<Rightarrow> finish_create ou sb st))))"

section \<open>Phases\<close>

definition addPhase :: "'w gitops \<Rightarrow> host \<Rightarrow> gostring \<Rightarrow> gostring \<Rightarrow> Repo \<Rightarrow> 'w \<Rightarrow> SandboxConfig \<Rightarrow> 'w \<times> (compose_error + SandboxConfig)" where
  "addPhase g h wtDir branch repo w sb =
     (let res = ResolveBranchName g w (rp_RepoPath repo) branch in
      case Add g h (rp_RepoPath repo) (br_Branch res) wtDir (br_StartPoint res) w of
        (w', Inl err) \<Rightarrow> (w', Inl (WorktreeErr (rp_RepoPath repo) err))
      | (w', Inr wtPath) \<Rightarrow>
          (w',
           andThen
             (case rp_Clawkfile repo of
                None \<Rightarrow> Inr (sb, [], [])
              | Some t \<Rightarrow>
                  andThen (resolveAgentDocs h (rp_RepoPath repo) (tm_Instructions t)) (\<lambda>instr.
                  andThen (resolveAgentDocs h (rp_RepoPath repo) (tm_Memory t)) (\<lambda>mem.
                    Inr (sb\<lparr>sx_RequiredEnv := unionStrings (sx_RequiredEnv sb) (tm_Env t),
                            sx_Instructions := sx_Instructions sb @ instr,
                            sx_Memory := joinMemory (sx_Memory sb # mem)\<rparr>, tm_OnUp t, tm_OnCreate t))))
             (\<lambda>(sb, onUp, onCreate).
               Inr (sb\<lparr>sx_Phases := sx_Phases sb @
                 [\<lparr>xp_Repo = rp_RepoPath repo, xp_Branch = br_Branch res, xp_Status = PhaseStatusPending, xp_Order = length (sx_Phases sb),
                   xp_Worktree = wtPath, xp_InPlace = False, xp_Setup = onUp, xp_OnCreate = onCreate, xp_OnCreateAt = None\<rparr>]\<rparr>))))"

text \<open>The repositories that have a phase are collected before the loop; the record is saved after every phase.\<close>

fun add_phases_loop ::
  "'w gitops \<Rightarrow> host \<Rightarrow> gostring \<Rightarrow> gostring \<Rightarrow> gostring list \<Rightarrow> Repo list \<Rightarrow> 'w \<Rightarrow> cstore \<Rightarrow> SandboxConfig \<Rightarrow>
    'w \<times> cstore \<times> (compose_error + SandboxConfig)" where
  "add_phases_loop g h wtDir branch existing [] w st sb = (w, st, Inr sb)"
| "add_phases_loop g h wtDir branch existing (repo # repos) w st sb =
     (if rp_RepoPath repo \<in> set existing then add_phases_loop g h wtDir branch existing repos w st sb
      else case addPhase g h wtDir branch repo w sb of
        (w', Inl err) \<Rightarrow> (w', st, Inl err)
      | (w', Inr sb') \<Rightarrow>
          (case SaveConfig sb' st of
             Inl err \<Rightarrow> (w', st, Inl err)
           | Inr st' \<Rightarrow> add_phases_loop g h wtDir branch existing repos w' st' sb'))"

definition addPhases ::
  "'w gitops \<Rightarrow> host \<Rightarrow> gostring \<Rightarrow> Workspace \<Rightarrow> gostring \<Rightarrow> 'w \<Rightarrow> cstore \<Rightarrow> SandboxConfig \<Rightarrow> 'w \<times> cstore \<times> (compose_error + SandboxConfig)" where
  "addPhases g h wtDir ws branch w st sb =
     add_phases_loop g h wtDir branch (map xp_Repo (sx_Phases sb)) (ws_Repos ws) w st sb"

section \<open>The project file of an invocation\<close>

definition looksLikePath :: "gostring \<Rightarrow> bool" where
  "looksLikePath s \<longleftrightarrow>
     has_prefix s ''./'' \<or> has_prefix s ''/'' \<or> has_prefix s ''../'' \<or> has_prefix s ''~'' \<or>
     has_suffix s RetiredWorkspaceFileName \<or> slash \<in> set s"

fun is_global_error :: "load_error \<Rightarrow> bool" where
  "is_global_error (ErrGlobalMod e) = True"
| "is_global_error e = False"

text \<open>The working directory is the empty text when it cannot be read.\<close>

definition resolveSource :: "stdlib \<Rightarrow> host \<Rightarrow> gostring \<Rightarrow> gostring \<Rightarrow> compose_error + Workspace" where
  "resolveSource std h source profile =
     (let cwd = (case ho_Getwd h of None \<Rightarrow> [] | Some d \<Rightarrow> d) in
      if source = [] then
        (case FindWorkspaceWithProfile std h cwd profile of
           Inr ws \<Rightarrow> Inr ws
         | Inl err \<Rightarrow>
             if err \<noteq> ErrNoWorkspace then Inl (LoadErr err)
             else case LoadStandaloneClawkfileWithProfile std h cwd profile of
               Inr ws \<Rightarrow> Inr ws
             | Inl err \<Rightarrow>
                 if is_global_error err then Inl (LoadErr err)
                 else if profile \<noteq> [] then Inl (ProfileNeedsFile profile cwd)
                 else case WorkspaceFromGitRepo std h cwd of
                   Inr ws \<Rightarrow> Inr ws
                 | Inl gerr \<Rightarrow> if is_global_error gerr then Inl (LoadErr gerr) else Inl (NoProjectFile cwd))
      else if source = RepoFileName
      then wrap LoadErr (LoadClawkfilePathWithProfile std h (Join [cwd, RepoFileName]) profile)
      else if looksLikePath source \<and> Base source = RetiredWorkspaceFileName then Inl (LoadErr (RetiredWorkspaceFileError source))
      else if looksLikePath source \<and> Base source = RepoFileName
      then wrap LoadErr (LoadClawkfilePathWithProfile std h source profile)
      else Inl (NotAProjectFile source))"

section \<open>Names\<close>

definition sandbox_char :: "char \<Rightarrow> bool" where
  "sandbox_char c \<longleftrightarrow> is_lower c \<or> is_upper c \<or> is_digit c \<or> c \<in> {CHR ''.'', CHR ''_'', CHR ''-''}"

definition maxSandboxNameLen :: nat where "maxSandboxNameLen = 40"

text \<open>Every run of other bytes becomes one dash; the flag says that the byte before was in a run.\<close>

fun replace_runs :: "bool \<Rightarrow> gostring \<Rightarrow> gostring" where
  "replace_runs inRun [] = []"
| "replace_runs inRun (c # s) =
     (if sandbox_char c then c # replace_runs False s
      else if inRun then replace_runs True s else CHR ''-'' # replace_runs True s)"

definition trim_separators :: "gostring \<Rightarrow> gostring" where
  "trim_separators s = rev (dropWhile (\<lambda>c. c \<in> set ''-._'') (rev s))"

definition sanitiseName :: "(gostring \<Rightarrow> gostring) \<Rightarrow> gostring \<Rightarrow> gostring" where
  "sanitiseName digest8 branch =
     (let s = replace_runs False branch in
      if length s \<le> maxSandboxNameLen then s
      else trim_separators (take (maxSandboxNameLen - 9) s) @ ''-'' @ digest8 s)"

definition validName :: "gostring \<Rightarrow> bool" where
  "validName name \<longleftrightarrow> name \<noteq> [] \<and> (is_lower (hd name) \<or> is_upper (hd name) \<or> is_digit (hd name)) \<and> list_all sandbox_char name"

definition reservedAgentNames :: "gostring list" where
  "reservedAgentNames = [''claude'', ''codex'', ''pi'', ''opencode'']"

definition reservedSandboxNames :: "gostring list" where
  "reservedSandboxNames =
     [''new'', ''up'', ''down'', ''destroy'', ''status'', ''list'', ''work'', ''run'', ''worktree'', ''attach'',
      ''branch'', ''network'', ''forward'', ''image'', ''system'', ''pr'', ''doctor'', ''debug'', ''here'', ''phase'', ''vshell'',
      ''__daemon'', ''__vzd'', ''__loop-mount'', ''__loop-unmount''] @ reservedAgentNames"

definition validateSandboxName :: "gostring \<Rightarrow> compose_error option" where
  "validateSandboxName name =
     (if \<not> validName name then Some (InvalidName name)
      else if maxSandboxNameLen < length name then Some (NameTooLong (length name))
      else if name \<in> set reservedSandboxNames then Some (ReservedName name)
      else None)"

section \<open>Sandboxes of a directory\<close>

text \<open>\<open>EvalSymlinks\<close> is a question to the file system.\<close>

definition canonicalPath :: "(gostring \<Rightarrow> gostring option) \<Rightarrow> host \<Rightarrow> gostring \<Rightarrow> gostring" where
  "canonicalPath evalSymlinks h p =
     (let p = (case Abs h p of Inr a \<Rightarrow> a | Inl _ \<Rightarrow> p) in case evalSymlinks p of Some r \<Rightarrow> r | None \<Rightarrow> p)"

definition isAnchored :: "SandboxConfig \<Rightarrow> bool" where
  "isAnchored sb \<longleftrightarrow> sx_Anchor sb \<noteq> [] \<or> list_ex xp_InPlace (sx_Phases sb)"

definition matchesHereSandbox :: "(gostring \<Rightarrow> gostring option) \<Rightarrow> host \<Rightarrow> SandboxConfig \<Rightarrow> gostring \<Rightarrow> bool" where
  "matchesHereSandbox evalSymlinks h sb cwd \<longleftrightarrow>
     (sx_Anchor sb \<noteq> [] \<and> canonicalPath evalSymlinks h (sx_Anchor sb) = canonicalPath evalSymlinks h cwd) \<or>
     list_ex (\<lambda>p. xp_InPlace p \<and> canonicalPath evalSymlinks h (xp_Worktree p) = canonicalPath evalSymlinks h cwd) (sx_Phases sb)"

definition pathHashSuffix :: "(gostring \<Rightarrow> gostring) \<Rightarrow> gostring \<Rightarrow> gostring" where
  "pathHashSuffix digest8 p = take 6 (digest8 p)"

definition deriveHereSandboxName ::
  "(gostring \<Rightarrow> gostring) \<Rightarrow> (gostring \<Rightarrow> gostring option) \<Rightarrow> host \<Rightarrow> cstore \<Rightarrow> gostring \<Rightarrow> compose_error + gostring" where
  "deriveHereSandboxName digest8 evalSymlinks h st cwd =
     andThen (wrap LoadErr (Abs h cwd)) (\<lambda>abs0.
       let p = (case evalSymlinks abs0 of Some r \<Rightarrow> r | None \<Rightarrow> abs0);
           base = sanitiseName digest8 (Base p);
           cand = (if base = [] then ''root'' else base) in
       case LoadConfig st cand of
         Inl _ \<Rightarrow> Inr cand
       | Inr existing \<Rightarrow>
           if matchesHereSandbox evalSymlinks h existing p then Inr cand
           else Inr (cand @ ''_'' @ pathHashSuffix digest8 p))"

definition hereCWDAndName ::
  "(gostring \<Rightarrow> gostring) \<Rightarrow> (gostring \<Rightarrow> gostring option) \<Rightarrow> host \<Rightarrow> cstore \<Rightarrow> compose_error + gostring \<times> gostring" where
  "hereCWDAndName digest8 evalSymlinks h st =
     (case ho_Getwd h of
        None \<Rightarrow> Inl (LoadErr GetwdFailed)
      | Some d \<Rightarrow>
          let cwd = canonicalPath evalSymlinks h d in
          andThen (deriveHereSandboxName digest8 evalSymlinks h st cwd) (\<lambda>name. Inr (cwd, name)))"

fun is_absent_error :: "load_error \<Rightarrow> bool" where
  "is_absent_error (FileAbsent p) = True"
| "is_absent_error e = False"

definition loadHereClawkfile :: "stdlib \<Rightarrow> host \<Rightarrow> gostring \<Rightarrow> load_error + Template option \<times> PolicyDef list \<times> gostring" where
  "loadHereClawkfile std h cwd =
     (case LoadStandaloneClawkfileWithProfile std h cwd [] of
        Inl err \<Rightarrow>
          if is_global_error err then Inl err
          else if \<not> is_absent_error err then Inr (None, [], [])
          else (case LoadGlobal std h of
                  Inl gerr \<Rightarrow> if gerr \<noteq> ErrNoGlobalMod then Inl gerr else Inr (None, [], [])
                | Inr g \<Rightarrow> Inr (Some (gl_Template g), gl_Policies g, gl_Path g))
      | Inr ws \<Rightarrow>
          (case ws_Repos ws of
             [] \<Rightarrow> Inr (None, [], [])
           | r # _ \<Rightarrow> Inr (rp_Clawkfile r, ws_Policies ws, ws_GlobalPath ws)))"

text \<open>Whether \<open>newProvider\<close> returns a provider: a build has the one of its platform.\<close>

definition newProvider :: "platform \<Rightarrow> gostring \<Rightarrow> bool" where
  "newProvider pl p \<longleftrightarrow> (case pl of Darwin \<Rightarrow> p = ProviderVZ | Linux \<Rightarrow> p = ProviderFirecracker)"

text \<open>A record with a provider that cannot run here is moved to one that can.\<close>

definition heal_provider :: "invocation \<Rightarrow> SandboxConfig \<Rightarrow> SandboxConfig" where
  "heal_provider iv sb =
     (if newProvider (iv_platform iv) (Provider_Normalize (sx_Provider sb)) then sb
      else sb\<lparr>sx_Provider := (if newProvider (iv_platform iv) (Provider_Normalize (iv_providerFlag iv)) then Provider_Normalize (iv_providerFlag iv)
                             else defaultProvider (iv_platform iv))\<rparr>)"

definition here_provider :: "invocation \<Rightarrow> Template option \<Rightarrow> gostring" where
  "here_provider iv cf =
     (let p = Provider_Normalize (iv_providerFlag iv);
          p = (if p = [] \<and> cf \<noteq> None \<and> tm_Provider (the cf) \<noteq> [] then Provider_Normalize (tm_Provider (the cf)) else p) in
      if p = [] then defaultProvider (iv_platform iv) else p)"

text \<open>An absent file gives the values of an empty one.\<close>

definition here_record ::
  "host \<Rightarrow> invocation \<Rightarrow> gostring \<Rightarrow> gostring \<Rightarrow> Template option \<Rightarrow> NetworkPolicy \<Rightarrow> compose_error + SandboxConfig" where
  "here_record h iv name cwd cf network =
     (let t = (case cf of Some t \<Rightarrow> t | None \<Rightarrow> empty_template) in
      andThen (resolveAgentDocs h cwd (tm_Instructions t)) (\<lambda>instr.
      andThen (resolveAgentDocs h cwd (tm_Memory t)) (\<lambda>mem.
      andThen (wrap ForwardErr (parseForwardSpecs (tm_Forwards t) cwd)) (\<lambda>forwards.
      andThen (wrap ForwardErr (parseReverseForwardSpecs (tm_ReverseForwards t) cwd)) (\<lambda>reverse.
      andThen (wrap MountErr (composeFiles h (map (\<lambda>f. \<lparr>fi_Origin = ''clawk.mod'', fi_Spec = f\<rparr>) (tm_Files t)))) (\<lambda>files.
      andThen (wrap MountErr (composeShares h (map (\<lambda>s. \<lparr>si_Origin = ''clawk.mod'', si_Spec = s\<rparr>) (tm_Shares t)))) (\<lambda>shares.
      andThen (wrap SerialErr (composeSerials h (serial_sources ''clawk.mod'' (tm_Serials t)))) (\<lambda>serials.
      andThen (wrap MCPErr (composeMCP (map (\<lambda>s. \<lparr>mi_Origin = ''clawk.mod'', mi_Spec = s\<rparr>) (tm_MCP t)))) (\<lambda>mcp.
      andThen (check ResourceErr (validateResources (tm_MemoryMiB t) (tm_MemoryMaxMiB t))) (\<lambda>_.
      andThen (check ResourceErr (validateDisk (tm_DiskMiB t))) (\<lambda>_.
        Inr \<lparr>sb_Namespace = DefaultNamespace, sb_Network = network, sx_Name = name, sx_Provider = here_provider iv cf,
          sx_Profile = [], sx_Anchor = cwd, sx_GuestABI = CurrentGuestABI, sx_VMState = VMStateStopped,
          sx_DesiredState = [], sx_StopReason = [], sx_Phases = [\<lparr>xp_Repo = cwd, xp_Branch = [], xp_Status = PhaseStatusActive, xp_Order = 0, xp_Worktree = cwd,
            xp_InPlace = True, xp_Setup = tm_OnUp t, xp_OnCreate = tm_OnCreate t, xp_OnCreateAt = None\<rparr>],
          sx_Forwards = forwards, sx_ReverseForwards = reverse, sx_Serials = serials, sx_Files = files, sx_Shares = shares,
          sx_MCP = mcp, sx_RequiredEnv = tm_Env t, sx_Instructions = instr, sx_Memory = joinMemory mem, sx_Nested = tm_Nested t,
          sx_CPU = tm_CPU t, sx_MemoryMiB = fst (normalizeMemory (tm_MemoryMiB t) (tm_MemoryMaxMiB t)),
          sx_MemoryMaxMiB = snd (normalizeMemory (tm_MemoryMiB t) (tm_MemoryMaxMiB t)), sx_DiskMiB = tm_DiskMiB t,
          sx_SwapMiB = tm_SwapMiB t, sx_IdleTimeoutSec = tm_IdleTimeoutSec t, sx_Image = finalizeImageRef iv h (tm_Image t),
          sx_Kernel = finalizeKernelRef iv h (tm_Kernel t), sx_Setup = [], sx_OnCreate = [],
          sx_OnCreateAt = None, sx_CreatePending = False, sx_CreatePendingReason = [], sx_CreatedAt = iv_now iv\<rparr>)))))))))))"

definition loadOrCreateHereSandbox ::
  "outside \<Rightarrow> host \<Rightarrow> invocation \<Rightarrow> gostring \<Rightarrow> gostring \<Rightarrow> cstore \<Rightarrow> cstore \<times> (compose_error + SandboxConfig \<times> bool)" where
  "loadOrCreateHereSandbox ou h iv name cwd st =
     (if ExistsConfig st name then
        (case LoadConfig st name of
           Inl err \<Rightarrow> (st, Inl err)
         | Inr sb \<Rightarrow>
             if newProvider (iv_platform iv) (Provider_Normalize (sx_Provider sb)) then (st, Inr (sb, False))
             else (case SaveConfig (heal_provider iv sb) st of
                     Inl err \<Rightarrow> (st, Inl err)
                   | Inr st' \<Rightarrow> (st', Inr (heal_provider iv sb, False))))
      else case loadHereClawkfile (ou_std ou) h cwd of
        Inl err \<Rightarrow> (st, Inl (LoadErr err))
      | Inr (cf, policies, globalPath) \<Rightarrow>
          (case registerFilePolicies (ou_durationString ou) policies (cs_net st) of
             (net, Some err) \<Rightarrow> (st\<lparr>cs_net := net\<rparr>, Inl (RegisterErr err))
           | (net, None) \<Rightarrow>
               (case composeNetworkPolicy (ou_digest8 ou) [cf] net of
                  (net, Inl err) \<Rightarrow> (st\<lparr>cs_net := net\<rparr>, Inl (NetworkErr err))
                | (net, Inr network) \<Rightarrow>
                    let st = st\<lparr>cs_net := net\<rparr> in
                    (case here_record h iv name cwd cf network of
                       Inl err \<Rightarrow> (st, Inl err)
                     | Inr sb \<Rightarrow> apsnd (map_sum id (\<lambda>sb. (sb, True))) (finish_create ou sb st)))))"

section \<open>The work command\<close>

datatype work_outcome = Resume SandboxConfig | Prepared SandboxConfig

text \<open>
  \<open>clawk work\<close> up to the point where the machine is booted: an existing sandbox with phases is resumed, any other is
  created or completed.
\<close>

definition runWorkCmd ::
  "outside \<Rightarrow> 'w gitops \<Rightarrow> host \<Rightarrow> invocation \<Rightarrow> gostring \<Rightarrow> gostring list \<Rightarrow> gostring \<Rightarrow> gostring \<Rightarrow> gostring \<Rightarrow> 'w \<Rightarrow> cstore \<Rightarrow>
    'w \<times> cstore \<times> (compose_error + work_outcome)" where
  "runWorkCmd ou g h iv runName runOnly source branch wtDir w st =
     (let sbName = (if runName = [] then sanitiseName (ou_digest8 ou) branch else runName) in
      case validateSandboxName sbName of
        Some err \<Rightarrow> (w, st, Inl err)
      | None \<Rightarrow>
          if ExistsConfig st sbName \<and> (case LoadConfig st sbName of Inl _ \<Rightarrow> True | Inr sb \<Rightarrow> sx_Phases sb \<noteq> [])
          then (w, st, map_sum id Resume (LoadConfig st sbName))
          else case andThen (resolveSource (ou_std ou) h source (iv_runProfile iv)) (\<lambda>ws. wrap LoadErr (FilterRepos ws runOnly)) of
            Inl err \<Rightarrow> (w, st, Inl err)
          | Inr ws \<Rightarrow>
              if ws_Repos ws = [] then (w, st, Inl (NoProjectFile []))
              else case loadOrCreateSandboxFromWorkspace ou h iv sbName ws st of
                (st, Inl err) \<Rightarrow> (w, st, Inl err)
              | (st, Inr sb) \<Rightarrow>
                  (case addPhases g h wtDir ws branch w st sb of
                     (w, st, Inl err) \<Rightarrow> (w, st, Inl err)
                   | (w, st, Inr sb) \<Rightarrow>
                       (case SaveConfig sb st of
                          Inl err \<Rightarrow> (w, st, Inl err)
                        | Inr st \<Rightarrow> (w, st, Inr (Prepared sb)))))"

section \<open>Agreement\<close>

definition declared :: "(Template \<Rightarrow> gostring) \<Rightarrow> Repo list \<Rightarrow> gostring set" where
  "declared f repos = {v. v \<noteq> [] \<and> (\<exists>r \<in> set repos. \<exists>t. rp_Clawkfile r = Some t \<and> f t = v)}"

lemma declared_Cons:
  "declared f (r # repos) = (case rp_Clawkfile r of None \<Rightarrow> declared f repos
     | Some t \<Rightarrow> if f t = [] then declared f repos else insert (f t) (declared f repos))"
  by (auto simp: declared_def split: option.split)

lemma pick_agreed_picked:
  "picked \<noteq> [] \<Longrightarrow> pick_agreed kind f picked from repos = Inr v \<longleftrightarrow> v = picked \<and> declared f repos \<subseteq> {picked}"
  by (induction repos) (auto simp: declared_Cons declared_def [of f "[]"] Let_def split: option.split)

lemma pick_agreed_exact:
  "pick_agreed kind f [] from repos = Inr v \<longleftrightarrow> declared f repos = (if v = [] then {} else {v})"
proof (induction repos)
  case (Cons r repos)
  show ?case
  proof (cases "\<exists>t. rp_Clawkfile r = Some t \<and> f t \<noteq> []")
    case True
    then obtain t where t: "rp_Clawkfile r = Some t" "f t \<noteq> []" by blast
    have "insert (f t) (declared f repos) = (if v = [] then {} else {v}) \<longleftrightarrow> v = f t \<and> declared f repos \<subseteq> {f t}"
      using t(2) by auto
    with t show ?thesis by (simp add: declared_Cons pick_agreed_picked)
  next
    case False
    then show ?thesis using Cons by (cases "rp_Clawkfile r") (simp_all add: declared_Cons)
  qed
qed (simp add: declared_def)

section \<open>Well-formed records\<close>

definition config_ok :: "SandboxConfig \<Rightarrow> bool" where
  "config_ok sb \<longleftrightarrow>
     list_all port_ok (sx_Forwards sb) \<and> distinct (map pw_HostPort (sx_Forwards sb)) \<and>
     list_all port_ok (sx_ReverseForwards sb) \<and> distinct (map pw_GuestPort (sx_ReverseForwards sb)) \<and>
     list_all device_ok (sx_Serials sb) \<and> distinct (map sd_GuestName (sx_Serials sb)) \<and> distinct (map sd_HostPath (sx_Serials sb)) \<and>
     distinct (map hf_GuestPath (sx_Files sb)) \<and> distinct (map hs_GuestPath (sx_Shares sb)) \<and> distinct (map ms_Name (sx_MCP sb)) \<and>
     validateResources (sx_MemoryMiB sb) (sx_MemoryMaxMiB sb) = None \<and> validateDisk (sx_DiskMiB sb) = None"

text \<open>The layer of the network policy is the one of the servers in the record, and the layers are in order.\<close>

definition network_settled :: "stdlib \<Rightarrow> SandboxConfig \<Rightarrow> bool" where
  "network_settled std sb \<longleftrightarrow>
     filter (\<lambda>b. nb_Origin b = BlockOriginMCP) (np_Blocks (sb_Network sb)) = mcp_layer std (sx_MCP sb) \<and>
     sorted (map rank_of (np_Blocks (sb_Network sb)))"

lemma composed_files_distinct: "composeFiles h src = Inr fs \<Longrightarrow> distinct (map hf_GuestPath fs)"
  by (auto simp: composeFiles_def file_claims.claims_exact first_by_distinct)

lemma composed_shares_distinct: "composeShares h src = Inr fs \<Longrightarrow> distinct (map hs_GuestPath fs)"
  by (auto simp: composeShares_def share_claims.claims_exact first_by_distinct)

lemma composed_servers_distinct: "composeMCP src = Inr ms \<Longrightarrow> distinct (map ms_Name ms)"
  by (simp add: composeMCP_exact first_by_distinct)

lemma wrap_Inr [simp]: "wrap f r = Inr x \<longleftrightarrow> r = Inr x"
  by (cases r) (auto simp: wrap_def)

lemma check_Inr [simp]: "check f r = Inr x \<longleftrightarrow> r = None"
  by (cases r) (auto simp: check_def)

lemma normalize_validates:
  "validateResources a b = None \<Longrightarrow> validateResources (fst (normalizeMemory a b)) (snd (normalizeMemory a b)) = None"
  by (auto simp: validateResources_def normalizeMemory_def Let_def split: if_splits)

lemma compose_record_ok:
  assumes "compose_record h iv name provider ws network = Inr sb"
  shows "config_ok sb \<and> sx_Name sb = name \<and> sb_Network sb = network"
proof -
  obtain cpu mem memMax where res: "resolveResources (resource_view ws) = (cpu, mem, memMax)" by (metis prod_cases3)
  from assms show ?thesis
    by (auto simp: compose_record_def res andThen_Inr mergeForwards_def mergeReverseForwards_def mergeFiles_def mergeShares_def
        mergeSerials_def mergeMCP_def config_ok_def composed_files_distinct composed_shares_distinct composed_servers_distinct
        normalize_validates dest: merged_ports composed_serials)
qed

lemma here_record_ok: "here_record h iv name cwd cf network = Inr sb \<Longrightarrow> config_ok sb \<and> sx_Name sb = name \<and> sb_Network sb = network"
  by (auto simp: here_record_def Let_def andThen_Inr parseForwardSpecs_def parseReverseForwardSpecs_def config_ok_def
      composed_files_distinct composed_shares_distinct composed_servers_distinct normalize_validates
      dest: directed_ports composed_serials)

lemma append_new_keeps: "distinct (map key have) \<Longrightarrow> distinct (map key (have @ append_new key (map key have) add))"
  using append_new_layered [of key "have" add] by (simp add: layered_under_def)

lemma namespace_defaults_ok:
  assumes "applyNamespaceDefaults st sb = Inr sb'" "config_ok sb"
  shows "config_ok sb' \<and> sx_Name sb' = sx_Name sb \<and> sb_Network sb' = sb_Network sb"
  using assms
  by (auto simp: append_new_keeps applyNamespaceDefaults_def andThen_Inr config_ok_def appendMissingFiles_def appendMissingShares_def appendMissingMCP_def
      simp del: map_append distinct_append)

lemma workspace_defaults_ok:
  assumes "applyWorkspaceLevelDefaults h ws sb = Inr sb'" "config_ok sb"
  shows "config_ok sb' \<and> sx_Name sb' = sx_Name sb \<and> sb_Network sb' = sb_Network sb"
  using assms by (auto simp: applyWorkspaceLevelDefaults_def Let_def andThen_Inr config_ok_def)

lemma finish_create_ok:
  assumes "finish_create ou sb st = (st', Inr sb')" "config_ok sb"
  shows "config_ok sb' \<and> network_settled (ou_std ou) sb' \<and> LoadConfig st' (sx_Name sb) = Inr sb'"
  using assms by (auto simp: finish_create_def Let_def SaveConfig_def network_settled_def config_ok_def applyMCP_blocks applyMCP_sorted
      LoadConfig_def update_conv' split: sum.splits if_splits)

lemma created_from_workspace_ok:
  assumes "loadOrCreateSandboxFromWorkspace ou h iv name ws st = (st', Inr sb)" "\<not> ExistsConfig st name"
  shows "config_ok sb \<and> network_settled (ou_std ou) sb \<and> LoadConfig st' name = Inr sb"
proof -
  from assms obtain st1 provider network sb0 sb1 sb2 where
    parts: "compose_record h iv name provider ws network = Inr sb0" "applyNamespaceDefaults st1 sb0 = Inr sb1"
    "applyWorkspaceLevelDefaults h ws sb1 = Inr sb2" "finish_create ou sb2 st1 = (st', Inr sb)"
    by (auto simp: loadOrCreateSandboxFromWorkspace_def andThen_Inr Let_def split: sum.splits prod.splits option.splits)
  from compose_record_ok [OF parts(1)] namespace_defaults_ok [OF parts(2)]
    workspace_defaults_ok [OF parts(3)]
  have "config_ok sb2" "sx_Name sb2 = name" by auto
  with finish_create_ok [OF parts(4)] show ?thesis by simp
qed

lemma created_here_ok:
  assumes "loadOrCreateHereSandbox ou h iv name cwd st = (st', Inr (sb, created))" "\<not> ExistsConfig st name"
  shows "config_ok sb \<and> network_settled (ou_std ou) sb \<and> LoadConfig st' name = Inr sb"
proof -
  from assms obtain st1 cf network sb0 where
    parts: "here_record h iv name cwd cf network = Inr sb0" "finish_create ou sb0 st1 = (st', Inr sb)"
    by (auto simp: loadOrCreateHereSandbox_def Let_def apsnd_def map_prod_def map_sum_Inr_iff split: sum.splits prod.splits option.splits)
  from here_record_ok [OF parts(1)] finish_create_ok [OF parts(2)] show ?thesis by auto
qed

section \<open>Names\<close>

text \<open>What the digest is: eight hexadecimal digits.\<close>

definition hex_digest :: "(gostring \<Rightarrow> gostring) \<Rightarrow> bool" where
  "hex_digest digest8 \<longleftrightarrow> (\<forall>x. length (digest8 x) = 8 \<and> list_all (\<lambda>c. c \<in> set ''0123456789abcdef'') (digest8 x))"

lemma hex_sandbox_char: "c \<in> set ''0123456789abcdef'' \<Longrightarrow> sandbox_char c"
proof -
  have "list_all sandbox_char ''0123456789abcdef''" by code_simp
  then show "c \<in> set ''0123456789abcdef'' \<Longrightarrow> sandbox_char c" unfolding list_all_iff by blast
qed

lemma sandbox_char_dash [simp]: "sandbox_char (CHR ''-'')"
  by (simp add: sandbox_char_def)

lemma replace_runs_chars: "list_all sandbox_char (replace_runs b s)"
  by (induction b s rule: replace_runs.induct) auto

lemma replace_runs_id: "list_all sandbox_char s \<Longrightarrow> replace_runs b s = s"
  by (induction s arbitrary: b) auto

lemma replace_runs_length: "length (replace_runs b s) \<le> length s"
  by (induction b s rule: replace_runs.induct) auto

lemma trim_separators_part: "length (trim_separators s) \<le> length s" "set (trim_separators s) \<subseteq> set s"
  unfolding trim_separators_def
  by (metis length_rev length_dropWhile_le) (metis set_rev set_dropWhileD subsetI)

lemma sanitised_length: "hex_digest digest8 \<Longrightarrow> length (sanitiseName digest8 b) \<le> maxSandboxNameLen"
proof -
  assume hex: "hex_digest digest8"
  have "length (trim_separators (take (maxSandboxNameLen - 9) s)) \<le> maxSandboxNameLen - 9" for s
    by (rule order_trans [OF trim_separators_part(1)]) simp
  then have "length (trim_separators (take (maxSandboxNameLen - 9) s) @ ''-'' @ digest8 s) \<le> maxSandboxNameLen" for s
    using hex by (simp add: hex_digest_def maxSandboxNameLen_def)
  then show ?thesis by (simp add: sanitiseName_def Let_def)
qed

lemma sanitised_chars: "hex_digest digest8 \<Longrightarrow> list_all sandbox_char (sanitiseName digest8 b)"
proof -
  assume "hex_digest digest8"
  then have "list_all sandbox_char (digest8 s)" for s using hex_sandbox_char by (auto simp: hex_digest_def list_all_iff)
  moreover have "list_all sandbox_char (trim_separators (take n (replace_runs False b)))" for n
    using replace_runs_chars [of False b] trim_separators_part(2) [of "take n (replace_runs False b)"] set_take_subset [of n "replace_runs False b"]
    by (auto simp: list_all_iff)
  ultimately show ?thesis using replace_runs_chars [of False b] by (simp add: sanitiseName_def Let_def)
qed

lemma sanitise_again: "list_all sandbox_char s \<Longrightarrow> length s \<le> maxSandboxNameLen \<Longrightarrow> sanitiseName digest8 s = s"
  by (simp add: sanitiseName_def replace_runs_id)

section \<open>Phases\<close>

lemma addPhase_phases:
  "addPhase g h wtDir branch repo w sb = (w', Inr sb') \<Longrightarrow>
     \<exists>ph. sx_Phases sb' = sx_Phases sb @ [ph] \<and> xp_Repo ph = rp_RepoPath repo \<and> sx_Name sb' = sx_Name sb"
  by (auto simp: addPhase_def Let_def andThen_Inr split: prod.splits sum.splits option.splits)

lemma add_phases_covered:
  "add_phases_loop g h wtDir branch existing repos w st sb = (w', st', Inr sb') \<Longrightarrow> set existing \<subseteq> xp_Repo ` set (sx_Phases sb) \<Longrightarrow>
     rp_RepoPath ` set repos \<union> xp_Repo ` set (sx_Phases sb) \<subseteq> xp_Repo ` set (sx_Phases sb')"
proof (induction repos arbitrary: w st sb)
  case (Cons repo repos)
  show ?case
  proof (cases "rp_RepoPath repo \<in> set existing")
    case True
    with Cons.prems Cons.IH [of w st sb] show ?thesis by auto
  next
    case False
    with Cons.prems obtain w1 sb1 st1 where
      step: "addPhase g h wtDir branch repo w sb = (w1, Inr sb1)" "add_phases_loop g h wtDir branch existing repos w1 st1 sb1 = (w', st', Inr sb')"
      by (auto split: prod.splits sum.splits)
    from addPhase_phases [OF step(1)] have sb1: "xp_Repo ` set (sx_Phases sb1) = insert (rp_RepoPath repo) (xp_Repo ` set (sx_Phases sb))" by auto
    with Cons.prems(2) have "set existing \<subseteq> xp_Repo ` set (sx_Phases sb1)" by blast
    from Cons.IH [OF step(2) this] sb1 show ?thesis by simp
  qed
qed simp

lemma add_phases_done:
  "rp_RepoPath ` set repos \<subseteq> set existing \<Longrightarrow> add_phases_loop g h wtDir branch existing repos w st sb = (w, st, Inr sb)"
  by (induction repos) auto

section \<open>The name of a directory's sandbox\<close>

lemma derive_alt:
  "Abs h cwd = Inr a \<Longrightarrow> canonicalPath ev h cwd = p \<Longrightarrow> cand = (if sanitiseName d8 (Base p) = [] then ''root'' else sanitiseName d8 (Base p)) \<Longrightarrow>
   deriveHereSandboxName d8 ev h st cwd =
     (case LoadConfig st cand of
        Inl _ \<Rightarrow> Inr cand
      | Inr existing \<Rightarrow> if matchesHereSandbox ev h existing p then Inr cand else Inr (cand @ ''_'' @ pathHashSuffix d8 p))"
  by (auto simp: deriveHereSandboxName_def andThen_def wrap_def canonicalPath_def Let_def split: option.splits)

lemma LoadConfig_update:
  "LoadConfig (st\<lparr>cs_records := AList.update n (Content sb) rs\<rparr>) m = (if m = n then Inr sb else LoadConfig (st\<lparr>cs_records := rs\<rparr>) m)"
  by (simp add: LoadConfig_def update_conv')

lemma here_record_anchor:
  "here_record h iv name cwd cf network = Inr sb \<Longrightarrow> sx_Anchor sb = cwd \<and> sx_Name sb = name \<and> matchesHereSandbox ev h' sb cwd"
  by (auto simp: here_record_def Let_def andThen_Inr matchesHereSandbox_def)

lemma created_here_saved:
  assumes "loadOrCreateHereSandbox ou h iv name cwd st = (st', Inr (sb, True))"
  shows "matchesHereSandbox ev h' sb cwd \<and> (\<exists>net. st' = st\<lparr>cs_net := net, cs_records := AList.update name (Content sb) (cs_records st)\<rparr>)"
proof -
  from assms obtain net cf network sb0 where
    parts: "here_record h iv name cwd cf network = Inr sb0" "finish_create ou sb0 (st\<lparr>cs_net := net\<rparr>) = (st', Inr sb)"
    by (auto simp: loadOrCreateHereSandbox_def Let_def apsnd_def map_prod_def map_sum_Inr_iff split: sum.splits prod.splits option.splits if_splits)
  from parts(2) have "sb = sb0\<lparr>sb_Network := applyMCPNetwork (ou_std ou) (sx_MCP sb0) (sb_Network sb0)\<rparr>"
    "st' = st\<lparr>cs_net := net, cs_records := AList.update (sx_Name sb0) (Content sb) (cs_records st)\<rparr>"
    by (auto simp: finish_create_def Let_def SaveConfig_def split: sum.splits if_splits)
  with here_record_anchor [OF parts(1), of ev h'] show ?thesis by (auto simp: matchesHereSandbox_def)
qed

section \<open>A host and its store\<close>

definition demo_digest :: "gostring \<Rightarrow> gostring" where "demo_digest s = ''0a1b2c3d''"

definition demo_outside :: outside where
  "demo_outside = \<lparr>ou_std = demo_std, ou_digest8 = demo_digest, ou_durationString = (\<lambda>_. ''1h'')\<rparr>"

definition repo_host :: host where
  "repo_host = demo_host\<lparr>ho_Getwd := Some ''/r''\<rparr>"

definition demo_invocation :: invocation where
  "demo_invocation = \<lparr>iv_platform = Linux, iv_providerFlag = [], iv_imageFlag = [], iv_kernelFlag = [],
     iv_namespaceFlag = [], iv_runProfile = [], iv_now = 0\<rparr>"

definition here_store :: cstore where
  "here_store = \<lparr>cs_net = \<lparr>ds_policies = [], ds_caches = [], ds_namespaces = [], ds_writable = True\<rparr>,
     cs_namespaces = [], cs_records = [], cs_writable = True\<rparr>"

definition here_created :: "cstore \<times> (compose_error + SandboxConfig \<times> bool)" where
  "here_created = loadOrCreateHereSandbox demo_outside repo_host demo_invocation ''r'' ''/r'' here_store"

definition here_sandbox :: SandboxConfig where "here_sandbox = fst (projr (snd here_created))"

lemma here_was_created:
  "loadOrCreateHereSandbox demo_outside repo_host demo_invocation ''r'' ''/r'' here_store = (fst here_created, Inr (here_sandbox, True))"
proof -
  have "(case snd here_created of Inl _ \<Rightarrow> False | Inr r \<Rightarrow> snd r)" by code_simp
  then show ?thesis unfolding here_sandbox_def
    by (simp add: here_created_def [symmetric] prod_eq_iff split: sum.splits)
qed

lemma demo_sandbox_cpu: "sx_CPU here_sandbox = 4"
  by code_simp

section \<open>Properties\<close>



text \<open>
  Provider, image and kernel: a value of the workspace file decides; otherwise the repositories that declare one must
  agree, and the result is the value they agree on, or the default when none declares one. A provider on
  the command line comes before the repositories and after the workspace file, an image or a kernel before both.
\<close>

theorem declared_values_agree:
  "(resolveImage iv h ws = Inr v \<longleftrightarrow>
     (if tm_Image (ws_File ws) \<noteq> [] then v = finalizeImageRef iv h (tm_Image (ws_File ws))
      else \<exists>p. declared tm_Image (ws_Repos ws) = (if p = [] then {} else {p}) \<and> v = finalizeImageRef iv h p)) \<and>
   (resolveKernel iv h ws = Inr v \<longleftrightarrow>
     (if tm_Kernel (ws_File ws) \<noteq> [] then v = finalizeKernelRef iv h (tm_Kernel (ws_File ws))
      else \<exists>p. declared tm_Kernel (ws_Repos ws) = (if p = [] then {} else {p}) \<and> v = finalizeKernelRef iv h p)) \<and>
   (resolveProvider iv ws = Inr v \<longleftrightarrow>
     (if tm_Provider (ws_File ws) \<noteq> [] then v = Provider_Normalize (tm_Provider (ws_File ws))
      else if iv_providerFlag iv \<noteq> [] then v = Provider_Normalize (iv_providerFlag iv)
      else \<exists>p. declared tm_Provider (ws_Repos ws) = (if p = [] then {} else {p}) \<and>
        v = (if p = [] then defaultProvider (iv_platform iv) else Provider_Normalize p)))"
  by (intro conjI) (auto simp: resolveImage_def resolveKernel_def resolveProvider_def andThen_Inr pick_agreed_exact)

text \<open>
  The name made from a branch has at most 40 bytes, all of them letters, digits, dots, underscores or dashes, and
  making a name from it again changes nothing; it is accepted as a sandbox name unless it is empty, starts with a
  separator or is reserved.
\<close>

theorem sanitised_names:
  assumes "hex_digest digest8"
  shows "length (sanitiseName digest8 branch) \<le> 40 \<and> list_all sandbox_char (sanitiseName digest8 branch) \<and>
    sanitiseName digest8 (sanitiseName digest8 branch) = sanitiseName digest8 branch \<and>
    (validateSandboxName (sanitiseName digest8 branch) = None \<longleftrightarrow>
       sanitiseName digest8 branch \<noteq> [] \<and> hd (sanitiseName digest8 branch) \<notin> set ''-._'' \<and>
       sanitiseName digest8 branch \<notin> set reservedSandboxNames)"
proof -
  let ?n = "sanitiseName digest8 branch"
  have len: "length ?n \<le> maxSandboxNameLen" and chars: "list_all sandbox_char ?n"
    using sanitised_length [OF assms] sanitised_chars [OF assms] by simp_all
  have "validName ?n \<longleftrightarrow> ?n \<noteq> [] \<and> hd ?n \<notin> set ''-._''"
  proof (cases ?n)
    case (Cons c cs)
    then have "sandbox_char c" using chars by simp
    then have "is_lower c \<or> is_upper c \<or> is_digit c \<longleftrightarrow> c \<notin> set ''-._''"
      by (auto simp: sandbox_char_def is_lower_def is_upper_def is_digit_def less_eq_char_def)
    with Cons chars show ?thesis by (simp add: validName_def)
  qed (simp add: validName_def)
  then show ?thesis using len chars sanitise_again [OF chars len] by (simp add: validateSandboxName_def maxSandboxNameLen_def)
qed

theorem sanitised_names_witness: "length (sanitiseName demo_digest ''feature/INFRA-1234'') \<le> 40 \<and> sanitiseName demo_digest ''feature/INFRA-1234'' = ''feature-INFRA-1234''"
proof -
  have "hex_digest demo_digest" by (simp add: hex_digest_def demo_digest_def)
  moreover have "sanitiseName demo_digest ''feature/INFRA-1234'' = ''feature-INFRA-1234''" by code_simp
  ultimately show ?thesis using sanitised_names [of demo_digest "''feature/INFRA-1234''"] by blast
qed




text \<open>
  Adding phases a second time changes nothing: once the phases of a workspace have been added, adding them to the result,
  with any host, any git state and any branch, touches neither the worktrees nor the store.
\<close>

theorem addPhases_idempotent:
  assumes "addPhases g h wtDir ws branch w st sb = (w', st', Inr sb')"
  shows "rp_RepoPath ` set (ws_Repos ws) \<subseteq> xp_Repo ` set (sx_Phases sb') \<and>
    addPhases g2 h2 wtDir2 ws branch2 w2 st2 sb' = (w2, st2, Inr sb')"
proof -
  have "rp_RepoPath ` set (ws_Repos ws) \<subseteq> xp_Repo ` set (sx_Phases sb')"
    using add_phases_covered [OF assms [unfolded addPhases_def]] by simp
  then show ?thesis by (simp add: addPhases_def add_phases_done)
qed

text \<open>A git that creates every worktree it is asked for; the state is the list of paths.\<close>

definition shop_git :: "gostring list gitops" where
  "shop_git = \<lparr>gt_Stat = (\<lambda>w p. if p \<in> set w then StatDir else StatAbsent), gt_Mkdir = (\<lambda>w p. Some w),
     gt_ShowRef = (\<lambda>w r b. False), gt_RevParse = (\<lambda>w r b. False), gt_WorktreeAdd = (\<lambda>w r args. Some (args ! 2 # w)), gt_Prune = (\<lambda>w r. Some w),
     gt_List = (\<lambda>w r. Some []), gt_RemoveAll = (\<lambda>w p. Some w), gt_WorktreeRemove = (\<lambda>w r p. Inl w), gt_PRState = (\<lambda>w r b. None),
     gt_OriginHead = (\<lambda>w r. None), gt_Status = (\<lambda>w p. Some [])\<rparr>"

definition shop_workspace :: Workspace where
  "shop_workspace = \<lparr>ws_Root = ''/w'', ws_File = empty_template,
     ws_Repos = [\<lparr>rp_Name = ''a'', rp_Path = ''./a'', rp_RepoPath = ''/w/a'', rp_Clawkfile = None\<rparr>],
     ws_Policies = [], ws_GlobalPath = [], ws_GlobalProfileMatched = False\<rparr>"

definition shop_added :: "gostring list \<times> cstore \<times> (compose_error + SandboxConfig)" where
  "shop_added = addPhases shop_git repo_host ''/wt'' shop_workspace ''fix'' [''/w/a/.git''] here_store (here_sandbox\<lparr>sx_Phases := []\<rparr>)"

lemma shop_phases_added:
  "addPhases shop_git repo_host ''/wt'' shop_workspace ''fix'' [''/w/a/.git''] here_store (here_sandbox\<lparr>sx_Phases := []\<rparr>) =
     (fst shop_added, fst (snd shop_added), Inr (projr (snd (snd shop_added))))"
  "map xp_Worktree (sx_Phases (projr (snd (snd shop_added)))) = [''/wt/a'']"
proof -
  have "\<not> isl (snd (snd shop_added))" by code_simp
  then show "addPhases shop_git repo_host ''/wt'' shop_workspace ''fix'' [''/w/a/.git''] here_store (here_sandbox\<lparr>sx_Phases := []\<rparr>) =
     (fst shop_added, fst (snd shop_added), Inr (projr (snd (snd shop_added))))"
    by (simp add: shop_added_def [symmetric] prod_eq_iff)
qed code_simp

theorem addPhases_idempotent_witness:
  "addPhases shop_git demo_host ''/wt'' shop_workspace ''other'' [''/wt/a''] here_store (projr (snd (snd shop_added))) =
     ([''/wt/a''], here_store, Inr (projr (snd (snd shop_added))))"
  using addPhases_idempotent [OF shop_phases_added(1), of shop_git demo_host "''/wt''" "''other''" "[''/wt/a'']" here_store] by blast

text \<open>
  A sandbox that has phases is resumed from its record: the project file, the flags, the git state and the branch are not
  consulted, and neither the worktrees nor the store changes.
\<close>

theorem resume_ignores_template:
  assumes "validateSandboxName name = None" and "LoadConfig st name = Inr sb" and "sx_Phases sb \<noteq> []"
  shows "runWorkCmd ou g h iv name runOnly source branch wtDir w st = (w, st, Inr (Resume sb))"
  using assms by (auto simp: runWorkCmd_def validateSandboxName_def validName_def ExistsConfig_def LoadConfig_def split: option.splits if_splits)

theorem resume_ignores_template_witness:
  "runWorkCmd demo_outside shop_git demo_host demo_invocation ''r'' [] ''no-such-file'' ''other'' ''/wt'' [] (fst here_created) =
     ([], fst here_created, Inr (Resume here_sandbox))"
proof (rule resume_ignores_template)
  show "LoadConfig (fst here_created) ''r'' = Inr here_sandbox"
    using created_here_ok [OF here_was_created] by (simp add: ExistsConfig_def here_store_def)
  show "validateSandboxName ''r'' = None" "sx_Phases here_sandbox \<noteq> []" by code_simp+
qed

section \<open>Edges\<close>

text \<open>
  A directory whose sanitised name fills the limit and is already the name of another sandbox gets a name over the
  limit, which the record then keeps although \<open>validateSandboxName\<close> rejects it.
\<close>

lemma collided_name_over_limit:
  assumes "hex_digest digest8" "length cand = maxSandboxNameLen"
  shows "length (cand @ ''_'' @ pathHashSuffix digest8 p) = 47 \<and> validateSandboxName (cand @ ''_'' @ pathHashSuffix digest8 p) \<noteq> None"
proof -
  have "length (digest8 p) = 8" using assms(1) by (simp add: hex_digest_def)
  then show ?thesis using assms(2) by (simp add: pathHashSuffix_def maxSandboxNameLen_def validateSandboxName_def)
qed

text \<open>The root directory's sandbox is named with a dash: a path's base is never sanitised to the empty text.\<close>

lemma root_named_dash: "sanitiseName demo_digest (Base ''/'') = ''-''"
  by code_simp

text \<open>
  The last entry of a name wins in the guest. A repository's entry that equals the workspace's is dropped as a
  repetition, so the entry of the namespace, which comes between them, wins over the repository's.
\<close>

lemma namespace_env_shadows_repo: "unionStrings (unionStrings [''A=1''] [''A=2'']) [''A=1''] = [''A=1'', ''A=2'']"
  by code_simp

end
