(* ===== verification/GuestEnv.thy ===== *)
theory GuestEnv
  imports Envspec Compose
begin

text \<open>
  What reaches the processes of the guest: the environment entries of a sandbox (\<open>src/internal/sandbox/shares.go\<close>), the
  long-lived token (\<open>oauth_token.go\<close>), the environment of the agent (\<open>src/internal/cli/agent_session.go\<close> on the host,
  \<open>src/internal/agentembed/main.go.in\<close> in the guest) and its command line (\<open>agents.go\<close>, \<open>run.go\<close>).

  The scripts clawk writes are run by a shell of the guest. The part of the shell they use, comments, exports of
  double-quoted values and single-quoted words, is written out below; anything else, an expansion in particular,
  gives None.
\<close>

section \<open>Definitions\<close>

subsection \<open>Environment entries\<close>

datatype env_error = InvalidEntry gostring envspec_error | Unresolved resolve_error

definition declared_name :: "gostring \<Rightarrow> gostring list" where
  "declared_name entry = (case Parse entry of Inl _ \<Rightarrow> [] | Inr spec \<Rightarrow> [sp_Name spec])"

definition DeclaredEnvNames :: "SandboxConfig \<Rightarrow> gostring list" where
  "DeclaredEnvNames sb = concat (map declared_name (sx_RequiredEnv sb))"

text \<open>One entry against the host environment; the warning about an unset variable is left out.\<close>

definition resolve_entry :: "(gostring \<Rightarrow> gostring option) \<Rightarrow> gostring \<Rightarrow> env_error + gostring" where
  "resolve_entry lookup entry =
     (case Parse entry of
        Inl err \<Rightarrow> Inl (InvalidEntry entry err)
      | Inr spec \<Rightarrow>
          (case Resolve_env lookup spec of
             Inl err \<Rightarrow> Inl (Unresolved err)
           | Inr (val, warn) \<Rightarrow> Inr (sp_Name spec @ ''='' @ val)))"

fun resolve_entries :: "(gostring \<Rightarrow> gostring option) \<Rightarrow> gostring list \<Rightarrow> gostring list \<times> env_error list" where
  "resolve_entries lookup [] = ([], [])"
| "resolve_entries lookup (e # es) =
     (case resolve_entries lookup es of (out, errs) \<Rightarrow>
        (case resolve_entry lookup e of Inl err \<Rightarrow> (out, err # errs) | Inr v \<Rightarrow> (v # out, errs)))"

text \<open>The second component is the joined error: nil exactly when it is empty.\<close>

definition ResolveEnv :: "(gostring \<Rightarrow> gostring option) \<Rightarrow> SandboxConfig \<Rightarrow> gostring list \<times> env_error list" where
  "ResolveEnv lookup sb = resolve_entries lookup (sx_RequiredEnv sb)"

subsection \<open>Scripts\<close>

definition backslash :: char where "backslash = CHR 0x5C"
definition dquote :: char where "dquote = CHR 0x22"
definition squote :: char where "squote = CHR 0x27"
definition line_feed :: char where "line_feed = CHR 0x0A"

definition active_in_quotes :: "char list" where
  "active_in_quotes = [backslash, dquote, CHR ''$'', CHR 0x60]"

definition shellEscapeDoubleQuoted :: "gostring \<Rightarrow> gostring" where
  "shellEscapeDoubleQuoted v = concat (map (\<lambda>c. if c \<in> set active_in_quotes then [backslash, c] else [c]) v)"

definition export_line :: "gostring \<Rightarrow> gostring \<Rightarrow> gostring" where
  "export_line name val = ''export '' @ name @ ''='' @ [dquote] @ shellEscapeDoubleQuoted val @ [dquote, line_feed]"

record snapshot_file =
  sf_HostPath :: gostring
  sf_Content :: "gostring option"
  sf_GuestPath :: gostring
  sf_Mode :: "32 word"
  sf_Owner :: gostring

definition em_dash :: gostring where "em_dash = [CHR 0xE2, CHR 0x80, CHR 0x94]"

definition env_header :: gostring where
  "env_header = ''# Generated by clawk '' @ em_dash @ '' host env vars requested in clawk.mod'' @ [line_feed]"

definition export_entry :: "gostring \<Rightarrow> gostring" where
  "export_entry e = (case cut_byte e (CHR ''='') of (name, val, found) \<Rightarrow> export_line name val)"

definition EnvFile :: "(gostring \<Rightarrow> gostring option) \<Rightarrow> SandboxConfig \<Rightarrow> env_error list + snapshot_file option" where
  "EnvFile lookup sb =
     (case ResolveEnv lookup sb of (entries, errs) \<Rightarrow>
        if errs \<noteq> [] then Inl errs
        else if entries = [] then Inr None
        else Inr (Some \<lparr>sf_HostPath = [], sf_Content = Some (env_header @ concat (map export_entry entries)),
          sf_GuestPath = ''/etc/profile.d/99-clawk-env.sh'', sf_Mode = 0x1A4, sf_Owner = ''root:root''\<rparr>))"

subsection \<open>The long-lived token\<close>

datatype OAuthTokenSource = OAuthTokenSourceNone | OAuthTokenSourceEnv | OAuthTokenSourceFile

definition oauthTokenEnvVar :: gostring where "oauthTokenEnvVar = ''CLAUDE_CODE_OAUTH_TOKEN''"
definition oauthTokenFilename :: gostring where "oauthTokenFilename = ''claude-oauth-token''"

definition OAuthTokenPath :: "gostring \<Rightarrow> gostring" where
  "OAuthTokenPath rootDir = Join [rootDir, oauthTokenFilename]"

definition Getenv :: "(gostring \<Rightarrow> gostring option) \<Rightarrow> gostring \<Rightarrow> gostring" where
  "Getenv lookup k = (case lookup k of None \<Rightarrow> [] | Some v \<Rightarrow> v)"

definition LoadOAuthToken ::
  "(gostring \<Rightarrow> gostring option) \<Rightarrow> (gostring \<Rightarrow> read_result) \<Rightarrow> gostring \<Rightarrow> gostring \<times> OAuthTokenSource" where
  "LoadOAuthToken lookup readFile rootDir =
     (let v = trim_space (Getenv lookup oauthTokenEnvVar) in
      if v \<noteq> [] then (v, OAuthTokenSourceEnv)
      else case readFile (OAuthTokenPath rootDir) of
        ReadOk data \<Rightarrow>
          (let v = trim_space data in if v = [] then ([], OAuthTokenSourceNone) else (v, OAuthTokenSourceFile))
      | _ \<Rightarrow> ([], OAuthTokenSourceNone))"

definition oauth_header :: gostring where
  "oauth_header =
     ''# Generated by clawk '' @ em_dash @ '' long-lived Claude Code OAuth token'' @ [line_feed] @
     ''# (avoids the OAuth refresh-token race across multiple sandboxes,'' @ [line_feed] @
     ''#  see anthropics/claude-code#24317 / #43392)'' @ [line_feed]"

definition OAuthTokenEnvFile :: "gostring \<Rightarrow> snapshot_file" where
  "OAuthTokenEnvFile token = \<lparr>sf_HostPath = [], sf_Content = Some (oauth_header @ export_line oauthTokenEnvVar token),
     sf_GuestPath = ''/etc/profile.d/98-clawk-claude-oauth.sh'', sf_Mode = 0x1A4, sf_Owner = ''root:root''\<rparr>"

subsection \<open>The environment of the agent\<close>

definition forwarded_terminal :: "gostring list" where
  "forwarded_terminal = [''TERM_PROGRAM'', ''TERM_PROGRAM_VERSION'', ''LC_TERMINAL'', ''LC_TERMINAL_VERSION'',
     ''ITERM_SESSION_ID'', ''ITERM_PROFILE'']"

definition add_own :: "gostring list \<Rightarrow> gostring \<Rightarrow> gostring \<Rightarrow> gostring list \<Rightarrow> gostring list" where
  "add_own names k v env = (if k \<in> set names then env else env @ [k @ ''='' @ v])"

definition add_nonempty :: "gostring list \<Rightarrow> gostring \<Rightarrow> gostring \<Rightarrow> gostring list \<Rightarrow> gostring list" where
  "add_nonempty names k v env = (if v \<noteq> [] then add_own names k v env else env)"

definition buildVSockEnv ::
  "(gostring \<Rightarrow> gostring option) \<Rightarrow> (gostring \<Rightarrow> read_result) \<Rightarrow> gostring \<Rightarrow> SandboxConfig \<Rightarrow> gostring list" where
  "buildVSockEnv lookup readFile rootDir sb =
     (let names = DeclaredEnvNames sb;
          env = fst (ResolveEnv lookup sb);
          env = add_nonempty names oauthTokenEnvVar (fst (LoadOAuthToken lookup readFile rootDir)) env;
          color = Getenv lookup ''COLORTERM'';
          env = add_own names ''COLORTERM'' (if color \<noteq> [] then color else ''truecolor'') env;
          env = fold (\<lambda>k. add_nonempty names k (Getenv lookup k)) forwarded_terminal env;
          env = add_nonempty names ''LANG'' (Getenv lookup ''LANG'') env in
      add_nonempty names ''LC_ALL'' (Getenv lookup ''LC_ALL'') env)"

text \<open>The guest side: entries are folded into a map, in order. The order of the result is that of a Go map and left open.\<close>

definition defaultPATH :: gostring where
  "defaultPATH = ''/opt/node/bin:/opt/rust/cargo/bin:/usr/local/go/bin:/usr/local/bin:/usr/bin:/bin:/usr/sbin:/sbin''"

record handshake =
  hk_Term :: gostring
  hk_Cwd :: gostring
  hk_Env :: "gostring list"

definition pickTerm :: "gostring \<Rightarrow> gostring" where
  "pickTerm t = (if t = [] then ''xterm-256color'' else t)"

definition imageEnv :: "read_result \<Rightarrow> gostring \<rightharpoonup> gostring" where
  "imageEnv image_env =
     (case image_env of
        ReadOk data \<Rightarrow>
          fold (\<lambda>line m. case cut_byte line (CHR ''='') of (k, v, found) \<Rightarrow> if found \<and> k \<noteq> [] then m(k \<mapsto> v) else m)
            (split_lines data) Map.empty
      | _ \<Rightarrow> Map.empty)"

definition agent_owned :: "gostring list" where
  "agent_owned = [''TERM'', ''SSH_AUTH_SOCK'', ''JSC_useJIT'', ''IS_SANDBOX'', ''HOME'', ''USER'', ''LOGNAME'', ''SHELL'']"

definition set_entry :: "gostring \<Rightarrow> (gostring \<rightharpoonup> gostring) \<Rightarrow> gostring \<rightharpoonup> gostring" where
  "set_entry e m = (case cut_byte e (CHR ''='') of (k, v, found) \<Rightarrow> if found then m(k \<mapsto> v) else m)"

definition set_nonempty :: "gostring \<Rightarrow> gostring \<Rightarrow> (gostring \<rightharpoonup> gostring) \<Rightarrow> gostring \<rightharpoonup> gostring" where
  "set_nonempty k v m = (if v \<noteq> [] then m(k \<mapsto> v) else m)"

definition buildChildEnv ::
  "gostring \<Rightarrow> read_result \<Rightarrow> handshake \<Rightarrow> gostring \<Rightarrow> gostring \<Rightarrow> gostring \<Rightarrow> gostring \<rightharpoonup> gostring" where
  "buildChildEnv sshSocket image_env h home loginUser shell =
     (let env = Map.empty(''PATH'' \<mapsto> defaultPATH, ''SHELL'' \<mapsto> shell, ''LANG'' \<mapsto> ''C.UTF-8'', ''TERM'' \<mapsto> pickTerm (hk_Term h),
            ''SSH_AUTH_SOCK'' \<mapsto> sshSocket, ''JSC_useJIT'' \<mapsto> ''0'', ''IS_SANDBOX'' \<mapsto> ''1'');
          env = (\<lambda>k. if k \<in> set agent_owned \<or> imageEnv image_env k = None then env k else imageEnv image_env k);
          env = set_nonempty ''WORKSPACE_DIR'' (hk_Cwd h) env;
          env = set_nonempty ''HOME'' home env;
          env = (if loginUser \<noteq> [] then env(''USER'' \<mapsto> loginUser, ''LOGNAME'' \<mapsto> loginUser) else env) in
      fold set_entry (hk_Env h) env)"

subsection \<open>The command line of the agent\<close>

record Agent =
  ag_Name :: gostring
  ag_DefaultArgs :: "gostring list"
  ag_MCPConfigFlag :: gostring

definition agents :: "Agent list" where
  "agents =
     [\<lparr>ag_Name = ''claude'', ag_DefaultArgs = [''--dangerously-skip-permissions''], ag_MCPConfigFlag = ''--mcp-config''\<rparr>,
      \<lparr>ag_Name = ''codex'', ag_DefaultArgs = [''--dangerously-bypass-approvals-and-sandbox''], ag_MCPConfigFlag = []\<rparr>,
      \<lparr>ag_Name = ''pi'', ag_DefaultArgs = [''--approve''], ag_MCPConfigFlag = []\<rparr>,
      \<lparr>ag_Name = ''opencode'', ag_DefaultArgs = [''--auto''], ag_MCPConfigFlag = []\<rparr>]"

definition agentByName :: "gostring \<Rightarrow> Agent option" where
  "agentByName name = find (\<lambda>a. ag_Name a = name) agents"

definition applySafeMode :: "bool \<Rightarrow> Agent \<Rightarrow> Agent" where
  "applySafeMode runSafe a = (if runSafe then a\<lparr>ag_DefaultArgs := []\<rparr> else a)"

definition GuestMCPConfigPath :: gostring where "GuestMCPConfigPath = GuestHome @ ''/.claude/mcp/clawk.json''"

definition launchArgs :: "SandboxConfig \<Rightarrow> Agent \<Rightarrow> gostring list \<Rightarrow> gostring list" where
  "launchArgs sb agent extra =
     ag_DefaultArgs agent @
     (if ag_MCPConfigFlag agent \<noteq> [] \<and> sx_MCP sb \<noteq> [] then [ag_MCPConfigFlag agent, GuestMCPConfigPath] else []) @ extra"

definition agentStartDir :: "gostring \<Rightarrow> SandboxConfig \<Rightarrow> gostring" where
  "agentStartDir wsRoot sb =
     (case sx_Phases sb of
        [p] \<Rightarrow> if xp_Worktree p \<noteq> [] then wsRoot @ ''/'' @ Base (xp_Worktree p) else wsRoot
      | _ \<Rightarrow> wsRoot)"

definition quoteAll :: "gostring list \<Rightarrow> gostring list" where
  "quoteAll xs = map (\<lambda>x. [squote] @ concat (map (\<lambda>c. if c = squote then [squote, backslash, squote, squote] else [c]) x) @ [squote]) xs"

definition attachAgentViaExec :: "gostring \<Rightarrow> SandboxConfig \<Rightarrow> Agent \<Rightarrow> gostring list \<Rightarrow> gostring list" where
  "attachAgentViaExec wsRoot sb agent extra =
     (let defaults = join_with_space (quoteAll (launchArgs sb agent []));
          cmdline = '': '' @ [dquote] @ ''${TERM:=xterm-256color}'' @ [dquote] @ ''; : '' @ [dquote] @ ''${COLORTERM:=truecolor}'' @ [dquote] @ ''; ''
            @ ''export TERM COLORTERM; ''
            @ ''cd '' @ agentStartDir wsRoot sb @ '' 2>/dev/null || true; ''
            @ ''exec '' @ ag_Name agent @ '' '' @ defaults @ '' '' @ [dquote] @ ''$@'' @ [dquote] in
      [''bash'', ''-lc'', cmdline, ag_Name agent] @ extra)"

section \<open>The shell\<close>

text \<open>
  A double-quoted text up to its closing quote, with what follows it. A backslash keeps its meaning before the four
  active characters and joins lines before a newline; elsewhere it stands for itself. A dollar sign or a
  backquote would start an expansion.
\<close>

fun read_dquoted :: "gostring \<Rightarrow> (gostring \<times> gostring) option" where
  "read_dquoted [] = None"
| "read_dquoted (c # s) =
     (if c = dquote then Some ([], s)
      else if c = backslash then
        (case s of
           [] \<Rightarrow> None
         | e # s' \<Rightarrow>
             if e \<in> {CHR ''$'', CHR 0x60, CHR 0x22, CHR 0x5C} then map_option (apfst (Cons e)) (read_dquoted s')
             else if e = line_feed then read_dquoted s'
             else map_option (apfst (\<lambda>v. c # e # v)) (read_dquoted s'))
      else if c = CHR ''$'' \<or> c = CHR 0x60 then None
      else map_option (apfst (Cons c)) (read_dquoted s))"

lemma read_dquoted_length: "read_dquoted s = Some (v, r) \<Longrightarrow> length r < length s"
proof (induction s arbitrary: v r rule: read_dquoted.induct)
  case (2 c s)
  show ?case
  proof (cases "c = backslash")
    case True
    with 2 show ?thesis by (fastforce split: list.splits if_splits)
  next
    case False
    with 2 show ?thesis by (fastforce split: if_splits)
  qed
qed simp

lemma cut_byte_rest_length: "cut_byte s c = (n, r, b) \<Longrightarrow> length r \<le> length s"
  by (auto simp: cut_byte_def dest: length_dropWhile_le [THEN le_trans] split: if_splits intro: le_trans [OF diff_le_self length_dropWhile_le])

lemma shrinks: "length (dropWhile P s) - Suc 0 < Suc (length s)"
  using length_dropWhile_le [of P s] by simp

lemma export_shrinks:
  assumes "cut_byte (drop 6 s) x = (n, r, b)" "read_dquoted (drop (Suc 0) r) = Some (v, a)"
  shows "length a - Suc 0 < Suc (length s)"
  using read_dquoted_length [OF assms(2)] cut_byte_rest_length [OF assms(1)] by simp

text \<open>A script of comments, empty lines and exports, run on an environment.\<close>

function run_script :: "gostring \<Rightarrow> (gostring \<rightharpoonup> gostring) \<Rightarrow> (gostring \<rightharpoonup> gostring) option" where
  "run_script [] m = Some m"
| "run_script (c # s) m =
     (if c = CHR ''#'' then run_script (drop 1 (dropWhile (\<lambda>d. d \<noteq> line_feed) s)) m
      else if c = line_feed then run_script s m
      else if has_prefix (c # s) ''export '' then
        (case cut_byte (drop 7 (c # s)) (CHR ''='') of (name, rest, found) \<Rightarrow>
           if \<not> found \<or> \<not> valid_name name \<or> \<not> has_prefix rest [dquote] then None
           else case read_dquoted (drop 1 rest) of
             None \<Rightarrow> None
           | Some (v, after) \<Rightarrow> if has_prefix after [line_feed] then run_script (drop 1 after) (m(name \<mapsto> v)) else None)
      else None)"
  by pat_completeness auto
termination
  by (relation "measure (length \<circ> fst)") (auto simp: shrinks dest!: export_shrinks [OF sym])

lemmas quote_chars = backslash_def dquote_def squote_def line_feed_def active_in_quotes_def

lemma read_escaped: "read_dquoted (shellEscapeDoubleQuoted v @ dquote # r) = Some (v, r)"
  by (induction v) (auto simp: shellEscapeDoubleQuoted_def quote_chars)

declare run_script.simps [simp del]

lemma run_empty [simp]: "run_script [] m = Some m"
  by (simp add: run_script.simps)

lemma run_comment: "line_feed \<notin> set l \<Longrightarrow> run_script (CHR ''#'' # l @ line_feed # s) m = run_script s m"
proof -
  assume "line_feed \<notin> set l"
  then have "dropWhile (\<lambda>d. d \<noteq> line_feed) (l @ line_feed # s) = line_feed # s" by (induction l) auto
  then show ?thesis by (subst run_script.simps) (simp del: dropWhile_append)
qed

lemma run_export:
  assumes "valid_name n"
  shows "run_script (export_line n v @ s) m = run_script s (m(n \<mapsto> v))"
proof -
  have cut: "cut_byte (n @ CHR ''='' # r) (CHR ''='') = (n, r, True)" for r
    using valid_name_no_eq [OF assms] by (rule cut_byte_append)
  let ?r = "dquote # shellEscapeDoubleQuoted v @ dquote # line_feed # s"
  have "export_line n v @ s = CHR ''e'' # ''xport '' @ n @ CHR ''='' # ?r" by (simp add: export_line_def)
  moreover have "run_script (CHR ''e'' # ''xport '' @ n @ CHR ''='' # ?r) m = run_script s (m(n \<mapsto> v))"
    by (subst run_script.simps) (simp add: line_feed_def has_prefix_def cut assms read_escaped)
  ultimately show ?thesis by simp
qed

lemma run_headers: "run_script (env_header @ s) m = run_script s m" "run_script (oauth_header @ s) m = run_script s m"
proof -
  have "env_header @ s = CHR ''#'' # ('' Generated by clawk '' @ em_dash @ '' host env vars requested in clawk.mod'') @ line_feed # s"
    by (simp add: env_header_def)
  also have "run_script \<dots> m = run_script s m" by (rule run_comment) (simp add: em_dash_def line_feed_def)
  finally show "run_script (env_header @ s) m = run_script s m" .
  let ?l1 = "'' Generated by clawk '' @ em_dash @ '' long-lived Claude Code OAuth token''"
  let ?l2 = "'' (avoids the OAuth refresh-token race across multiple sandboxes,''"
  let ?l3 = "''  see anthropics/claude-code#24317 / #43392)''"
  have lines: "line_feed \<notin> set ?l1" "line_feed \<notin> set ?l2" "line_feed \<notin> set ?l3" by (simp_all add: em_dash_def line_feed_def)
  have "oauth_header @ s = CHR ''#'' # ?l1 @ line_feed # CHR ''#'' # ?l2 @ line_feed # CHR ''#'' # ?l3 @ line_feed # s"
    by (simp add: oauth_header_def)
  also have "run_script \<dots> m = run_script s m"
    by (simp only: run_comment [OF lines(1)] run_comment [OF lines(2)] run_comment [OF lines(3)])
  finally show "run_script (oauth_header @ s) m = run_script s m" .
qed

section \<open>Resolved entries\<close>

definition resolved_entry :: "(gostring \<Rightarrow> gostring option) \<Rightarrow> gostring \<Rightarrow> (gostring \<times> gostring) list" where
  "resolved_entry lookup entry =
     (case Parse entry of
        Inl _ \<Rightarrow> []
      | Inr spec \<Rightarrow> (case Resolve_env lookup spec of Inl _ \<Rightarrow> [] | Inr (v, _) \<Rightarrow> [(sp_Name spec, v)]))"

definition resolved_env :: "(gostring \<Rightarrow> gostring option) \<Rightarrow> SandboxConfig \<Rightarrow> (gostring \<times> gostring) list" where
  "resolved_env lookup sb = concat (map (resolved_entry lookup) (sx_RequiredEnv sb))"

definition entry_text :: "gostring \<times> gostring \<Rightarrow> gostring" where
  "entry_text p = fst p @ ''='' @ snd p"

lemma resolved_entry_cases:
  "(\<exists>err. resolve_entry lookup e = Inl err \<and> resolved_entry lookup e = []) \<or>
   (\<exists>n v. resolve_entry lookup e = Inr (entry_text (n, v)) \<and> resolved_entry lookup e = [(n, v)] \<and> valid_name n \<and> declared_name e = [n])"
  by (cases "Parse e") (auto simp: resolve_entry_def resolved_entry_def entry_text_def declared_name_def valid_spec_def
      dest: Parse_valid split: sum.split)

lemma resolve_entries_texts: "fst (resolve_entries lookup es) = map entry_text (concat (map (resolved_entry lookup) es))"
proof (induction es)
  case (Cons e es)
  then show ?case using resolved_entry_cases [of lookup e] by (auto simp: prod_eq_iff split: prod.split)
qed simp

lemma resolve_entries_all:
  "snd (resolve_entries lookup es) = [] \<Longrightarrow> map fst (concat (map (resolved_entry lookup) es)) = concat (map declared_name es)"
proof (induction es)
  case (Cons e es)
  then show ?case using resolved_entry_cases [of lookup e] by (auto split: prod.splits)
qed simp

lemma ResolveEnv_texts: "fst (ResolveEnv lookup sb) = map entry_text (resolved_env lookup sb)"
  by (simp add: ResolveEnv_def resolved_env_def resolve_entries_texts)

lemma resolved_names_valid: "(n, v) \<in> set (resolved_env lookup sb) \<Longrightarrow> valid_name n \<and> n \<in> set (DeclaredEnvNames sb)"
proof -
  assume "(n, v) \<in> set (resolved_env lookup sb)"
  then obtain e where e: "e \<in> set (sx_RequiredEnv sb)" "(n, v) \<in> set (resolved_entry lookup e)" by (auto simp: resolved_env_def)
  with resolved_entry_cases [of lookup e] show ?thesis by (auto simp: DeclaredEnvNames_def intro!: bexI [of _ e])
qed

lemma cut_entry_text: "CHR ''='' \<notin> set (fst p) \<Longrightarrow> cut_byte (entry_text p) (CHR ''='') = (fst p, snd p, True)"
  using cut_byte_append [of "CHR ''=''" "fst p" "snd p"] by (simp add: entry_text_def)

definition put :: "gostring \<times> gostring \<Rightarrow> (gostring \<rightharpoonup> gostring) \<Rightarrow> gostring \<rightharpoonup> gostring" where
  "put p m = m(fst p \<mapsto> snd p)"

lemma fold_put: "fold put ps m = m ++ map_of (rev ps)"
proof (induction ps arbitrary: m)
  case (Cons p ps)
  have "put p m ++ map_of (rev ps) = m ++ ([fst p \<mapsto> snd p] ++ map_of (rev ps))"
    by (simp only: map_add_assoc put_def) simp
  then show ?case by (cases p) (simp add: Cons.IH)
qed simp

lemma run_exports:
  "list_all (\<lambda>p. valid_name (fst p)) ps \<Longrightarrow> run_script (concat (map (\<lambda>p. export_entry (entry_text p)) ps)) m = Some (m ++ map_of (rev ps))"
proof -
  assume valid: "list_all (\<lambda>p. valid_name (fst p)) ps"
  have "run_script (concat (map (\<lambda>p. export_entry (entry_text p)) ps)) m = Some (fold put ps m)"
    using valid
  proof (induction ps arbitrary: m)
    case (Cons p ps)
    then have "export_entry (entry_text p) = export_line (fst p) (snd p)"
      by (simp add: export_entry_def cut_entry_text valid_name_no_eq)
    with Cons show ?case by (simp add: run_export put_def [symmetric])
  qed simp
  then show ?thesis by (simp add: fold_put)
qed

lemma resolved_all_valid: "list_all (\<lambda>p. valid_name (fst p)) (resolved_env lookup sb)"
  using resolved_names_valid by (fastforce simp: list_all_iff)


section \<open>The agent's environment\<close>

text \<open>What clawk adds of its own for a host, before the declared names are left out.\<close>

definition own_env :: "(gostring \<Rightarrow> gostring option) \<Rightarrow> gostring \<Rightarrow> (gostring \<times> gostring) list" where
  "own_env lookup token =
     (if token \<noteq> [] then [(oauthTokenEnvVar, token)] else []) @
     [(''COLORTERM'', if Getenv lookup ''COLORTERM'' \<noteq> [] then Getenv lookup ''COLORTERM'' else ''truecolor'')] @
     map (\<lambda>k. (k, Getenv lookup k)) (filter (\<lambda>k. Getenv lookup k \<noteq> []) (forwarded_terminal @ [''LANG'', ''LC_ALL'']))"

lemma own_names: "(k, v) \<in> set (own_env lookup token) \<Longrightarrow> CHR ''='' \<notin> set k"
proof -
  assume mem: "(k, v) \<in> set (own_env lookup token)"
  define ks where "ks = oauthTokenEnvVar # ''COLORTERM'' # forwarded_terminal @ [''LANG'', ''LC_ALL'']"
  have "set (map fst (own_env lookup token)) \<subseteq> set ks"
    unfolding own_env_def ks_def map_append set_append map_map comp_def fst_conv by (auto simp del: filter.simps)
  with mem have "k \<in> set ks" by force
  moreover have "list_all (\<lambda>k. CHR ''='' \<notin> set k) ks" unfolding ks_def by code_simp
  ultimately show ?thesis by (simp add: list_all_iff)
qed

definition undeclared :: "gostring list \<Rightarrow> (gostring \<times> gostring) list \<Rightarrow> (gostring \<times> gostring) list" where
  "undeclared names ps = filter (\<lambda>p. fst p \<notin> set names) ps"

lemma add_own_text: "add_own names k v env = env @ map entry_text (undeclared names [(k, v)])"
  by (simp add: add_own_def undeclared_def entry_text_def)

lemma add_nonempty_text: "add_nonempty names k v env = env @ map entry_text (undeclared names (if v \<noteq> [] then [(k, v)] else []))"
  by (simp add: add_nonempty_def add_own_text undeclared_def)

lemma undeclared_append: "undeclared names (ps @ qs) = undeclared names ps @ undeclared names qs"
  by (simp add: undeclared_def)

lemma fold_add_text:
  "fold (\<lambda>k. add_nonempty names k (f k)) ks env =
     env @ map entry_text (undeclared names (map (\<lambda>k. (k, f k)) (filter (\<lambda>k. f k \<noteq> []) ks)))"
  by (induction ks arbitrary: env) (auto simp: add_nonempty_text undeclared_def)

lemma buildVSockEnv_texts:
  "buildVSockEnv lookup readFile rootDir sb =
     map entry_text (resolved_env lookup sb @
       undeclared (DeclaredEnvNames sb) (own_env lookup (fst (LoadOAuthToken lookup readFile rootDir))))"
  by (simp add: buildVSockEnv_def Let_def ResolveEnv_texts add_own_text add_nonempty_text fold_add_text own_env_def undeclared_append)
    (simp add: undeclared_def)

lemma fold_set_entries: "\<forall>p \<in> set ps. CHR ''='' \<notin> set (fst p) \<Longrightarrow> fold set_entry (map entry_text ps) m = m ++ map_of (rev ps)"
proof -
  assume "\<forall>p \<in> set ps. CHR ''='' \<notin> set (fst p)"
  then have "fold set_entry (map entry_text ps) m = fold put ps m"
    by (induction ps arbitrary: m) (simp_all add: set_entry_def cut_entry_text put_def)
  then show ?thesis by (simp add: fold_put)
qed

lemma map_of_undeclared: "map_of (rev (undeclared names ps)) k = (if k \<in> set names then None else map_of (rev ps) k)"
proof (cases "k \<in> set names")
  case True
  then have "k \<notin> fst ` set (rev (undeclared names ps))" by (auto simp: undeclared_def)
  with True show ?thesis by (simp add: map_of_eq_None_iff)
next
  case False
  then show ?thesis by (induction ps rule: rev_induct) (auto simp: undeclared_def)
qed

lemma resolved_undeclared: "k \<notin> set (DeclaredEnvNames sb) \<Longrightarrow> map_of (rev (resolved_env lookup sb)) k = None"
  using resolved_names_valid [of k _ lookup sb] by (fastforce simp: map_of_eq_None_iff)

section \<open>Properties\<close>

text \<open>
  C34: The scripts that carry the environment are exact for every value: run by a shell on any environment, the script of
  the sandbox sets each declared variable to its resolved value, the last entry of a name winning, and does
  nothing else, whatever quotes, dollar signs, backquotes, backslashes and newlines the values contain; the script of
  the token sets the token. Every declared entry is in the script, or there is no script but an error.
\<close>

theorem env_scripts_exact:
  "(case EnvFile lookup sb of
      Inl errs \<Rightarrow> errs = snd (ResolveEnv lookup sb) \<and> errs \<noteq> []
    | Inr None \<Rightarrow> resolved_env lookup sb = [] \<and> DeclaredEnvNames sb = []
    | Inr (Some f) \<Rightarrow> map fst (resolved_env lookup sb) = DeclaredEnvNames sb \<and>
        (\<exists>script. sf_Content f = Some script \<and> run_script script m = Some (m ++ map_of (rev (resolved_env lookup sb))))) \<and>
   (\<exists>script. sf_Content (OAuthTokenEnvFile token) = Some script \<and> run_script script m = Some (m(oauthTokenEnvVar \<mapsto> token)))"
proof (rule conjI)
  have all: "map fst (resolved_env lookup sb) = DeclaredEnvNames sb" if "snd (ResolveEnv lookup sb) = []"
    using that by (simp add: ResolveEnv_def resolved_env_def DeclaredEnvNames_def resolve_entries_all)
  have script: "run_script (env_header @ concat (map export_entry (map entry_text (resolved_env lookup sb)))) m =
      Some (m ++ map_of (rev (resolved_env lookup sb)))"
    using run_exports [OF resolved_all_valid] by (simp add: run_headers comp_def)
  show "case EnvFile lookup sb of Inl errs \<Rightarrow> errs = snd (ResolveEnv lookup sb) \<and> errs \<noteq> []
    | Inr None \<Rightarrow> resolved_env lookup sb = [] \<and> DeclaredEnvNames sb = []
    | Inr (Some f) \<Rightarrow> map fst (resolved_env lookup sb) = DeclaredEnvNames sb \<and>
        (\<exists>script. sf_Content f = Some script \<and> run_script script m = Some (m ++ map_of (rev (resolved_env lookup sb))))"
    using all script ResolveEnv_texts [of lookup sb] by (auto simp: EnvFile_def split: prod.split)
  have "valid_name oauthTokenEnvVar" by code_simp
  from run_export [OF this, of token "[]" m]
  show "\<exists>script. sf_Content (OAuthTokenEnvFile token) = Some script \<and> run_script script m = Some (m(oauthTokenEnvVar \<mapsto> token))"
    by (simp add: OAuthTokenEnvFile_def run_headers)
qed

text \<open>
  C33: The environment the agent process gets, variable by variable. A name the sandbox declares has the value of its last
  entry that resolves, and if none resolves the value the guest has by itself: nothing of clawk's own, the token
  included, is ever put under a declared name. Any other name has clawk's value if there is one.
\<close>

theorem agent_env_exact:
  "buildChildEnv ssh img \<lparr>hk_Term = term, hk_Cwd = cwd, hk_Env = buildVSockEnv lookup readFile rootDir sb\<rparr> home user shell k =
     (case (if k \<in> set (DeclaredEnvNames sb) then map_of (rev (resolved_env lookup sb)) k
            else map_of (rev (own_env lookup (fst (LoadOAuthToken lookup readFile rootDir)))) k) of
        Some v \<Rightarrow> Some v
      | None \<Rightarrow> buildChildEnv ssh img \<lparr>hk_Term = term, hk_Cwd = cwd, hk_Env = []\<rparr> home user shell k)"
proof -
  let ?own = "own_env lookup (fst (LoadOAuthToken lookup readFile rootDir))"
  let ?ps = "resolved_env lookup sb @ undeclared (DeclaredEnvNames sb) ?own"
  define base where "base = buildChildEnv ssh img \<lparr>hk_Term = term, hk_Cwd = cwd, hk_Env = []\<rparr> home user shell"
  have "\<forall>p \<in> set ?ps. CHR ''='' \<notin> set (fst p)"
    using resolved_names_valid [of _ _ lookup sb] own_names [of _ _ lookup] valid_name_no_eq by (fastforce simp: undeclared_def)
  then have "buildChildEnv ssh img \<lparr>hk_Term = term, hk_Cwd = cwd, hk_Env = map entry_text ?ps\<rparr> home user shell = base ++ map_of (rev ?ps)"
    by (simp only: buildChildEnv_def Let_def handshake.simps fold_set_entries base_def) (simp add: handshake.defs)
  then show ?thesis
    using resolved_undeclared [of k sb lookup]
    by (auto simp: buildVSockEnv_texts map_add_def map_of_undeclared base_def [symmetric] split: option.split)
qed


section \<open>The command line\<close>

text \<open>Words of single-quoted and escaped characters, read the way the shell does; the flag is set inside quotes.\<close>

fun read_word :: "bool \<Rightarrow> gostring \<Rightarrow> (gostring \<times> gostring) option" where
  "read_word True [] = None"
| "read_word False [] = Some ([], [])"
| "read_word True (c # s) = (if c = squote then read_word False s else map_option (apfst (Cons c)) (read_word True s))"
| "read_word False (c # s) =
     (if c = squote then read_word True s
      else if c = CHR '' '' then Some ([], s)
      else if c = backslash then (case s of e # s' \<Rightarrow> map_option (apfst (Cons e)) (read_word False s') | [] \<Rightarrow> None)
      else None)"

fun read_words :: "nat \<Rightarrow> gostring \<Rightarrow> gostring list option" where
  "read_words n [] = Some []"
| "read_words 0 s = None"
| "read_words (Suc n) s = (case read_word False s of None \<Rightarrow> None | Some (w, r) \<Rightarrow> map_option (Cons w) (read_words n r))"

abbreviation quote_body :: "gostring \<Rightarrow> gostring" where
  "quote_body x \<equiv> concat (map (\<lambda>c. if c = squote then [squote, backslash, squote, squote] else [c]) x)"

lemma read_quoted: "read_word True (quote_body x @ squote # r) = map_option (apfst ((@) x)) (read_word False r)"
proof (cases "read_word False r")
  case None
  then show ?thesis by (induction x) (auto simp: quote_chars)
next
  case (Some p)
  then show ?thesis by (induction x) (auto simp: quote_chars apfst_def map_prod_def split: prod.splits)
qed

lemma read_quoted_words: "length xs \<le> n \<Longrightarrow> read_words n (join_with_space (quoteAll xs)) = Some xs"
proof (induction xs arbitrary: n)
  case (Cons x xs)
  then obtain k where n: "n = Suc k" by (cases n) auto
  have first: "read_word False (squote # quote_body x @ squote # r) = map_option (apfst ((@) x)) (read_word False r)" for r
    by (simp add: read_quoted)
  show ?case
  proof (cases xs)
    case Nil
    then show ?thesis using first [of "[]"] by (simp add: quoteAll_def n)
  next
    case (Cons y ys)
    have "read_word False (CHR '' '' # s) = Some ([], s)" for s by (simp add: quote_chars)
    with first have "read_word False (squote # quote_body x @ squote # CHR '' '' # s) = Some (x, s)" for s by simp
    moreover have "read_words k (join_with_space (quoteAll xs)) = Some xs" using Cons.IH Cons.prems n by simp
    ultimately show ?thesis by (simp add: quoteAll_def n Cons)
  qed
qed (simp add: quoteAll_def)

text \<open>
  The command line of the agent. With the safe mode on, no argument of clawk's own bypasses permissions: the arguments are
  those of the user and the configuration of the servers. The fallback through a login shell passes the same
  arguments: the shell reads the quoted words back as they were.
\<close>

theorem launch_line_exact:
  "launchArgs sb (applySafeMode True agent) extra =
     (if ag_MCPConfigFlag agent = [] \<or> sx_MCP sb = [] then [] else [ag_MCPConfigFlag agent, GuestMCPConfigPath]) @ extra \<and>
   (\<exists>before words after. attachAgentViaExec wsRoot sb agent extra = [''bash'', ''-lc'', before @ words @ after, ag_Name agent] @ extra \<and>
      read_words (length (launchArgs sb agent [])) words = Some (launchArgs sb agent []))"
proof (rule conjI)
  let ?words = "join_with_space (quoteAll (launchArgs sb agent []))"
  let ?before = "'': '' @ [dquote] @ ''${TERM:=xterm-256color}'' @ [dquote] @ ''; : '' @ [dquote] @ ''${COLORTERM:=truecolor}'' @ [dquote] @ ''; ''
    @ ''export TERM COLORTERM; '' @ ''cd '' @ agentStartDir wsRoot sb @ '' 2>/dev/null || true; '' @ ''exec '' @ ag_Name agent @ '' ''"
  have "attachAgentViaExec wsRoot sb agent extra =
      [''bash'', ''-lc'', ?before @ ?words @ '' '' @ [dquote] @ ''$@'' @ [dquote], ag_Name agent] @ extra"
    unfolding attachAgentViaExec_def Let_def by simp
  moreover have "read_words (length (launchArgs sb agent [])) ?words = Some (launchArgs sb agent [])"
    by (rule read_quoted_words) simp
  ultimately show "\<exists>before words after. attachAgentViaExec wsRoot sb agent extra = [''bash'', ''-lc'', before @ words @ after, ag_Name agent] @ extra \<and>
      read_words (length (launchArgs sb agent [])) words = Some (launchArgs sb agent [])"
    by blast
qed (simp add: launchArgs_def applySafeMode_def)

section \<open>Edges\<close>

text \<open>
  The start directory is put into the command line of the fallback as it is. For a directory whose name has a shell
  metacharacter the rest of the name is a command of its own.
\<close>

lemma start_dir_unquoted:
  "xp_Worktree p = ''/r/a;reboot'' \<Longrightarrow> sx_Phases sb = [p] \<Longrightarrow> agentStartDir ''/home/agent/workspace'' sb = ''/home/agent/workspace/a;reboot''"
proof -
  have "Base ''/r/a;reboot'' = ''a;reboot''" by code_simp
  then show "xp_Worktree p = ''/r/a;reboot'' \<Longrightarrow> sx_Phases sb = [p] \<Longrightarrow>
      agentStartDir ''/home/agent/workspace'' sb = ''/home/agent/workspace/a;reboot''" by (simp add: agentStartDir_def)
qed

end
