(* ===== verification/Shares.thy ===== *)
theory Shares
  imports GuestEnv
begin

text \<open>
  What of the host is mounted in the guest: the shares of \<open>src/internal/sandbox/shares.go\<close> with the tags of \<open>tags.go\<close>, the
  devices the daemon exposes (\<open>src/internal/cli/shares.go\<close>) and the manifest the guest mounts from
  (\<open>oci_sandbox.go\<close>, \<open>src/internal/guestcfg/manifest.go\<close>).

  The directories of a sandbox are the record \<open>dirs\<close>; \<open>mkdir\<close> says whether a directory can be created. SHA-256 is the
  parameter \<open>digest8\<close>, its first eight hexadecimal digits. The text of the workspace document, which a
  template renders, and JSON texts are parameters.
\<close>

section \<open>Definitions\<close>

subsection \<open>Tags\<close>

definition maxVirtioFSTagBytes :: nat where "maxVirtioFSTagBytes = 36"
definition tagHashHexLen :: nat where "tagHashHexLen = 8"

definition rune_start :: "char \<Rightarrow> bool" where
  "rune_start c \<longleftrightarrow> \<not> byte_in 0x80 0xBF c"

fun rune_floor :: "gostring \<Rightarrow> nat \<Rightarrow> nat" where
  "rune_floor s 0 = 0"
| "rune_floor s (Suc n) = (if \<not> rune_start (s ! Suc n) then rune_floor s n else Suc n)"

definition truncateBytesOnRune :: "gostring \<Rightarrow> nat \<Rightarrow> gostring" where
  "truncateBytesOnRune s n = (if length s \<le> n then s else take (rune_floor s n) s)"

text \<open>The budget is cut off at zero, as natural subtraction does.\<close>

definition boundedTag :: "(gostring \<Rightarrow> gostring) \<Rightarrow> gostring \<Rightarrow> gostring \<Rightarrow> gostring \<Rightarrow> gostring" where
  "boundedTag digest8 pre name key =
     (if length (pre @ name) \<le> maxVirtioFSTagBytes then pre @ name
      else let h = take tagHashHexLen (digest8 key); budget = maxVirtioFSTagBytes - length pre - 1 - length h in
        pre @ truncateBytesOnRune name budget @ ''_'' @ h)"

definition RepoShareTag :: "(gostring \<Rightarrow> gostring) \<Rightarrow> gostring \<Rightarrow> gostring" where
  "RepoShareTag digest8 repoPath = boundedTag digest8 ''src_'' (Base repoPath) repoPath"

definition InPlaceWorktreeTag :: "(gostring \<Rightarrow> gostring) \<Rightarrow> gostring \<Rightarrow> gostring" where
  "InPlaceWorktreeTag digest8 worktreePath = boundedTag digest8 [] (Base worktreePath) worktreePath"

definition userShareTag :: "(gostring \<Rightarrow> gostring) \<Rightarrow> gostring \<Rightarrow> gostring" where
  "userShareTag digest8 guestPath = ''usr_'' @ digest8 guestPath"

definition GuestUser :: gostring where "GuestUser = ''agent''"
definition WorkspaceRoot :: gostring where "WorkspaceRoot = GuestHome @ ''/workspace''"
definition WorkspaceShareTag :: gostring where "WorkspaceShareTag = ''workspace''"

subsection \<open>Shares\<close>

record sandbox_share =
  ss_HostPath :: gostring
  ss_Tag :: gostring
  ss_GuestPath :: gostring
  ss_ReadOnly :: bool
  ss_NinePVSockPort :: "32 word"

record AgentStateDir =
  as_Agent :: gostring
  as_Sub :: gostring
  as_Tag :: gostring
  as_GuestPath :: gostring

definition AgentStateDirs :: "AgentStateDir list" where
  "AgentStateDirs =
     [\<lparr>as_Agent = ''claude'', as_Sub = ''claude'', as_Tag = ''claude_home'', as_GuestPath = GuestHome @ ''/.claude''\<rparr>,
      \<lparr>as_Agent = ''codex'', as_Sub = ''codex'', as_Tag = ''codex_home'', as_GuestPath = GuestHome @ ''/.codex''\<rparr>,
      \<lparr>as_Agent = ''pi'', as_Sub = ''pi'', as_Tag = ''pi_home'', as_GuestPath = GuestHome @ ''/.pi''\<rparr>,
      \<lparr>as_Agent = ''opencode'', as_Sub = ''opencode-data'', as_Tag = ''opencode_data'',
        as_GuestPath = GuestHome @ ''/.local/share/opencode''\<rparr>,
      \<lparr>as_Agent = ''opencode'', as_Sub = ''opencode-config'', as_Tag = ''opencode_config'',
        as_GuestPath = GuestHome @ ''/.config/opencode''\<rparr>]"

definition PersistentAgentShares :: "(gostring \<Rightarrow> bool) \<Rightarrow> gostring \<Rightarrow> sandbox_share list" where
  "PersistentAgentShares mkdir stateRoot =
     (if stateRoot = [] then []
      else map (\<lambda>d. \<lparr>ss_HostPath = Join [stateRoot, as_Sub d], ss_Tag = as_Tag d, ss_GuestPath = as_GuestPath d,
                      ss_ReadOnly = False, ss_NinePVSockPort = 0\<rparr>)
             (filter (\<lambda>d. mkdir (Join [stateRoot, as_Sub d])) AgentStateDirs))"

definition NinepBasePort :: "32 word" where "NinepBasePort = 1100"
definition ToolchainCachesEnabled :: bool where "ToolchainCachesEnabled = False"

definition toolchain_specs :: "(gostring \<times> gostring \<times> gostring) list" where
  "toolchain_specs =
     [(''gomodcache'', ''go_modcache'', GuestHome @ ''/go/pkg/mod''),
      (''cargo-registry-index'', ''cargo_registry_index'', GuestHome @ ''/.cargo/registry/index''),
      (''cargo-registry-cache'', ''cargo_registry_cache'', GuestHome @ ''/.cargo/registry/cache''),
      (''cargo-git-db'', ''cargo_git_db'', GuestHome @ ''/.cargo/git/db'')]"

definition ToolchainCacheShares :: "(gostring \<Rightarrow> bool) \<Rightarrow> gostring \<Rightarrow> sandbox_share list" where
  "ToolchainCacheShares mkdir cacheDir =
     (if cacheDir = [] \<or> \<not> ToolchainCachesEnabled then []
      else map (\<lambda>(i, sub, tag, guest). \<lparr>ss_HostPath = Join [cacheDir, sub], ss_Tag = tag, ss_GuestPath = guest,
                      ss_ReadOnly = False, ss_NinePVSockPort = NinepBasePort + of_nat i\<rparr>)
             (filter (\<lambda>(i, sub, tag, guest). mkdir (Join [cacheDir, sub])) (enumerate 0 toolchain_specs)))"

definition home_share :: "gostring \<Rightarrow> gostring \<Rightarrow> gostring \<Rightarrow> sandbox_share" where
  "home_share hostPath tag guest = \<lparr>ss_HostPath = hostPath, ss_Tag = tag, ss_GuestPath = guest, ss_ReadOnly = False, ss_NinePVSockPort = 0\<rparr>"

definition DefaultHostShares :: "host \<Rightarrow> sandbox_share list" where
  "DefaultHostShares h =
     (case ho_HomeDir h of
        None \<Rightarrow> []
      | Some home \<Rightarrow>
          map (\<lambda>sub. home_share (Join [home, ''.claude'', sub]) (''claude_'' @ sub) (GuestHome @ ''/.claude/'' @ sub))
            (filter (\<lambda>sub. ho_Stat h (Join [home, ''.claude'', sub]) = StatDir) [''agents'', ''commands'']) @
          (if ho_Stat h (Join [home, ''.codex'', ''skills'']) = StatDir
           then [home_share (Join [home, ''.codex'', ''skills'']) ''codex_skills'' (GuestHome @ ''/.codex/skills'')] else []))"

definition UserHostShares :: "(gostring \<Rightarrow> gostring) \<Rightarrow> HostShare list \<Rightarrow> sandbox_share list" where
  "UserHostShares digest8 shares =
     map (\<lambda>s. \<lparr>ss_HostPath = hs_HostPath s, ss_Tag = userShareTag digest8 (hs_GuestPath s), ss_GuestPath = hs_GuestPath s,
                ss_ReadOnly = hs_ReadOnly s, ss_NinePVSockPort = 0\<rparr>) shares"

definition HasManagedWorktree :: "SandboxConfig \<Rightarrow> bool" where
  "HasManagedWorktree sb \<longleftrightarrow> list_ex (\<lambda>p. xp_Worktree p \<noteq> [] \<and> \<not> xp_InPlace p) (sx_Phases sb)"

subsection \<open>Devices\<close>

record dirs =
  di_Worktree :: gostring
  di_State :: gostring
  di_Cache :: gostring
  di_Root :: gostring

record machine_share =
  mh_Tag :: gostring
  mh_HostPath :: gostring
  mh_ReadOnly :: bool

fun phase_devices :: "(gostring \<Rightarrow> gostring) \<Rightarrow> gostring list \<Rightarrow> sandbox_phase list \<Rightarrow> machine_share list" where
  "phase_devices digest8 seen [] = []"
| "phase_devices digest8 seen (p # ps) =
     (if xp_Worktree p = [] then phase_devices digest8 seen ps
      else if xp_InPlace p then
        \<lparr>mh_Tag = InPlaceWorktreeTag digest8 (xp_Worktree p), mh_HostPath = xp_Worktree p, mh_ReadOnly = False\<rparr> # phase_devices digest8 seen ps
      else if xp_Repo p \<in> set seen then phase_devices digest8 seen ps
      else \<lparr>mh_Tag = RepoShareTag digest8 (xp_Repo p), mh_HostPath = xp_Repo p, mh_ReadOnly = False\<rparr> # phase_devices digest8 (xp_Repo p # seen) ps)"

definition device_of :: "sandbox_share \<Rightarrow> machine_share" where
  "device_of sh = \<lparr>mh_Tag = ss_Tag sh, mh_HostPath = ss_HostPath sh, mh_ReadOnly = ss_ReadOnly sh\<rparr>"

definition collectSandboxShares :: "(gostring \<Rightarrow> gostring) \<Rightarrow> (gostring \<Rightarrow> bool) \<Rightarrow> host \<Rightarrow> dirs \<Rightarrow> SandboxConfig \<Rightarrow> machine_share list" where
  "collectSandboxShares digest8 mkdir h d sb =
     (if HasManagedWorktree sb \<and> mkdir (di_Worktree d)
      then [\<lparr>mh_Tag = WorkspaceShareTag, mh_HostPath = di_Worktree d, mh_ReadOnly = False\<rparr>] else []) @
     phase_devices digest8 [] (sx_Phases sb) @
     map device_of (PersistentAgentShares mkdir (di_State d)) @
     map device_of (DefaultHostShares h) @
     map device_of (ToolchainCacheShares mkdir (di_Cache d)) @
     map device_of (UserHostShares digest8 (sx_Shares sb))"

subsection \<open>The guest manifest\<close>

record Mount =
  mo_Tag :: gostring
  mo_Path :: gostring
  mo_ReadOnly :: bool
  mo_NinePVSockPort :: "32 word"

record manifest_file =
  mf_Path :: gostring
  mf_Mode :: "32 word"
  mf_Owner :: gostring
  mf_Content :: gostring

record manifest_user =
  mu_Name :: gostring
  mu_UID :: int
  mu_GID :: int
  mu_Groups :: "gostring list"

record manifest_network =
  mn_Interface :: gostring
  mn_Address :: gostring
  mn_Gateway :: gostring
  mn_DNS :: "gostring list"
  mn_MTU :: int

record Manifest =
  ma_Hostname :: gostring
  ma_Network :: manifest_network
  ma_User :: manifest_user
  ma_Swap :: "(gostring \<times> int) option"
  ma_Mounts :: "Mount list"
  ma_Files :: "manifest_file list"
  ma_Services :: "(gostring \<times> gostring) list"

definition gvproxyGateway :: gostring where "gvproxyGateway = ''192.168.127.1''"
definition guestIP :: gostring where "guestIP = ''192.168.127.2''"
definition gvproxyMTU :: int where "gvproxyMTU = 1500"
definition AgentPath :: gostring where "AgentPath = ''/opt/clawk/bin/clawk-pty-agent''"
definition TimeSyncPath :: gostring where "TimeSyncPath = ''/opt/clawk/bin/clawk-time-sync''"
definition DefaultSwapSizeMiB :: uint64 where "DefaultSwapSizeMiB = 2048"
definition OCISwapDevice :: gostring where "OCISwapDevice = ''/dev/vdc''"
definition GuestSwappiness :: int where "GuestSwappiness = 80"
definition DefaultDiskSizeGiB :: int where "DefaultDiskSizeGiB = 32"

definition SwapDiskMiB :: "SandboxConfig \<Rightarrow> uint64" where
  "SwapDiskMiB sb =
     (if sx_SwapMiB sb < 0 then 0 else if 0 < sx_SwapMiB sb then word_of_int (sx_SwapMiB sb) else DefaultSwapSizeMiB)"

definition RootDiskSizeMiB :: "SandboxConfig \<Rightarrow> int" where
  "RootDiskSizeMiB sb = (if 0 < sx_DiskMiB sb then sint (sx_DiskMiB sb) else DefaultDiskSizeGiB * 2 ^ 10)"

fun phase_mounts :: "(gostring \<Rightarrow> gostring) \<Rightarrow> gostring list \<Rightarrow> sandbox_phase list \<Rightarrow> Mount list" where
  "phase_mounts digest8 seen [] = []"
| "phase_mounts digest8 seen (p # ps) =
     (if xp_Worktree p = [] then phase_mounts digest8 seen ps
      else if xp_InPlace p then
        \<lparr>mo_Tag = InPlaceWorktreeTag digest8 (xp_Worktree p), mo_Path = WorkspaceRoot @ ''/'' @ Base (xp_Worktree p),
          mo_ReadOnly = False, mo_NinePVSockPort = 0\<rparr> # phase_mounts digest8 seen ps
      else if xp_Repo p \<in> set seen then phase_mounts digest8 seen ps
      else \<lparr>mo_Tag = RepoShareTag digest8 (xp_Repo p), mo_Path = xp_Repo p, mo_ReadOnly = False, mo_NinePVSockPort = 0\<rparr>
             # phase_mounts digest8 (xp_Repo p # seen) ps)"

definition mount_of :: "sandbox_share \<Rightarrow> Mount" where
  "mount_of sh = \<lparr>mo_Tag = ss_Tag sh, mo_Path = ss_GuestPath sh, mo_ReadOnly = ss_ReadOnly sh, mo_NinePVSockPort = ss_NinePVSockPort sh\<rparr>"

definition guest_shares :: "(gostring \<Rightarrow> gostring) \<Rightarrow> (gostring \<Rightarrow> bool) \<Rightarrow> host \<Rightarrow> dirs \<Rightarrow> SandboxConfig \<Rightarrow> sandbox_share list" where
  "guest_shares digest8 mkdir h d sb =
     PersistentAgentShares mkdir (di_State d) @ DefaultHostShares h @ ToolchainCacheShares mkdir (di_Cache d) @
     UserHostShares digest8 (sx_Shares sb)"

definition guest_mounts :: "(gostring \<Rightarrow> gostring) \<Rightarrow> (gostring \<Rightarrow> bool) \<Rightarrow> host \<Rightarrow> dirs \<Rightarrow> SandboxConfig \<Rightarrow> Mount list" where
  "guest_mounts digest8 mkdir h d sb =
     (if HasManagedWorktree sb
      then [\<lparr>mo_Tag = WorkspaceShareTag, mo_Path = WorkspaceRoot, mo_ReadOnly = False, mo_NinePVSockPort = 0\<rparr>] else []) @
     phase_mounts digest8 [] (sx_Phases sb) @
     map mount_of (guest_shares digest8 mkdir h d sb)"

subsection \<open>Files\<close>

datatype json = JBool bool | JNum int | JStr gostring | JObj "(gostring \<times> json) list"

definition tab :: gostring where "tab = [CHR 9]"
definition nl :: gostring where "nl = [line_feed]"

text \<open>The parameter is what \<open>git config --global --get\<close> prints, empty when it fails.\<close>

definition buildGuestGitConfig :: "(gostring \<Rightarrow> gostring) \<Rightarrow> gostring" where
  "buildGuestGitConfig gitConfigValue =
     (let name = trim_space (gitConfigValue ''user.name''); email = trim_space (gitConfigValue ''user.email'');
          userSection =
            (if name \<noteq> [] \<and> email \<noteq> [] then ''[user]'' @ nl @ tab @ ''name = '' @ name @ nl @ tab @ ''email = '' @ email @ nl @ nl
             else if name \<noteq> [] then ''[user]'' @ nl @ tab @ ''name = '' @ name @ nl @ nl
             else if email \<noteq> [] then ''[user]'' @ nl @ tab @ ''email = '' @ email @ nl @ nl
             else []) in
      userSection @ ''[url '' @ [dquote] @ ''git@github.com:'' @ [dquote] @ '']'' @ nl @ tab @ ''insteadOf = https://github.com/'' @ nl)"

definition buildGuestKnownHosts :: "host \<Rightarrow> gostring \<Rightarrow> gostring" where
  "buildGuestKnownHosts h githubKnownHosts =
     (let own = (case ho_HomeDir h of
                   None \<Rightarrow> []
                 | Some home \<Rightarrow>
                     (case ho_ReadFile h (Join [home, ''.ssh'', ''known_hosts'']) of
                        ReadOk data \<Rightarrow> data @ (if data \<noteq> [] \<and> last data \<noteq> line_feed then nl else [])
                      | _ \<Rightarrow> [])) in
      own @ (if \<not> contains_text own ''github.com ssh-ed25519'' then githubKnownHosts else []))"

record guest_inputs =
  gi_lookup :: "gostring \<Rightarrow> gostring option"
  gi_gitConfigValue :: "gostring \<Rightarrow> gostring"
  gi_githubKnownHosts :: gostring
  gi_workspaceClaudeMD :: "gostring \<Rightarrow> (gostring \<times> gostring \<times> gostring) list \<Rightarrow> gostring list \<Rightarrow> gostring"
  gi_marshal :: "json \<Rightarrow> gostring"
  gi_uid :: int
  gi_gid :: int

definition user_file :: "gostring \<Rightarrow> gostring \<Rightarrow> snapshot_file" where
  "user_file content path = \<lparr>sf_HostPath = [], sf_Content = Some content, sf_GuestPath = path, sf_Mode = 0x1A4,
     sf_Owner = GuestUser @ '':'' @ GuestUser\<rparr>"

definition DefaultHostFiles :: "guest_inputs \<Rightarrow> host \<Rightarrow> gostring \<Rightarrow> snapshot_file list" where
  "DefaultHostFiles gi h rootDir =
     (let token = fst (LoadOAuthToken (gi_lookup gi) (ho_ReadFile h) rootDir); blob = buildGuestKnownHosts h (gi_githubKnownHosts gi) in
      (if token \<noteq> [] then [OAuthTokenEnvFile token] else []) @
      [user_file (buildGuestGitConfig (gi_gitConfigValue gi)) (GuestHome @ ''/.gitconfig'')] @
      (if blob \<noteq> [] then [user_file blob (GuestHome @ ''/.ssh/known_hosts'')] else []))"

definition WorkspaceDocFile :: "guest_inputs \<Rightarrow> SandboxConfig \<Rightarrow> snapshot_file" where
  "WorkspaceDocFile gi sb =
     user_file (gi_workspaceClaudeMD gi (DisplayName (sx_Name sb))
       (map (\<lambda>p. (Base (xp_Worktree p), xp_Branch p, xp_Repo p)) (filter (\<lambda>p. xp_Worktree p \<noteq> []) (sx_Phases sb))) (sx_Instructions sb))
       (WorkspaceRoot @ ''/CLAUDE.md'')"

definition trusted :: json where "trusted = JObj [(''hasTrustDialogAccepted'', JBool True)]"

definition trust_phase :: "sandbox_phase \<Rightarrow> (gostring, json) gomap \<Rightarrow> (gostring, json) gomap" where
  "trust_phase p projects =
     (let projects = (if xp_Worktree p \<noteq> [] then AList.update (WorkspaceRoot @ ''/'' @ Base (xp_Worktree p)) trusted projects else projects) in
      if xp_Repo p \<noteq> [] then AList.update (xp_Repo p) trusted projects else projects)"

definition ClaudeJSONMarkerFile :: "guest_inputs \<Rightarrow> sandbox_phase list \<Rightarrow> bool \<Rightarrow> snapshot_file" where
  "ClaudeJSONMarkerFile gi phases hasAuth =
     user_file (gi_marshal gi (JObj ((if hasAuth then [(''hasCompletedOnboarding'', JBool True)] else []) @
       [(''projects'', JObj (fold trust_phase phases [(WorkspaceRoot, trusted)]))])) @ nl)
       (GuestHome @ ''/.claude.json'')"

definition claudeCredentialsPath :: "gostring \<Rightarrow> gostring" where
  "claudeCredentialsPath stateRoot = Join [stateRoot, ''claude'', ''.credentials.json'']"

definition StateDirHasCredentials :: "host \<Rightarrow> gostring \<Rightarrow> bool" where
  "StateDirHasCredentials h stateRoot \<longleftrightarrow> stateRoot \<noteq> [] \<and> fileExists h (claudeCredentialsPath stateRoot)"

datatype manifest_error = EnvErr "env_error list" | SnapshotErr gostring

fun manifest_files :: "host \<Rightarrow> snapshot_file list \<Rightarrow> manifest_error + manifest_file list" where
  "manifest_files h [] = Inr []"
| "manifest_files h (f # fs) =
     (case (case sf_Content f of
              Some data \<Rightarrow> Inr data
            | None \<Rightarrow> (case ho_ReadFile h (sf_HostPath f) of ReadOk data \<Rightarrow> Inr data | _ \<Rightarrow> Inl (SnapshotErr (sf_HostPath f)))) of
        Inl err \<Rightarrow> Inl err
      | Inr data \<Rightarrow>
          map_sum id (Cons \<lparr>mf_Path = sf_GuestPath f, mf_Mode = sf_Mode f,
              mf_Owner = (if has_prefix (sf_Owner f) (GuestUser @ '':'') then ''user'' else []), mf_Content = data\<rparr>)
            (manifest_files h fs))"

definition OCIGuestManifest ::
  "(gostring \<Rightarrow> gostring) \<Rightarrow> guest_inputs \<Rightarrow> (gostring \<Rightarrow> bool) \<Rightarrow> host \<Rightarrow> dirs \<Rightarrow> SandboxConfig \<Rightarrow> manifest_error + Manifest" where
  "OCIGuestManifest digest8 gi mkdir h d sb =
     (let token = fst (LoadOAuthToken (gi_lookup gi) (ho_ReadFile h) (di_Root d));
          hasAuth = (token \<noteq> [] \<or> StateDirHasCredentials h (di_State d));
          files = DefaultHostFiles gi h (di_Root d) @ [WorkspaceDocFile gi sb] @ [ClaudeJSONMarkerFile gi (sx_Phases sb) hasAuth] in
      case EnvFile (gi_lookup gi) sb of
        Inl errs \<Rightarrow> Inl (EnvErr errs)
      | Inr envFile \<Rightarrow>
          map_sum id (\<lambda>fs.
            \<lparr>ma_Hostname = sx_Name sb,
              ma_Network = \<lparr>mn_Interface = ''eth0'', mn_Address = guestIP @ ''/24'', mn_Gateway = gvproxyGateway, mn_DNS = [gvproxyGateway],
                mn_MTU = gvproxyMTU\<rparr>,
              ma_User = \<lparr>mu_Name = GuestUser, mu_UID = gi_uid gi, mu_GID = gi_gid gi, mu_Groups = (if sx_Nested sb then [''kvm''] else [])\<rparr>,
              ma_Swap = (if 0 < SwapDiskMiB sb then Some (OCISwapDevice, GuestSwappiness) else None),
              ma_Mounts = guest_mounts digest8 mkdir h d sb,
              ma_Files = fs,
              ma_Services = [(''pty-agent'', AgentPath), (''time-sync'', TimeSyncPath)]\<rparr>)
            (manifest_files h (files @ (case envFile of None \<Rightarrow> [] | Some f \<Rightarrow> [f]))))"

definition sectorSize :: nat where "sectorSize = 512"

text \<open>The bytes of the disk: the encoded manifest, padded to a sector.\<close>

definition disk_bytes :: "gostring \<Rightarrow> gostring" where
  "disk_bytes data =
     (let pad = length data mod sectorSize in data @ (if pad \<noteq> 0 then replicate (sectorSize - pad) (CHR 0x00) else []))"

section \<open>Valid UTF-8\<close>

lemma continuation_bytes: "0 < i \<Longrightarrow> i < rune_width s \<Longrightarrow> \<not> rune_start (s ! i)"
  by (auto simp: rune_width_def enc2_def enc3_def enc4_def rune_start_def byte_in_def less_Suc_eq numeral_eq_Suc split: if_splits)

lemma rune_width_prefix: "rune_width s \<noteq> 0 \<Longrightarrow> rune_width s \<le> m \<Longrightarrow> rune_width (take m s) = rune_width s"
proof -
  assume w: "rune_width s \<noteq> 0" "rune_width s \<le> m"
  then have s: "s \<noteq> []" by (auto simp: rune_width_def)
  consider (1) "byte_in 0 0x7F (s ! 0)"
    | (2) "\<not> byte_in 0 0x7F (s ! 0)" "2 \<le> length s" "enc2 (s ! 0) (s ! 1)"
    | (3) "\<not> byte_in 0 0x7F (s ! 0)" "\<not> enc2 (s ! 0) (s ! 1)" "3 \<le> length s" "enc3 (s ! 0) (s ! 1) (s ! 2)"
    | (4) "\<not> byte_in 0 0x7F (s ! 0)" "\<not> enc2 (s ! 0) (s ! 1)" "\<not> enc3 (s ! 0) (s ! 1) (s ! 2)" "4 \<le> length s" "enc4 (s ! 0) (s ! 1) (s ! 2) (s ! 3)"
    using w(1) unfolding rune_width_def by (auto split: if_splits)
  then show ?thesis
  proof cases
    case 1
    with s have "rune_width s = 1" by (simp add: rune_width_def)
    with 1 w(2) s show ?thesis by (simp add: rune_width_def)
  next
    case 2
    with s have "rune_width s = 2" by (simp add: rune_width_def)
    with 2 w(2) s show ?thesis by (simp add: rune_width_def)
  next
    case 3
    with s have "rune_width s = 3" by (simp add: rune_width_def)
    with 3 w(2) s show ?thesis by (simp add: rune_width_def)
  next
    case 4
    with s have "rune_width s = 4" by (simp add: rune_width_def)
    with 4 w(2) s show ?thesis by (simp add: rune_width_def)
  qed
qed

lemma rune_width_head:
  obtains "s = []" | a where "s = [a]" | a b where "s = [a, b]" | a b c where "s = [a, b, c]" | a b c d u where "s = a # b # c # d # u"
  by (metis list.exhaust)

lemma rune_width_append: "rune_width s \<noteq> 0 \<Longrightarrow> rune_width (s @ t) = rune_width s"
proof -
  assume w: "rune_width s \<noteq> 0"
  consider a where "s = [a]" | a b where "s = [a, b]" | a b c where "s = [a, b, c]" | a b c d u where "s = a # b # c # d # u"
    using w by (cases s rule: rune_width_head) (simp_all add: rune_width_def)
  then show ?thesis using w by cases (simp_all add: rune_width_def split: if_splits)
qed

lemma utf8_valid_unfold: "s \<noteq> [] \<Longrightarrow> utf8_valid s \<longleftrightarrow> rune_width s \<noteq> 0 \<and> utf8_valid (drop (rune_width s) s)"
  by (cases s) (auto simp: drop_Cons' gr0_conv_Suc)

lemma utf8_append: "utf8_valid s \<Longrightarrow> utf8_valid t \<Longrightarrow> utf8_valid (s @ t)"
proof (induction "length s" arbitrary: s rule: less_induct)
  case less
  show ?case
  proof (cases "s = []")
    case False
    with less.prems have w: "rune_width s \<noteq> 0" "utf8_valid (drop (rune_width s) s)" by (simp_all add: utf8_valid_unfold)
    with False have "utf8_valid (drop (rune_width s) s @ t)" by (intro less.hyps less.prems) auto
    with w False rune_width_le [of s] show ?thesis by (simp add: utf8_valid_unfold rune_width_append)
  qed (use less in simp)
qed

lemma utf8_take: "utf8_valid s \<Longrightarrow> m \<le> length s \<Longrightarrow> m = 0 \<or> m = length s \<or> rune_start (s ! m) \<Longrightarrow> utf8_valid (take m s)"
proof (induction "length s" arbitrary: s m rule: less_induct)
  case less
  show ?case
  proof (cases "s = [] \<or> m = 0 \<or> m = length s")
    case False
    with less.prems have w: "rune_width s \<noteq> 0" "utf8_valid (drop (rune_width s) s)" and start: "rune_start (s ! m)"
      by (simp_all add: utf8_valid_unfold)
    with continuation_bytes [of m s] False have wm: "rune_width s \<le> m" by force
    with less.prems False have "utf8_valid (take (m - rune_width s) (drop (rune_width s) s))"
      by (intro less.hyps w) (use w start wm in auto)
    with w wm False show ?thesis by (simp add: utf8_valid_unfold rune_width_prefix drop_take)
  qed (use less.prems in auto)
qed

lemma ascii_valid: "list_all (byte_in 0 0x7F) s \<Longrightarrow> utf8_valid s"
proof (induction s)
  case (Cons c s)
  then have "rune_width (c # s) = 1" by (simp add: rune_width_def)
  with Cons show ?case by simp
qed simp

section \<open>Tags\<close>

lemma rune_floor_le: "rune_floor s n \<le> n"
  by (induction n) auto

lemma rune_floor_start: "rune_floor s n = 0 \<or> rune_start (s ! rune_floor s n)"
  by (induction n) auto

lemma truncate_length: "length (truncateBytesOnRune s n) \<le> n"
  using rune_floor_le [of s n] by (auto simp: truncateBytesOnRune_def)

lemma truncate_valid: "utf8_valid s \<Longrightarrow> utf8_valid (truncateBytesOnRune s n)"
  using rune_floor_le [of s n] rune_floor_start [of s n]
  by (auto simp: truncateBytesOnRune_def intro!: utf8_take)

lemma bounded_length: "hex_digest digest8 \<Longrightarrow> length pre \<le> 27 \<Longrightarrow> length (boundedTag digest8 pre name key) \<le> maxVirtioFSTagBytes"
proof -
  assume "hex_digest digest8" and pre: "length pre \<le> 27"
  then have "length (digest8 key) = 8" by (simp add: hex_digest_def)
  with pre truncate_length [of name "36 - length pre - 1 - 8"] show ?thesis
    by (auto simp: boundedTag_def Let_def maxVirtioFSTagBytes_def tagHashHexLen_def)
qed

lemma hex_ascii_char: "c \<in> set ''0123456789abcdef'' \<Longrightarrow> byte_in 0 0x7F c"
proof -
  have "list_all (byte_in 0 0x7F) ''0123456789abcdef''" by code_simp
  then show "c \<in> set ''0123456789abcdef'' \<Longrightarrow> byte_in 0 0x7F c" unfolding list_all_iff by blast
qed

lemma hex_ascii: "hex_digest digest8 \<Longrightarrow> list_all (byte_in 0 0x7F) (digest8 x)"
proof -
  assume "hex_digest digest8"
  then have "list_all (\<lambda>c. c \<in> set ''0123456789abcdef'') (digest8 x)" unfolding hex_digest_def by blast
  then show ?thesis by (rule list.pred_mono_strong) (rule hex_ascii_char)
qed

lemma bounded_valid:
  assumes "hex_digest digest8" "list_all (byte_in 0 0x7F) pre" "utf8_valid name"
  shows "utf8_valid (boundedTag digest8 pre name key)"
proof -
  have "list_all (byte_in 0 0x7F) (''_'' @ take tagHashHexLen (digest8 key))"
    using hex_ascii [OF assms(1), of key] by (auto simp: byte_in_def list_all_iff dest: in_set_takeD)
  then have "utf8_valid (''_'' @ take tagHashHexLen (digest8 key))" by (rule ascii_valid)
  then show ?thesis
    unfolding boundedTag_def Let_def using assms ascii_valid [OF assms(2)] truncate_valid [OF assms(3)]
    by (auto intro!: utf8_append simp del: append_Cons append_Nil)
qed

section \<open>Devices and mounts\<close>

abbreviation device_key :: "machine_share \<Rightarrow> gostring \<times> bool" where
  "device_key s \<equiv> (mh_Tag s, mh_ReadOnly s)"

abbreviation mount_key :: "Mount \<Rightarrow> gostring \<times> bool" where
  "mount_key m \<equiv> (mo_Tag m, mo_ReadOnly m)"

lemma phase_keys: "map mount_key (phase_mounts digest8 seen ps) = map device_key (phase_devices digest8 seen ps)"
  by (induction digest8 seen ps rule: phase_mounts.induct) auto

lemma share_key: "mount_key (mount_of sh) = device_key (device_of sh)"
  by (simp add: mount_of_def device_of_def)

lemma mounts_keys:
  "map mount_key (guest_mounts digest8 mkdir h d sb) =
     (if HasManagedWorktree sb \<and> \<not> mkdir (di_Worktree d) then [(WorkspaceShareTag, False)] else []) @
     map device_key (collectSandboxShares digest8 mkdir h d sb)"
  by (simp add: guest_mounts_def collectSandboxShares_def guest_shares_def phase_keys share_key comp_def del: map_map)
    (simp add: comp_def share_key)

lemma manifest_mounts: "OCIGuestManifest digest8 gi mkdir h d sb = Inr m \<Longrightarrow> ma_Mounts m = guest_mounts digest8 mkdir h d sb"
  by (auto simp: OCIGuestManifest_def Let_def map_sum_Inr_iff split: sum.splits)

lemma phase_device_tags: "s \<in> set (phase_devices digest8 seen ps) \<Longrightarrow>
    (\<exists>p. mh_Tag s = InPlaceWorktreeTag digest8 p) \<or> (\<exists>p. mh_Tag s = RepoShareTag digest8 p)"
  by (induction digest8 seen ps rule: phase_devices.induct) (auto split: if_splits)

lemma fixed_tags:
  "sh \<in> set (PersistentAgentShares mkdir st @ DefaultHostShares h @ ToolchainCacheShares mkdir c) \<Longrightarrow> length (ss_Tag sh) \<le> maxVirtioFSTagBytes"
proof -
  define tags where "tags = map as_Tag AgentStateDirs @ [''claude_agents'', ''claude_commands'', ''codex_skills'']"
  assume "sh \<in> set (PersistentAgentShares mkdir st @ DefaultHostShares h @ ToolchainCacheShares mkdir c)"
  then have "ss_Tag sh \<in> set tags"
    by (auto simp: tags_def PersistentAgentShares_def DefaultHostShares_def home_share_def ToolchainCacheShares_def
        ToolchainCachesEnabled_def split: option.splits if_splits)
  moreover have "list_all (\<lambda>t. length t \<le> maxVirtioFSTagBytes) tags" unfolding tags_def by code_simp
  ultimately show ?thesis by (simp add: list_all_iff)
qed

lemma managed_device:
  "p \<in> set ps \<Longrightarrow> xp_Worktree p \<noteq> [] \<Longrightarrow> \<not> xp_InPlace p \<Longrightarrow> xp_Repo p \<notin> set seen \<Longrightarrow>
     \<lparr>mh_Tag = RepoShareTag digest8 (xp_Repo p), mh_HostPath = xp_Repo p, mh_ReadOnly = False\<rparr> \<in> set (phase_devices digest8 seen ps)"
proof (induction digest8 seen ps rule: phase_devices.induct)
  case (2 digest8 seen q ps)
  then show ?case by (cases "xp_Repo p = xp_Repo q") (auto split: if_splits)
qed simp


text \<open>A mount hides what is mounted below its path, and what is mounted at it.\<close>

definition hides :: "gostring \<Rightarrow> gostring \<Rightarrow> bool" where
  "hides upper lower \<longleftrightarrow> lower = upper \<or> has_prefix lower (upper @ ''/'')"

definition home_paths :: "gostring list" where
  "home_paths = map as_GuestPath AgentStateDirs @ [GuestHome @ ''/.claude/agents'', GuestHome @ ''/.claude/commands'', GuestHome @ ''/.codex/skills'']"

lemma home_paths_order: "sorted_wrt (\<lambda>a b. \<not> hides b a) (WorkspaceRoot # home_paths)"
  by code_simp

lemma subseq_sorted_wrt: "subseq xs ys \<Longrightarrow> sorted_wrt P ys \<Longrightarrow> sorted_wrt P xs"
  by (induction xs ys rule: list_emb.induct) (auto dest: list_emb_set)

lemma map_filter_subseq: "subseq (map f (filter P xs)) (map f xs)"
  by (rule subseq_map) simp

lemma pick_three: "subseq ((if P then [a] else []) @ (if Q then [b] else []) @ (if R then [c] else [])) [a, b, c]"
  by (cases P; cases Q; cases R) simp_all

lemma own_paths_subseq: "subseq (map ss_GuestPath (PersistentAgentShares mkdir st @ DefaultHostShares h)) home_paths"
proof -
  have "subseq (map ss_GuestPath (PersistentAgentShares mkdir st)) (map as_GuestPath AgentStateDirs)"
    using map_filter_subseq [of as_GuestPath _ AgentStateDirs] by (simp add: PersistentAgentShares_def comp_def)
  moreover have "subseq (map ss_GuestPath (DefaultHostShares h))
      [GuestHome @ ''/.claude/agents'', GuestHome @ ''/.claude/commands'', GuestHome @ ''/.codex/skills'']"
  proof (cases "ho_HomeDir h")
    case (Some home)
    let ?stat = "\<lambda>p. ho_Stat h p = StatDir"
    show ?thesis
      using pick_three [of "?stat (Join [home, ''.claude'', ''agents''])" _ "?stat (Join [home, ''.claude'', ''commands''])" _
          "?stat (Join [home, ''.codex'', ''skills''])"]
      by (simp add: DefaultHostShares_def home_share_def Some if_distrib [of "map ss_GuestPath"] cong: if_cong)
  qed (simp add: DefaultHostShares_def)
  ultimately show ?thesis unfolding home_paths_def map_append by (simp add: list_emb_append_mono)
qed

lemma manifest_files_total: "list_all (\<lambda>f. sf_Content f \<noteq> None) fs \<Longrightarrow> \<exists>out. manifest_files h fs = Inr out"
  by (induction fs) (auto simp: map_sum_Inr_iff)

lemma manifest_exists:
  assumes "EnvFile (gi_lookup gi) sb = Inr f"
  shows "\<exists>m. OCIGuestManifest digest8 gi mkdir h d sb = Inr m"
proof -
  have "f = None \<or> (\<exists>g. f = Some g \<and> sf_Content g \<noteq> None)" using assms by (auto simp: EnvFile_def split: prod.splits if_splits)
  then have "list_all (\<lambda>f. sf_Content f \<noteq> None) (case f of None \<Rightarrow> [] | Some g \<Rightarrow> [g])" by auto
  moreover have "list_all (\<lambda>f. sf_Content f \<noteq> None) (DefaultHostFiles gi h r @ [WorkspaceDocFile gi sb] @ [ClaudeJSONMarkerFile gi ps b])" for r ps b
    by (simp add: DefaultHostFiles_def Let_def user_file_def WorkspaceDocFile_def ClaudeJSONMarkerFile_def OAuthTokenEnvFile_def)
  ultimately have "\<exists>out. manifest_files h ((DefaultHostFiles gi h r @ [WorkspaceDocFile gi sb] @ [ClaudeJSONMarkerFile gi ps b]) @
      (case f of None \<Rightarrow> [] | Some g \<Rightarrow> [g])) = Inr out" for r ps b
    by (intro manifest_files_total) (simp only: list_all_append)
  then show ?thesis unfolding OCIGuestManifest_def Let_def assms by (auto simp: map_sum_Inr_iff)
qed

section \<open>A sandbox of two repositories\<close>

definition svc_phase :: "gostring \<Rightarrow> sandbox_phase" where
  "svc_phase repo = \<lparr>xp_Repo = repo, xp_Branch = ''fix'', xp_Status = PhaseStatusPending, xp_Order = 0, xp_Worktree = ''/wt/svc'',
     xp_InPlace = False, xp_Setup = [], xp_OnCreate = [], xp_OnCreateAt = None\<rparr>"

definition svc_sandbox :: SandboxConfig where
  "svc_sandbox = here_sandbox\<lparr>sx_RequiredEnv := [], sx_Phases := [svc_phase ''/a/svc'', svc_phase ''/b/svc'']\<rparr>"

definition svc_inputs :: guest_inputs where
  "svc_inputs = \<lparr>gi_lookup = (\<lambda>_. None), gi_gitConfigValue = (\<lambda>_. []), gi_githubKnownHosts = [],
     gi_workspaceClaudeMD = (\<lambda>_ _ _. []), gi_marshal = (\<lambda>_. []), gi_uid = 501, gi_gid = 20\<rparr>"

definition svc_dirs :: dirs where
  "svc_dirs = \<lparr>di_Worktree = ''/wt'', di_State = ''/st'', di_Cache = ''/ca'', di_Root = ''/rt''\<rparr>"

lemma svc_manifest: "\<exists>m. OCIGuestManifest demo_digest svc_inputs (\<lambda>_. True) repo_host svc_dirs svc_sandbox = Inr m"
  by (rule manifest_exists [where f = None]) (simp add: EnvFile_def ResolveEnv_def svc_sandbox_def)

section \<open>Properties\<close>

text \<open>
  C24: Devices and mounts are in lock-step: the mounts of the manifest name exactly the devices the daemon exposes, in the same
  order and with the same write access, for every sandbox and every host. The one exception is a worktree
  directory that cannot be created, whose mount is in the manifest without a device.
\<close>

theorem mounts_match_devices:
  assumes "OCIGuestManifest digest8 gi mkdir h d sb = Inr m"
  shows "map mount_key (ma_Mounts m) =
    (if HasManagedWorktree sb \<and> \<not> mkdir (di_Worktree d) then [(WorkspaceShareTag, False)] else []) @
    map device_key (collectSandboxShares digest8 mkdir h d sb)"
  using mounts_keys [of digest8 mkdir h d sb] manifest_mounts [OF assms] by simp

theorem mounts_match_devices_witness:
  "\<exists>m. OCIGuestManifest demo_digest svc_inputs (\<lambda>_. True) repo_host svc_dirs svc_sandbox = Inr m \<and>
     map mount_key (ma_Mounts m) = map device_key (collectSandboxShares demo_digest (\<lambda>_. True) repo_host svc_dirs svc_sandbox)"
  using svc_manifest mounts_match_devices [of demo_digest svc_inputs "\<lambda>_. True" repo_host svc_dirs svc_sandbox] by auto

text \<open>
  C25: Every tag fits the limit of 36 bytes of the device, whatever the names of repositories and directories, and a tag
  made from a valid UTF-8 name is valid UTF-8 although the limit counts bytes.
\<close>

theorem device_tags_fit:
  assumes "hex_digest digest8"
  shows "list_all (\<lambda>s. length (mh_Tag s) \<le> 36) (collectSandboxShares digest8 mkdir h d sb) \<and>
    (utf8_valid (Base path) \<longrightarrow> utf8_valid (RepoShareTag digest8 path) \<and> utf8_valid (InPlaceWorktreeTag digest8 path))"
proof (rule conjI)
  have phases: "length (mh_Tag s) \<le> maxVirtioFSTagBytes" if "s \<in> set (phase_devices digest8 [] (sx_Phases sb))" for s
    using phase_device_tags [OF that] bounded_length [OF assms] by (auto simp: InPlaceWorktreeTag_def RepoShareTag_def)
  have users: "length (ss_Tag sh) \<le> maxVirtioFSTagBytes" if "sh \<in> set (UserHostShares digest8 (sx_Shares sb))" for sh
  proof -
    from that obtain g where "ss_Tag sh = userShareTag digest8 g" by (auto simp: UserHostShares_def)
    moreover have "length (digest8 g) = 8" using assms by (simp add: hex_digest_def)
    ultimately show ?thesis by (simp add: userShareTag_def maxVirtioFSTagBytes_def)
  qed
  have "length (mh_Tag s) \<le> maxVirtioFSTagBytes" if "s \<in> set (collectSandboxShares digest8 mkdir h d sb)" for s
    using that phases users fixed_tags [of _ mkdir "di_State d" h "di_Cache d"]
    by (auto simp: collectSandboxShares_def device_of_def WorkspaceShareTag_def maxVirtioFSTagBytes_def split: if_splits)
  then show "list_all (\<lambda>s. length (mh_Tag s) \<le> 36) (collectSandboxShares digest8 mkdir h d sb)"
    by (simp add: list_all_iff maxVirtioFSTagBytes_def)
  have "list_all (byte_in 0 0x7F) ''src_''" by code_simp
  then show "utf8_valid (Base path) \<longrightarrow> utf8_valid (RepoShareTag digest8 path) \<and> utf8_valid (InPlaceWorktreeTag digest8 path)"
    using bounded_valid [OF assms] by (simp add: RepoShareTag_def InPlaceWorktreeTag_def)
qed

theorem device_tags_fit_witness:
  "utf8_valid (RepoShareTag demo_digest ''/r/a-service-with-a-very-long-directory-name'') \<and>
   RepoShareTag demo_digest ''/r/a-service-with-a-very-long-directory-name'' = ''src_a-service-with-a-very-l_0a1b2c3d''"
proof -
  have "hex_digest demo_digest" by (simp add: hex_digest_def demo_digest_def)
  from device_tags_fit [OF this, of "\<lambda>_. True" repo_host svc_dirs svc_sandbox "''/r/a-service-with-a-very-long-directory-name''"]
  have "utf8_valid (Base ''/r/a-service-with-a-very-long-directory-name'') \<longrightarrow>
      utf8_valid (RepoShareTag demo_digest ''/r/a-service-with-a-very-long-directory-name'')" by blast
  moreover have "utf8_valid (Base ''/r/a-service-with-a-very-long-directory-name'')" by code_simp
  moreover have "RepoShareTag demo_digest ''/r/a-service-with-a-very-long-directory-name'' = ''src_a-service-with-a-very-l_0a1b2c3d''" by code_simp
  ultimately show ?thesis by blast
qed

text \<open>
  The mounts of the agents' homes and of the host's capability directories never hide one another, nor the workspace: each
  is mounted after every mount it lies in, on every host.
\<close>

theorem home_mounts_visible:
  "sorted_wrt (\<lambda>a b. \<not> hides (ss_GuestPath b) (ss_GuestPath a)) (PersistentAgentShares mkdir st @ DefaultHostShares h) \<and>
   list_all (\<lambda>sh. \<not> hides (ss_GuestPath sh) WorkspaceRoot) (PersistentAgentShares mkdir st @ DefaultHostShares h)"
proof -
  have "subseq (WorkspaceRoot # map ss_GuestPath (PersistentAgentShares mkdir st @ DefaultHostShares h)) (WorkspaceRoot # home_paths)"
    using own_paths_subseq by (rule subseq_Cons2)
  from subseq_sorted_wrt [OF this home_paths_order] show ?thesis
    by (auto simp: sorted_wrt_map list_all_iff simp del: map_append)
qed

text \<open>
  Two repositories with the same directory name get the same tag, since the path enters the tag only when the name is too
  long: the daemon then exposes two devices under one tag.
\<close>

theorem same_named_repos_share_tag:
  assumes "p \<in> set (sx_Phases sb)" "q \<in> set (sx_Phases sb)" "xp_Worktree p \<noteq> []" "xp_Worktree q \<noteq> []"
    and "\<not> xp_InPlace p" "\<not> xp_InPlace q" "xp_Repo p \<noteq> xp_Repo q"
    and "Base (xp_Repo p) = Base (xp_Repo q)" "length (Base (xp_Repo p)) \<le> 32"
  shows "\<not> distinct (map mh_Tag (collectSandboxShares digest8 mkdir h d sb))"
proof -
  let ?dev = "\<lambda>r. \<lparr>mh_Tag = RepoShareTag digest8 r, mh_HostPath = r, mh_ReadOnly = False\<rparr>"
  have "?dev (xp_Repo p) \<in> set (collectSandboxShares digest8 mkdir h d sb)" "?dev (xp_Repo q) \<in> set (collectSandboxShares digest8 mkdir h d sb)"
    using managed_device [of p "sx_Phases sb" "[]" digest8] managed_device [of q "sx_Phases sb" "[]" digest8] assms
    by (simp_all add: collectSandboxShares_def)
  moreover have "RepoShareTag digest8 (xp_Repo p) = RepoShareTag digest8 (xp_Repo q)"
    using assms(8,9) by (simp add: RepoShareTag_def boundedTag_def maxVirtioFSTagBytes_def)
  ultimately show ?thesis using assms(7) unfolding distinct_map inj_on_def by fastforce
qed

theorem same_named_repos_share_tag_witness:
  "\<not> distinct (map mh_Tag (collectSandboxShares demo_digest (\<lambda>_. True) repo_host svc_dirs svc_sandbox))"
proof (rule same_named_repos_share_tag)
  show "svc_phase ''/a/svc'' \<in> set (sx_Phases svc_sandbox)" "svc_phase ''/b/svc'' \<in> set (sx_Phases svc_sandbox)"
    by (simp_all add: svc_sandbox_def)
  have "Base ''/a/svc'' = ''svc''" "Base ''/b/svc'' = ''svc''" by code_simp+
  then show "Base (xp_Repo (svc_phase ''/a/svc'')) = Base (xp_Repo (svc_phase ''/b/svc''))" "length (Base (xp_Repo (svc_phase ''/a/svc''))) \<le> 32"
    by (simp_all add: svc_phase_def)
qed (simp_all add: svc_phase_def)

section \<open>Edges\<close>

text \<open>A directory with the name of a fixed tag takes that tag, and a share of the user on the home directory hides the agents' homes.\<close>

lemma reserved_tag_taken: "InPlaceWorktreeTag demo_digest ''/r/claude_home'' = ''claude_home''"
  by code_simp

lemma home_share_hides: "hides GuestHome (as_GuestPath (hd AgentStateDirs))"
  by code_simp

end
