(* ===== verification/Seeds.thy ===== *)
theory Seeds
  imports Shares
begin

text \<open>
  Files clawk keeps for the agents on the host: the state directory of a sandbox (\<open>src/internal/sandbox/shares.go\<close>) and
  the long-lived token (\<open>oauth_token.go\<close>).

  The disk is a map from paths to contents, with the paths at which nothing can be created, replaced or removed.
  Directories are not tracked: one that can be created is there. \<open>renameio.WriteFile\<close> replaces a file as a whole or
  not at all. The keychain, the JSON codec and the environment of the process are parameters.
\<close>

section \<open>Definitions\<close>

subsection \<open>The disk\<close>

record host_files =
  dk_Files :: "(gostring, gostring) gomap"
  dk_Locked :: "gostring \<Rightarrow> bool"

definition disk_read :: "host_files \<Rightarrow> gostring \<Rightarrow> read_result" where
  "disk_read d p = (case map_of (dk_Files d) p of None \<Rightarrow> ReadAbsent | Some c \<Rightarrow> ReadOk c)"

definition disk_put :: "gostring \<Rightarrow> gostring \<Rightarrow> host_files \<Rightarrow> host_files" where
  "disk_put p c d = d\<lparr>dk_Files := AList.update p c (dk_Files d)\<rparr>"

definition disk_drop :: "gostring \<Rightarrow> host_files \<Rightarrow> host_files" where
  "disk_drop p d = d\<lparr>dk_Files := AList.delete p (dk_Files d)\<rparr>"

definition WriteFile :: "gostring \<Rightarrow> gostring \<Rightarrow> host_files \<Rightarrow> host_files option" where
  "WriteFile p c d = (if dk_Locked d p then None else Some (disk_put p c d))"

definition MkdirAll :: "gostring \<Rightarrow> host_files \<Rightarrow> bool" where
  "MkdirAll p d \<longleftrightarrow> \<not> dk_Locked d p"

subsection \<open>Settings\<close>

definition sandboxForcedClaudeSettings :: "(gostring, json) gomap" where
  "sandboxForcedClaudeSettings =
     [(''bypassPermissionsModeAccepted'', JBool True), (''defaultMode'', JStr ''bypassPermissions''),
      (''skipDangerousModePermissionPrompt'', JBool True)]"

definition sandboxDefaultClaudeSettings :: "(gostring, json) gomap" where
  "sandboxDefaultClaudeSettings =
     [(''alwaysThinkingEnabled'', JBool True), (''themeId'', JNum 1), (''model'', JStr ''opus''),
      (''autoMemoryDirectory'', JStr (GuestHome @ ''/.claude/memory'')),
      (''env'', JObj [(''ENABLE_LSP_TOOL'', JStr ''1'')]),
      (''enabledPlugins'', JObj [(''gopls-lsp@claude-plugins-official'', JBool True), (''typescript-lsp@claude-plugins-official'', JBool True),
         (''pyright-lsp@claude-plugins-official'', JBool True), (''rust-analyzer-lsp@claude-plugins-official'', JBool True)]),
      (''voice'', JObj [(''enabled'', JBool True), (''mode'', JStr ''tap'')])]"

definition overlay :: "(gostring, json) gomap \<Rightarrow> (gostring, json) gomap \<Rightarrow> (gostring, json) gomap" where
  "overlay upper lower = fold (\<lambda>(k, v). AList.update k v) upper lower"

record seed_inputs =
  si_HomeDir :: "gostring option"
  si_lookup :: "gostring \<Rightarrow> gostring option"
  si_unmarshal :: "gostring \<Rightarrow> (gostring, json) gomap option"
  si_marshal :: "(gostring, json) gomap \<Rightarrow> gostring option"
  si_credentials :: "gostring option"

definition host_settings :: "seed_inputs \<Rightarrow> host_files \<Rightarrow> gostring \<Rightarrow> (gostring, json) gomap" where
  "host_settings si d home =
     (case disk_read d (Join [home, ''.claude'', ''settings.json'']) of
        ReadOk data \<Rightarrow> (case si_unmarshal si data of Some m \<Rightarrow> m | None \<Rightarrow> [])
      | _ \<Rightarrow> [])"

definition buildGuestClaudeSettings :: "seed_inputs \<Rightarrow> host_files \<Rightarrow> gostring \<Rightarrow> gostring option" where
  "buildGuestClaudeSettings si d home =
     map_option (\<lambda>content. content @ nl)
       (si_marshal si (overlay sandboxForcedClaudeSettings (overlay (host_settings si d home) (overlay sandboxDefaultClaudeSettings []))))"

subsection \<open>The state directory\<close>

datatype seed_error = NoHome | SeedMkdir gostring | SeedWrite gostring

definition seed_settings :: "seed_inputs \<Rightarrow> gostring \<Rightarrow> gostring \<Rightarrow> host_files \<Rightarrow> seed_error + host_files" where
  "seed_settings si home dst d =
     (case buildGuestClaudeSettings si d home of
        None \<Rightarrow> Inr d
      | Some content \<Rightarrow>
          (case WriteFile (Join [dst, ''settings.json'']) content d of
             None \<Rightarrow> Inl (SeedWrite ''settings.json'')
           | Some d' \<Rightarrow> Inr d'))"

definition seed_claude_md :: "gostring \<Rightarrow> gostring \<Rightarrow> host_files \<Rightarrow> seed_error + host_files" where
  "seed_claude_md home dst d =
     (case disk_read d (Join [home, ''.claude'', ''CLAUDE.md'']) of
        ReadOk data \<Rightarrow>
          (case WriteFile (Join [dst, ''CLAUDE.md'']) data d of None \<Rightarrow> Inl (SeedWrite ''CLAUDE.md'') | Some d' \<Rightarrow> Inr d')
      | _ \<Rightarrow> Inr d)"

definition seed_credentials :: "seed_inputs \<Rightarrow> gostring \<Rightarrow> gostring \<Rightarrow> host_files \<Rightarrow> seed_error + host_files" where
  "seed_credentials si stateRoot clawkRootDir d =
     (if fst (LoadOAuthToken (si_lookup si) (disk_read d) clawkRootDir) \<noteq> [] then Inr d
      else if disk_read d (claudeCredentialsPath stateRoot) \<noteq> ReadAbsent then Inr d
      else case si_credentials si of
        None \<Rightarrow> Inr d
      | Some blob \<Rightarrow>
          (case WriteFile (claudeCredentialsPath stateRoot) blob d of None \<Rightarrow> Inl (SeedWrite ''.credentials.json'') | Some d' \<Rightarrow> Inr d'))"

text \<open>A step that fails leaves the files of the steps before it.\<close>

definition on_disk :: "(host_files \<Rightarrow> seed_error + host_files) \<Rightarrow> host_files \<times> seed_error option \<Rightarrow> host_files \<times> seed_error option" where
  "on_disk step r =
     (case r of
        (d, Some err) \<Rightarrow> (d, Some err)
      | (d, None) \<Rightarrow> (case step d of Inl err \<Rightarrow> (d, Some err) | Inr d' \<Rightarrow> (d', None)))"

definition SeedClaudeStateDir :: "seed_inputs \<Rightarrow> gostring \<Rightarrow> gostring \<Rightarrow> host_files \<Rightarrow> host_files \<times> seed_error option" where
  "SeedClaudeStateDir si stateRoot clawkRootDir d =
     (if stateRoot = [] then (d, None)
      else case si_HomeDir si of
        None \<Rightarrow> (d, Some NoHome)
      | Some home \<Rightarrow>
          (let dst = Join [stateRoot, ''claude''] in
           if \<not> MkdirAll dst d then (d, Some (SeedMkdir dst))
           else on_disk (seed_credentials si stateRoot clawkRootDir)
                 (on_disk (seed_claude_md home dst) (on_disk (seed_settings si home dst) (d, None)))))"

definition SeedClaudeMemory :: "gostring \<Rightarrow> gostring \<Rightarrow> host_files \<Rightarrow> host_files \<times> seed_error option" where
  "SeedClaudeMemory stateRoot seed d =
     (if stateRoot = [] \<or> trim_space seed = [] then (d, None)
      else let dir = Join [stateRoot, ''claude'', ''memory'']; path = Join [dir, ''MEMORY.md''] in
        if disk_read d path \<noteq> ReadAbsent then (d, None)
        else if \<not> MkdirAll dir d then (d, Some (SeedMkdir dir))
        else case WriteFile path (if has_suffix seed nl then seed else seed @ nl) d of
          None \<Rightarrow> (d, Some (SeedWrite ''MEMORY.md''))
        | Some d' \<Rightarrow> (d', None))"

subsection \<open>The token\<close>

datatype save_step = MkRoot | CreateTemp | ChmodTemp | WriteTemp | CloseTemp | RenameTemp

datatype token_error = EmptyToken | StepFailed save_step | RemoveTokenFailed

text \<open>\<open>broken\<close> says which system call fails. The temporary file is removed on every way out.\<close>

definition SaveOAuthToken :: "(save_step \<Rightarrow> bool) \<Rightarrow> gostring \<Rightarrow> gostring \<Rightarrow> gostring \<Rightarrow> host_files \<Rightarrow> host_files \<times> token_error option" where
  "SaveOAuthToken broken tmpName clawkRootDir token d =
     (let token = trim_space token in
      if token = [] then (d, Some EmptyToken)
      else if broken MkRoot then (d, Some (StepFailed MkRoot))
      else if broken CreateTemp then (d, Some (StepFailed CreateTemp))
      else let d = disk_put tmpName [] d in
        if broken ChmodTemp then (disk_drop tmpName d, Some (StepFailed ChmodTemp))
        else if broken WriteTemp then (disk_drop tmpName d, Some (StepFailed WriteTemp))
        else let d = disk_put tmpName (token @ nl) d in
          if broken CloseTemp then (disk_drop tmpName d, Some (StepFailed CloseTemp))
          else if broken RenameTemp then (disk_drop tmpName d, Some (StepFailed RenameTemp))
          else (disk_put (OAuthTokenPath clawkRootDir) (token @ nl) (disk_drop tmpName d), None))"

definition ClearOAuthToken :: "gostring \<Rightarrow> host_files \<Rightarrow> host_files \<times> token_error option" where
  "ClearOAuthToken clawkRootDir d =
     (let path = OAuthTokenPath clawkRootDir in
      if disk_read d path = ReadAbsent then (d, None)
      else if dk_Locked d path then (d, Some RemoveTokenFailed)
      else (disk_drop path d, None))"

section \<open>The disk\<close>

lemma read_put [simp]: "disk_read (disk_put p c d) q = (if q = p then ReadOk c else disk_read d q)"
  by (simp add: disk_read_def disk_put_def update_conv')

lemma read_drop [simp]: "disk_read (disk_drop p d) q = (if q = p then ReadAbsent else disk_read d q)"
  by (simp add: disk_read_def disk_drop_def delete_conv')

lemma locked_put [simp]: "dk_Locked (disk_put p c d) = dk_Locked d"
  by (simp add: disk_put_def)

section \<open>Trimmed texts\<close>

lemma trimmed_ends:
  assumes "trim_space t = t"
  shows "find (\<lambda>e. e \<noteq> [] \<and> has_prefix t e) space_encodings = None"
    and "find (\<lambda>e. e \<noteq> [] \<and> has_prefix (rev t) e) (map rev space_encodings) = None"
proof -
  let ?l = "trim_left_with space_encodings t"
  let ?r = "trim_left_with (map rev space_encodings) (rev ?l)"
  have t: "rev ?r = t" using assms by (simp add: trim_space_def trim_left_space_def trim_right_space_def)
  have "length ?l = length t"
    using t length_trim_left_with [of "map rev space_encodings" "rev ?l"] length_trim_left_with [of space_encodings t] by (metis le_antisym length_rev)
  moreover obtain u where "t = u @ ?l" using trim_left_with_suffix by blast
  ultimately have "?l = t" by (metis append_Nil append_eq_append_conv)
  then show "find (\<lambda>e. e \<noteq> [] \<and> has_prefix t e) space_encodings = None"
    using trim_left_with_done [of space_encodings t] by simp
  have "?r = rev t" using t by (metis rev_rev_ident)
  then show "find (\<lambda>e. e \<noteq> [] \<and> has_prefix (rev t) e) (map rev space_encodings) = None"
    using trim_left_with_done [of "map rev space_encodings" "rev ?l"] by simp
qed

lemma trim_line:
  assumes "trim_space t = t" "t \<noteq> []"
  shows "trim_space (t @ nl) = t"
proof -
  have ends: "list_all (\<lambda>e. 1 < length e \<longrightarrow> last e \<noteq> line_feed) space_encodings" by code_simp
  have "\<not> has_prefix (t @ nl) e" if e: "e \<in> set space_encodings" "e \<noteq> []" for e
  proof
    assume "has_prefix (t @ nl) e"
    then obtain u where u: "t @ nl = e @ u" by (auto simp: has_prefix_iff)
    show False
    proof (cases u rule: rev_cases)
      case Nil
      with u have "last e = line_feed" "1 < length e" using assms(2) by (auto simp: nl_def dest!: sym [of _ e] sym [of _ "e @ []"])
      with ends e(1) show False by (auto simp: list_all_iff)
    next
      case (snoc v c)
      with u have "has_prefix t e" by (auto simp: nl_def has_prefix_iff)
      with trimmed_ends(1) [OF assms(1)] e show False by (auto simp: find_None_iff)
    qed
  qed
  then have "find (\<lambda>e. e \<noteq> [] \<and> has_prefix (t @ nl) e) space_encodings = None" by (auto simp: find_None_iff)
  then have left: "trim_left_with space_encodings (t @ nl) = t @ nl" by (rule trim_left_with_stops)
  have "find (\<lambda>e. e \<noteq> [] \<and> has_prefix (line_feed # rev t) e) (map rev space_encodings) = Some nl"
    by (simp add: space_encodings_def has_prefix_def nl_def line_feed_def)
  then have "trim_left_with (map rev space_encodings) (line_feed # rev t) = trim_left_with (map rev space_encodings) (rev t)"
    by (subst trim_left_with.simps) (simp add: nl_def)
  also have "\<dots> = rev t" using trimmed_ends(2) [OF assms(1)] by (rule trim_left_with_stops)
  finally show ?thesis by (simp add: trim_space_def trim_left_space_def trim_right_space_def left) (simp add: nl_def)
qed

section \<open>Layers\<close>

lemma map_of_overlay: "map_of (overlay upper lower) = map_of lower ++ map_of (rev upper)"
proof (induction upper arbitrary: lower)
  case (Cons p upper)
  have "map_of (AList.update (fst p) (snd p) lower) ++ map_of (rev upper) = map_of lower ++ ([fst p \<mapsto> snd p] ++ map_of (rev upper))"
    by (simp only: map_add_assoc update_conv') simp
  with Cons show ?case by (cases p) (simp add: overlay_def)
qed (simp add: overlay_def)

lemma map_of_distinct_rev: "distinct (map fst xs) \<Longrightarrow> map_of (rev xs) = map_of xs"
  by (rule map_of_inject_set [THEN iffD2]) (simp_all add: rev_map [symmetric])

section \<open>What seeding keeps\<close>

text \<open>A file a step may replace is its own; every other file that exists stays.\<close>

definition keeps_but :: "gostring \<Rightarrow> (host_files \<Rightarrow> seed_error + host_files) \<Rightarrow> bool" where
  "keeps_but p step \<longleftrightarrow> (\<forall>d d' q. step d = Inr d' \<longrightarrow> q \<noteq> p \<longrightarrow> disk_read d' q = disk_read d q)"

lemma seed_steps_keep:
  "keeps_but (Join [dst, ''settings.json'']) (seed_settings si home dst)"
  "keeps_but (Join [dst, ''CLAUDE.md'']) (seed_claude_md home dst)"
  by (auto simp: keeps_but_def seed_settings_def seed_claude_md_def WriteFile_def split: option.splits read_result.splits if_splits)

lemma credentials_kept: "seed_credentials si st root d = Inr d' \<Longrightarrow> disk_read d q \<noteq> ReadAbsent \<Longrightarrow> disk_read d' q = disk_read d q"
  by (auto simp: seed_credentials_def WriteFile_def split: option.splits if_splits)

lemma on_disk_keep: "keeps_but p step \<Longrightarrow> q \<noteq> p \<Longrightarrow> disk_read (fst (on_disk step r)) q = disk_read (fst r) q"
  by (cases r) (auto simp: on_disk_def keeps_but_def split: option.splits sum.splits)

lemma on_disk_credentials:
  "disk_read (fst r) q \<noteq> ReadAbsent \<Longrightarrow> disk_read (fst (on_disk (seed_credentials si st root) r)) q = disk_read (fst r) q"
  by (cases r) (auto simp: on_disk_def credentials_kept split: option.splits sum.splits)

section \<open>Properties\<close>

text \<open>
  C40: Seeding a state directory never loses what an agent has written: apart from the two snapshots of the host, settings and
  instructions, every file that exists is the same afterwards, the refreshed credentials and the agent's memory
  included, and whether or not seeding fails half-way.
\<close>

theorem seeding_keeps_files:
  assumes "disk_read d p \<noteq> ReadAbsent"
    and "p \<notin> {Join [Join [stateRoot, ''claude''], ''settings.json''], Join [Join [stateRoot, ''claude''], ''CLAUDE.md'']}"
  shows "disk_read (fst (SeedClaudeStateDir si stateRoot clawkRootDir d)) p = disk_read d p \<and>
    disk_read (fst (SeedClaudeMemory stateRoot seed d)) p = disk_read d p"
proof (rule conjI)
  let ?dst = "Join [stateRoot, ''claude'']"
  have "disk_read (fst (on_disk (seed_claude_md home ?dst) (on_disk (seed_settings si home ?dst) (d, None)))) p = disk_read d p" for home
    using on_disk_keep [OF seed_steps_keep(2)] on_disk_keep [OF seed_steps_keep(1)] assms(2) by simp
  with on_disk_credentials assms(1) show "disk_read (fst (SeedClaudeStateDir si stateRoot clawkRootDir d)) p = disk_read d p"
    by (simp add: SeedClaudeStateDir_def Let_def split: option.split)
  show "disk_read (fst (SeedClaudeMemory stateRoot seed d)) p = disk_read d p"
    using assms(1) by (auto simp: SeedClaudeMemory_def Let_def WriteFile_def split: option.splits if_splits)
qed

definition state_disk :: host_files where
  "state_disk = \<lparr>dk_Files = [(''/st/claude/.credentials.json'', ''refreshed''), (''/h/.claude/CLAUDE.md'', ''be brief'')], dk_Locked = (\<lambda>_. False)\<rparr>"

definition state_inputs :: seed_inputs where
  "state_inputs = \<lparr>si_HomeDir = Some ''/h'', si_lookup = (\<lambda>_. None), si_unmarshal = (\<lambda>_. None), si_marshal = (\<lambda>_. Some ''{}''),
     si_credentials = Some ''stale''\<rparr>"

theorem seeding_keeps_files_witness:
  "disk_read (fst (SeedClaudeStateDir state_inputs ''/st'' ''/rt'' state_disk)) ''/st/claude/.credentials.json'' = ReadOk ''refreshed'' \<and>
   disk_read (fst (SeedClaudeStateDir state_inputs ''/st'' ''/rt'' state_disk)) ''/st/claude/CLAUDE.md'' = ReadOk ''be brief''"
proof -
  have read: "disk_read state_disk ''/st/claude/.credentials.json'' = ReadOk ''refreshed''" by code_simp
  have "''/st/claude/.credentials.json'' \<notin> {Join [Join [''/st'', ''claude''], ''settings.json''], Join [Join [''/st'', ''claude''], ''CLAUDE.md'']}"
    by code_simp
  with read seeding_keeps_files [of state_disk "''/st/claude/.credentials.json''" "''/st''" state_inputs "''/rt''" "[]"]
  have "disk_read (fst (SeedClaudeStateDir state_inputs ''/st'' ''/rt'' state_disk)) ''/st/claude/.credentials.json'' = ReadOk ''refreshed''" by simp
  moreover have "disk_read (fst (SeedClaudeStateDir state_inputs ''/st'' ''/rt'' state_disk)) ''/st/claude/CLAUDE.md'' = ReadOk ''be brief''"
    by code_simp
  ultimately show ?thesis by simp
qed

text \<open>
  The settings of the guest are layered key by key: a setting clawk forces, else the one of the host, else clawk's default;
  a host file that is missing or malformed counts as empty.
\<close>

theorem guest_settings_layers:
  "\<exists>m. buildGuestClaudeSettings si d home = map_option (\<lambda>content. content @ nl) (si_marshal si m) \<and>
     (\<forall>k. map_of m k =
       (case map_of sandboxForcedClaudeSettings k of
          Some v \<Rightarrow> Some v
        | None \<Rightarrow> (case map_of (rev (host_settings si d home)) k of Some v \<Rightarrow> Some v | None \<Rightarrow> map_of sandboxDefaultClaudeSettings k)))"
proof (intro exI conjI allI)
  fix k
  have "distinct (map fst sandboxForcedClaudeSettings)" "distinct (map fst sandboxDefaultClaudeSettings)" by code_simp+
  then have "map_of (rev sandboxForcedClaudeSettings) = map_of sandboxForcedClaudeSettings"
    "map_of (rev sandboxDefaultClaudeSettings) = map_of sandboxDefaultClaudeSettings"
    by (simp_all add: map_of_distinct_rev)
  then show "map_of (overlay sandboxForcedClaudeSettings (overlay (host_settings si d home) (overlay sandboxDefaultClaudeSettings []))) k =
      (case map_of sandboxForcedClaudeSettings k of
         Some v \<Rightarrow> Some v
       | None \<Rightarrow> (case map_of (rev (host_settings si d home)) k of Some v \<Rightarrow> Some v | None \<Rightarrow> map_of sandboxDefaultClaudeSettings k))"
    by (simp add: map_of_overlay map_add_def split: option.split)
qed (rule buildGuestClaudeSettings_def)



end
