(* ===== verification/Layers.thy ===== *)
theory Layers
  imports Paths
begin

text \<open>
  The layers of an image (\<open>src/machine/oci/flatten.go\<close>): the merge of the layers of a container image into one stream
  of files, from the top layer down, with the markers that delete what lower layers hold.

  A layer is the list of its tar entries, as the reader yields them, and whether it can be opened and read to its end.
  What the merge should be is said bottom-up: unpack one layer over the other, and apply the markers of each to what
  is below it.
\<close>

section \<open>Definitions\<close>

subsection \<open>Tar entries\<close>

datatype tar_type = TypeReg | TypeDir | TypeSymlink | TypeLink | TypeXGlobalHeader | TypeOther

record tar_entry =
  te_Name :: gostring
  te_Typeflag :: tar_type
  te_Mode :: nat
  te_Body :: gostring

record image_layer =
  il_Opens :: bool
  il_Entries :: "tar_entry list"
  il_Complete :: bool

datatype flatten_error = LayerOpen | LayerRead | HeaderWrite gostring | BodyWrite gostring

datatype sink_answer = SinkOk | SinkNoHeader | SinkNoBody

subsection \<open>Markers\<close>

definition whiteoutPrefix :: gostring where "whiteoutPrefix = ''.wh.''"
definition whiteoutMeta :: gostring where "whiteoutMeta = ''.wh..wh.''"
definition opaqueWhiteout :: gostring where "opaqueWhiteout = ''.wh..wh..opq''"

datatype item = Ignored | OpaqueDir gostring | Deleted gostring | Content gostring

definition classify :: "tar_entry \<Rightarrow> item" where
  "classify hdr =
     (if te_Typeflag hdr = TypeXGlobalHeader then Ignored
      else let name = Clean (trim_prefix (te_Name hdr) ''/'') in
        if name = ''.'' \<or> name = ''..'' \<or> has_prefix name ''../'' then Ignored
        else let dir = Dir name; base = Base name in
          if base = opaqueWhiteout then OpaqueDir dir
          else if has_prefix base whiteoutMeta then Ignored
          else if has_prefix base whiteoutPrefix then Deleted (Join [dir, trim_prefix base whiteoutPrefix])
          else Content name)"

subsection \<open>The merge\<close>

type_synonym seen = "(gostring, bool) gomap"

lemma Dir_fixed: "Dir p = p \<longleftrightarrow> p = ''.'' \<or> p = ''/''"
proof
  assume fixed: "Dir p = p"
  let ?q = "up_to_slash p"
  obtain r where r: "p = ?q @ r" using up_to_slash_prefix by blast
  show "p = ''.'' \<or> p = ''/''"
  proof (rule ccontr)
    assume no: "\<not> (p = ''.'' \<or> p = ''/'')"
    have "Clean [] = ''.''" "Clean [slash] = ''/''" by code_simp+
    with no fixed have q: "?q \<noteq> []" "?q \<noteq> [slash]" "Clean ?q \<noteq> ''.''" by (auto simp: Dir_def)
    from Clean_shorter [OF q(1) last_up_to_slash [OF q(1)] q(2,3)] have "length (Dir p) < length ?q" by (simp add: Dir_def)
    also have "\<dots> \<le> length p" using r by (metis le_add1 length_append)
    finally show False using fixed by simp
  qed
next
  have "Dir ''.'' = ''.''" "Dir ''/'' = ''/''" by code_simp+
  then show "p = ''.'' \<or> p = ''/'' \<Longrightarrow> Dir p = p" by auto
qed

function shadowed_from :: "seen \<Rightarrow> gostring list \<Rightarrow> gostring \<Rightarrow> bool" where
  "shadowed_from seen opaque dir =
     (if map_of seen dir = Some True \<or> dir \<in> set opaque then True
      else if dir = ''.'' \<or> dir = ''/'' then False
      else shadowed_from seen opaque (Dir dir))"
  by pat_completeness auto
termination
  by (relation "measure (\<lambda>(_, _, d). depth_measure d)") (simp_all add: Dir_shorter Dir_fixed)

declare shadowed_from.simps [simp del]

definition shadowed :: "seen \<Rightarrow> gostring list \<Rightarrow> gostring \<Rightarrow> bool" where
  "shadowed seen opaque name = shadowed_from seen opaque (Dir name)"

record flat_state =
  fs_seen :: seen
  fs_pending :: "gostring list"
  fs_out :: "tar_entry list"

fun flatten_entries ::
  "(tar_entry \<Rightarrow> sink_answer) \<Rightarrow> gostring list \<Rightarrow> tar_entry list \<Rightarrow> flat_state \<Rightarrow> flatten_error + flat_state" where
  "flatten_entries sink opaque [] st = Inr st"
| "flatten_entries sink opaque (hdr # rest) st =
     (case classify hdr of
        Ignored \<Rightarrow> flatten_entries sink opaque rest st
      | OpaqueDir dir \<Rightarrow> flatten_entries sink opaque rest (st\<lparr>fs_pending := dir # fs_pending st\<rparr>)
      | Deleted target \<Rightarrow> flatten_entries sink opaque rest (st\<lparr>fs_seen := AList.update target True (fs_seen st)\<rparr>)
      | Content name \<Rightarrow>
          if map_of (fs_seen st) name \<noteq> None then flatten_entries sink opaque rest st
          else if shadowed (fs_seen st) opaque name then flatten_entries sink opaque rest st
          else let hdr' = hdr\<lparr>te_Name := name\<rparr> in
            case sink hdr' of
              SinkNoHeader \<Rightarrow> Inl (HeaderWrite name)
            | SinkNoBody \<Rightarrow> if te_Body hdr' = [] then flatten_entries sink opaque rest
                  (st\<lparr>fs_seen := AList.update name (te_Typeflag hdr' \<noteq> TypeDir) (fs_seen st), fs_out := fs_out st @ [hdr']\<rparr>)
                else Inl (BodyWrite name)
            | SinkOk \<Rightarrow> flatten_entries sink opaque rest
                  (st\<lparr>fs_seen := AList.update name (te_Typeflag hdr' \<noteq> TypeDir) (fs_seen st), fs_out := fs_out st @ [hdr']\<rparr>))"

definition flattenLayer ::
  "(tar_entry \<Rightarrow> sink_answer) \<Rightarrow> gostring list \<Rightarrow> image_layer \<Rightarrow> flat_state \<Rightarrow> flatten_error + flat_state" where
  "flattenLayer sink opaque layer st =
     (if \<not> il_Opens layer then Inl LayerOpen
      else case flatten_entries sink opaque (il_Entries layer) st of
        Inl err \<Rightarrow> Inl err
      | Inr st' \<Rightarrow> if il_Complete layer then Inr st' else Inl LayerRead)"

text \<open>The layers from the top one down; an error carries the index of its layer.\<close>

fun flatten_layers ::
  "(tar_entry \<Rightarrow> sink_answer) \<Rightarrow> gostring list \<Rightarrow> image_layer list \<Rightarrow> seen \<Rightarrow> tar_entry list \<Rightarrow> (nat \<times> flatten_error) + tar_entry list" where
  "flatten_layers sink opaque [] seen out = Inr out"
| "flatten_layers sink opaque (l # ls) seen out =
     (case flattenLayer sink opaque l \<lparr>fs_seen = seen, fs_pending = [], fs_out = out\<rparr> of
        Inl err \<Rightarrow> Inl (length ls, err)
      | Inr st \<Rightarrow> flatten_layers sink (fs_pending st @ opaque) ls (fs_seen st) (fs_out st))"

definition shadow_seen :: "gostring list \<Rightarrow> seen" where
  "shadow_seen shadow = fold (\<lambda>s. AList.update (Clean (trim_prefix s ''/'')) False) shadow []"

text \<open>\<open>layers\<close> is in the order of the manifest, the base first.\<close>

definition flatten :: "(tar_entry \<Rightarrow> sink_answer) \<Rightarrow> image_layer list \<Rightarrow> gostring list \<Rightarrow> (nat \<times> flatten_error) + tar_entry list" where
  "flatten sink layers shadow = flatten_layers sink [] (rev layers) (shadow_seen shadow) []"

section \<open>What a layer does to the layers below\<close>

text \<open>The path an entry is for, and whether it is an entry of the file system at all.\<close>

definition entry_path :: "tar_entry \<Rightarrow> gostring" where
  "entry_path e = Clean (trim_prefix (te_Name e) ''/'')"

definition in_tree :: "tar_entry \<Rightarrow> bool" where
  "in_tree e \<longleftrightarrow> te_Typeflag e \<noteq> TypeXGlobalHeader \<and> entry_path e \<notin> {''.'', ''..''} \<and> take 3 (entry_path e) \<noteq> ''../''"

text \<open>What the image format says of an entry: content has no whiteout prefix, a deletion names its target after it.\<close>

definition contents :: "tar_entry list \<Rightarrow> tar_entry list" where
  "contents l = concat (map (\<lambda>e. if in_tree e \<and> take 4 (Base (entry_path e)) \<noteq> ''.wh.'' then [e\<lparr>te_Name := entry_path e\<rparr>] else []) l)"

definition deletions :: "tar_entry list \<Rightarrow> gostring list" where
  "deletions l = concat (map (\<lambda>e. if in_tree e \<and> take 4 (Base (entry_path e)) = ''.wh.'' \<and> take 4 (drop 4 (Base (entry_path e))) \<noteq> ''.wh.''
     then [Join [Dir (entry_path e), drop 4 (Base (entry_path e))]] else []) l)"

definition opaques :: "tar_entry list \<Rightarrow> gostring list" where
  "opaques l = concat (map (\<lambda>e. if in_tree e \<and> Base (entry_path e) = ''.wh..wh..opq'' then [Dir (entry_path e)] else []) l)"

definition replaced :: "tar_entry list \<Rightarrow> gostring list" where
  "replaced l = map te_Name (filter (\<lambda>e. te_Typeflag e \<noteq> TypeDir) (contents l))"

definition parents :: "gostring \<Rightarrow> gostring list" where
  "parents p = ancestors (Dir p)"

definition removes :: "tar_entry list \<Rightarrow> gostring \<Rightarrow> bool" where
  "removes l p \<longleftrightarrow> p \<in> set (deletions l) \<or> (\<exists>a \<in> set (parents p). a \<in> set (deletions l) \<or> a \<in> set (opaques l) \<or> a \<in> set (replaced l))"

text \<open>Unpacking a layer over a file system.\<close>

definition unpack :: "tar_entry list \<Rightarrow> (gostring \<rightharpoonup> tar_entry) \<Rightarrow> gostring \<rightharpoonup> tar_entry" where
  "unpack l fs p =
     (case map_of (map (\<lambda>e. (te_Name e, e)) (contents l)) p of
        Some e \<Rightarrow> Some e
      | None \<Rightarrow> if removes l p then None else fs p)"

text \<open>
  A layer as builders write it: no path twice, and nothing in it lies at or below a path it deletes, or below a path that
  is not a directory in it.
\<close>

definition layer_ok :: "tar_entry list \<Rightarrow> bool" where
  "layer_ok l \<longleftrightarrow> distinct (map te_Name (contents l)) \<and>
     list_all (\<lambda>e. te_Name e \<notin> set (deletions l) \<and>
       list_all (\<lambda>a. a \<notin> set (deletions l) \<and> a \<notin> set (replaced l)) (parents (te_Name e))) (contents l)"

text \<open>
  No layer has a non-directory at a path that a higher layer has as a directory, or that is kept for the caller, while a
  lower layer has files below that path. The list starts with the top layer; \<open>held\<close> are the paths so far.
\<close>

fun kinds_settled :: "gostring list \<Rightarrow> tar_entry list list \<Rightarrow> bool" where
  "kinds_settled held [] \<longleftrightarrow> True"
| "kinds_settled held (l # ls) \<longleftrightarrow>
     list_all (\<lambda>p. p \<in> set held \<longrightarrow> list_all (\<lambda>k. list_all (\<lambda>e. p \<notin> set (parents (te_Name e))) (contents k)) ls) (replaced l) \<and>
     kinds_settled (map te_Name (filter (\<lambda>e. te_Typeflag e = TypeDir) (contents l)) @ held) ls"

section \<open>Entries by kind\<close>

lemma prefix_takes: "has_prefix b whiteoutPrefix \<longleftrightarrow> take 4 b = ''.wh.''" "has_prefix p ''../'' \<longleftrightarrow> take 3 p = ''../''"
  "has_prefix b whiteoutMeta \<longleftrightarrow> take 4 b = ''.wh.'' \<and> take 4 (drop 4 b) = ''.wh.''"
proof -
  have "has_prefix b (''.wh.'' @ ''.wh.'')" if "take 4 b = ''.wh.''" "take 4 (drop 4 b) = ''.wh.''"
    unfolding has_prefix_iff using append_take_drop_id [of 4 b] append_take_drop_id [of 4 "drop 4 b"] that by (metis append_assoc)
  then show "has_prefix b whiteoutMeta \<longleftrightarrow> take 4 b = ''.wh.'' \<and> take 4 (drop 4 b) = ''.wh.''"
    by (auto simp: whiteoutMeta_def) (auto simp: has_prefix_iff)
qed (simp_all add: has_prefix_def whiteoutPrefix_def eval_nat_numeral)

lemma target_name: "take 4 b = ''.wh.'' \<Longrightarrow> trim_prefix b whiteoutPrefix = drop 4 b"
  using prefix_takes(1) [of b] by (simp add: trim_prefix_def) (simp add: whiteoutPrefix_def eval_nat_numeral)

lemma classify_cases:
  "classify e = (if \<not> in_tree e then Ignored
     else if Base (entry_path e) = ''.wh..wh..opq'' then OpaqueDir (Dir (entry_path e))
     else if take 4 (Base (entry_path e)) \<noteq> ''.wh.'' then Content (entry_path e)
     else if take 4 (drop 4 (Base (entry_path e))) = ''.wh.'' then Ignored
     else Deleted (Join [Dir (entry_path e), drop 4 (Base (entry_path e))]))"
proof -
  have opq: "take 4 (''.wh..wh..opq'' :: gostring) = ''.wh.''" "take 4 (drop 4 (''.wh..wh..opq'' :: gostring)) = ''.wh.''" by simp_all
  show ?thesis unfolding classify_def Let_def in_tree_def entry_path_def [symmetric] prefix_takes opaqueWhiteout_def
    using target_name [of "Base (entry_path e)"] opq by simp
qed

lemma parts_by_kind:
  "contents l = concat (map (\<lambda>e. case classify e of Content n \<Rightarrow> [e\<lparr>te_Name := n\<rparr>] | _ \<Rightarrow> []) l)"
  "deletions l = concat (map (\<lambda>e. case classify e of Deleted n \<Rightarrow> [n] | _ \<Rightarrow> []) l)"
  "opaques l = concat (map (\<lambda>e. case classify e of OpaqueDir n \<Rightarrow> [n] | _ \<Rightarrow> []) l)"
  unfolding contents_def deletions_def opaques_def
  by (rule arg_cong [where f = concat], rule map_cong, rule refl, auto simp: classify_cases)+

section \<open>Parents\<close>

lemma ancestors_trans: "a \<in> set (ancestors p) \<Longrightarrow> set (ancestors a) \<subseteq> set (ancestors p)"
proof (induction p rule: ancestors.induct)
  case (1 p)
  show ?case
  proof (cases "a = p")
    case False
    with 1 have "Dir p \<noteq> p" "a \<in> set (ancestors (Dir p))" by (subst (asm) ancestors.simps, auto split: if_splits)+
    with 1 show ?thesis by (subst ancestors.simps [of p]) auto
  qed simp
qed

lemma parents_ancestors: "set (parents p) \<subseteq> set (ancestors p)"
proof (cases "Dir p = p")
  case False
  then show ?thesis unfolding parents_def by (subst ancestors.simps [of p]) auto
qed (simp add: parents_def)

lemma parents_trans: "a \<in> set (parents p) \<Longrightarrow> b \<in> set (parents a) \<Longrightarrow> b \<in> set (parents p)"
  using ancestors_trans [of a "Dir p"] parents_ancestors [of a] by (auto simp: parents_def)

interpretation shade: climber "shadowed_from seen opaque" "\<lambda>d. if map_of seen d = Some True \<or> d \<in> set opaque then Some True else None" "\<lambda>_. False"
  for seen opaque
  by unfold_locales (subst shadowed_from.simps, simp add: Dir_fixed)

lemma shadowed_iff: "shadowed seen opaque p \<longleftrightarrow> (\<exists>a \<in> set (parents p). map_of seen a = Some True \<or> a \<in> set opaque)"
  using shade.climb_nearest [where p = "Dir p" and seen = seen and opaque = opaque] by (auto simp: shadowed_def parents_def split: if_splits)

section \<open>One layer\<close>

text \<open>A path is spoken for when nothing of it comes from the layers below any more.\<close>

definition spoken_for :: "seen \<Rightarrow> gostring list \<Rightarrow> gostring \<Rightarrow> bool" where
  "spoken_for seen opaque p \<longleftrightarrow> map_of seen p \<noteq> None \<or> shadowed seen opaque p"

text \<open>The files taken from a layer, and the marks it leaves on them and on its deletions.\<close>

definition taken :: "seen \<Rightarrow> gostring list \<Rightarrow> tar_entry list \<Rightarrow> tar_entry list" where
  "taken seen opaque l = filter (\<lambda>e. \<not> spoken_for seen opaque (te_Name e)) (contents l)"

definition kind_of :: "tar_entry list \<Rightarrow> gostring \<Rightarrow> bool option" where
  "kind_of es = map_of (map (\<lambda>e. (te_Name e, te_Typeflag e \<noteq> TypeDir)) es)"

definition marks :: "seen \<Rightarrow> gostring list \<Rightarrow> tar_entry list \<Rightarrow> gostring \<Rightarrow> bool option" where
  "marks seen opaque l p =
     (if p \<in> set (deletions l) then Some True
      else case kind_of (taken seen opaque l) p of Some b \<Rightarrow> Some b | None \<Rightarrow> map_of seen p)"

lemma parts_append [simp]:
  "contents (es @ fs) = contents es @ contents fs" "deletions (es @ fs) = deletions es @ deletions fs"
  "opaques (es @ fs) = opaques es @ opaques fs" "taken seen opaque (es @ fs) = taken seen opaque es @ taken seen opaque fs"
  by (simp_all add: parts_by_kind taken_def)

lemma parts_Nil [simp]: "contents [] = []" "deletions [] = []" "opaques [] = []" "taken seen opaque [] = []"
  by (simp_all add: parts_by_kind taken_def)

lemma kind_of_SomeD: "kind_of es p = Some b \<Longrightarrow> \<exists>e \<in> set es. te_Name e = p \<and> b = (te_Typeflag e \<noteq> TypeDir)"
  by (auto simp: kind_of_def dest!: map_of_SomeD)

lemma kind_of_None: "kind_of es p = None \<longleftrightarrow> p \<notin> te_Name ` set es"
  by (auto simp: kind_of_def map_of_eq_None_iff image_image)

lemma kind_of_snoc: "te_Name e \<notin> te_Name ` set es \<Longrightarrow> kind_of (es @ [e]) = (kind_of es)(te_Name e \<mapsto> (te_Typeflag e \<noteq> TypeDir))"
  using kind_of_None [of es "te_Name e"] by (auto simp: kind_of_def map_add_def fun_eq_iff split: option.split)

lemma taken_names: "e \<in> set (taken seen opaque l) \<Longrightarrow> e \<in> set (contents l) \<and> \<not> spoken_for seen opaque (te_Name e)"
  by (simp add: taken_def)

text \<open>Inside a layer in order, whether a file is taken depends on the layers above only.\<close>

lemma own_marks_irrelevant:
  assumes ok: "layer_ok (ds @ e # es)" and e: "classify e = Content n" and m: "map_of cur = marks seen opaque ds"
  shows "spoken_for cur opaque n \<longleftrightarrow> spoken_for seen opaque n"
proof -
  have c: "contents (e # es) = e\<lparr>te_Name := n\<rparr> # contents es" using e by (simp add: parts_by_kind(1))
  have n: "n \<notin> te_Name ` set (contents ds)" "n \<notin> set (deletions ds)"
    and par: "a \<in> set (parents n) \<Longrightarrow> a \<notin> set (deletions ds) \<and> a \<notin> set (replaced (ds @ e # es))" for a
    using ok c by (auto simp: layer_ok_def list_all_iff)
  have self: "map_of cur n = map_of seen n"
    using n m by (auto simp: marks_def fun_eq_iff split: option.split dest!: kind_of_SomeD taken_names)
  have "map_of cur a = Some True \<longleftrightarrow> map_of seen a = Some True" if a: "a \<in> set (parents n)" for a
  proof (cases "kind_of (taken seen opaque ds) a")
    case (Some b)
    then obtain x where x: "x \<in> set (contents ds)" "te_Name x = a" "\<not> spoken_for seen opaque a" "b = (te_Typeflag x \<noteq> TypeDir)"
      by (auto dest!: kind_of_SomeD taken_names)
    with par [OF a] have "\<not> b" by (auto simp: replaced_def)
    with x Some par [OF a] m show ?thesis by (auto simp: marks_def spoken_for_def fun_eq_iff)
  qed (use par [OF a] m in \<open>auto simp: marks_def fun_eq_iff\<close>)
  with self show ?thesis by (auto simp: spoken_for_def shadowed_iff)
qed

lemma marks_snoc:
  assumes ok: "layer_ok (ds @ e # es)"
  shows "classify e = Ignored \<or> (\<exists>d. classify e = OpaqueDir d) \<Longrightarrow> marks seen opaque (ds @ [e]) = marks seen opaque ds"
    and "classify e = Deleted d \<Longrightarrow> marks seen opaque (ds @ [e]) = (marks seen opaque ds)(d \<mapsto> True)"
    and "classify e = Content n \<Longrightarrow> \<not> spoken_for seen opaque n \<Longrightarrow>
      marks seen opaque (ds @ [e]) = (marks seen opaque ds)(n \<mapsto> (te_Typeflag e \<noteq> TypeDir))"
    and "classify e = Content n \<Longrightarrow> spoken_for seen opaque n \<Longrightarrow> marks seen opaque (ds @ [e]) = marks seen opaque ds"
proof -
  show "classify e = Content n \<Longrightarrow> \<not> spoken_for seen opaque n \<Longrightarrow>
      marks seen opaque (ds @ [e]) = (marks seen opaque ds)(n \<mapsto> (te_Typeflag e \<noteq> TypeDir))"
  proof -
    assume e: "classify e = Content n" and new: "\<not> spoken_for seen opaque n"
    then have one: "taken seen opaque [e] = [e\<lparr>te_Name := n\<rparr>]" "deletions [e] = []" by (simp_all add: taken_def parts_by_kind)
    have "contents (e # es) = e\<lparr>te_Name := n\<rparr> # contents es" using e by (simp add: parts_by_kind(1))
    with ok have n: "n \<notin> te_Name ` set (contents ds)" "n \<notin> set (deletions ds)" by (auto simp: layer_ok_def)
    then have "n \<notin> te_Name ` set (taken seen opaque ds)" by (auto dest!: taken_names)
    then show ?thesis using kind_of_snoc [of "e\<lparr>te_Name := n\<rparr>" "taken seen opaque ds"] one n
      by (auto simp: marks_def fun_eq_iff)
  qed
qed (auto simp: marks_def fun_eq_iff taken_def parts_by_kind)

definition accepts :: "(tar_entry \<Rightarrow> sink_answer) \<Rightarrow> bool" where
  "accepts sink \<longleftrightarrow> (\<forall>e. sink e = SinkOk)"

lemma flatten_entries_run:
  assumes "accepts sink" "layer_ok (ds @ es)" "map_of (fs_seen st) = marks seen opaque ds"
  shows "\<exists>st'. flatten_entries sink opaque es st = Inr st' \<and> map_of (fs_seen st') = marks seen opaque (ds @ es) \<and>
    set (fs_pending st') = set (fs_pending st) \<union> set (opaques es) \<and> fs_out st' = fs_out st @ taken seen opaque es"
  using assms(2,3)
proof (induction es arbitrary: ds st)
  case (Cons e es)
  have ok: "layer_ok ((ds @ [e]) @ es)" using Cons.prems(1) by simp
  note run = Cons.IH [OF ok] and snoc = marks_snoc [OF Cons.prems(1), where seen = seen and opaque = opaque]
  show ?case
  proof (cases "classify e")
    case (Content n)
    have d: "spoken_for (fs_seen st) opaque n \<longleftrightarrow> spoken_for seen opaque n"
      using own_marks_irrelevant [OF Cons.prems(1) Content Cons.prems(2)] .
    show ?thesis
    proof (cases "spoken_for seen opaque n")
      case True
      with run [of st] snoc(4) Content Cons.prems d show ?thesis
        by (auto simp: spoken_for_def taken_def parts_by_kind)
    next
      case False
      let ?st = "st\<lparr>fs_seen := AList.update n (te_Typeflag e \<noteq> TypeDir) (fs_seen st), fs_out := fs_out st @ [e\<lparr>te_Name := n\<rparr>]\<rparr>"
      have "flatten_entries sink opaque (e # es) st = flatten_entries sink opaque es ?st"
        using False d Content assms(1) by (auto simp: spoken_for_def accepts_def Let_def)
      with run [of ?st] snoc(3) [OF Content False] Cons.prems(2) Content False show ?thesis
        by (auto simp: update_conv' taken_def parts_by_kind)
    qed
  next
    case (Deleted d)
    with run [of "st\<lparr>fs_seen := AList.update d True (fs_seen st)\<rparr>"] snoc(2) Cons.prems(2) show ?thesis
      by (auto simp: update_conv' taken_def parts_by_kind)
  next
    case (OpaqueDir d)
    with run [of "st\<lparr>fs_pending := d # fs_pending st\<rparr>"] snoc(1) Cons.prems(2) show ?thesis
      by (auto simp: taken_def parts_by_kind)
  next
    case Ignored
    with run [of st] snoc(1) Cons.prems(2) show ?thesis by (auto simp: taken_def parts_by_kind)
  qed
qed simp

section \<open>All layers\<close>

text \<open>What the layers above, the top one first, hide of the layers below.\<close>

definition hidden :: "gostring list \<Rightarrow> tar_entry list list \<Rightarrow> gostring \<Rightarrow> bool" where
  "hidden held uppers p \<longleftrightarrow> p \<in> set held \<or> (\<exists>l \<in> set uppers. p \<in> te_Name ` set (contents l) \<or> removes l p)"

lemma hidden_Cons: "hidden held (l # us) p \<longleftrightarrow> hidden held us p \<or> p \<in> te_Name ` set (contents l) \<or> removes l p"
  by (auto simp: hidden_def)

text \<open>What is left of the layers below those that have been merged.\<close>

fun visible :: "gostring list \<Rightarrow> tar_entry list list \<Rightarrow> tar_entry list list \<Rightarrow> tar_entry list" where
  "visible held us [] = []"
| "visible held us (l # ls) = filter (\<lambda>e. \<not> hidden held us (te_Name e)) (contents l) @ visible held (l # us) ls"

definition below :: "tar_entry list list \<Rightarrow> gostring set" where
  "below ls = (\<Union>l \<in> set ls. te_Name ` set (contents l))"

lemma below_Cons: "below (l # ls) = te_Name ` set (contents l) \<union> below ls"
  by (simp add: below_def)

text \<open>The marks agree with what is hidden, on every path that can still come.\<close>

definition in_step :: "seen \<Rightarrow> gostring list \<Rightarrow> gostring list \<Rightarrow> gostring list \<Rightarrow> tar_entry list list \<Rightarrow> tar_entry list list \<Rightarrow> bool" where
  "in_step seen opaque held dirs us ls \<longleftrightarrow>
     (\<forall>p \<in> below ls. spoken_for seen opaque p \<longleftrightarrow> hidden held us p) \<and> (\<forall>a. map_of seen a = Some False \<longrightarrow> a \<in> set dirs)"

lemma marks_True:
  "marks seen opaque l a = Some True \<longleftrightarrow> a \<in> set (deletions l) \<or> map_of seen a = Some True \<or>
     a \<in> set (replaced l) \<and> \<not> spoken_for seen opaque a" if "layer_ok l"
proof (cases "kind_of (taken seen opaque l) a")
  case None
  then have "a \<in> set (replaced l) \<Longrightarrow> spoken_for seen opaque a" by (auto simp: kind_of_None taken_def replaced_def)
  with None show ?thesis by (auto simp: marks_def)
next
  case (Some b)
  then obtain e where e: "e \<in> set (contents l)" "te_Name e = a" "\<not> spoken_for seen opaque a" "b = (te_Typeflag e \<noteq> TypeDir)"
    by (auto dest!: kind_of_SomeD taken_names)
  have one: "f = e" if "f \<in> set (contents l)" "te_Name f = a" for f
    using that e(1,2) \<open>layer_ok l\<close> unfolding layer_ok_def distinct_map inj_on_def by metis
  have "a \<in> set (replaced l) \<longleftrightarrow> b" unfolding replaced_def set_map set_filter
    by (metis (mono_tags, lifting) e(1,2,4) one imageE image_eqI mem_Collect_eq)
  moreover have "map_of seen a = None" using e(3) by (simp add: spoken_for_def)
  ultimately show ?thesis using Some e(3) by (simp add: marks_def)
qed

lemma marks_None: "marks seen opaque l a = None \<longleftrightarrow> a \<notin> set (deletions l) \<and> map_of seen a = None \<and> a \<notin> te_Name ` set (taken seen opaque l)"
  by (auto simp: marks_def kind_of_None split: option.split) (metis kind_of_None option.distinct(1))+

lemma step_kept:
  assumes ok: "layer_ok l" and inv: "in_step seen opaque held dirs us (l # ls)" and kinds: "kinds_settled dirs (l # ls)"
    and seen': "map_of seen' = marks seen opaque l" and opaque': "set opaque' = set opaque \<union> set (opaques l)"
  shows "in_step seen' opaque' held (map te_Name (filter (\<lambda>e. te_Typeflag e = TypeDir) (contents l)) @ dirs) (l # us) ls"
proof -
  have "spoken_for seen' opaque' p \<longleftrightarrow> hidden held (l # us) p" if p: "p \<in> below ls" for p
  proof
    assume d: "spoken_for seen' opaque' p"
    have "hidden held us p" if "spoken_for seen opaque p" using inv that p by (simp add: in_step_def below_Cons)
    with d show "hidden held (l # us) p"
      unfolding spoken_for_def shadowed_iff seen' marks_True [OF ok] marks_None opaque' hidden_Cons removes_def
      by (auto simp: taken_def spoken_for_def)
  next
    assume h: "hidden held (l # us) p"
    have old: "spoken_for seen' opaque' p" if "spoken_for seen opaque p"
      using that unfolding spoken_for_def shadowed_iff seen' marks_True [OF ok] marks_None opaque' by (auto)
    have cut: "spoken_for seen' opaque' p" if a: "a \<in> set (parents p)" "a \<in> set (replaced l)" for a
    proof (cases "spoken_for seen opaque a")
      case True
      have "map_of seen a \<noteq> Some False"
        using kinds inv a p by (auto simp: in_step_def list_all_iff below_def)
      with True a(1) have "spoken_for seen opaque p" unfolding spoken_for_def shadowed_iff by (auto dest: parents_trans)
      then show ?thesis by (rule old)
    next
      case False
      with a show ?thesis unfolding spoken_for_def shadowed_iff seen' marks_True [OF ok] by blast
    qed
    have own: "spoken_for seen' opaque' p" if "p \<in> te_Name ` set (contents l)"
    proof (cases "spoken_for seen opaque p")
      case False
      with that have "p \<in> te_Name ` set (taken seen opaque l)" by (auto simp: taken_def)
      then show ?thesis unfolding spoken_for_def seen' marks_None by blast
    qed (rule old)
    have "spoken_for seen opaque p" if "hidden held us p" using inv that p by (simp add: in_step_def below_Cons)
    with h old own cut show "spoken_for seen' opaque' p"
      unfolding hidden_Cons removes_def spoken_for_def shadowed_iff seen' marks_True [OF ok] marks_None opaque' by blast
  qed
  moreover have "a \<in> set (map te_Name (filter (\<lambda>e. te_Typeflag e = TypeDir) (contents l)) @ dirs)" if "map_of seen' a = Some False" for a
    using that inv by (auto simp: seen' marks_def in_step_def split: if_splits option.splits dest!: kind_of_SomeD taken_names)
  ultimately show ?thesis by (simp add: in_step_def)
qed

lemma flatten_layers_visible:
  assumes "accepts sink" "in_step seen opaque held dirs us (map il_Entries ls)" "kinds_settled dirs (map il_Entries ls)"
    and "list_all (\<lambda>l. il_Opens l \<and> il_Complete l \<and> layer_ok (il_Entries l)) ls"
  shows "flatten_layers sink opaque ls seen out = Inr (out @ visible held us (map il_Entries ls))"
  using assms(2-4)
proof (induction ls arbitrary: seen opaque dirs us out)
  case (Cons l ls)
  let ?l = "il_Entries l" and ?st = "\<lparr>fs_seen = seen, fs_pending = [], fs_out = out\<rparr>"
  have ok: "layer_ok ?l" using Cons.prems by simp
  have "map_of (fs_seen ?st) = marks seen opaque []" by (simp add: marks_def fun_eq_iff kind_of_def)
  with flatten_entries_run [OF assms(1), of "[]" ?l ?st seen opaque] ok
  obtain st' where st': "flatten_entries sink opaque ?l ?st = Inr st'" "map_of (fs_seen st') = marks seen opaque ?l"
    "set (fs_pending st') = set (opaques ?l)" "fs_out st' = out @ taken seen opaque ?l" by auto
  have "in_step (fs_seen st') (fs_pending st' @ opaque) held (map te_Name (filter (\<lambda>e. te_Typeflag e = TypeDir) (contents ?l)) @ dirs) (?l # us)
      (map il_Entries ls)"
    by (rule step_kept [OF ok, where seen = seen and opaque = opaque]) (use Cons.prems st'(2,3) in auto)
  from Cons.IH [OF this] Cons.prems(2,3)
  have "flatten_layers sink (fs_pending st' @ opaque) ls (fs_seen st') (fs_out st') = Inr (fs_out st' @ visible held (?l # us) (map il_Entries ls))" by simp
  moreover have "taken seen opaque ?l = filter (\<lambda>e. \<not> hidden held us (te_Name e)) (contents ?l)"
    using Cons.prems(1) unfolding taken_def by (intro filter_cong) (auto simp: in_step_def below_Cons)
  ultimately show ?case using st' Cons.prems(3) by (simp add: flattenLayer_def)
qed simp

section \<open>The merge unpacks the layers\<close>

abbreviation by_name :: "tar_entry list \<Rightarrow> gostring \<rightharpoonup> tar_entry" where
  "by_name es \<equiv> map_of (map (\<lambda>e. (te_Name e, e)) es)"

lemma by_name_filter: "by_name (filter (\<lambda>e. P (te_Name e)) es) p = (if P p then by_name es p else None)"
  by (induction es) auto

lemma by_name_None: "by_name es p = None \<longleftrightarrow> p \<notin> te_Name ` set es"
  by (auto simp: map_of_eq_None_iff image_image)

lemma visible_unpacks: "by_name (visible held us ls) p = (if hidden held us p then None else foldr unpack ls Map.empty p)"
proof (induction ls arbitrary: us)
  case (Cons l ls)
  show ?case
    using by_name_None [of "contents l" p]
    by (cases "by_name (contents l) p")
      (simp_all add: map_add_def by_name_filter [where P = "\<lambda>n. \<not> hidden held us n"] Cons.IH hidden_Cons unpack_def [of l "foldr unpack ls Map.empty" p])
qed simp

lemma visible_distinct:
  assumes "list_all layer_ok ls"
  shows "distinct (map te_Name (visible held us ls)) \<and> (\<forall>e \<in> set (visible held us ls). \<not> hidden held us (te_Name e))"
  using assms
proof (induction ls arbitrary: us)
  case (Cons l ls)
  have "distinct (map te_Name (filter (\<lambda>e. \<not> hidden held us (te_Name e)) (contents l)))"
    using Cons.prems by (simp add: layer_ok_def distinct_map_filter)
  moreover have "distinct (map te_Name (visible held (l # us) ls))"
    "\<And>e. e \<in> set (visible held (l # us) ls) \<Longrightarrow> \<not> hidden held us (te_Name e) \<and> te_Name e \<notin> te_Name ` set (contents l)"
    using Cons.IH [of "l # us"] Cons.prems by (auto simp: hidden_Cons)
  ultimately show ?case by simp (blast intro: rev_image_eqI [OF _ sym])
qed simp

definition held_paths :: "gostring list \<Rightarrow> gostring list" where
  "held_paths shadow = map (\<lambda>s. Clean (trim_prefix s ''/'')) shadow"

lemma shadow_marks: "map_of (shadow_seen shadow) p = (if p \<in> set (held_paths shadow) then Some False else None)"
proof -
  have "map_of (fold (\<lambda>s. AList.update (Clean (trim_prefix s ''/'')) False) shadow m) p = (if p \<in> set (held_paths shadow) then Some False else map_of m p)" for m
    by (induction shadow arbitrary: m) (auto simp: held_paths_def update_conv')
  from this [of "[]"] show ?thesis by (simp add: shadow_seen_def)
qed

lemma start_in_step: "in_step (shadow_seen shadow) [] (held_paths shadow) (held_paths shadow) [] ls"
  by (auto simp: in_step_def spoken_for_def shadowed_iff shadow_marks hidden_def)

lemma flatten_unpacks:
  assumes "accepts sink" "list_all (\<lambda>l. il_Opens l \<and> il_Complete l \<and> layer_ok (il_Entries l)) layers"
    and "kinds_settled (held_paths shadow) (rev (map il_Entries layers))"
  shows "\<exists>out. flatten sink layers shadow = Inr out \<and> distinct (map te_Name out) \<and>
    (\<forall>p. map_of (map (\<lambda>e. (te_Name e, e)) out) p =
       (if p \<in> set (held_paths shadow) then None else fold unpack (map il_Entries layers) Map.empty p))"
proof (intro exI conjI allI)
  let ?ls = "rev (map il_Entries layers)" and ?out = "visible (held_paths shadow) [] (rev (map il_Entries layers))"
  have "flatten_layers sink [] (rev layers) (shadow_seen shadow) [] = Inr ([] @ visible (held_paths shadow) [] (map il_Entries (rev layers)))"
    by (rule flatten_layers_visible [OF assms(1) start_in_step]) (use assms(2,3) in \<open>simp_all add: rev_map list_all_rev\<close>)
  then show "flatten sink layers shadow = Inr ?out" by (simp add: flatten_def rev_map)
  have "list_all layer_ok ?ls" using assms(2) by (auto simp: list_all_iff)
  then show "distinct (map te_Name ?out)" by (simp add: visible_distinct)
  show "by_name ?out p = (if p \<in> set (held_paths shadow) then None else fold unpack (map il_Entries layers) Map.empty p)" for p
    by (simp add: visible_unpacks hidden_def foldr_conv_fold)
qed

section \<open>Properties\<close>


definition file_at :: "gostring \<Rightarrow> gostring \<Rightarrow> tar_entry" where
  "file_at n body = \<lparr>te_Name = n, te_Typeflag = TypeReg, te_Mode = 420, te_Body = body\<rparr>"

definition dir_at :: "gostring \<Rightarrow> tar_entry" where
  "dir_at n = \<lparr>te_Name = n, te_Typeflag = TypeDir, te_Mode = 493, te_Body = []\<rparr>"

definition layer_of :: "tar_entry list \<Rightarrow> image_layer" where
  "layer_of es = \<lparr>il_Opens = True, il_Entries = es, il_Complete = True\<rparr>"

definition demo_layers :: "image_layer list" where
  "demo_layers =
     [layer_of [dir_at ''./etc/'', file_at ''./etc/passwd'' ''a'', file_at ''./etc/shadow'' ''b'', dir_at ''./opt/'', file_at ''./opt/x'' ''c''],
      layer_of [file_at ''etc/.wh.shadow'' [], file_at ''/etc/passwd'' ''d'', file_at ''opt/.wh..wh..opq'' [], file_at ''opt/y'' ''e'']]"


text \<open>
  Nothing is taken from a layer that cannot be opened or read to its end: when the merge succeeds every layer was read, and
  when it fails the error names a layer of the image.
\<close>

theorem flatten_reads_every_layer:
  "case flatten sink layers shadow of
     Inr out \<Rightarrow> list_all (\<lambda>l. il_Opens l \<and> il_Complete l) layers
   | Inl (i, err) \<Rightarrow> i < length layers"
proof -
  have "case flatten_layers sink opaque ls seen out of
      Inr out \<Rightarrow> list_all (\<lambda>l. il_Opens l \<and> il_Complete l) ls | Inl (i, err) \<Rightarrow> i < length ls" for opaque ls seen out
  proof (induction ls arbitrary: opaque seen out)
    case (Cons l ls)
    show ?case
    proof (cases "flattenLayer sink opaque l \<lparr>fs_seen = seen, fs_pending = [], fs_out = out\<rparr>")
      case (Inr st)
      then have "il_Opens l \<and> il_Complete l" by (auto simp: flattenLayer_def split: if_splits sum.splits)
      with Inr Cons [of "fs_pending st @ opaque" "fs_seen st" "fs_out st"] show ?thesis by (auto split: sum.splits)
    qed simp
  qed simp
  from this [where opaque = "[]" and ls = "rev layers" and seen = "shadow_seen shadow" and out = "[]"] show ?thesis by (simp add: flatten_def list_all_rev split: sum.splits prod.splits)
qed

section \<open>Edges\<close>

text \<open>
  A directory in the top layer over a file of that name in the middle one: unpacking leaves an empty directory, the merge brings
  back what the base had in the directory, because the file is skipped before it is marked.
\<close>

theorem kind_change_resurrects:
  "fold unpack (map il_Entries [layer_of [dir_at ''d'', file_at ''d/x'' ''old''], layer_of [file_at ''d'' []], layer_of [dir_at ''d'']]) Map.empty ''d/x'' = None \<and>
   flatten (\<lambda>_. SinkOk) [layer_of [dir_at ''d'', file_at ''d/x'' ''old''], layer_of [file_at ''d'' []], layer_of [dir_at ''d'']] [] =
     Inr [dir_at ''d'', file_at ''d/x'' ''old'']"
proof -
  have "fold unpack (map il_Entries [layer_of [dir_at ''d'', file_at ''d/x'' ''old''], layer_of [file_at ''d'' []], layer_of [dir_at ''d'']]) (\<lambda>_. None) ''d/x'' = None"
    "flatten (\<lambda>_. SinkOk) [layer_of [dir_at ''d'', file_at ''d/x'' ''old''], layer_of [file_at ''d'' []], layer_of [dir_at ''d'']] [] =
     Inr [dir_at ''d'', file_at ''d/x'' ''old'']" by code_simp+
  then show ?thesis by simp
qed

text \<open>A deletion that precedes a new file of that name in its own layer deletes the new file, although it is meant for lower layers.\<close>

lemma whiteout_hides_own_layer:
  "flatten (\<lambda>_. SinkOk) [layer_of [file_at ''f'' ''old''], layer_of [file_at ''.wh.f'' [], file_at ''f'' ''new'']] [] = Inr []"
  by code_simp

end
