(* ===== verification/BlobCache.thy ===== *)
theory BlobCache
  imports Prelude
begin

text \<open>
  The cache of layer blobs (\<open>src/machine/oci/cache.go\<close>) and the downloads into it (\<open>prefetch.go\<close>).

  A cache directory holds blobs under the hash they are asked for and, beside a blob, a marker that its content has been checked.
  A download is a writer with a temporary file that no reader sees; closing it publishes the file under its hash. Every
  system call may fail; a marker that cannot be written and a blob that cannot be removed are also what a crash between two
  calls leaves behind. The hash functions are a parameter.
\<close>

section \<open>Definitions\<close>

subsection \<open>Blobs and markers\<close>

record v1_hash =
  vh_Algorithm :: gostring
  vh_Hex :: gostring

record blob_dir =
  bd_Blobs :: "(v1_hash, gostring) gomap"
  bd_Markers :: "v1_hash list"

record cache_io =
  ci_StatBlob :: bool
  ci_StatMarker :: bool
  ci_Read :: bool
  ci_Mark :: bool
  ci_RemoveMarker :: bool
  ci_RemoveBlob :: bool
  ci_Mkdir :: bool
  ci_Temp :: bool
  ci_CloseSrc :: bool
  ci_Rename :: bool

datatype cache_error = ErrNotFound | StatFailed | RemoveFailed | UnsupportedAlgorithm | MkdirFailed | TempFailed
  | SourceFailed | CorruptDownload | PublishFailed

definition hasherFor :: "(gostring \<Rightarrow> gostring \<Rightarrow> gostring) \<Rightarrow> gostring \<Rightarrow> (gostring \<Rightarrow> gostring) option" where
  "hasherFor sha alg = (if alg = ''sha256'' \<or> alg = ''sha512'' then Some (sha alg) else None)"

definition verifyFile :: "(gostring \<Rightarrow> gostring \<Rightarrow> gostring) \<Rightarrow> cache_io \<Rightarrow> v1_hash \<Rightarrow> blob_dir \<Rightarrow> bool" where
  "verifyFile sha io h bd =
     (case hasherFor sha (vh_Algorithm h) of
        None \<Rightarrow> False
      | Some f \<Rightarrow>
          (case map_of (bd_Blobs bd) h of
             None \<Rightarrow> False
           | Some c \<Rightarrow> ci_Read io \<and> f c = vh_Hex h))"

definition markVerified :: "cache_io \<Rightarrow> v1_hash \<Rightarrow> blob_dir \<Rightarrow> blob_dir" where
  "markVerified io h bd = (if ci_Mark io then bd\<lparr>bd_Markers := h # bd_Markers bd\<rparr> else bd)"

definition DeleteBlob :: "cache_io \<Rightarrow> v1_hash \<Rightarrow> blob_dir \<Rightarrow> blob_dir \<times> cache_error option" where
  "DeleteBlob io h bd =
     (let bd = (if ci_RemoveMarker io then bd\<lparr>bd_Markers := removeAll h (bd_Markers bd)\<rparr> else bd) in
      if map_of (bd_Blobs bd) h = None then (bd, Some ErrNotFound)
      else if \<not> ci_RemoveBlob io then (bd, Some RemoveFailed)
      else (bd\<lparr>bd_Blobs := AList.delete h (bd_Blobs bd)\<rparr>, None))"

definition GetBlob :: "(gostring \<Rightarrow> gostring \<Rightarrow> gostring) \<Rightarrow> cache_io \<Rightarrow> v1_hash \<Rightarrow> blob_dir \<Rightarrow> blob_dir \<times> (cache_error + gostring)" where
  "GetBlob sha io h bd =
     (if \<not> ci_StatBlob io then (bd, Inl StatFailed)
      else case map_of (bd_Blobs bd) h of
        None \<Rightarrow> (bd, Inl ErrNotFound)
      | Some c \<Rightarrow>
          if \<not> ci_StatMarker io then (bd, Inl StatFailed)
          else if h \<in> set (bd_Markers bd) then (bd, Inr c)
          else if \<not> verifyFile sha io h bd then
            (case DeleteBlob io h bd of
               (bd', Some RemoveFailed) \<Rightarrow> (bd', Inl RemoveFailed)
             | (bd', _) \<Rightarrow> (bd', Inl ErrNotFound))
          else (markVerified io h bd, Inr c))"

subsection \<open>Downloads\<close>

record cacheWriter =
  cw_Temp :: gostring
  cw_Want :: v1_hash
  cw_Full :: bool
  cw_Broken :: bool

definition cacheThrough :: "(gostring \<Rightarrow> gostring \<Rightarrow> gostring) \<Rightarrow> cache_io \<Rightarrow> v1_hash \<Rightarrow> cache_error + cacheWriter" where
  "cacheThrough sha io want =
     (case hasherFor sha (vh_Algorithm want) of
        None \<Rightarrow> Inl UnsupportedAlgorithm
      | Some _ \<Rightarrow>
          if \<not> ci_Mkdir io then Inl MkdirFailed
          else if \<not> ci_Temp io then Inl TempFailed
          else Inr \<lparr>cw_Temp = [], cw_Want = want, cw_Full = False, cw_Broken = False\<rparr>)"

text \<open>A read that fails ends the reading: what consumes the stream stops at an error.\<close>

definition ReadChunk :: "gostring \<Rightarrow> bool \<Rightarrow> cacheWriter \<Rightarrow> cacheWriter" where
  "ReadChunk chunk eof w = w\<lparr>cw_Temp := cw_Temp w @ chunk, cw_Full := cw_Full w \<or> eof\<rparr>"

definition CloseWriter ::
  "(gostring \<Rightarrow> gostring \<Rightarrow> gostring) \<Rightarrow> cache_io \<Rightarrow> cacheWriter \<Rightarrow> blob_dir \<Rightarrow> blob_dir \<times> cache_error option" where
  "CloseWriter sha io w bd =
     (if \<not> ci_CloseSrc io then (bd, Some SourceFailed)
      else if \<not> cw_Full w then (bd, None)
      else if sha (vh_Algorithm (cw_Want w)) (cw_Temp w) \<noteq> vh_Hex (cw_Want w) then (bd, Some CorruptDownload)
      else if \<not> ci_Rename io then (bd, Some PublishFailed)
      else (markVerified io (cw_Want w) (bd\<lparr>bd_Blobs := AList.update (cw_Want w) (cw_Temp w) (bd_Blobs bd)\<rparr>), None))"

text \<open>
  One layer pulled into the cache under its diff id. \<open>chunks\<close> is what the registry sends, \<open>ends\<close> whether the stream
  ends rather than breaks.
\<close>

definition downloadLayer ::
  "(gostring \<Rightarrow> gostring \<Rightarrow> gostring) \<Rightarrow> cache_io \<Rightarrow> gostring list \<Rightarrow> bool \<Rightarrow> v1_hash \<Rightarrow> blob_dir \<Rightarrow> blob_dir \<times> cache_error option" where
  "downloadLayer sha io chunks ends diffID bd =
     (case cacheThrough sha io diffID of
        Inl err \<Rightarrow> (bd, Some err)
      | Inr w \<Rightarrow>
          let w = fold (\<lambda>c. ReadChunk c False) chunks w in
          if \<not> ends then (bd, Some SourceFailed)
          else CloseWriter sha io (ReadChunk [] True w) bd)"

subsection \<open>Everything at once\<close>

record cache_state =
  cs_Dir :: blob_dir
  cs_Writers :: "cacheWriter list"

inductive cache_step :: "(gostring \<Rightarrow> gostring \<Rightarrow> gostring) \<Rightarrow> cache_state \<Rightarrow> cache_state \<Rightarrow> bool" for sha where
  open_writer: "cacheThrough sha io want = Inr w \<Longrightarrow> cache_step sha s (s\<lparr>cs_Writers := w # cs_Writers s\<rparr>)"
| read_chunk: "i < length (cs_Writers s) \<Longrightarrow> \<not> cw_Broken (cs_Writers s ! i) \<Longrightarrow>
    cache_step sha s (s\<lparr>cs_Writers := (cs_Writers s)[i := ReadChunk chunk eof (cs_Writers s ! i)]\<rparr>)"
| read_fails: "i < length (cs_Writers s) \<Longrightarrow>
    cache_step sha s (s\<lparr>cs_Writers := (cs_Writers s)[i := (cs_Writers s ! i)\<lparr>cw_Broken := True\<rparr>]\<rparr>)"
| close_writer: "w \<in> set (cs_Writers s) \<Longrightarrow> CloseWriter sha io w (cs_Dir s) = (bd, err) \<Longrightarrow>
    cache_step sha s \<lparr>cs_Dir = bd, cs_Writers = remove1 w (cs_Writers s)\<rparr>"
| get_blob: "GetBlob sha io h (cs_Dir s) = (bd, r) \<Longrightarrow> cache_step sha s (s\<lparr>cs_Dir := bd\<rparr>)"
| delete_blob: "DeleteBlob io h (cs_Dir s) = (bd, err) \<Longrightarrow> cache_step sha s (s\<lparr>cs_Dir := bd\<rparr>)"
| crash: "cache_step sha s (s\<lparr>cs_Writers := []\<rparr>)"

text \<open>A directory an older version left: blobs of any content, and no markers.\<close>

definition cache_init :: "cache_state \<Rightarrow> bool" where
  "cache_init s \<longleftrightarrow> bd_Markers (cs_Dir s) = [] \<and> cs_Writers s = []"

section \<open>The invariant\<close>

definition hashes_to :: "(gostring \<Rightarrow> gostring \<Rightarrow> gostring) \<Rightarrow> v1_hash \<Rightarrow> gostring \<Rightarrow> bool" where
  "hashes_to sha h c \<longleftrightarrow> vh_Algorithm h \<in> {''sha256'', ''sha512''} \<and> sha (vh_Algorithm h) c = vh_Hex h"

definition dir_ok :: "(gostring \<Rightarrow> gostring \<Rightarrow> gostring) \<Rightarrow> blob_dir \<Rightarrow> bool" where
  "dir_ok sha bd \<longleftrightarrow> (\<forall>h \<in> set (bd_Markers bd). \<forall>c. map_of (bd_Blobs bd) h = Some c \<longrightarrow> hashes_to sha h c)"

definition cache_inv :: "(gostring \<Rightarrow> gostring \<Rightarrow> gostring) \<Rightarrow> cache_state \<Rightarrow> bool" where
  "cache_inv sha s \<longleftrightarrow> dir_ok sha (cs_Dir s) \<and> (\<forall>w \<in> set (cs_Writers s). vh_Algorithm (cw_Want w) \<in> {''sha256'', ''sha512''})"

lemma hasherFor_Some: "hasherFor sha alg = Some f \<longleftrightarrow> alg \<in> {''sha256'', ''sha512''} \<and> f = sha alg"
  by (auto simp: hasherFor_def)

lemma verifyFile_hashes: "verifyFile sha io h bd \<Longrightarrow> \<exists>c. map_of (bd_Blobs bd) h = Some c \<and> hashes_to sha h c"
  by (auto simp: verifyFile_def hashes_to_def hasherFor_Some split: option.splits)

lemma mark_ok [inv_intros]: "dir_ok sha bd \<Longrightarrow> \<forall>c. map_of (bd_Blobs bd) h = Some c \<longrightarrow> hashes_to sha h c \<Longrightarrow> dir_ok sha (markVerified io h bd)"
  by (simp add: dir_ok_def markVerified_def)

lemma DeleteBlob_ok [inv_intros]: "dir_ok sha bd \<Longrightarrow> dir_ok sha (fst (DeleteBlob io h bd))"
  by (auto simp: dir_ok_def DeleteBlob_def Let_def delete_conv' split: if_splits)

lemma GetBlob_ok [inv_intros]:
  assumes "dir_ok sha bd"
  shows "dir_ok sha (fst (GetBlob sha io h bd))"
proof -
  have "dir_ok sha (fst (case DeleteBlob io h bd of (bd', Some RemoveFailed) \<Rightarrow> (bd', Inl RemoveFailed) | (bd', _) \<Rightarrow> (bd', Inl ErrNotFound)))"
    using DeleteBlob_ok [OF assms, of io h] by (auto split: prod.split option.split cache_error.split)
  with assms show ?thesis
    by (auto simp: GetBlob_def intro!: mark_ok dest!: verifyFile_hashes split: option.split)
qed

lemma CloseWriter_ok [inv_intros]:
  "dir_ok sha bd \<Longrightarrow> vh_Algorithm (cw_Want w) \<in> {''sha256'', ''sha512''} \<Longrightarrow> dir_ok sha (fst (CloseWriter sha io w bd))"
  by (auto simp: CloseWriter_def markVerified_def dir_ok_def hashes_to_def update_conv' split: if_splits)

lemma cache_step_inv:
  assumes "cache_inv sha s" "cache_step sha s t"
  shows "cache_inv sha t"
  using assms(2)
proof cases
  case (open_writer io want w)
  then have "vh_Algorithm (cw_Want w) \<in> {''sha256'', ''sha512''}"
    by (auto simp: cacheThrough_def hasherFor_Some split: option.splits if_splits)
  with open_writer assms(1) show ?thesis by (simp add: cache_inv_def)
next
  case (read_chunk i chunk eof)
  with assms(1) nth_mem [of i "cs_Writers s"] show ?thesis
    by (auto simp: cache_inv_def ReadChunk_def dest!: set_update_subset_insert [THEN subsetD])
next
  case (read_fails i)
  with assms(1) nth_mem [of i "cs_Writers s"] show ?thesis
    by (auto simp: cache_inv_def dest!: set_update_subset_insert [THEN subsetD])
next
  case (close_writer w io bd err)
  with assms(1) CloseWriter_ok [of sha "cs_Dir s" w io] show ?thesis
    by (auto simp: cache_inv_def dest: set_remove1_subset [THEN subsetD])
next
  case (get_blob io h bd r)
  with assms(1) GetBlob_ok [of sha "cs_Dir s" io h] show ?thesis by (simp add: cache_inv_def)
next
  case (delete_blob io h bd err)
  with assms(1) DeleteBlob_ok [of sha "cs_Dir s" io h] show ?thesis by (simp add: cache_inv_def)
qed (use assms(1) in \<open>simp add: cache_inv_def\<close>)

lemma cache_init_inv: "cache_init s \<Longrightarrow> cache_inv sha s"
  by (simp add: cache_init_def cache_inv_def dir_ok_def)

interpretation blobs: inv_system cache_init "cache_step sha" "cache_inv sha" for sha
  by unfold_locales (blast intro: cache_init_inv cache_step_inv)+

section \<open>Properties\<close>

text \<open>
  C18: Whatever downloads, deletions, failing calls and crashes came before, on a directory left by any older version, the
  cache hands out a blob only if its content hashes to the name it was asked for.
\<close>

theorem cache_serves_verified:
  assumes "reach cache_init (cache_step sha) s" "GetBlob sha io h (cs_Dir s) = (bd, Inr c)"
  shows "vh_Algorithm h \<in> {''sha256'', ''sha512''} \<and> sha (vh_Algorithm h) c = vh_Hex h"
proof -
  have "dir_ok sha (cs_Dir s)" using blobs.reach_inv [OF assms(1)] by (simp add: cache_inv_def)
  with assms(2) have "hashes_to sha h c"
    by (auto simp: GetBlob_def dir_ok_def dest!: verifyFile_hashes split: if_splits option.splits prod.splits cache_error.splits)
  then show ?thesis by (simp add: hashes_to_def)
qed

definition len_sha :: "gostring \<Rightarrow> gostring \<Rightarrow> gostring" where
  "len_sha alg c = dec_digits (length c)"

definition io_fine :: cache_io where
  "io_fine = \<lparr>ci_StatBlob = True, ci_StatMarker = True, ci_Read = True, ci_Mark = True, ci_RemoveMarker = True, ci_RemoveBlob = True,
     ci_Mkdir = True, ci_Temp = True, ci_CloseSrc = True, ci_Rename = True\<rparr>"

definition three :: v1_hash where "three = \<lparr>vh_Algorithm = ''sha256'', vh_Hex = ''3''\<rparr>"

definition old_cache :: cache_state where
  "old_cache = \<lparr>cs_Dir = \<lparr>bd_Blobs = [(three, ''abc'')], bd_Markers = []\<rparr>, cs_Writers = []\<rparr>"

theorem cache_serves_verified_witness:
  "\<exists>bd. GetBlob len_sha io_fine three (cs_Dir old_cache) = (bd, Inr ''abc'') \<and> len_sha (vh_Algorithm three) ''abc'' = vh_Hex three"
proof -
  have got: "GetBlob len_sha io_fine three (cs_Dir old_cache) = (\<lparr>bd_Blobs = [(three, ''abc'')], bd_Markers = [three]\<rparr>, Inr ''abc'')" by code_simp
  have "reach cache_init (cache_step len_sha) old_cache" by (rule reach_init) (simp add: cache_init_def old_cache_def)
  from cache_serves_verified [OF this got] got show ?thesis by blast
qed

text \<open>
  A download changes the directory only when the whole stream arrived with the right hash; then its content is what the cache
  serves from there on, whether or not the marker could be written. A broken or corrupt download leaves every blob as it was.
\<close>

theorem download_all_or_nothing:
  "(case downloadLayer sha io chunks ends h bd of
      (bd', None) \<Rightarrow> ends \<and> hashes_to sha h (concat chunks) \<and> map_of (bd_Blobs bd') = (map_of (bd_Blobs bd))(h \<mapsto> concat chunks) \<and>
        snd (GetBlob sha io_fine h bd') = Inr (concat chunks)
    | (bd', Some err) \<Rightarrow> bd' = bd) \<and>
   (ends \<and> hashes_to sha h (concat chunks) \<and> ci_Mkdir io \<and> ci_Temp io \<and> ci_CloseSrc io \<and> ci_Rename io \<longrightarrow>
      snd (downloadLayer sha io chunks ends h bd) = None)"
proof -
  let ?w = "\<lparr>cw_Temp = concat chunks, cw_Want = h, cw_Full = True, cw_Broken = False\<rparr>"
  have chunks: "ReadChunk [] True (fold (\<lambda>c. ReadChunk c False) cs w) = w\<lparr>cw_Temp := cw_Temp w @ concat cs, cw_Full := True\<rparr>" for cs w
    by (induction cs arbitrary: w) (simp_all add: ReadChunk_def)
  have run: "downloadLayer sha io chunks ends h bd =
      (if vh_Algorithm h \<notin> {''sha256'', ''sha512''} then (bd, Some UnsupportedAlgorithm)
       else if \<not> ci_Mkdir io then (bd, Some MkdirFailed) else if \<not> ci_Temp io then (bd, Some TempFailed)
       else if \<not> ends then (bd, Some SourceFailed) else CloseWriter sha io ?w bd)"
    by (simp add: downloadLayer_def cacheThrough_def hasherFor_def chunks)
  have served: "snd (GetBlob sha io_fine h (markVerified io h (bd\<lparr>bd_Blobs := AList.update h c (bd_Blobs bd)\<rparr>))) = Inr c" if "hashes_to sha h c" for c
    using that by (simp add: GetBlob_def markVerified_def io_fine_def verifyFile_def hashes_to_def hasherFor_def update_conv')
  show ?thesis
    unfolding run CloseWriter_def using served [of "concat chunks"]
    by (auto simp: hashes_to_def markVerified_def update_conv')
qed

theorem download_all_or_nothing_witness:
  "\<exists>bd'. downloadLayer len_sha io_fine [''ab'', ''c''] True three \<lparr>bd_Blobs = [], bd_Markers = []\<rparr> = (bd', None) \<and>
     map_of (bd_Blobs bd') three = Some ''abc'' \<and> snd (GetBlob len_sha io_fine three bd') = Inr ''abc''"
proof -
  have "hashes_to len_sha three (concat [''ab'', ''c''])" by code_simp
  with download_all_or_nothing [where sha = len_sha and io = io_fine and chunks = "[''ab'', ''c'']" and ends = True and h = three
      and bd = "\<lparr>bd_Blobs = [], bd_Markers = []\<rparr>"]
  show ?thesis by (auto simp: io_fine_def split: prod.splits option.splits)
qed

end
