(* ===== verification/Image.thy ===== *)
theory Image
  imports Layers Seeds
begin

text \<open>
  Disks from images (\<open>src/machine/oci/oci.go\<close>): the key of a built disk, the files added to an image, the build with its cache.

  The registry and the tarball reader, SHA-256 and the writer of the ext4 format are parameters. Progress reports and
  the metered transport are left out.
\<close>

section \<open>Definitions\<close>

subsection \<open>Options and keys\<close>

record InjectFile =
  in_GuestPath :: gostring
  in_HostPath :: gostring
  in_Mode :: nat

record OCIImage =
  oi_Ref :: gostring
  oi_CacheDir :: gostring
  oi_SizeMiB :: int
  oi_Platform :: gostring
  oi_Inject :: "InjectFile list"

record build_options =
  bo_Ref :: gostring
  bo_CacheDir :: gostring
  bo_MinSizeMiB :: int
  bo_Platform :: gostring
  bo_Inject :: "InjectFile list"

definition OptionsForImage :: "OCIImage \<Rightarrow> build_options" where
  "OptionsForImage img = \<lparr>bo_Ref = oi_Ref img, bo_CacheDir = oi_CacheDir img, bo_MinSizeMiB = oi_SizeMiB img,
     bo_Platform = oi_Platform img, bo_Inject = oi_Inject img\<rparr>"

datatype build_error = RefRequired | CacheDirRequired | TarballOpen gostring | TarballDigest gostring | BadReference gostring
  | DigestFailed gostring | PullFailed gostring | InjectUnreadable gostring | InjectRelative gostring | CacheDirFailed
  | ConfigFailed | DownloadFailed | DiskCreate | StreamFailed "nat \<times> flatten_error" | ConvertFailed | DiskClose | DiskRename
  | MarkerFailed

fun oct_digits :: "nat \<Rightarrow> gostring" where
  "oct_digits n = (if n < 8 then [char_of (48 + n)] else oct_digits (n div 8) @ [char_of (48 + n mod 8)])"

declare oct_digits.simps [simp del]

definition nul :: char where "nul = CHR 0x00"

fun inject_bytes :: "(gostring \<Rightarrow> read_result) \<Rightarrow> InjectFile list \<Rightarrow> build_error + gostring" where
  "inject_bytes readFile [] = Inr []"
| "inject_bytes readFile (f # fs) =
     (case readFile (in_HostPath f) of
        ReadOk c \<Rightarrow>
          (case inject_bytes readFile fs of
             Inl err \<Rightarrow> Inl err
           | Inr rest \<Rightarrow> Inr (in_GuestPath f @ [nul] @ oct_digits (in_Mode f) @ [nul] @ c @ [nul] @ rest))
      | _ \<Rightarrow> Inl (InjectUnreadable (in_GuestPath f)))"

definition hashInject :: "(gostring \<Rightarrow> gostring) \<Rightarrow> (gostring \<Rightarrow> read_result) \<Rightarrow> InjectFile list \<Rightarrow> build_error + gostring" where
  "hashInject sha256hex readFile inject =
     (if inject = [] then Inr [] else map_sum id (\<lambda>bs. take 16 (sha256hex bs)) (inject_bytes readFile inject))"

definition replace_char :: "char \<Rightarrow> char \<Rightarrow> gostring \<Rightarrow> gostring" where
  "replace_char a b s = map (\<lambda>c. if c = a then b else c) s"

definition diskFormatVersion :: int where "diskFormatVersion = 2"

definition diskCacheKey :: "gostring \<Rightarrow> build_options \<Rightarrow> gostring \<Rightarrow> gostring" where
  "diskCacheKey digest opts injectHash =
     replace_char (CHR '':'') (CHR ''_'') digest @
     (if bo_Platform opts \<noteq> [] then ''_'' @ replace_char (CHR ''/'') (CHR ''-'') (bo_Platform opts) else []) @
     ''_'' @ Itoa (bo_MinSizeMiB opts) @ ''m'' @
     (if injectHash \<noteq> [] then ''_i'' @ injectHash else []) @
     ''_v'' @ Itoa diskFormatVersion"

subsection \<open>Sources\<close>

definition LocalTarballPath :: "gostring \<Rightarrow> gostring" where
  "LocalTarballPath ref =
     (if has_prefix ref ''/'' \<or> has_prefix ref ''./'' \<or> has_prefix ref ''../'' \<or> has_suffix ref ''.tar'' then ref else [])"

definition parsePlatform :: "gostring \<Rightarrow> gostring \<times> gostring" where
  "parsePlatform s = (case cut_byte s (CHR ''/'') of (os, arch, found) \<Rightarrow> (os, if found then arch else []))"

record pulled_image =
  pi_Layers :: "image_layer list"
  pi_Env :: "gostring list option"

record registry =
  rg_Tarball :: "gostring \<Rightarrow> pulled_image option"
  rg_TarDigest :: "gostring \<Rightarrow> gostring option"
  rg_ParseReference :: "gostring \<Rightarrow> gostring option"
  rg_Digest :: "gostring \<Rightarrow> (gostring \<times> gostring) option \<Rightarrow> gostring option"
  rg_Pull :: "gostring \<Rightarrow> (gostring \<times> gostring) option \<Rightarrow> pulled_image option"

text \<open>The digest, the image once it is opened, and whether its layers have to be downloaded.\<close>

definition resolve_image :: "registry \<Rightarrow> build_options \<Rightarrow> build_error + gostring \<times> (build_error + pulled_image) \<times> bool" where
  "resolve_image reg opts =
     (let tarPath = LocalTarballPath (bo_Ref opts) in
      if tarPath \<noteq> [] then
        (case rg_Tarball reg tarPath of
           None \<Rightarrow> Inl (TarballOpen tarPath)
         | Some img \<Rightarrow>
             (case rg_TarDigest reg tarPath of
                None \<Rightarrow> Inl (TarballDigest tarPath)
              | Some h \<Rightarrow> Inr (h, Inr img, False)))
      else case rg_ParseReference reg (bo_Ref opts) of
        None \<Rightarrow> Inl (BadReference (bo_Ref opts))
      | Some name \<Rightarrow>
          (let platform = (if bo_Platform opts \<noteq> [] then Some (parsePlatform (bo_Platform opts)) else None) in
           case rg_Digest reg name platform of
             None \<Rightarrow> Inl (DigestFailed name)
           | Some digest \<Rightarrow>
               Inr (digest, (case rg_Pull reg name platform of None \<Rightarrow> Inl (PullFailed name) | Some img \<Rightarrow> Inr img), True)))"

definition with_size :: "build_options \<Rightarrow> build_options" where
  "with_size opts = (if bo_MinSizeMiB opts \<le> 0 then opts\<lparr>bo_MinSizeMiB := 1024\<rparr> else opts)"

definition image_key :: "registry \<Rightarrow> (gostring \<Rightarrow> gostring) \<Rightarrow> (gostring \<Rightarrow> read_result) \<Rightarrow> build_options \<Rightarrow> build_error + gostring" where
  "image_key reg sha256hex readFile opts0 =
     (let opts = with_size opts0 in
      case resolve_image reg opts of
        Inl err \<Rightarrow> Inl err
      | Inr (digest, _, _) \<Rightarrow> map_sum id (diskCacheKey digest opts) (hashInject sha256hex readFile (bo_Inject opts)))"

subsection \<open>Files on top of the image\<close>

record extraFile =
  ef_path :: gostring
  ef_mode :: nat
  ef_data :: gostring

definition ImageEnvPath :: gostring where "ImageEnvPath = ''/etc/clawk/image-env''"

text \<open>The entries that have a name.\<close>

definition env_pairs :: "gostring list \<Rightarrow> (gostring \<times> gostring) list" where
  "env_pairs env = concat (map (\<lambda>e. case cut_byte e (CHR ''='') of (k, v, found) \<Rightarrow> if \<not> found \<or> k = [] then [] else [(k, v)]) env)"

definition script_header :: gostring where
  "script_header = ''# Generated by clawk from the OCI image config'' @ [squote] @ ''s Env.'' @ nl"

definition single_quoted :: "gostring \<Rightarrow> gostring" where
  "single_quoted v = [squote] @ concat (map (\<lambda>c. if c = squote then [squote, backslash, squote, squote] else [c]) v) @ [squote]"

definition imageEnvFiles :: "gostring list \<Rightarrow> extraFile list" where
  "imageEnvFiles env =
     (if env = [] then []
      else [\<lparr>ef_path = ImageEnvPath, ef_mode = 420, ef_data = concat (map (\<lambda>(k, v). k @ ''='' @ v @ nl) (env_pairs env))\<rparr>,
            \<lparr>ef_path = ''/etc/profile.d/00-clawk-image-env.sh'', ef_mode = 420,
             ef_data = script_header @ concat (map (\<lambda>(k, v). ''export '' @ k @ ''='' @ single_quoted v @ nl) (env_pairs env))\<rparr>])"

definition appendExtra :: "extraFile list \<Rightarrow> tar_entry list" where
  "appendExtra extra =
     map (\<lambda>f. \<lparr>te_Name = trim_prefix (ef_path f) ''/'', te_Typeflag = TypeReg, te_Mode = ef_mode f, te_Body = ef_data f\<rparr>) extra"

fun appendInject :: "(gostring \<Rightarrow> read_result) \<Rightarrow> InjectFile list \<Rightarrow> build_error + tar_entry list" where
  "appendInject readFile [] = Inr []"
| "appendInject readFile (f # fs) =
     (if \<not> has_prefix (in_GuestPath f) ''/'' then Inl (InjectRelative (in_GuestPath f))
      else case readFile (in_HostPath f) of
        ReadOk c \<Rightarrow>
          map_sum id (Cons \<lparr>te_Name = trim_prefix (in_GuestPath f) ''/'', te_Typeflag = TypeReg, te_Mode = in_Mode f, te_Body = c\<rparr>)
            (appendInject readFile fs)
      | _ \<Rightarrow> Inl (InjectUnreadable (in_GuestPath f)))"

text \<open>The tar stream the disk is made of.\<close>

definition image_stream ::
  "(gostring \<Rightarrow> read_result) \<Rightarrow> image_layer list \<Rightarrow> InjectFile list \<Rightarrow> extraFile list \<Rightarrow> build_error + tar_entry list" where
  "image_stream readFile layers inject extra =
     (case flatten (\<lambda>_. SinkOk) layers (map in_GuestPath inject @ map ef_path extra) of
        Inl err \<Rightarrow> Inl (StreamFailed err)
      | Inr merged \<Rightarrow> map_sum id (\<lambda>injected. merged @ injected @ appendExtra extra) (appendInject readFile inject))"

subsection \<open>Disks\<close>

record disk_io =
  do_Mkdir :: bool
  do_Create :: bool
  do_Convert :: "tar_entry list \<Rightarrow> int \<Rightarrow> gostring option"
  do_Close :: bool
  do_Rename :: bool
  do_Mark :: bool
  do_Download :: bool

definition writeDisk ::
  "disk_io \<Rightarrow> image_layer list \<Rightarrow> gostring \<Rightarrow> int \<Rightarrow> InjectFile list \<Rightarrow> extraFile list \<Rightarrow> host_files \<Rightarrow> host_files \<times> build_error option" where
  "writeDisk io layers diskPath sizeBytes inject extra d =
     (let tmp = diskPath @ ''.tmp'' in
      if \<not> do_Create io then (d, Some DiskCreate)
      else case image_stream (disk_read d) layers inject extra of
        Inl err \<Rightarrow> (disk_drop tmp (disk_put tmp [] d), Some err)
      | Inr tape \<Rightarrow>
          (case do_Convert io tape sizeBytes of
             None \<Rightarrow> (disk_drop tmp (disk_put tmp [] d), Some ConvertFailed)
           | Some bytes \<Rightarrow>
               (let d = disk_put tmp bytes d in
                if \<not> do_Close io then (disk_drop tmp d, Some DiskClose)
                else if \<not> do_Rename io then (disk_drop tmp d, Some DiskRename)
                else (disk_put diskPath bytes (disk_drop tmp d), None))))"

text \<open>The size as the 64-bit integer the source shifts.\<close>

definition size_bytes :: "int \<Rightarrow> int" where
  "size_bytes mib = sint (push_bit 20 (word_of_int mib :: 64 word))"

record build_result =
  br_DiskPath :: gostring
  br_Digest :: gostring

definition BuildDisk ::
  "registry \<Rightarrow> (gostring \<Rightarrow> gostring) \<Rightarrow> disk_io \<Rightarrow> build_options \<Rightarrow> host_files \<Rightarrow> host_files \<times> (build_error + build_result)" where
  "BuildDisk reg sha256hex io opts0 d =
     (if bo_Ref opts0 = [] then (d, Inl RefRequired)
      else if bo_CacheDir opts0 = [] then (d, Inl CacheDirRequired)
      else let opts = with_size opts0 in
        case resolve_image reg opts of
          Inl err \<Rightarrow> (d, Inl err)
        | Inr (digest, opened, remote) \<Rightarrow>
            (case hashInject sha256hex (disk_read d) (bo_Inject opts) of
               Inl err \<Rightarrow> (d, Inl err)
             | Inr injectHash \<Rightarrow>
                 (let outDir = Join [bo_CacheDir opts, diskCacheKey digest opts injectHash];
                      diskPath = Join [outDir, ''disk.ext4'']; doneMarker = Join [outDir, ''done''];
                      result = \<lparr>br_DiskPath = diskPath, br_Digest = digest\<rparr> in
                  if disk_read d doneMarker \<noteq> ReadAbsent \<and> disk_read d diskPath \<noteq> ReadAbsent then (d, Inr result)
                  else if \<not> do_Mkdir io then (d, Inl CacheDirFailed)
                  else case opened of
                    Inl err \<Rightarrow> (d, Inl err)
                  | Inr img \<Rightarrow>
                      (case pi_Env img of
                         None \<Rightarrow> (d, Inl ConfigFailed)
                       | Some env \<Rightarrow>
                           if remote \<and> \<not> do_Download io then (d, Inl DownloadFailed)
                           else case writeDisk io (pi_Layers img) diskPath (size_bytes (bo_MinSizeMiB opts)) (bo_Inject opts) (imageEnvFiles env) d of
                             (d', Some err) \<Rightarrow> (d', Inl err)
                           | (d', None) \<Rightarrow>
                               if \<not> do_Mark io then (d', Inl MarkerFailed)
                               else (disk_put doneMarker digest d', Inr result)))))"

section \<open>Keys\<close>

lemma Itoa_pos: "0 < n \<Longrightarrow> Itoa n = dec_digits (nat n)"
  by (simp add: Itoa_def)

lemma digit_head: "hd (dec_digits n) \<noteq> CHR ''i'' \<and> CHR ''_'' \<notin> set (dec_digits n)"
  using dec_digits_char [of "hd (dec_digits n)" n] dec_digits_char [of "CHR ''_''" n]
  by (auto simp: is_digit_def less_eq_char_def)

lemma replace_absent: "a \<notin> set s \<Longrightarrow> replace_char a b s = s"
  by (auto simp: replace_char_def intro: map_idI)

lemma replace_inj:
  assumes "b \<notin> set s" "b \<notin> set t" "replace_char a b s = replace_char a b t"
  shows "s = t"
proof -
  have "inj_on (\<lambda>c. if c = a then b else c) (set s \<union> set t)" using assms(1,2) by (auto simp: inj_on_def)
  then show ?thesis using assms(3) unfolding replace_char_def by (rule map_inj_on [rotated])
qed

lemma replace_plain: "c \<noteq> b \<Longrightarrow> c \<notin> set s \<Longrightarrow> c \<notin> set (replace_char a b s)"
  by (auto simp: replace_char_def)

text \<open>The parts a key is made of, which do not contain the separator.\<close>

definition key_parts :: "gostring \<Rightarrow> gostring \<Rightarrow> build_options \<Rightarrow> gostring \<Rightarrow> gostring list" where
  "key_parts alg hex opts injectHash =
     [alg, hex] @ (if bo_Platform opts \<noteq> [] then [replace_char (CHR ''/'') (CHR ''-'') (bo_Platform opts)] else []) @
     [dec_digits (nat (bo_MinSizeMiB opts)) @ ''m''] @ (if injectHash \<noteq> [] then [''i'' @ injectHash] else []) @ [''v2'']"

definition key_plain :: "gostring \<Rightarrow> gostring \<Rightarrow> build_options \<Rightarrow> gostring \<Rightarrow> bool" where
  "key_plain alg hex opts injectHash \<longleftrightarrow>
     list_all (\<lambda>s. CHR ''_'' \<notin> set s) [alg, hex, bo_Platform opts, injectHash] \<and> CHR '':'' \<notin> set alg \<and> CHR '':'' \<notin> set hex \<and>
     CHR ''-'' \<notin> set (bo_Platform opts) \<and> 0 < bo_MinSizeMiB opts"

lemma key_split:
  assumes "key_plain alg hex opts ih"
  shows "split_byte (CHR ''_'') (diskCacheKey (alg @ '':'' @ hex) opts ih) = key_parts alg hex opts ih"
proof -
  let ?rest = "CHR ''_'' # dec_digits (nat (bo_MinSizeMiB opts)) @ ''m'' @ (if ih \<noteq> [] then ''_i'' @ ih else []) @ ''_v2''"
  let ?plat = "replace_char (CHR ''/'') (CHR ''-'') (bo_Platform opts)"
  have version: "Itoa diskFormatVersion = ''2''" by code_simp
  have digest: "replace_char (CHR '':'') (CHR ''_'') (alg @ '':'' @ hex) = alg @ CHR ''_'' # hex"
  proof -
    have "replace_char (CHR '':'') (CHR ''_'') alg = alg" "replace_char (CHR '':'') (CHR ''_'') hex = hex"
      using assms by (simp_all add: key_plain_def replace_absent)
    then show ?thesis by (simp add: replace_char_def)
  qed
  have key: "diskCacheKey (alg @ '':'' @ hex) opts ih = alg @ CHR ''_'' # hex @ (if bo_Platform opts \<noteq> [] then CHR ''_'' # ?plat else []) @ ?rest"
    unfolding diskCacheKey_def digest using assms by (simp add: version Itoa_pos key_plain_def)
  have last: "split_byte (CHR ''_'') (dec_digits n @ ''m'' @ (if ih \<noteq> [] then ''_i'' @ ih else []) @ ''_v2'') =
      [dec_digits n @ ''m''] @ (if ih \<noteq> [] then [''i'' @ ih] else []) @ [''v2'']" for n
  proof -
    have n: "CHR ''_'' \<notin> set (dec_digits n @ ''m'')" "CHR ''_'' \<notin> set (''i'' @ ih)" using digit_head [of n] assms by (auto simp: key_plain_def)
    have v: "split_byte (CHR ''_'') ''v2'' = [''v2'']" by simp
    show ?thesis using split_byte_append [OF n(1), of "''v2''"] split_byte_append [OF n(1), of "''i'' @ ih @ ''_v2''"] split_byte_append [OF n(2), of "''v2''"] v
      by simp
  qed
  have plat: "CHR ''_'' \<notin> set ?plat" "CHR ''_'' \<notin> set alg" "CHR ''_'' \<notin> set hex"
    using assms by (simp_all add: key_plain_def replace_plain)
  show ?thesis
    unfolding key split_byte_append [OF plat(2)] key_parts_def
    using split_byte_append [OF plat(3)] split_byte_append [OF plat(1)] last by simp
qed

lemma key_parts_inj:
  assumes "key_plain a h o1 i" "key_plain a' h' o2 i'" "key_parts a h o1 i = key_parts a' h' o2 i'"
  shows "a = a' \<and> h = h' \<and> bo_Platform o1 = bo_Platform o2 \<and> bo_MinSizeMiB o1 = bo_MinSizeMiB o2 \<and> i = i'"
proof -
  have size: "dec_digits m @ ''m'' = dec_digits n @ ''m'' \<longleftrightarrow> m = n" for m n by (simp add: dec_digits_inj)
  have apart: "dec_digits m @ ''m'' \<noteq> CHR ''i'' # x" "CHR ''i'' # x \<noteq> dec_digits m @ ''m''" for m x
    using digit_head [of m] by (cases "dec_digits m"; auto)+
  have plat: "replace_char (CHR ''/'') (CHR ''-'') (bo_Platform o1) = replace_char (CHR ''/'') (CHR ''-'') (bo_Platform o2) \<Longrightarrow> bo_Platform o1 = bo_Platform o2"
    using assms(1,2) by (auto simp: key_plain_def intro: replace_inj)
  have pos: "nat (bo_MinSizeMiB o1) = nat (bo_MinSizeMiB o2) \<Longrightarrow> bo_MinSizeMiB o1 = bo_MinSizeMiB o2"
    using assms(1,2) by (auto simp: key_plain_def)
  show ?thesis using assms(3) plat pos
    by (auto simp: key_parts_def size apart dec_digits_inj split: if_splits)
qed

section \<open>The build\<close>

text \<open>The files that are not temporary.\<close>

definition kept :: "host_files \<Rightarrow> gostring \<Rightarrow> read_result" where
  "kept d q = (if has_suffix q ''.tmp'' then ReadAbsent else disk_read d q)"

lemma suffix_tmp [simp]: "has_suffix (p @ ''.tmp'') ''.tmp''"
  by (simp add: has_suffix_iff)

lemma kept_put: "kept (disk_put p c d) = (if has_suffix p ''.tmp'' then kept d else (kept d)(p := ReadOk c))"
  by (auto simp: kept_def fun_eq_iff)

lemma kept_drop: "has_suffix p ''.tmp'' \<Longrightarrow> kept (disk_drop p d) = kept d"
  by (auto simp: kept_def fun_eq_iff)

lemma writeDisk_outcomes:
  assumes "\<not> has_suffix diskPath ''.tmp''"
  shows "case writeDisk io layers diskPath sz inject extra d of
    (d', Some err) \<Rightarrow> kept d' = kept d
  | (d', None) \<Rightarrow> \<exists>tape bytes. image_stream (disk_read d) layers inject extra = Inr tape \<and> do_Convert io tape sz = Some bytes \<and>
      kept d' = (kept d)(diskPath := ReadOk bytes)"
  using assms by (auto simp: writeDisk_def Let_def kept_put kept_drop split: sum.split option.split)

lemma disk_path_kept: "\<not> has_suffix (Join [outDir, ''disk.ext4'']) ''.tmp''" "\<not> has_suffix (Join [outDir, ''done'']) ''.tmp''"
proof -
  have "plain_name ''disk.ext4''" "plain_name ''done''" by code_simp+
  from this [THEN Join_plain, of outDir]
  show "\<not> has_suffix (Join [outDir, ''disk.ext4'']) ''.tmp''" "\<not> has_suffix (Join [outDir, ''done'']) ''.tmp''"
    by (auto simp: has_suffix_iff dest!: arg_cong [of _ _ last])
qed

section \<open>Files of the environment\<close>

lemma split_lines_append: "CHR 0x0A \<notin> set l \<Longrightarrow> split_lines (l @ CHR 0x0A # s) = l # split_lines s"
  by (induction l) auto

lemma cut_byte_found: "cut_byte e c = (k, v, True) \<Longrightarrow> e = k @ c # v \<and> c \<notin> set k"
proof -
  assume cut: "cut_byte e c = (k, v, True)"
  then have "c \<in> set e" by (simp add: cut_byte_def split: if_splits)
  then obtain k' v' where "e = k' @ c # v'" "c \<notin> set k'" by (meson split_list_first)
  with cut show ?thesis by (simp add: cut_byte_append)
qed

lemma env_pairs_plain: "(k, v) \<in> set (env_pairs env) \<Longrightarrow> k \<noteq> [] \<and> CHR ''='' \<notin> set k \<and> k @ ''='' @ v \<in> set env"
  by (auto simp: env_pairs_def split: prod.splits if_splits dest!: sym [THEN cut_byte_found])

abbreviation env_line :: "gostring \<Rightarrow> (gostring \<rightharpoonup> gostring) \<Rightarrow> gostring \<rightharpoonup> gostring" where
  "env_line line m \<equiv> (case cut_byte line (CHR ''='') of (k, v, found) \<Rightarrow> if found \<and> k \<noteq> [] then m(k \<mapsto> v) else m)"

lemma env_lines_read:
  assumes "\<forall>(k, v) \<in> set ps. k \<noteq> [] \<and> CHR ''='' \<notin> set k \<and> CHR 0x0A \<notin> set (k @ ''='' @ v)"
  shows "fold env_line (split_lines (concat (map (\<lambda>(k, v). k @ ''='' @ v @ nl) ps))) m = m ++ map_of (rev ps)"
  using assms
proof (induction ps arbitrary: m)
  case Nil
  then show ?case by (simp add: cut_byte_def)
next
  case (Cons p ps)
  obtain k v where p: "p = (k, v)" by (cases p)
  let ?rest = "concat (map (\<lambda>(k, v). k @ ''='' @ v @ nl) ps)"
  have kv: "k \<noteq> []" "CHR ''='' \<notin> set k" "CHR 0x0A \<notin> set (k @ ''='' @ v)" using Cons.prems p by auto
  have "split_lines ((k @ ''='' @ v) @ CHR 0x0A # ?rest) = (k @ ''='' @ v) # split_lines ?rest"
    by (rule split_lines_append [OF kv(3)])
  then have "split_lines (concat (map (\<lambda>(k, v). k @ ''='' @ v @ nl) (p # ps))) = (k @ ''='' @ v) # split_lines ?rest"
    by (simp add: p nl_def line_feed_def)
  moreover have "cut_byte (k @ ''='' @ v) (CHR ''='') = (k, v, True)" using cut_byte_append [OF kv(2), of v] by simp
  moreover have "fold env_line (split_lines ?rest) (m(k \<mapsto> v)) = m(k \<mapsto> v) ++ map_of (rev ps)"
    by (rule Cons.IH) (use Cons.prems in auto)
  moreover have "m(k \<mapsto> v) ++ map_of (rev ps) = m ++ map_of (rev (p # ps))" by (simp add: p)
  ultimately show ?case using kv(1) by (simp only: fold.simps comp_def prod.case simp_thms if_True)
qed

section \<open>Properties\<close>

text \<open>
  A built disk is shared only by builds of the same content: equal keys have equal digests, platforms, sizes and hashes of the
  injected files.
\<close>

theorem disk_key_exact:
  assumes "key_plain alg hex opts ih" "key_plain alg' hex' opts' ih'"
    and "diskCacheKey (alg @ '':'' @ hex) opts ih = diskCacheKey (alg' @ '':'' @ hex') opts' ih'"
  shows "alg = alg' \<and> hex = hex' \<and> bo_Platform opts = bo_Platform opts' \<and> bo_MinSizeMiB opts = bo_MinSizeMiB opts' \<and> ih = ih'"
proof (rule key_parts_inj [OF assms(1,2)])
  show "key_parts alg hex opts ih = key_parts alg' hex' opts' ih'"
    unfolding key_split [OF assms(1), symmetric] key_split [OF assms(2), symmetric] assms(3) ..
qed

definition demo_options :: build_options where
  "demo_options = \<lparr>bo_Ref = ''debian:13'', bo_CacheDir = ''/c'', bo_MinSizeMiB = 8, bo_Platform = ''linux/arm64'', bo_Inject = []\<rparr>"

theorem disk_key_exact_witness:
  "diskCacheKey (''sha256'' @ '':'' @ ''ab12'') demo_options [] \<noteq> diskCacheKey (''sha256'' @ '':'' @ ''cd34'') demo_options []"
proof
  assume "diskCacheKey (''sha256'' @ '':'' @ ''ab12'') demo_options [] = diskCacheKey (''sha256'' @ '':'' @ ''cd34'') demo_options []"
  moreover have "key_plain ''sha256'' ''ab12'' demo_options []" "key_plain ''sha256'' ''cd34'' demo_options []" by code_simp+
  ultimately have "''ab12'' = (''cd34'' :: gostring)" using disk_key_exact by blast
  then show False by simp
qed

lemma with_size_same [simp]: "bo_Inject (with_size opts) = bo_Inject opts" "bo_CacheDir (with_size opts) = bo_CacheDir opts"
  by (simp_all add: with_size_def)

text \<open>What is left to do once the image is found and the key is known.\<close>

lemma BuildDisk_run:
  assumes "bo_Ref opts \<noteq> []" "bo_CacheDir opts \<noteq> []" "resolve_image reg (with_size opts) = Inr (digest, opened, remote)"
    and "hashInject sha256hex (disk_read d) (bo_Inject opts) = Inr ih"
    and "dir = Join [bo_CacheDir opts, diskCacheKey digest (with_size opts) ih]"
  shows "BuildDisk reg sha256hex io opts d =
    (if disk_read d (Join [dir, ''done'']) \<noteq> ReadAbsent \<and> disk_read d (Join [dir, ''disk.ext4'']) \<noteq> ReadAbsent
       then (d, Inr \<lparr>br_DiskPath = Join [dir, ''disk.ext4''], br_Digest = digest\<rparr>)
     else if \<not> do_Mkdir io then (d, Inl CacheDirFailed)
     else case opened of Inl err \<Rightarrow> (d, Inl err)
     | Inr img \<Rightarrow> (case pi_Env img of None \<Rightarrow> (d, Inl ConfigFailed)
       | Some env \<Rightarrow>
           if remote \<and> \<not> do_Download io then (d, Inl DownloadFailed)
           else case writeDisk io (pi_Layers img) (Join [dir, ''disk.ext4'']) (size_bytes (bo_MinSizeMiB (with_size opts))) (bo_Inject opts) (imageEnvFiles env) d of
             (d', Some err) \<Rightarrow> (d', Inl err)
           | (d', None) \<Rightarrow> if \<not> do_Mark io then (d', Inl MarkerFailed)
               else (disk_put (Join [dir, ''done'']) digest d', Inr \<lparr>br_DiskPath = Join [dir, ''disk.ext4''], br_Digest = digest\<rparr>)))"
  using assms by (simp add: BuildDisk_def Let_def cong del: sum.case_cong_weak option.case_cong_weak if_weak_cong)

lemma image_key_alt: "image_key reg sha256hex readFile opts =
  (case resolve_image reg (with_size opts) of Inl err \<Rightarrow> Inl err
   | Inr (digest, opened, remote) \<Rightarrow>
       (case hashInject sha256hex readFile (bo_Inject opts) of Inl err \<Rightarrow> Inl err | Inr ih \<Rightarrow> Inr (diskCacheKey digest (with_size opts) ih)))"
  by (auto simp: image_key_def Let_def split: sum.split)

lemma BuildDisk_early:
  assumes "bo_Ref opts = [] \<or> bo_CacheDir opts = [] \<or> image_key reg sha256hex (disk_read d) opts = Inl e"
  shows "\<exists>err. BuildDisk reg sha256hex io opts d = (d, Inl err)"
proof (cases "resolve_image reg (with_size opts)")
  case (Inr res)
  then show ?thesis using assms
    by (cases res; cases "hashInject sha256hex (disk_read d) (bo_Inject opts)") (auto simp: BuildDisk_def image_key_alt Let_def)
qed (simp add: BuildDisk_def)



definition init_file :: InjectFile where
  "init_file = \<lparr>in_GuestPath = ''/sbin/clawk-init'', in_HostPath = ''/b/init'', in_Mode = 493\<rparr>"


text \<open>
  The environment an image declares reaches the agent: the file written into the disk, read by the guest, gives each variable the value
  of its last entry, for values without line breaks; in the script for login shells each value is one word the shell reads back.
\<close>

theorem image_env_read_back:
  assumes "list_all (\<lambda>e. CHR 0x0A \<notin> set e) env"
  shows "imageEnv (case imageEnvFiles env of [] \<Rightarrow> ReadAbsent | f # fs \<Rightarrow> ReadOk (ef_data f)) = map_of (rev (env_pairs env)) \<and>
    list_all (\<lambda>(k, v). read_words 1 (single_quoted v) = Some [v]) (env_pairs env)"
proof
  have "\<forall>(k, v) \<in> set (env_pairs env). k \<noteq> [] \<and> CHR ''='' \<notin> set k \<and> CHR 0x0A \<notin> set (k @ ''='' @ v)"
    using assms env_pairs_plain [of _ _ env] by (fastforce simp: list_all_iff)
  from env_lines_read [OF this, of Map.empty]
  have "imageEnv (ReadOk (concat (map (\<lambda>(k, v). k @ ''='' @ v @ nl) (env_pairs env)))) = map_of (rev (env_pairs env))"
    by (simp only: imageEnv_def read_result.case empty_map_add)
  then show "imageEnv (case imageEnvFiles env of [] \<Rightarrow> ReadAbsent | f # fs \<Rightarrow> ReadOk (ef_data f)) = map_of (rev (env_pairs env))"
    by (cases env) (simp_all add: imageEnvFiles_def env_pairs_def imageEnv_def)
  have "read_words 1 (single_quoted v) = Some [v]" for v
    using read_quoted_words [of "[v]" 1] by (simp add: quoteAll_def single_quoted_def)
  then show "list_all (\<lambda>(k, v). read_words 1 (single_quoted v) = Some [v]) (env_pairs env)" by (simp add: list_all_iff)
qed

theorem image_env_read_back_witness:
  "imageEnv (case imageEnvFiles [''PATH=/a'', ''junk'', ''PATH=/b:/c''] of [] \<Rightarrow> ReadAbsent | f # fs \<Rightarrow> ReadOk (ef_data f)) ''PATH'' = Some ''/b:/c''"
proof -
  have "list_all (\<lambda>e. CHR 0x0A \<notin> set e) [''PATH=/a'', ''junk'', ''PATH=/b:/c'']" by code_simp
  note read = conjunct1 [OF image_env_read_back [OF this]]
  show ?thesis unfolding read by code_simp
qed

section \<open>Edges\<close>

text \<open>
  The bytes that are hashed for the injected files do not separate the files: a file whose content has a zero byte stands for
  two files, so two different lists of files share a key.
\<close>

lemma inject_bytes_ambiguous:
  "inject_bytes (\<lambda>p. if p = ''h1'' then ReadOk ''x'' else ReadOk ''y'')
     [\<lparr>in_GuestPath = ''/a'', in_HostPath = ''h1'', in_Mode = 4\<rparr>, \<lparr>in_GuestPath = ''/b'', in_HostPath = ''h2'', in_Mode = 4\<rparr>] =
   inject_bytes (\<lambda>p. ReadOk (''x'' @ [nul] @ ''/b'' @ [nul] @ ''4'' @ [nul] @ ''y''))
     [\<lparr>in_GuestPath = ''/a'', in_HostPath = ''h1'', in_Mode = 4\<rparr>]"
  by (simp add: oct_digits.simps) code_simp

text \<open>A value with a line break becomes a variable of its own.\<close>

lemma image_env_line_break:
  "imageEnv (case imageEnvFiles [''NOTE=a'' @ [line_feed] @ ''PATH=/x''] of [] \<Rightarrow> ReadAbsent | f # fs \<Rightarrow> ReadOk (ef_data f)) ''PATH'' = Some ''/x''"
  by code_simp

end
