(* ===== verification/NetCommands.thy ===== *)
theory NetCommands
  imports Compose
begin

text \<open>
  The commands that edit the network policy of a sandbox (\<open>src/internal/cli/network.go\<close>): allow, block and remove with
  their variants for addresses. They load the record, edit the layer of the command line and save. The push into a running
  daemon never fails a command and is left out, as are messages.
\<close>

section \<open>Definitions\<close>

subsection \<open>Entries\<close>

record allowEntry =
  ae_value :: gostring
  ae_isIP :: bool

datatype entry_error = EmptyEntry | SchemeEntry gostring | NotCIDR gostring | PortEntry gostring gostring | NotIPv6 gostring | NotIP gostring

definition digits_and_dots :: "gostring \<Rightarrow> bool" where
  "digits_and_dots s \<longleftrightarrow> list_all (\<lambda>c. c \<in> set ''0123456789.'') s"

definition classifyAllowEntry :: "gostring \<Rightarrow> entry_error + allowEntry" where
  "classifyAllowEntry arg =
     (let s = trim_space arg in
      if s = [] then Inl EmptyEntry
      else if contains_text s ''://'' then Inl (SchemeEntry s)
      else if CHR ''/'' \<in> set s then
        (if ParsePrefix s = None then Inl (NotCIDR s) else Inr \<lparr>ae_value = s, ae_isIP = True\<rparr>)
      else if ParseAddr s \<noteq> None then Inr \<lparr>ae_value = s, ae_isIP = True\<rparr>
      else case SplitHostPort s of
        Some (host, _) \<Rightarrow> Inl (PortEntry s host)
      | None \<Rightarrow>
          if CHR '':'' \<in> set s then Inl (NotIPv6 s)
          else if digits_and_dots s then Inl (NotIP s)
          else Inr \<lparr>ae_value = trim_suffix s ''.'', ae_isIP = False\<rparr>)"

fun classify_all :: "gostring list \<Rightarrow> entry_error + allowEntry list" where
  "classify_all [] = Inr []"
| "classify_all (a # as) =
     (case classifyAllowEntry a of
        Inl err \<Rightarrow> Inl err
      | Inr e \<Rightarrow> (case classify_all as of Inl err \<Rightarrow> Inl err | Inr es \<Rightarrow> Inr (e # es)))"

subsection \<open>Edits of the layer\<close>

definition allow_entry :: "allowEntry \<Rightarrow> NetworkBlock \<Rightarrow> NetworkBlock" where
  "allow_entry e b =
     (if ae_isIP e \<and> ae_value e \<notin> set (nb_AllowIPs b) then
        b\<lparr>nb_AllowIPs := nb_AllowIPs b @ [ae_value e],
          nb_AllowDomains := (if ae_value e \<in> set (nb_AllowDomains b) then removeAll (ae_value e) (nb_AllowDomains b) else nb_AllowDomains b)\<rparr>
      else if \<not> ae_isIP e \<and> ae_value e \<notin> set (nb_AllowDomains b) then
        b\<lparr>nb_AllowDomains := nb_AllowDomains b @ [ae_value e]\<rparr>
      else b)"

definition remove_set :: "gostring list \<Rightarrow> gostring list" where
  "remove_set args = concat (map (\<lambda>a. [trim_space a, trim_suffix (trim_space a) ''.'']) args)"

definition drop_entries :: "gostring list \<Rightarrow> gostring list \<Rightarrow> gostring list" where
  "drop_entries remove list = filter (\<lambda>e. e \<notin> set remove) list"

definition remove_entries :: "gostring list \<Rightarrow> NetworkBlock \<Rightarrow> NetworkBlock" where
  "remove_entries remove b =
     b\<lparr>nb_AllowDomains := drop_entries remove (nb_AllowDomains b), nb_AllowIPs := drop_entries remove (nb_AllowIPs b),
       nb_DenyDomains := drop_entries remove (nb_DenyDomains b), nb_DenyIPs := drop_entries remove (nb_DenyIPs b)\<rparr>"

definition allow_ip :: "gostring \<Rightarrow> NetworkBlock \<Rightarrow> NetworkBlock" where
  "allow_ip e b = (if e \<notin> set (nb_AllowIPs b) then b\<lparr>nb_AllowIPs := nb_AllowIPs b @ [e]\<rparr> else b)"

definition block_domain :: "gostring \<Rightarrow> NetworkBlock \<Rightarrow> NetworkBlock" where
  "block_domain arg b =
     (let d = trim_suffix (trim_space arg) ''.'' in
      if d \<noteq> [] \<and> d \<notin> set (nb_DenyDomains b) then b\<lparr>nb_DenyDomains := nb_DenyDomains b @ [d]\<rparr> else b)"

subsection \<open>Commands\<close>

datatype net_error = StoreErr compose_error | EntryErr entry_error | NotAddress gostring

definition edit_custom :: "(NetworkBlock \<Rightarrow> NetworkBlock) \<Rightarrow> SandboxConfig \<Rightarrow> SandboxConfig" where
  "edit_custom f sb = sb\<lparr>sb_Network := (sb_Network sb)\<lparr>np_Blocks := edit_layer BlockOriginCustom f (np_Blocks (sb_Network sb))\<rparr>\<rparr>"

definition save_edit :: "(NetworkBlock \<Rightarrow> NetworkBlock) \<Rightarrow> SandboxConfig \<Rightarrow> cstore \<Rightarrow> net_error + cstore" where
  "save_edit f sb st = map_sum StoreErr id (SaveConfig (edit_custom f sb) st)"

definition networkAllow :: "gostring \<Rightarrow> gostring list \<Rightarrow> cstore \<Rightarrow> net_error + cstore" where
  "networkAllow name args st =
     (case LoadConfig st name of
        Inl err \<Rightarrow> Inl (StoreErr err)
      | Inr sb \<Rightarrow>
          (case classify_all args of
             Inl err \<Rightarrow> Inl (EntryErr err)
           | Inr entries \<Rightarrow> save_edit (fold allow_entry entries) sb st))"

definition networkRemove :: "gostring \<Rightarrow> gostring list \<Rightarrow> cstore \<Rightarrow> net_error + cstore" where
  "networkRemove name args st =
     (case LoadConfig st name of
        Inl err \<Rightarrow> Inl (StoreErr err)
      | Inr sb \<Rightarrow> save_edit (remove_entries (remove_set args)) sb st)"

fun check_addresses :: "gostring list \<Rightarrow> net_error option" where
  "check_addresses [] = None"
| "check_addresses (e # es) =
     (case classifyAllowEntry e of
        Inl err \<Rightarrow> Some (EntryErr err)
      | Inr entry \<Rightarrow> if \<not> ae_isIP entry then Some (NotAddress e) else check_addresses es)"

definition networkAllowIP :: "gostring \<Rightarrow> gostring list \<Rightarrow> cstore \<Rightarrow> net_error + cstore" where
  "networkAllowIP name args st =
     (case LoadConfig st name of
        Inl err \<Rightarrow> Inl (StoreErr err)
      | Inr sb \<Rightarrow> (case check_addresses args of Some err \<Rightarrow> Inl err | None \<Rightarrow> save_edit (fold allow_ip args) sb st))"

definition networkRemoveIP :: "gostring \<Rightarrow> gostring list \<Rightarrow> cstore \<Rightarrow> net_error + cstore" where
  "networkRemoveIP name args st =
     (case LoadConfig st name of
        Inl err \<Rightarrow> Inl (StoreErr err)
      | Inr sb \<Rightarrow> save_edit (\<lambda>b. b\<lparr>nb_AllowIPs := drop_entries args (nb_AllowIPs b)\<rparr>) sb st)"

definition networkBlock :: "gostring \<Rightarrow> gostring list \<Rightarrow> cstore \<Rightarrow> net_error + cstore" where
  "networkBlock name args st =
     (case LoadConfig st name of
        Inl err \<Rightarrow> Inl (StoreErr err)
      | Inr sb \<Rightarrow> save_edit (fold block_domain args) sb st)"

section \<open>What the edits keep\<close>

definition layer_compiles :: "NetworkBlock \<Rightarrow> bool" where
  "layer_compiles b \<longleftrightarrow> block_ok (stored_layer b)"

lemma layer_compiles_iff: "layer_compiles b \<longleftrightarrow> list_all ip_entry_ok (nb_AllowIPs b) \<and> list_all ip_entry_ok (nb_DenyIPs b)"
  by (simp add: layer_compiles_def block_ok_def stored_layer_def)

lemma classified_address: "classifyAllowEntry a = Inr e \<Longrightarrow> ae_isIP e \<Longrightarrow> ae_value e = trim_space a \<and> ip_entry_ok a \<and> ip_entry_ok (ae_value e)"
  by (auto simp: classifyAllowEntry_def Let_def ip_entry_ok_def ip_text_ok_def split: if_splits option.splits)

lemma classify_all_member: "classify_all as = Inr es \<Longrightarrow> e \<in> set es \<Longrightarrow> \<exists>a \<in> set as. classifyAllowEntry a = Inr e"
  by (induction as arbitrary: es) (auto split: sum.splits)

lemma classify_all_complete: "classify_all as = Inr es \<Longrightarrow> a \<in> set as \<Longrightarrow> \<exists>e \<in> set es. classifyAllowEntry a = Inr e"
  by (induction as arbitrary: es) (auto split: sum.splits)

lemma check_addresses_ok: "check_addresses as = None \<Longrightarrow> a \<in> set as \<Longrightarrow> ip_entry_ok a"
  by (induction as) (auto split: sum.splits if_splits dest: classified_address)

text \<open>An edit keeps the origin of the layer, its entries valid, and each list of entries free of repetitions.\<close>

definition good_layer :: "NetworkBlock \<Rightarrow> bool" where
  "good_layer b \<longleftrightarrow> layer_compiles b \<and> distinct (nb_AllowIPs b) \<and> distinct (nb_AllowDomains b) \<and> distinct (nb_DenyDomains b)"

definition good_edit :: "(NetworkBlock \<Rightarrow> NetworkBlock) \<Rightarrow> bool" where
  "good_edit f \<longleftrightarrow> (\<forall>b. nb_Origin (f b) = nb_Origin b \<and> (good_layer b \<longrightarrow> good_layer (f b)))"

lemma good_editD: "good_edit f \<Longrightarrow> nb_Origin (f b) = nb_Origin b" "good_edit f \<Longrightarrow> good_layer b \<Longrightarrow> good_layer (f b)"
  by (simp_all add: good_edit_def)

lemma good_fold: "\<forall>x \<in> set xs. good_edit (g x) \<Longrightarrow> good_edit (fold g xs)"
  by (induction xs) (auto simp: good_edit_def)

lemma allow_entry_good: "ae_isIP e \<longrightarrow> ip_entry_ok (ae_value e) \<Longrightarrow> good_edit (allow_entry e)"
  by (auto simp: good_edit_def good_layer_def layer_compiles_iff allow_entry_def distinct_removeAll)

lemma remove_entries_good: "good_edit (remove_entries rs)"
  by (auto simp: good_edit_def good_layer_def layer_compiles_iff remove_entries_def drop_entries_def list_all_iff)

lemma allow_ip_good: "ip_entry_ok a \<Longrightarrow> good_edit (allow_ip a)"
  by (auto simp: good_edit_def good_layer_def layer_compiles_iff allow_ip_def)

lemma remove_ip_good: "good_edit (\<lambda>b. b\<lparr>nb_AllowIPs := drop_entries args (nb_AllowIPs b)\<rparr>)"
  by (auto simp: good_edit_def good_layer_def layer_compiles_iff drop_entries_def list_all_iff)

lemma block_domain_good: "good_edit (block_domain a)"
  by (auto simp: good_edit_def good_layer_def layer_compiles_iff block_domain_def Let_def)

text \<open>Every command is such an edit of the record it loads.\<close>

inductive net_command :: "gostring \<Rightarrow> cstore \<Rightarrow> cstore \<Rightarrow> bool" where
  allow: "networkAllow name args st = Inr st' \<Longrightarrow> net_command name st st'"
| remove: "networkRemove name args st = Inr st' \<Longrightarrow> net_command name st st'"
| allow_address: "networkAllowIP name args st = Inr st' \<Longrightarrow> net_command name st st'"
| remove_address: "networkRemoveIP name args st = Inr st' \<Longrightarrow> net_command name st st'"
| block: "networkBlock name args st = Inr st' \<Longrightarrow> net_command name st st'"

lemma save_edit_Inr: "save_edit f sb st = Inr st' \<longleftrightarrow> SaveConfig (edit_custom f sb) st = Inr st'"
  by (cases "SaveConfig (edit_custom f sb) st") (simp_all add: save_edit_def)

lemma command_edits:
  assumes "net_command name st st'"
  shows "\<exists>sb f. LoadConfig st name = Inr sb \<and> good_edit f \<and> SaveConfig (edit_custom f sb) st = Inr st'"
  using assms
proof cases
  case (allow args)
  then obtain sb es where load: "LoadConfig st name = Inr sb" "classify_all args = Inr es" "SaveConfig (edit_custom (fold allow_entry es) sb) st = Inr st'"
    by (auto simp: networkAllow_def save_edit_Inr split: sum.splits)
  have "good_edit (fold allow_entry es)"
    using classify_all_member [OF load(2)] by (intro good_fold) (blast intro: allow_entry_good dest: classified_address)
  with load show ?thesis by blast
next
  case (remove args)
  then show ?thesis using remove_entries_good by (auto simp: networkRemove_def save_edit_Inr split: sum.splits)
next
  case (allow_address args)
  then obtain sb where load: "LoadConfig st name = Inr sb" "check_addresses args = None" "SaveConfig (edit_custom (fold allow_ip args) sb) st = Inr st'"
    by (auto simp: networkAllowIP_def save_edit_Inr split: sum.splits option.splits)
  have "good_edit (fold allow_ip args)"
    using check_addresses_ok [OF load(2)] by (intro good_fold) (blast intro: allow_ip_good)
  with load show ?thesis by blast
next
  case (remove_address args)
  then show ?thesis using remove_ip_good by (auto simp: networkRemoveIP_def save_edit_Inr split: sum.splits)
next
  case (block args)
  have "good_edit (fold block_domain args)" by (intro good_fold) (blast intro: block_domain_good)
  with block show ?thesis by (auto simp: networkBlock_def save_edit_Inr split: sum.splits)
qed

section \<open>Layers\<close>

abbreviation layers :: "SandboxConfig \<Rightarrow> NetworkBlock list" where
  "layers sb \<equiv> np_Blocks (sb_Network sb)"

abbreviation others :: "SandboxConfig \<Rightarrow> NetworkBlock list" where
  "others sb \<equiv> filter (\<lambda>b. nb_Origin b \<noteq> BlockOriginCustom) (layers sb)"

lemma layers_edit [simp]: "layers (edit_custom f sb) = edit_layer BlockOriginCustom f (layers sb)"
  by (simp add: edit_custom_def)

lemma edit_others: "good_edit f \<Longrightarrow> others (edit_custom f sb) = others sb"
proof -
  assume f: "good_edit f"
  have "filter (\<lambda>b. nb_Origin b \<noteq> BlockOriginCustom) (edit_layer BlockOriginCustom f bs) = filter (\<lambda>b. nb_Origin b \<noteq> BlockOriginCustom) bs" for bs
    by (induction bs) (simp_all add: good_editD(1) [OF f] empty_block_def)
  then show ?thesis by simp
qed

lemma empty_layer_good: "good_layer (empty_block orig)"
  by (simp add: good_layer_def layer_compiles_iff empty_block_def)

lemma edit_good: "good_edit f \<Longrightarrow> list_all good_layer bs \<Longrightarrow> list_all good_layer (edit_layer orig f bs)"
  by (induction bs) (simp_all add: good_editD(2) empty_layer_good)

lemma edit_order:
  "good_edit f \<Longrightarrow> sorted (map rank_of bs) \<Longrightarrow> sorted (map rank_of (edit_layer BlockOriginCustom f bs)) \<and>
     set (map rank_of (edit_layer BlockOriginCustom f bs)) \<subseteq> insert 4 (set (map rank_of bs))"
proof (induction bs)
  case Nil
  then show ?case by (simp add: rank_of_def good_editD(1) empty_block_def rank_custom(2))
next
  case (Cons b bs)
  have "rank_of b \<le> 4" by (simp add: rank_of_def rank_custom(1))
  with Cons show ?case by (auto simp: rank_of_def good_editD(1))
qed

lemma edit_origins:
  "good_edit f \<Longrightarrow> distinct (map nb_Origin bs) \<Longrightarrow> distinct (map nb_Origin (edit_layer orig f bs)) \<and>
     set (map nb_Origin (edit_layer orig f bs)) \<subseteq> insert orig (set (map nb_Origin bs))"
  by (induction bs) (auto simp: good_editD(1) empty_block_def)

text \<open>The layer of the command line is the highest one.\<close>

lemma edited_on_top:
  "sorted (map rank_of bs) \<Longrightarrow> distinct (map nb_Origin bs) \<Longrightarrow>
     \<exists>lo c. edit_layer BlockOriginCustom f bs = lo @ [f c] \<and> nb_Origin c = BlockOriginCustom \<and> (bs = lo @ [c] \<or> bs = lo \<and> c = empty_block BlockOriginCustom)"
proof (induction bs)
  case Nil
  then show ?case by (simp add: empty_block_def)
next
  case (Cons b bs)
  show ?case
  proof (cases "nb_Origin b = BlockOriginCustom")
    case True
    have "bs = []"
    proof (rule ccontr)
      assume "bs \<noteq> []"
      then obtain x where x: "x \<in> set bs" by (cases bs) auto
      have "rank_of b = 4" using True by (simp add: rank_of_def rank_custom(2))
      with x Cons.prems(1) have "rank_of x = 4" using rank_custom(1) [of "nb_Origin x"] by (force simp: rank_of_def)
      then have "nb_Origin x = nb_Origin b" using True by (simp add: rank_of_def rank_custom(2))
      moreover have "nb_Origin b \<notin> nb_Origin ` set bs" using Cons.prems(2) by simp
      ultimately show False using x by (metis imageI)
    qed
    with True show ?thesis by auto
  next
    case False
    with Cons obtain lo c where "edit_layer BlockOriginCustom f bs = lo @ [f c]" "nb_Origin c = BlockOriginCustom"
      "bs = lo @ [c] \<or> bs = lo \<and> c = empty_block BlockOriginCustom" by auto
    with False show ?thesis by (intro exI [of _ "b # lo"] exI [of _ c]) auto
  qed
qed

section \<open>Sequences of commands\<close>

definition record_good :: "gostring \<Rightarrow> SandboxConfig \<Rightarrow> bool" where
  "record_good name sb \<longleftrightarrow> sx_Name sb = name \<and> list_all good_layer (layers sb) \<and> sorted (map rank_of (layers sb)) \<and> distinct (map nb_Origin (layers sb))"

definition store_good :: "cstore \<Rightarrow> bool" where
  "store_good st \<longleftrightarrow> (\<forall>name sb. LoadConfig st name = Inr sb \<longrightarrow> record_good name sb)"

definition net_step :: "cstore \<Rightarrow> cstore \<Rightarrow> bool" where
  "net_step st st' \<longleftrightarrow> (\<exists>name. net_command name st st')"

definition net_inv :: "cstore \<Rightarrow> cstore \<Rightarrow> bool" where
  "net_inv st0 st \<longleftrightarrow> (\<forall>name sb. LoadConfig st name = Inr sb \<longrightarrow>
     record_good name sb \<and> (\<exists>sb0. LoadConfig st0 name = Inr sb0 \<and> others sb = others sb0 \<and> sb\<lparr>sb_Network := sb_Network sb0\<rparr> = sb0))"

lemma edit_record_good: "good_edit f \<Longrightarrow> record_good name sb \<Longrightarrow> record_good name (edit_custom f sb)"
  using edit_good [of f "layers sb" BlockOriginCustom] edit_order [of f "layers sb"] edit_origins [of f "layers sb" BlockOriginCustom]
  by (simp add: record_good_def) (simp add: edit_custom_def)

lemma Load_saved_config: "SaveConfig sb st = Inr st' \<Longrightarrow> LoadConfig st' name = (if name = sx_Name sb then Inr sb else LoadConfig st name)"
  by (auto simp: SaveConfig_def LoadConfig_def update_conv' split: if_splits)

lemma net_step_inv: "net_inv st0 st \<Longrightarrow> net_step st st' \<Longrightarrow> net_inv st0 st'"
proof -
  assume inv: "net_inv st0 st" and "net_step st st'"
  then obtain name sb f where cmd: "LoadConfig st name = Inr sb" "good_edit f" "SaveConfig (edit_custom f sb) st = Inr st'"
    using command_edits unfolding net_step_def by blast
  from inv cmd(1) obtain sb0 where sb0: "record_good name sb" "LoadConfig st0 name = Inr sb0" "others sb = others sb0" "sb\<lparr>sb_Network := sb_Network sb0\<rparr> = sb0"
    by (auto simp: net_inv_def)
  have key: "sx_Name (edit_custom f sb) = name" using sb0(1) by (simp add: record_good_def edit_custom_def)
  have "record_good name (edit_custom f sb)" "others (edit_custom f sb) = others sb0" "(edit_custom f sb)\<lparr>sb_Network := sb_Network sb0\<rparr> = sb0"
    using edit_record_good [OF cmd(2) sb0(1)] edit_others [OF cmd(2)] sb0(3,4) by (simp_all add: edit_custom_def)
  with inv sb0(2) key show "net_inv st0 st'" unfolding net_inv_def Load_saved_config [OF cmd(3)] by auto
qed

lemma net_start_inv: "store_good st0 \<and> s = st0 \<Longrightarrow> net_inv st0 s"
  by (auto simp: net_inv_def store_good_def)

interpretation commands: inv_system "\<lambda>s. store_good st0 \<and> s = st0" net_step "net_inv st0" for st0
  by unfold_locales (blast intro: net_start_inv net_step_inv)+

section \<open>Effect on the chain\<close>

definition policy_of :: "SandboxConfig \<Rightarrow> Sandbox" where
  "policy_of sb = \<lparr>sb_Namespace = sb_Namespace sb, sb_Network = sb_Network sb\<rparr>"

lemma edited_chain:
  assumes "good_edit f" "record_good name sb" "list_all block_ok (chain_blocks pst (policy_of sb))"
  shows "\<exists>lo c ch. chain_blocks pst (policy_of (edit_custom f sb)) = lo @ [stored_layer (f c)] \<and> NewChain (lo @ [stored_layer (f c)]) = Inr ch \<and>
    fst (resolveChain pst (policy_of (edit_custom f sb))) = ch \<and> (layers sb \<noteq> [] \<and> c = last (layers sb) \<and> nb_Origin c = BlockOriginCustom \<or> c = empty_block BlockOriginCustom)"
proof -
  define own where "own = (case sandbox_namespace pst (policy_of sb) of (ns, _) \<Rightarrow> List.map_filter (use_layer pst) (effectiveUse ns (policy_of sb)) @ namespace_layer ns)"
  have blocks: "chain_blocks pst (policy_of sb) = own @ map stored_layer (layers sb)"
    by (simp add: chain_blocks_def own_def policy_of_def split: prod.split)
  have blocks': "chain_blocks pst (policy_of (edit_custom f sb)) = own @ map stored_layer (edit_layer BlockOriginCustom f (layers sb))"
  proof -
    have "NamespaceName (policy_of (edit_custom f sb)) = NamespaceName (policy_of sb)" by (simp add: NamespaceName_def policy_of_def edit_custom_def)
    then have "sandbox_namespace pst (policy_of (edit_custom f sb)) = sandbox_namespace pst (policy_of sb)" by (simp add: sandbox_namespace_def split: sum.split)
    moreover have "effectiveUse ns (policy_of (edit_custom f sb)) = effectiveUse ns (policy_of sb)" for ns
      by (simp add: effectiveUse_def policy_of_def edit_custom_def)
    moreover have "np_Blocks (sb_Network (policy_of (edit_custom f sb))) = edit_layer BlockOriginCustom f (layers sb)"
      by (simp add: policy_of_def edit_custom_def)
    ultimately show ?thesis unfolding chain_blocks_def own_def by (simp split: prod.split)
  qed
  from assms(2) edited_on_top [of "layers sb" f] obtain lo c where top: "edit_layer BlockOriginCustom f (layers sb) = lo @ [f c]"
    "nb_Origin c = BlockOriginCustom" "layers sb = lo @ [c] \<or> layers sb = lo \<and> c = empty_block BlockOriginCustom"
    by (auto simp: record_good_def)
  have "good_layer c" using top(3) assms(2) empty_layer_good by (auto simp: record_good_def)
  then have "block_ok (stored_layer (f c))" using good_editD(2) [OF assms(1)] by (simp add: good_layer_def layer_compiles_def)
  then have ok: "list_all block_ok ((own @ map stored_layer lo) @ [stored_layer (f c)])" using assms(3) blocks top(3) by auto
  from NewChain_projr [OF ok] obtain ch where ch: "NewChain ((own @ map stored_layer lo) @ [stored_layer (f c)]) = Inr ch" by blast
  moreover have "chain_blocks pst (policy_of (edit_custom f sb)) = (own @ map stored_layer lo) @ [stored_layer (f c)]"
    using blocks' top(1) by simp
  moreover from this ch have "fst (resolveChain pst (policy_of (edit_custom f sb))) = ch" by (simp add: resolveChain_def)
  ultimately show ?thesis using top(2,3) by (metis last_snoc append_is_Nil_conv list.distinct(1))
qed

lemma blocked_listed:
  assumes "a \<in> set args" "trim_suffix (trim_space a) ''.'' \<noteq> []"
  shows "trim_suffix (trim_space a) ''.'' \<in> set (nb_DenyDomains (fold block_domain args b))"
proof -
  have keep: "set (nb_DenyDomains b) \<subseteq> set (nb_DenyDomains (fold block_domain xs b))" for xs b
    by (induction xs arbitrary: b) (force simp: block_domain_def Let_def split: if_splits)+
  obtain pre post where "args = pre @ a # post" using assms(1) by (meson split_list)
  then have "fold block_domain args b = fold block_domain post (block_domain a (fold block_domain pre b))" by simp
  moreover have "trim_suffix (trim_space a) ''.'' \<in> set (nb_DenyDomains (block_domain a b'))" for b'
    using assms(2) by (simp add: block_domain_def Let_def)
  ultimately show ?thesis using keep by (metis subsetD)
qed

lemma allowed_kept: "set (nb_AllowDomains b) \<subseteq> set (nb_AllowDomains (fold block_domain xs b))" "nb_AllowDomains (fold block_domain xs b) = nb_AllowDomains b"
  by (induction xs arbitrary: b) (simp_all add: block_domain_def Let_def)

section \<open>Properties\<close>


text \<open>
  C22: A blocked domain is refused with all its subdomains by the chain the filter runs from then on, whatever the address is and whatever
  the layers below say, unless the command line also allows the name by an entry with more labels.
\<close>

theorem blocked_domain_refused:
  assumes "LoadConfig st name = Inr sb" "record_good name sb" "list_all block_ok (chain_blocks pst (policy_of sb))"
    and "networkBlock name args st = Inr st'" "a \<in> set args"
    and "normalizeDomain (trim_suffix (trim_space a) ''.'') = d" "d \<noteq> []" "\<not> has_prefix d ''*.''"
    and "normalizeDomain host = d \<or> has_suffix (normalizeDomain host) (CHR ''.'' # d)"
    and "\<forall>b \<in> set (layers sb). nb_Origin b = BlockOriginCustom \<longrightarrow> (\<forall>e \<in> set (nb_AllowDomains b).
      entry_matches False (normalizeDomain e) (normalizeDomain host) \<longrightarrow> count_byte (entry_pattern (normalizeDomain e)) (CHR ''.'') \<le> count_byte d (CHR ''.''))"
  shows "\<exists>sb' m. LoadConfig st' name = Inr sb' \<and> DecideAddr (fst (resolveChain pst (policy_of sb'))) host ip = (VerdictDeny, m, True)"
proof -
  let ?f = "fold block_domain args" and ?d = "trim_suffix (trim_space a) ''.''"
  have f: "good_edit ?f" by (intro good_fold) (blast intro: block_domain_good)
  have save: "SaveConfig (edit_custom ?f sb) st = Inr st'" using assms(1,4) by (simp add: networkBlock_def save_edit_Inr)
  have load: "LoadConfig st' name = Inr (edit_custom ?f sb)"
    using Load_saved_config [OF save] assms(2) by (simp add: record_good_def edit_custom_def)
  from edited_chain [OF f assms(2,3)] obtain lo c ch where chain: "NewChain (lo @ [stored_layer (?f c)]) = Inr ch"
    "fst (resolveChain pst (policy_of (edit_custom ?f sb))) = ch"
    "layers sb \<noteq> [] \<and> c = last (layers sb) \<and> nb_Origin c = BlockOriginCustom \<or> c = empty_block BlockOriginCustom" by blast
  have "normalizeDomain [] = []" by code_simp
  then have "?d \<noteq> []" using assms(6,7) by metis
  then have listed: "?d \<in> set (bk_DenyDomains (stored_layer (?f c)))"
    using blocked_listed [OF assms(5)] by (simp add: stored_layer_def)
  have "\<forall>e \<in> set (bk_AllowDomains (stored_layer (?f c))). entry_matches False (normalizeDomain e) (normalizeDomain host) \<longrightarrow>
      count_byte (entry_pattern (normalizeDomain e)) (CHR ''.'') \<le> count_byte (normalizeDomain ?d) (CHR ''.'')"
    using chain(3) assms(6,10) last_in_set [of "layers sb"] by (auto simp: stored_layer_def allowed_kept(2) empty_block_def)
  from deny_in_top_block [OF chain(1) listed _ _ _ this, where ip = ip] assms(6-9) load chain(2) show ?thesis by auto
qed

definition web_policy :: NetworkPolicy where
  "web_policy = \<lparr>np_AllowedDomains = [], np_AllowedIPs = [], np_DeniedDomains = [], np_Use = Some [], np_Blocks = [
     \<lparr>nb_Origin = BlockOriginMod, nb_Name = ''clawk.mod'', nb_AllowDomains = [''*.example.com''], nb_AllowIPs = [], nb_DenyDomains = [], nb_DenyIPs = []\<rparr>]\<rparr>"

definition web_sandbox :: SandboxConfig where
  "web_sandbox = here_sandbox\<lparr>sx_Name := ''web'', sb_Namespace := [], sb_Network := web_policy\<rparr>"

definition web_store :: cstore where
  "web_store = here_store\<lparr>cs_records := [(''web'', Content web_sandbox)]\<rparr>"

lemma web_facts:
  "LoadConfig web_store ''web'' = Inr web_sandbox" "record_good ''web'' web_sandbox" "store_good web_store"
  "list_all block_ok (chain_blocks mcp_store (policy_of web_sandbox))"
proof -
  show load: "LoadConfig web_store ''web'' = Inr web_sandbox" by (simp add: LoadConfig_def web_store_def)
  have "list_all good_layer (np_Blocks web_policy)" "sorted (map rank_of (np_Blocks web_policy))" "distinct (map nb_Origin (np_Blocks web_policy))" by code_simp+
  then show good: "record_good ''web'' web_sandbox" by (simp add: record_good_def web_sandbox_def)
  show "store_good web_store"
    using good by (auto simp: store_good_def LoadConfig_def web_store_def split: option.splits file_state.splits if_splits)
  have "list_all block_ok (chain_blocks mcp_store \<lparr>sb_Namespace = [], sb_Network = web_policy\<rparr>)" by code_simp
  then show "list_all block_ok (chain_blocks mcp_store (policy_of web_sandbox))" by (simp add: policy_of_def web_sandbox_def)
qed

lemma web_blocked: "\<exists>st'. networkBlock ''web'' ['' ads.Example.com.''] web_store = Inr st'"
  by (simp add: networkBlock_def web_facts(1) save_edit_def SaveConfig_def) (simp add: web_store_def here_store_def)


theorem blocked_domain_refused_witness:
  "\<exists>st' sb' m. networkBlock ''web'' ['' ads.Example.com.''] web_store = Inr st' \<and> LoadConfig st' ''web'' = Inr sb' \<and>
     DecideAddr (fst (resolveChain mcp_store (policy_of sb'))) ''eu.ads.example.com'' (IP4 7) = (VerdictDeny, m, True)"
proof -
  obtain st where st: "networkBlock ''web'' ['' ads.Example.com.''] web_store = Inr st" using web_blocked by blast
  have "\<forall>b \<in> set (layers web_sandbox). nb_Origin b \<noteq> BlockOriginCustom"
    by (simp add: web_sandbox_def web_policy_def BlockOriginMod_def BlockOriginCustom_def)
  moreover have "normalizeDomain (trim_suffix (trim_space '' ads.Example.com.'') ''.'') = ''ads.example.com''" "''ads.example.com'' \<noteq> ([] :: gostring)"
    "\<not> has_prefix ''ads.example.com'' ''*.''" "has_suffix (normalizeDomain ''eu.ads.example.com'') (CHR ''.'' # ''ads.example.com'')" by code_simp+
  ultimately show ?thesis
    using blocked_domain_refused [OF web_facts(1,2,4) st, where a = "'' ads.Example.com.''" and host = "''eu.ads.example.com''" and ip = "IP4 7"] st by auto
qed

text \<open>
  An allowed domain is reachable from then on, with the subdomains a wildcard covers, unless the command line itself denies it or
  denies addresses.
\<close>

theorem allowed_domain_reachable:
  assumes "LoadConfig st name = Inr sb" "record_good name sb" "list_all block_ok (chain_blocks pst (policy_of sb))"
    and "networkAllow name [a] st = Inr st'" "classifyAllowEntry a = Inr \<lparr>ae_value = v, ae_isIP = False\<rparr>"
    and "entry_matches False (normalizeDomain v) (normalizeDomain host)" "normalizeDomain host \<noteq> []"
    and "\<forall>b \<in> set (layers sb). nb_Origin b = BlockOriginCustom \<longrightarrow> nb_DenyIPs b = [] \<and>
      (\<forall>e \<in> set (nb_DenyDomains b). \<not> entry_matches True (normalizeDomain e) (normalizeDomain host))"
  shows "\<exists>sb' m k. LoadConfig st' name = Inr sb' \<and> DecideAddr (fst (resolveChain pst (policy_of sb'))) host ip = (VerdictAllow, m, k)"
proof -
  let ?f = "allow_entry \<lparr>ae_value = v, ae_isIP = False\<rparr>"
  have f: "good_edit ?f" by (rule allow_entry_good) simp
  have save: "SaveConfig (edit_custom ?f sb) st = Inr st'"
    using assms(1,4,5) by (simp add: networkAllow_def save_edit_Inr)
  have load: "LoadConfig st' name = Inr (edit_custom ?f sb)"
    using Load_saved_config [OF save] assms(2) by (simp add: record_good_def edit_custom_def)
  from edited_chain [OF f assms(2,3)] obtain lo c ch where chain: "NewChain (lo @ [stored_layer (?f c)]) = Inr ch"
    "fst (resolveChain pst (policy_of (edit_custom ?f sb))) = ch"
    "layers sb \<noteq> [] \<and> c = last (layers sb) \<and> nb_Origin c = BlockOriginCustom \<or> c = empty_block BlockOriginCustom" by blast
  have listed: "v \<in> set (bk_AllowDomains (stored_layer (?f c)))" by (simp add: stored_layer_def allow_entry_def)
  have "\<forall>h \<in> set [stored_layer (?f c)]. bk_DenyIPs h = [] \<and>
      (\<forall>e \<in> set (bk_DenyDomains h). \<not> entry_matches True (normalizeDomain e) (normalizeDomain host))"
    using chain(3) assms(8) last_in_set [of "layers sb"] by (auto simp: stored_layer_def allow_entry_def empty_block_def)
  from allowed_unless_denied_above [OF chain(1) listed assms(6,7) this] load chain(2) show ?thesis by auto
qed

theorem allowed_domain_reachable_witness:
  "\<exists>st' sb' m k. networkAllow ''web'' [''*.golang.org''] web_store = Inr st' \<and> LoadConfig st' ''web'' = Inr sb' \<and>
     DecideAddr (fst (resolveChain mcp_store (policy_of sb'))) ''proxy.golang.org'' (IP4 7) = (VerdictAllow, m, k)"
proof -
  have entry: "classifyAllowEntry ''*.golang.org'' = Inr \<lparr>ae_value = ''*.golang.org'', ae_isIP = False\<rparr>" by code_simp
  obtain st where st: "networkAllow ''web'' [''*.golang.org''] web_store = Inr st"
    by (simp add: networkAllow_def web_facts(1) entry save_edit_def SaveConfig_def) (simp add: web_store_def here_store_def)
  have "\<forall>b \<in> set (layers web_sandbox). nb_Origin b \<noteq> BlockOriginCustom"
    by (simp add: web_sandbox_def web_policy_def BlockOriginMod_def BlockOriginCustom_def)
  moreover have "entry_matches False (normalizeDomain ''*.golang.org'') (normalizeDomain ''proxy.golang.org'')" "normalizeDomain ''proxy.golang.org'' \<noteq> []"
    by code_simp+
  ultimately show ?thesis
    using allowed_domain_reachable [OF web_facts(1,2,4) st entry, where host = "''proxy.golang.org''" and ip = "IP4 7"] st by auto
qed

text \<open>
  Removing an entry removes it from every list of the command line's layer, whichever kind it is and with or without a final dot,
  keeps every other entry in its place, and removing it again changes nothing.
\<close>

definition all_entries :: "NetworkBlock \<Rightarrow> gostring list list" where
  "all_entries b = [nb_AllowDomains b, nb_AllowIPs b, nb_DenyDomains b, nb_DenyIPs b]"

theorem remove_exact:
  "all_entries (remove_entries (remove_set args) b) =
     map (filter (\<lambda>e. e \<notin> set (map trim_space args) \<and> e \<notin> set (map (\<lambda>a. trim_suffix (trim_space a) ''.'') args))) (all_entries b) \<and>
   remove_entries (remove_set args) (remove_entries (remove_set args) b) = remove_entries (remove_set args) b"
  by (auto simp: all_entries_def remove_entries_def drop_entries_def remove_set_def intro!: filter_cong)

section \<open>Edges\<close>

text \<open>
  A domain that is blocked stays reachable through an entry of the command line with more labels, although the help of block says that
  it overrides the allow list.
\<close>

theorem block_does_not_override_allow:
  "\<exists>st1 st2 sb' m k. networkAllow ''web'' [''api.example.org''] web_store = Inr st1 \<and> networkBlock ''web'' [''example.org''] st1 = Inr st2 \<and>
     LoadConfig st2 ''web'' = Inr sb' \<and> DecideAddr (fst (resolveChain mcp_store (policy_of sb'))) ''api.example.org'' (IP4 7) = (VerdictAllow, m, k)"
proof -
  let ?allow = "allow_entry \<lparr>ae_value = ''api.example.org'', ae_isIP = False\<rparr>" and ?block = "block_domain ''example.org''"
  let ?sb1 = "edit_custom ?allow web_sandbox"
  have entry: "classifyAllowEntry ''api.example.org'' = Inr \<lparr>ae_value = ''api.example.org'', ae_isIP = False\<rparr>" by code_simp
  have named: "sx_Name ?sb1 = ''web''" "sx_Name (edit_custom ?block ?sb1) = ''web''" by (simp_all add: edit_custom_def web_sandbox_def)
  obtain st1 where st1: "SaveConfig ?sb1 web_store = Inr st1" "cs_writable st1" by (simp add: SaveConfig_def web_store_def here_store_def)
  then obtain st2 where st2: "SaveConfig (edit_custom ?block ?sb1) st1 = Inr st2" by (simp add: SaveConfig_def)
  have load: "LoadConfig st1 ''web'' = Inr ?sb1" "LoadConfig st2 ''web'' = Inr (edit_custom ?block ?sb1)"
    using Load_saved_config [OF st1(1)] Load_saved_config [OF st2] named by simp_all
  have "networkAllow ''web'' [''api.example.org''] web_store = Inr st1" "networkBlock ''web'' [''example.org''] st1 = Inr st2"
    using st1(1) st2 load(1) by (simp_all add: networkAllow_def networkBlock_def web_facts(1) entry save_edit_Inr)
  moreover have "policy_of (edit_custom ?block ?sb1) = \<lparr>sb_Namespace = [], sb_Network = web_policy\<lparr>np_Blocks :=
      edit_layer BlockOriginCustom ?block (edit_layer BlockOriginCustom ?allow (np_Blocks web_policy))\<rparr>\<rparr>"
    by (simp add: policy_of_def edit_custom_def web_sandbox_def)
  moreover have "fst (DecideAddr (fst (resolveChain mcp_store \<lparr>sb_Namespace = [], sb_Network = web_policy\<lparr>np_Blocks :=
      edit_layer BlockOriginCustom ?block (edit_layer BlockOriginCustom ?allow (np_Blocks web_policy))\<rparr>\<rparr>)) ''api.example.org'' (IP4 7)) = VerdictAllow"
    by code_simp
  ultimately show ?thesis using load(2) by (metis prod.collapse)
qed

text \<open>The variant for addresses stores an argument as it is typed, so that one with a space around it cannot be removed by the general command.\<close>

lemma padded_address_stays:
  "check_addresses ['' 10.0.0.5''] = None \<and>
   nb_AllowIPs (remove_entries (remove_set ['' 10.0.0.5'']) (fold allow_ip ['' 10.0.0.5''] (empty_block ''custom''))) = ['' 10.0.0.5'']"
proof -
  have "check_addresses ['' 10.0.0.5''] = None"
    "nb_AllowIPs (remove_entries (remove_set ['' 10.0.0.5'']) (fold allow_ip ['' 10.0.0.5''] (empty_block ''custom''))) = ['' 10.0.0.5'']" by code_simp+
  then show ?thesis by simp
qed

end
