(* ===== verification/Suspend.thy ===== *)
theory Suspend
  imports Compose
begin

text \<open>
  Suspending a machine to disk and restoring it (\<open>src/internal/cli/daemon.go\<close>, \<open>src/machine/suspendmeta.go\<close>).

  The contents of a disk are a value of any type. A saved state remembers the contents its memory image belongs to, which
  is what the specification speaks of and no code reads. A boot is given by the directory after each of its file operations,
  so that it can be cut off by a crash after any of them. The hypervisor is an input: whether it saves, restores and starts.
\<close>

section \<open>Definitions\<close>

subsection \<open>What a state was saved with\<close>

record SuspendMeta =
  sm_Backend :: gostring
  sm_SpecFingerprint :: gostring
  sm_ClawkVersion :: gostring

record vm_shape =
  vs_VCPU :: nat
  vs_MemoryMiB :: nat
  vs_MemoryMaxMiB :: nat
  vs_Disks :: nat
  vs_Nets :: nat
  vs_Shares :: nat
  vs_Nested :: bool

definition SuspendSpecFingerprint :: "vm_shape \<Rightarrow> gostring" where
  "SuspendSpecFingerprint s =
     ''vcpu='' @ dec_digits (vs_VCPU s) @ '' mem='' @ dec_digits (vs_MemoryMiB s) @ '' memmax='' @ dec_digits (vs_MemoryMaxMiB s) @
     '' disks='' @ dec_digits (vs_Disks s) @ '' nets='' @ dec_digits (vs_Nets s) @ '' shares='' @ dec_digits (vs_Shares s) @
     '' nested='' @ (if vs_Nested s then ''true'' else ''false'')"

definition orUnknown :: "gostring \<Rightarrow> gostring" where
  "orUnknown s = (if s = [] then ''unknown'' else s)"

text \<open>The reason why a state cannot be restored, empty if it should be tried.\<close>

definition IncompatibleWith :: "SuspendMeta \<Rightarrow> SuspendMeta \<Rightarrow> gostring" where
  "IncompatibleWith m want =
     (if sm_Backend want \<noteq> [] \<and> sm_Backend m \<noteq> [] \<and> sm_Backend m \<noteq> sm_Backend want
      then ''written by the '' @ sm_Backend m @ '' backend, this boot uses '' @ sm_Backend want
      else if sm_SpecFingerprint want \<noteq> [] \<and> sm_SpecFingerprint m \<noteq> [] \<and> sm_SpecFingerprint m \<noteq> sm_SpecFingerprint want
      then ''VM shape changed: was ['' @ sm_SpecFingerprint m @ ''], now ['' @ sm_SpecFingerprint want @ ''] (written by clawk '' @
        orUnknown (sm_ClawkVersion m) @ '')''
      else [])"

subsection \<open>The directory of a machine\<close>

record 'd saved =
  su_Disk :: 'd
  su_Meta :: "SuspendMeta option"

record 'd vm_dir =
  vd_Suspend :: "'d saved option"
  vd_Consumed :: "'d saved option"
  vd_Disk :: "'d option"

record boot_io =
  bi_Sweep :: bool
  bi_Remove :: bool
  bi_Rename :: bool
  bi_RemoveConsumed :: bool
  bi_Snapshottable :: bool
  bi_Restore :: bool
  bi_Start :: bool

definition hasSuspendState :: "'d vm_dir \<Rightarrow> bool" where
  "hasSuspendState vd \<longleftrightarrow> vd_Suspend vd \<noteq> None"

definition discard_state :: "boot_io \<Rightarrow> 'd vm_dir \<Rightarrow> 'd vm_dir" where
  "discard_state io vd = (if bi_Remove io then vd\<lparr>vd_Suspend := None\<rparr> else vd)"

text \<open>Whether the boot uses the disk that is there.\<close>

definition suspendBootRootFS :: "boot_io \<Rightarrow> 'd vm_dir \<Rightarrow> 'd vm_dir \<times> bool" where
  "suspendBootRootFS io vd =
     (if \<not> hasSuspendState vd then (vd, False)
      else if vd_Disk vd = None then (discard_state io vd, False)
      else (vd, True))"

subsection \<open>The boot\<close>

datatype 'd boot_event = Quiet | RestoredFrom "'d saved" | ColdStart

type_synonym 'd boot_trace = "('d vm_dir \<times> 'd boot_event) list"

definition cold_start :: "boot_io \<Rightarrow> 'd boot_trace \<Rightarrow> 'd vm_dir \<Rightarrow> 'd boot_trace \<times> bool option" where
  "cold_start io tr vd = (if bi_Start io then (tr @ [(vd, ColdStart)], Some False) else (tr, None))"

definition unrestorable :: "SuspendMeta \<Rightarrow> 'd saved \<Rightarrow> bool" where
  "unrestorable want s \<longleftrightarrow> (case su_Meta s of Some meta \<Rightarrow> IncompatibleWith meta want \<noteq> [] | None \<Rightarrow> False)"

text \<open>The steps of the boot and its result: whether the guest was restored, nothing if the machine did not start.\<close>

definition restoreOrStart :: "boot_io \<Rightarrow> SuspendMeta \<Rightarrow> 'd vm_dir \<Rightarrow> 'd boot_trace \<times> bool option" where
  "restoreOrStart io want vd0 =
     (let vd = (if bi_Sweep io then vd0\<lparr>vd_Consumed := None\<rparr> else vd0) in
      case vd_Suspend vd of
        None \<Rightarrow> cold_start io [(vd, Quiet)] vd
      | Some s \<Rightarrow>
          if unrestorable want s then cold_start io [(vd, Quiet), (discard_state io vd, Quiet)] (discard_state io vd)
          else if bi_Snapshottable io then
            if \<not> (bi_Rename io \<and> vd_Consumed vd = None) then cold_start io [(vd, Quiet)] vd
            else let moved = vd\<lparr>vd_Suspend := None, vd_Consumed := Some s\<rparr>;
                     cleared = (if bi_RemoveConsumed io then moved\<lparr>vd_Consumed := None\<rparr> else moved) in
              if bi_Restore io then ([(vd, Quiet), (moved, Quiet), (moved, RestoredFrom s), (cleared, Quiet)], Some True)
              else cold_start io [(vd, Quiet), (moved, Quiet), (cleared, Quiet)] cleared
          else cold_start io [(vd, Quiet), (discard_state io vd, Quiet)] (discard_state io vd))"

subsection \<open>The record\<close>

definition StopReasonSuspended :: gostring where "StopReasonSuspended = ''suspended''"

text \<open>The fields before, which the revert needs.\<close>

definition markSuspended :: "gostring \<Rightarrow> cstore \<Rightarrow> cstore \<times> (compose_error + gostring \<times> gostring \<times> gostring)" where
  "markSuspended name st =
     (case LoadConfig st name of
        Inl err \<Rightarrow> (st, Inl err)
      | Inr sb \<Rightarrow>
          (case SaveConfig (sb\<lparr>sx_DesiredState := VMStateStopped, sx_VMState := VMStateStopped, sx_StopReason := StopReasonSuspended\<rparr>) st of
             Inl err \<Rightarrow> (st, Inl err)
           | Inr st' \<Rightarrow> (st', Inr (sx_DesiredState sb, sx_VMState sb, sx_StopReason sb))))"

definition revert_suspended :: "gostring \<Rightarrow> gostring \<times> gostring \<times> gostring \<Rightarrow> cstore \<Rightarrow> cstore" where
  "revert_suspended name prev st =
     (case LoadConfig st name of
        Inl err \<Rightarrow> st
      | Inr cur \<Rightarrow>
          (case prev of (desired, vm, reason) \<Rightarrow>
             (case SaveConfig (cur\<lparr>sx_DesiredState := desired, sx_VMState := vm, sx_StopReason := reason\<rparr>) st of
                Inl err \<Rightarrow> st
              | Inr st' \<Rightarrow> st')))"

datatype suspend_error = StillBooting | SuspendUnsupported | SuspendFailed

text \<open>Whether a machine is attached, can suspend, and writes its memory.\<close>

record suspend_io =
  lc_Attached :: bool
  lc_Suspendable :: bool
  lc_Saves :: bool

text \<open>\<open>meanwhile\<close> is what other processes do to the store while the memory is written.\<close>

definition suspend_vm :: "suspend_io \<Rightarrow> gostring \<Rightarrow> (cstore \<Rightarrow> cstore) \<Rightarrow> cstore \<Rightarrow> cstore \<times> suspend_error option" where
  "suspend_vm lc name meanwhile st =
     (if \<not> lc_Attached lc then (st, Some StillBooting)
      else if \<not> lc_Suspendable lc then (st, Some SuspendUnsupported)
      else case markSuspended name st of
        (st1, marked) \<Rightarrow>
          (let st2 = meanwhile st1 in
           if lc_Saves lc then (st2, None)
           else (case marked of Inl err \<Rightarrow> st2 | Inr prev \<Rightarrow> revert_suspended name prev st2, Some SuspendFailed)))"

subsection \<open>Everything that happens to a machine\<close>

record 'd vm_sys =
  sy_Dir :: "'d vm_dir"
  sy_Running :: bool
  sy_Restores :: "('d \<times> 'd option) list"

text \<open>The effect of the steps of a boot up to where it was cut off.\<close>

definition runs_guest :: "'d boot_event \<Rightarrow> bool" where
  "runs_guest e \<longleftrightarrow> e \<noteq> Quiet"

definition boot_effect :: "'d boot_trace \<Rightarrow> 'd vm_dir \<Rightarrow> 'd vm_sys \<Rightarrow> 'd vm_sys" where
  "boot_effect tr vd s =
     \<lparr>sy_Dir = (if tr = [] then vd else fst (last tr)), sy_Running = list_ex (\<lambda>(_, e). runs_guest e) tr,
      sy_Restores = sy_Restores s @ concat (map (\<lambda>(v, e). case e of RestoredFrom m \<Rightarrow> [(su_Disk m, vd_Disk v)] | _ \<Rightarrow> []) tr)\<rparr>"

inductive vm_step :: "(boot_io \<Rightarrow> bool) \<Rightarrow> 'd vm_sys \<Rightarrow> 'd vm_sys \<Rightarrow> bool" for files where
  boot: "\<not> sy_Running s \<Longrightarrow> files io \<Longrightarrow> suspendBootRootFS io (sy_Dir s) = (vd, keep) \<Longrightarrow>
    vd' = (if keep then vd else vd\<lparr>vd_Disk := Some clone\<rparr>) \<Longrightarrow>
    vm_step files s (boot_effect (take n (fst (restoreOrStart io want vd'))) vd' s)"
| guest_writes: "sy_Running s \<Longrightarrow> vm_step files s (s\<lparr>sy_Dir := (sy_Dir s)\<lparr>vd_Disk := Some d\<rparr>\<rparr>)"
| suspends: "sy_Running s \<Longrightarrow> vd_Disk (sy_Dir s) = Some d \<Longrightarrow>
    vm_step files s (s\<lparr>sy_Dir := (sy_Dir s)\<lparr>vd_Suspend := Some \<lparr>su_Disk = d, su_Meta = meta\<rparr>\<rparr>, sy_Running := False\<rparr>)"
| stops: "vm_step files s (s\<lparr>sy_Running := False\<rparr>)"
| down: "\<not> sy_Running s \<Longrightarrow> vm_step files s (s\<lparr>sy_Dir := (sy_Dir s)\<lparr>vd_Suspend := None\<rparr>\<rparr>)"
| disk_lost: "\<not> sy_Running s \<Longrightarrow> vm_step files s (s\<lparr>sy_Dir := (sy_Dir s)\<lparr>vd_Disk := None\<rparr>\<rparr>)"

definition vm_init :: "'d vm_sys \<Rightarrow> bool" where
  "vm_init s \<longleftrightarrow> vd_Suspend (sy_Dir s) = None \<and> \<not> sy_Running s \<and> sy_Restores s = []"

text \<open>The file operations that consume a state succeed.\<close>

definition consumes :: "boot_io \<Rightarrow> bool" where
  "consumes io \<longleftrightarrow> bi_Sweep io \<and> bi_Remove io \<and> bi_Rename io"

section \<open>The invariant\<close>

definition vm_inv :: "'d vm_sys \<Rightarrow> bool" where
  "vm_inv s \<longleftrightarrow> (\<forall>(m, d) \<in> set (sy_Restores s). d = Some m) \<and>
     (case vd_Suspend (sy_Dir s) of None \<Rightarrow> True
      | Some x \<Rightarrow> \<not> sy_Running s \<and> (vd_Disk (sy_Dir s) = None \<or> vd_Disk (sy_Dir s) = Some (su_Disk x)))"

text \<open>Up to any point of a boot the disk is untouched, a restore is of the state that was there, and once the guest runs the state is gone.\<close>

lemma boot_steps:
  assumes "consumes io"
  shows "\<forall>(v, e) \<in> set (take n (fst (restoreOrStart io want vd))). vd_Disk v = vd_Disk vd \<and>
      (vd_Suspend v = None \<or> vd_Suspend v = vd_Suspend vd) \<and> (\<forall>m. e = RestoredFrom m \<longrightarrow> vd_Suspend vd = Some m)"
    and "list_ex (\<lambda>(_, e). runs_guest e) (take n (fst (restoreOrStart io want vd))) \<Longrightarrow>
      vd_Suspend (fst (last (take n (fst (restoreOrStart io want vd))))) = None"
  using assms
  by (auto simp: restoreOrStart_def consumes_def cold_start_def discard_state_def Let_def runs_guest_def take_Cons'
      split: option.splits if_splits)

lemma boot_keeps:
  assumes "vm_inv s" "\<not> sy_Running s" "consumes io" "suspendBootRootFS io (sy_Dir s) = (vd, keep)"
    and "vd' = (if keep then vd else vd\<lparr>vd_Disk := Some clone\<rparr>)"
  shows "vm_inv (boot_effect (take n (fst (restoreOrStart io want vd'))) vd' s)"
proof -
  let ?tr = "take n (fst (restoreOrStart io want vd'))"
  have ready: "case vd_Suspend vd' of None \<Rightarrow> True | Some x \<Rightarrow> vd_Disk vd' = Some (su_Disk x)"
    using assms by (auto simp: vm_inv_def suspendBootRootFS_def hasSuspendState_def discard_state_def consumes_def split: option.splits if_splits)
  note steps = boot_steps(1) [OF assms(3), of n want vd'] and gone = boot_steps(2) [OF assms(3), of n want vd']
  have "d = Some m" if "(m, d) \<in> set (sy_Restores (boot_effect ?tr vd' s))" for m d
    using that assms(1) ready steps by (fastforce simp: boot_effect_def vm_inv_def split: boot_event.splits)
  moreover have "case vd_Suspend (sy_Dir (boot_effect ?tr vd' s)) of None \<Rightarrow> True
    | Some x \<Rightarrow> \<not> sy_Running (boot_effect ?tr vd' s) \<and> vd_Disk (sy_Dir (boot_effect ?tr vd' s)) = Some (su_Disk x)"
  proof (cases "?tr = []")
    case True
    then show ?thesis using ready unfolding boot_effect_def True by (auto split: option.splits)
  next
    case False
    then have "vd_Disk (fst (last ?tr)) = vd_Disk vd' \<and> (vd_Suspend (fst (last ?tr)) = None \<or> vd_Suspend (fst (last ?tr)) = vd_Suspend vd')"
      using steps last_in_set [OF False] by (auto simp: case_prod_unfold)
    then show ?thesis using ready gone False by (auto simp: boot_effect_def split: option.splits)
  qed
  ultimately show ?thesis by (auto simp: vm_inv_def split: option.splits)
qed

lemma step_keeps:
  assumes "vm_step consumes s t" "vm_inv s"
  shows "vm_inv t"
  using assms(1)
proof cases
  case (boot io vd keep vd' clone n want)
  then show ?thesis using boot_keeps [OF assms(2)] by simp
qed (use assms(2) in \<open>auto simp: vm_inv_def split: option.splits\<close>)

interpretation machine: inv_system vm_init "vm_step consumes" vm_inv
proof unfold_locales
  show "vm_init s \<Longrightarrow> vm_inv s" for s by (simp add: vm_init_def vm_inv_def)
qed (rule step_keeps)

section \<open>Fingerprints\<close>

lemma digits_then_blank: "dec_digits a @ CHR '' '' # r = dec_digits b @ CHR '' '' # r' \<longleftrightarrow> a = b \<and> r = r'"
proof
  have head: "takeWhile (\<lambda>c. c \<noteq> CHR '' '') (dec_digits n @ CHR '' '' # q) = dec_digits n" for n q
  proof -
    have "c \<noteq> CHR '' ''" if "c \<in> set (dec_digits n)" for c using dec_digits_char [OF that] by (auto simp: is_digit_def less_eq_char_def)
    then show ?thesis by (simp add: takeWhile_append2)
  qed
  assume eq: "dec_digits a @ CHR '' '' # r = dec_digits b @ CHR '' '' # r'"
  from arg_cong [OF eq, of "takeWhile (\<lambda>c. c \<noteq> CHR '' '')"] have "dec_digits a = dec_digits b" by (simp only: head)
  with eq show "a = b \<and> r = r'" using dec_digits_inj by simp
qed simp

lemma fingerprint_inj: "SuspendSpecFingerprint s = SuspendSpecFingerprint s' \<longleftrightarrow> s = s'"
  by (cases s; cases s') (simp add: SuspendSpecFingerprint_def digits_then_blank)

section \<open>Properties\<close>

text \<open>
  C23: A memory image is only ever restored onto the disk contents it was saved with, whatever the order of boots, writes of the
  guest, suspends, stops and discarded states, and wherever boots were cut off, as long as the file operations that
  consume a state succeed; restores may fail and machines may not start.
\<close>

theorem restore_meets_its_disk:
  assumes "reach vm_init (vm_step consumes) s" "(m, d) \<in> set (sy_Restores s)"
  shows "d = Some m"
  using machine.reach_inv [OF assms(1)] assms(2) by (auto simp: vm_inv_def)

definition good_io :: boot_io where
  "good_io = \<lparr>bi_Sweep = True, bi_Remove = True, bi_Rename = True, bi_RemoveConsumed = True, bi_Snapshottable = True,
     bi_Restore = True, bi_Start = True\<rparr>"

definition no_meta :: SuspendMeta where
  "no_meta = \<lparr>sm_Backend = [], sm_SpecFingerprint = [], sm_ClawkVersion = []\<rparr>"

definition new_vm :: "nat vm_sys" where
  "new_vm = \<lparr>sy_Dir = \<lparr>vd_Suspend = None, vd_Consumed = None, vd_Disk = None\<rparr>, sy_Running = False, sy_Restores = []\<rparr>"

text \<open>A machine that was suspended with the contents 7 on its disk.\<close>

definition suspended_vm :: "nat vm_sys" where
  "suspended_vm = \<lparr>sy_Dir = \<lparr>vd_Suspend = Some \<lparr>su_Disk = 7, su_Meta = None\<rparr>, vd_Consumed = None, vd_Disk = Some 7\<rparr>,
     sy_Running = False, sy_Restores = []\<rparr>"

lemma boot_now:
  assumes "\<not> sy_Running s" "files io" "suspendBootRootFS io (sy_Dir s) = (vd, keep)"
    and "boot_effect (fst (restoreOrStart io want (if keep then vd else vd\<lparr>vd_Disk := Some c\<rparr>))) (if keep then vd else vd\<lparr>vd_Disk := Some c\<rparr>) s = t"
  shows "vm_step files s t"
proof -
  let ?vd = "if keep then vd else vd\<lparr>vd_Disk := Some c\<rparr>"
  let ?tr = "fst (restoreOrStart io want ?vd)"
  have "vm_step files s (boot_effect (take (length ?tr) ?tr) ?vd s)"
    by (rule vm_step.boot [where io = io and vd = vd and keep = keep and clone = c]) (simp_all add: assms(1-3))
  then show ?thesis using assms(4) by simp
qed

lemmas boot_evals = suspendBootRootFS_def hasSuspendState_def restoreOrStart_def cold_start_def boot_effect_def runs_guest_def
  unrestorable_def Let_def

lemma reach_suspended:
  assumes "files good_io"
  shows "reach vm_init (vm_step files) suspended_vm"
proof -
  let ?up = "\<lparr>sy_Dir = \<lparr>vd_Suspend = None, vd_Consumed = None, vd_Disk = Some (1 :: nat)\<rparr>, sy_Running = True, sy_Restores = []\<rparr>"
  have "reach vm_init (vm_step files) new_vm" by (rule reach.intros) (simp add: vm_init_def new_vm_def)
  moreover have "vm_step files new_vm ?up"
    by (rule boot_now [where io = good_io and want = no_meta and c = 1 and keep = False and vd = "sy_Dir new_vm"])
      (simp_all add: assms, simp_all add: new_vm_def good_io_def boot_evals)
  moreover have "vm_step files ?up (?up\<lparr>sy_Dir := (sy_Dir ?up)\<lparr>vd_Disk := Some 7\<rparr>\<rparr>)" by (rule vm_step.guest_writes) simp
  moreover have "vm_step files (?up\<lparr>sy_Dir := (sy_Dir ?up)\<lparr>vd_Disk := Some 7\<rparr>\<rparr>) suspended_vm"
    using vm_step.suspends [of "?up\<lparr>sy_Dir := (sy_Dir ?up)\<lparr>vd_Disk := Some 7\<rparr>\<rparr>" 7 files None] by (simp add: suspended_vm_def)
  ultimately show ?thesis by (meson reach_step)
qed

theorem restore_meets_its_disk_witness:
  "\<exists>s. reach vm_init (vm_step consumes) s \<and> sy_Restores s = [(7 :: nat, Some 7)] \<and> vd_Suspend (sy_Dir s) = None"
proof -
  let ?s = "\<lparr>sy_Dir = \<lparr>vd_Suspend = None, vd_Consumed = None, vd_Disk = Some (7 :: nat)\<rparr>, sy_Running = True, sy_Restores = [(7, Some 7)]\<rparr>"
  have ok: "consumes good_io" by (simp add: consumes_def good_io_def)
  have "vm_step consumes suspended_vm ?s"
    by (rule boot_now [where io = good_io and want = no_meta and keep = True and vd = "sy_Dir suspended_vm"])
      (simp_all add: ok, simp_all add: suspended_vm_def good_io_def boot_evals)
  with reach_suspended [of consumes, OF ok] have r: "reach vm_init (vm_step consumes) ?s" by (rule reach_step)
  with restore_meets_its_disk [OF r, of 7 "Some 7"] show ?thesis by (intro exI [of _ ?s]) simp
qed

text \<open>
  When the rename that consumes a state fails, the machine is booted cold and the state stays: the guest changes its
  disk, and the next boot restores the old memory onto it. The description of the boot promises that this cannot happen.
\<close>

theorem failed_rename_restores_stale:
  "\<exists>s. reach vm_init (vm_step (\<lambda>io. bi_Sweep io \<and> bi_Remove io \<and> bi_RemoveConsumed io)) s \<and> (7 :: nat, Some 8) \<in> set (sy_Restores s)"
proof -
  let ?files = "\<lambda>io. bi_Sweep io \<and> bi_Remove io \<and> bi_RemoveConsumed io"
  let ?bad = "good_io\<lparr>bi_Rename := False\<rparr>"
  let ?old = "\<lparr>su_Disk = 7 :: nat, su_Meta = None\<rparr>"
  let ?cold = "suspended_vm\<lparr>sy_Running := True\<rparr>"
  let ?written = "?cold\<lparr>sy_Dir := (sy_Dir ?cold)\<lparr>vd_Disk := Some 8\<rparr>\<rparr>"
  let ?off = "?written\<lparr>sy_Running := False\<rparr>"
  let ?final = "\<lparr>sy_Dir = \<lparr>vd_Suspend = None, vd_Consumed = None, vd_Disk = Some (8 :: nat)\<rparr>, sy_Running = True, sy_Restores = [(7, Some 8)]\<rparr>"
  have "vm_step ?files suspended_vm ?cold"
    by (rule boot_now [where io = ?bad and want = no_meta and keep = True and vd = "sy_Dir suspended_vm"])
      (simp_all add: suspended_vm_def good_io_def boot_evals)
  moreover have "vm_step ?files ?cold ?written" by (rule vm_step.guest_writes) simp
  moreover have "vm_step ?files ?written ?off" by (rule vm_step.stops)
  moreover have "vm_step ?files ?off ?final"
    by (rule boot_now [where io = good_io and want = no_meta and keep = True and vd = "sy_Dir ?off"])
      (simp_all add: suspended_vm_def good_io_def boot_evals)
  moreover have "reach vm_init (vm_step ?files) suspended_vm" by (rule reach_suspended) (simp add: good_io_def)
  ultimately have "reach vm_init (vm_step ?files) ?final" by (meson reach_step)
  then show ?thesis by (intro exI [of _ ?final]) simp
qed

text \<open>
  A state is refused before it is handed to the hypervisor exactly when it is known to come from another backend or a
  machine of another shape; the fingerprint tells apart any two shapes.
\<close>

theorem refused_iff_other_machine:
  "(IncompatibleWith \<lparr>sm_Backend = b, sm_SpecFingerprint = SuspendSpecFingerprint s, sm_ClawkVersion = v\<rparr>
      \<lparr>sm_Backend = b', sm_SpecFingerprint = SuspendSpecFingerprint s', sm_ClawkVersion = v'\<rparr> = []) \<longleftrightarrow>
   (b = [] \<or> b' = [] \<or> b = b') \<and> s = s'"
  using fingerprint_inj [of s s'] by (auto simp: IncompatibleWith_def) (auto simp: SuspendSpecFingerprint_def)

text \<open>
  A suspend that fails puts the record back: the three fields are those of before, and what others changed in the record
  while the memory was written is kept. One that succeeds leaves the sandbox recorded as stopped by a suspend.
\<close>

theorem suspend_record_exact:
  assumes "LoadConfig st name = Inr sb" "sx_Name sb = name" "cs_writable st" "lc_Attached lc" "lc_Suspendable lc"
    and "\<And>st1 cur. LoadConfig st1 name = Inr cur \<Longrightarrow> sx_Name cur = name \<Longrightarrow> cs_writable st1 \<Longrightarrow>
      LoadConfig (meanwhile st1) name = Inr (edit cur) \<and> sx_Name (edit cur) = name \<and> cs_writable (meanwhile st1)"
  shows "case suspend_vm lc name meanwhile st of (st', r) \<Rightarrow>
    (let marked = edit (sb\<lparr>sx_DesiredState := VMStateStopped, sx_VMState := VMStateStopped, sx_StopReason := StopReasonSuspended\<rparr>) in
     if lc_Saves lc then r = None \<and> LoadConfig st' name = Inr marked
     else r = Some SuspendFailed \<and> LoadConfig st' name =
       Inr (marked\<lparr>sx_DesiredState := sx_DesiredState sb, sx_VMState := sx_VMState sb, sx_StopReason := sx_StopReason sb\<rparr>))"
proof -
  let ?sb = "sb\<lparr>sx_DesiredState := VMStateStopped, sx_VMState := VMStateStopped, sx_StopReason := StopReasonSuspended\<rparr>"
  have saved: "\<exists>st1. SaveConfig x s = Inr st1 \<and> LoadConfig st1 name = Inr x \<and> cs_writable st1" if "cs_writable s" "sx_Name x = name" for x s
    using that by (simp add: SaveConfig_def LoadConfig_def update_conv')
  obtain st1 where st1: "SaveConfig ?sb st = Inr st1" "LoadConfig st1 name = Inr ?sb" "cs_writable st1" using saved [of st ?sb] assms by auto
  let ?cur = "edit ?sb"
  have cur: "LoadConfig (meanwhile st1) name = Inr ?cur" "sx_Name ?cur = name" "cs_writable (meanwhile st1)" using assms(6) [OF st1(2) _ st1(3)] assms(2) by auto
  let ?undone = "?cur\<lparr>sx_DesiredState := sx_DesiredState sb, sx_VMState := sx_VMState sb, sx_StopReason := sx_StopReason sb\<rparr>"
  obtain st2 where st2: "SaveConfig ?undone (meanwhile st1) = Inr st2" "LoadConfig st2 name = Inr ?undone" using saved [of "meanwhile st1" ?undone] cur by auto
  show ?thesis using assms(1,4,5) st1 st2 cur by (simp add: suspend_vm_def markSuspended_def revert_suspended_def Let_def)
qed

definition one_store :: cstore where
  "one_store = here_store\<lparr>cs_records := [(''r'', Content here_sandbox)], cs_writable := True\<rparr>"

theorem suspend_record_exact_witness:
  "LoadConfig (fst (suspend_vm \<lparr>lc_Attached = True, lc_Suspendable = True, lc_Saves = False\<rparr> ''r'' id one_store)) ''r'' = Inr here_sandbox"
proof -
  have load: "LoadConfig one_store ''r'' = Inr here_sandbox" "cs_writable one_store" by (simp_all add: one_store_def LoadConfig_def)
  have name: "sx_Name here_sandbox = ''r''" by code_simp
  from suspend_record_exact [OF load(1) name load(2), of "\<lparr>lc_Attached = True, lc_Suspendable = True, lc_Saves = False\<rparr>" id id]
  show ?thesis by (simp add: Let_def case_prod_unfold)
qed

end
