(* ===== verification/Spec2Isabelle.thy ===== *)
theory Spec2Isabelle
  imports Prelude NetIP Blocks Acl Gate NetPolicy Blocklist Envspec Frames Memory Resources Idle Records
    Lexer ModFile ModParser ModGrammar Paths Workspace PolicyText Claims Forwards Mounts Worktree Compose
    GuestEnv Shares Seeds Layers BlobCache Image NetCommands Suspend
begin

text \<open>
  Verification of clawk, a tool that runs coding agents in virtual machines and controls what they can
  reach.

  The program. A sandbox is a virtual machine with a record in a store on the host
  (\<open>src/internal/config\<close>). Its network goes through a filter on the host
  (\<open>src/internal/netfilter\<close>): a chain of policy blocks decides each connection, an allow list adds
  what it learns from DNS, and an interactive gate holds a connection the policy does not settle until
  a user answers. The chain is resolved from named policies, downloaded blocklists, namespace defaults
  and the blocks on the record (\<open>src/internal/cli/netpolicy.go\<close>, \<open>src/internal/cli/blocklist.go\<close>).
  What a project wants is written in clawk.mod files, which are lexed, parsed and composed with the
  host-wide file into a workspace (\<open>src/internal/template\<close>). From a workspace, or from the directory a
  user is in, the command line makes the record of a sandbox (\<open>src/internal/cli/run.go\<close>, \<open>here.go\<close>): ports,
  serial devices, files, shares and MCP servers of all files and of the namespace, and a git worktree for every
  repository (\<open>src/internal/worktree\<close>).
  The daemon that owns a machine drives its memory balloon (\<open>src/machine/vz\<close>), parks it when it is
  idle and brokers client sessions (\<open>src/internal/cli\<close>), and talks to the guest in framed protocols
  (\<open>src/internal/vsockproto\<close>, \<open>src/internal/serialfwd\<close>, \<open>src/internal/revfwd\<close>). Starting a
  sandbox passes an admission check on host memory; its disk is built from the layers of an image
  (\<open>src/machine/oci\<close>).

  The theories, each with the sources it translates:
  \<^item> Prelude: Go strings as byte strings with the functions of package strings that the sources call,
    UTF-8 runes, decimal numbers, instants and durations, Go maps as association lists; the interfaces
    several components implement, as locales: a map with a size, selection of a best match, a
    transition system with an invariant, a codec.
  \<^item> NetIP: IP addresses and prefixes of package net/netip as far as the filter uses them.
  \<^item> Blocks (blocks.go): compilation of policy blocks, selection inside a block in both rule spaces,
    the walk over the chain. The selection loops refine a set-based specification; the verdict is that of
    the highest block with an opinion; a deny wins ties; compilation fails exactly on malformed entries;
    the order of entries does not matter.
  \<^item> Acl (acl.go): the allow list as a record of its state with one definition per method. An invariant
    over every interleaving of operations bounds the ledger and justifies every learned address; the
    decision of Allow is given as a complete table; refusals are recorded; guests cannot change policy.
  \<^item> Gate (gate.go): holds, subscribers and decisions, with the blocking Decide split at its wait. An
    invariant bounds the holds; decisions are final; every hold is released by its deadline, by shutdown
    and by a bypass.
  \<^item> NetPolicy (netpolicy.go, policy.go, namespace.go, parts of types.go and run.go): composition of
    project files into stored policy, the policy store, the resolution of a sandbox into its chain.
    Stored denies win; losing a layer that only allows is safe, losing one that denies is not.
  \<^item> Blocklist (blocklist.go): hosts files, plain lists and Adblock rules. A denied line of a downloaded
    list is denied by the chain the filter runs.
  \<^item> Envspec (envspec.go): the grammar of environment entries. Printing and parsing are inverse on an
    exactly described set; resolution is given as a table.
  \<^item> Frames (protocol.go, serialfwd.go, revfwd.go): frames and control lines over streams that may end or
    break at any byte; what is written is read back, and what is too large is refused.
  \<^item> Memory (memreport.go, balloon.go, pressure_darwin.go): the guest report, the balloon policy over
    64-bit words and the controller. The target stays in its bounds under every interleaving, reacts to
    each event, and reaches the baseline of an idle guest in a bounded number of reports.
  \<^item> Resources (resources.go, admission.go): merged, validated and completed memory directives; the
    admission check, exact within 62-bit sizes. One start at a time keeps the host from being
    oversubscribed; overlapping starts do not.
  \<^item> Idle (idle.go, idle_watchdog_darwin.go, agent_proxy_darwin.go): the idle tracker, exact on every
    sequence of ordered samples, and the stop attempt against a concurrent accept loop, which never cuts
    off a client; wedge detection.
  \<^item> Records (store.go, migrate.go, parts of types.go): resolution of a key over three disk layouts, the
    record operations, the migration log.
  \<^item> Lexer (lex.go): the tokens of a project file. Positions are exact, and printing the tokens of an
    accepted source and lexing again gives the same tokens.
  \<^item> ModFile (parse.go, resources.go, skills.go, rewrite.go): the records a project file is parsed into,
    their merge, the skill references and their rewriting in the source.
  \<^item> ModParser (parse.go, resources.go): the recursive-descent parser, one definition per grammar function.
    ModGrammar: that it terminates on every input and that what it accepts is well-formed.
  \<^item> Paths: the functions of package path/filepath the sources call, and the walk up the directories.
  \<^item> Workspace (workspace.go, global.go, template.go): discovery and composition of workspaces from project
    files, overlays and the host-wide file, over a record of what the host answers.
  \<^item> PolicyText: the text of policies; the parser reads it back, and what the text denies is denied by the
    chain the filter runs.
  \<^item> Claims: composition of declarations from several sources in which every key may be claimed once, as
    locales: a loop over the sources succeeds exactly when they agree, and keeps the first declaration of each key.
  \<^item> Forwards (forward.go, serial.go, compose_serial.go, parts of run.go, here.go and types.go): port forwards and
    serial devices, their specs and commands. Composition is exact; an invariant over every sequence of commands.
  \<^item> Mounts (compose_files.go, compose_mcp.go, mcp.go, part of namespace.go): files, shares and MCP servers. The
    network layer derived from the servers is exact and makes them reachable through the chain the filter runs.
  \<^item> Worktree (worktree.go): branches and worktrees over an abstract git. The branch chosen is the first one in
    use or free; listed worktrees are kept, those of a repository with the same name are not.
  \<^item> Compose (run.go, here.go, create.go, agent_docs.go, namespace.go): the sandbox record. What is created is
    well-formed and stored, names are bounded and stable, adding phases is idempotent, a sandbox with phases is resumed.
  \<^item> GuestEnv (shares.go, oauth_token.go, agent_session.go, main.go.in, agents.go, part of run.go): the environment of
    an agent, from the record over the scripts in the guest and the handshake to the process. A small reader of the shell
    is the specification of the scripts and of the launch line.
  \<^item> Shares (tags.go, shares.go, oci_sandbox.go, shares.go of the command line, manifest.go, swapdisk.go, image.go): the
    directories shared with a guest, the files placed in it and its manifest. What the guest mounts is what the host
    offers; tags fit the device; the homes of the agents are not hidden.
  \<^item> Seeds (shares.go, oauth_token.go): the files kept for the agents on the host. Seeding keeps what an agent wrote;
    settings are layered; saving a token is all or nothing.
  \<^item> Layers (flatten.go): the merge of image layers in one pass from the top. It refines unpacking the layers over one
    another from the base, deletions and opaque directories included.
  \<^item> BlobCache (cache.go, part of prefetch.go): the cache of layers with its downloads as a step relation. Only
    contents with the digest asked for are served, whatever an earlier version or a crash left.
  \<^item> Image (oci.go): the key of a built disk, the files added to an image and the build, which is all or nothing.
  \<^item> NetCommands (network.go): the commands that edit the policy of a sandbox, as a transition system over the store;
    what a command allows or blocks is allowed or denied by the chain the filter runs.
  \<^item> Suspend (suspendmeta.go, parts of daemon.go): saving a machine to disk and the boot that restores it, cut off at any
    point. Memory is only restored onto the disk it was saved with; a failed suspend puts the record back.

  How the code is represented. Structs are records, enumerations datatypes, errors values of a sum or
  option; strings are lists of bytes; \<open>uint64\<close> sizes, the hold counter and wire integers are words that
  wrap; times are integers of nanoseconds. Methods with a receiver take and return its state. Code that
  runs concurrently (the gate, the balloon controller, the accept loop, starts of sandboxes, dial
  handlers) is a step relation whose steps are the critical sections or atomic operations of the source,
  with invariants over all reachable states. Code outside the repository is a parameter: the DNS
  resolver, the public suffix list, the JSON codec, SHA-256, URL and duration syntax, HTTP responses, git and
  gh, symbolic links, files that cannot be read, processes and clocks.

  Bounds. The hold counter is a 64-bit word, and the freshness of an identifier is stated below its
  wrap-around. The reader loop over frames has fuel, and any fuel above the number of frames written
  gives the result. The lower bound of the balloon target asks for a baseline one reclaim step below
  the top of the 64-bit range, and the admission results for sizes below \<open>2 ^ 62\<close> MiB. The loops of
  the parser run on fuel equal to the number of tokens left, which is proved never to run out. All other
  definitions are total without fuel.

  Not modelled: the rewrite of the retired flat project files (migrate.go); the virtual machine
  backends and their drivers (vz, firecracker, XAPI), the registry client and the ext4 writer, the start-up code
  of the guest and the 9P server, which are system calls and third-party interfaces; the HTTP control socket of the
  daemon; session history; the pumps between sockets; the boot of a machine and what is rolled back when it
  fails; terminal output and command-line parsing.
\<close>

end
